(* ===== verification/Prelude.thy ===== *)
theory Prelude
  imports "HOL-Library.Word" "HOL-Library.Monad_Syntax"
begin

text \<open>
  What every component of the development shares.

  The Nios II processor of the system is a 32-bit little-endian machine
  (HAL type names \<open>alt_u8\<close>, \<open>alt_u16\<close>, \<open>alt_u32\<close>, \<open>alt_u64\<close>).  A device is seen
  through the bus: \<open>trace\<close> is the history of the accesses the program made,
  newest first, and \<open>hw\<close> is what the hardware answers a read with, an
  arbitrary function of the whole history.  Nothing is assumed of \<open>hw\<close> in a
  definition; a theorem that needs a well-behaved device says so.

  An operation of type \<open>'s \<Rightarrow> 's option\<close> returns \<open>None\<close> when the C function
  does not return normally: it polls a register for ever, or it reads or
  writes outside one of its buffers (undefined behaviour in C).
\<close>

unbundle bit_operations_syntax

type_synonym u8 = "8 word"
type_synonym u16 = "16 word"
type_synonym u32 = "32 word"
type_synonym u64 = "64 word"

named_theorems bus_simps "effect of the device accesses on the bus"
named_theorems buf_simps "reads and writes of byte buffers"

subsection \<open>The bus\<close>

datatype ioev =
    Rd8 u32 u8        \<comment> \<open>address and value read\<close>
  | Rd32 u32 u32
  | RdPending u32     \<comment> \<open>the \<open>ipending\<close> register of the processor\<close>
  | Wr8 u32 u8        \<comment> \<open>address and value written\<close>
  | Wr16 u32 u16
  | Wr32 u32 u32
  | Delay u32         \<comment> \<open>a busy wait of that many microseconds\<close>

text \<open>The processor's \<open>status\<close> and \<open>ienable\<close> registers belong to the same record.
  A component that keeps more state extends it, so that the drivers run unchanged
  on the larger record.\<close>

record bus =
  hw :: "ioev list \<Rightarrow> u32 \<Rightarrow> u32"
  ipend :: "ioev list \<Rightarrow> u32"
  trace :: "ioev list"
  cpu_status :: u32
  ienable :: u32

primrec is_wr :: "ioev \<Rightarrow> bool" where
  "is_wr (Rd8 a v) = False"
| "is_wr (Rd32 a v) = False"
| "is_wr (RdPending v) = False"
| "is_wr (Wr8 a v) = True"
| "is_wr (Wr16 a v) = True"
| "is_wr (Wr32 a v) = True"
| "is_wr (Delay n) = False"

definition writes :: "'a bus_scheme \<Rightarrow> ioev list" where
  "writes b = filter is_wr (trace b)"

definition log_ev :: "ioev \<Rightarrow> 'a bus_scheme \<Rightarrow> 'a bus_scheme" where
  "log_ev e b = b\<lparr>trace := e # trace b\<rparr>"

definition rd8 :: "u32 \<Rightarrow> 'a bus_scheme \<Rightarrow> u8 \<times> 'a bus_scheme" where
  "rd8 a b = (let v = ucast (hw b (trace b) a) in (v, log_ev (Rd8 a v) b))"

definition rd32 :: "u32 \<Rightarrow> 'a bus_scheme \<Rightarrow> u32 \<times> 'a bus_scheme" where
  "rd32 a b = (let v = hw b (trace b) a in (v, log_ev (Rd32 a v) b))"

definition wr8 :: "u32 \<Rightarrow> u8 \<Rightarrow> 'a bus_scheme \<Rightarrow> 'a bus_scheme" where
  "wr8 a v = log_ev (Wr8 a v)"

definition wr16 :: "u32 \<Rightarrow> u16 \<Rightarrow> 'a bus_scheme \<Rightarrow> 'a bus_scheme" where
  "wr16 a v = log_ev (Wr16 a v)"

definition wr32 :: "u32 \<Rightarrow> u32 \<Rightarrow> 'a bus_scheme \<Rightarrow> 'a bus_scheme" where
  "wr32 a v = log_ev (Wr32 a v)"

text \<open>\<open>IORD(base, n)\<close> and \<open>IOWR(base, n, v)\<close> of \<open>io.h\<close> access the 32-bit
  register number \<open>n\<close> of the device at \<open>base\<close>.\<close>

definition iord :: "u32 \<Rightarrow> u32 \<Rightarrow> 'a bus_scheme \<Rightarrow> u32 \<times> 'a bus_scheme" where
  "iord base n = rd32 (base + 4 * n)"

definition iowr :: "u32 \<Rightarrow> u32 \<Rightarrow> u32 \<Rightarrow> 'a bus_scheme \<Rightarrow> 'a bus_scheme" where
  "iowr base n v = wr32 (base + 4 * n) v"

definition usleep :: "u32 \<Rightarrow> 'a bus_scheme \<Rightarrow> 'a bus_scheme" where
  "usleep n = log_ev (Delay n)"

text \<open>Two frames: an operation that only touches the bus (\<open>bus_only\<close>), and one that
  only reads or waits (\<open>quiet\<close>).\<close>

definition bus_only :: "'a bus_scheme \<Rightarrow> 'a bus_scheme \<Rightarrow> bool" where
  "bus_only b b' \<longleftrightarrow> (\<exists>es. b' = b\<lparr>trace := es @ trace b\<rparr>)"

definition quiet :: "'a bus_scheme \<Rightarrow> 'a bus_scheme \<Rightarrow> bool" where
  "quiet b b' \<longleftrightarrow> (\<exists>es. (\<forall>e\<in>set es. \<not> is_wr e) \<and> b' = b\<lparr>trace := es @ trace b\<rparr>)"

lemma bus_only_refl [simp, intro]: "bus_only b b"
  by (auto simp: bus_only_def intro: exI [of _ "[]"])

lemma quiet_refl [simp, intro]: "quiet b b"
  by (auto simp: quiet_def intro: exI [of _ "[]"])

lemma bus_only_trans [trans]: "bus_only a b \<Longrightarrow> bus_only b c \<Longrightarrow> bus_only a c"
  unfolding bus_only_def by (elim exE) (metis (no_types, lifting) append_assoc bus.select_convs(3) bus.surjective bus.update_convs(3))

lemma quiet_bus_only: "quiet b b' \<Longrightarrow> bus_only b b'"
  by (auto simp: quiet_def bus_only_def)

lemma quiet_writes: "quiet b b' \<Longrightarrow> writes b' = writes b"
  by (auto simp: quiet_def writes_def filter_empty_conv)

lemma quiet_trans [trans]: "quiet a b \<Longrightarrow> quiet b c \<Longrightarrow> quiet a c"
proof -
  assume "quiet a b" "quiet b c"
  then obtain es fs where "\<forall>e\<in>set es. \<not> is_wr e" "b = a\<lparr>trace := es @ trace a\<rparr>"
    "\<forall>e\<in>set fs. \<not> is_wr e" "c = b\<lparr>trace := fs @ trace b\<rparr>"
    by (auto simp: quiet_def)
  then show ?thesis
    by (auto simp: quiet_def intro!: exI [of _ "fs @ es"])
qed

lemma bus_only_hw: "bus_only b b' \<Longrightarrow> hw b' = hw b"
  by (auto simp: bus_only_def)

lemma bus_only_log [intro]: "bus_only b b' \<Longrightarrow> bus_only b (log_ev e b')"
  by (rule bus_only_trans) (auto simp: bus_only_def log_ev_def intro: exI [of _ "[e]"])

lemma quiet_log: "\<not> is_wr e \<Longrightarrow> quiet b (log_ev e b)"
  by (auto simp: quiet_def log_ev_def intro: exI [of _ "[e]"])

lemma hw_log_ev [simp]: "hw (log_ev e b) = hw b"
  by (simp add: log_ev_def)

lemma trace_log_ev [simp]: "trace (log_ev e b) = e # trace b"
  by (simp add: log_ev_def)

lemma writes_log_ev [simp]:
  "writes (log_ev e b) = (if is_wr e then e # writes b else writes b)"
  by (simp add: writes_def)

lemma wr_effects [simp]:
  "hw (wr8 a v b) = hw b" "hw (wr16 a w b) = hw b" "hw (wr32 a u b) = hw b"
  "hw (usleep n b) = hw b"
  "writes (wr8 a v b) = Wr8 a v # writes b"
  "writes (wr16 a w b) = Wr16 a w # writes b"
  "writes (wr32 a u b) = Wr32 a u # writes b"
  "writes (usleep n b) = writes b"
  "trace (wr8 a v b) = Wr8 a v # trace b"
  "trace (wr16 a w b) = Wr16 a w # trace b"
  "trace (wr32 a u b) = Wr32 a u # trace b"
  by (simp_all add: wr8_def wr16_def wr32_def usleep_def)

lemma iowr_effects [simp]:
  "hw (iowr base n v b) = hw b"
  "writes (iowr base n v b) = Wr32 (base + 4 * n) v # writes b"
  "trace (iowr base n v b) = Wr32 (base + 4 * n) v # trace b"
  by (simp_all add: iowr_def)

lemma bus_only_ops [bus_simps, intro]:
  "bus_only b b' \<Longrightarrow> bus_only b (wr8 a v b')"
  "bus_only b b' \<Longrightarrow> bus_only b (wr16 a w b')"
  "bus_only b b' \<Longrightarrow> bus_only b (wr32 a u b')"
  "bus_only b b' \<Longrightarrow> bus_only b (iowr a n u b')"
  "bus_only b b' \<Longrightarrow> bus_only b (usleep n b')"
  by (auto simp: wr8_def wr16_def wr32_def iowr_def usleep_def)

lemma rd8_quiet: "rd8 a b = (v, b') \<Longrightarrow> quiet b b' \<and> v = ucast (hw b (trace b) a)"
  by (auto simp: rd8_def Let_def intro: quiet_log)

lemma rd32_quiet: "rd32 a b = (v, b') \<Longrightarrow> quiet b b' \<and> v = hw b (trace b) a"
  by (auto simp: rd32_def Let_def intro: quiet_log)

lemma iord_quiet: "iord base n b = (v, b') \<Longrightarrow> quiet b b' \<and> v = hw b (trace b) (base + 4 * n)"
  by (simp add: iord_def rd32_quiet)

lemmas reads_quiet = rd8_quiet rd32_quiet iord_quiet

lemma bus_only_reads [intro]:
  "bus_only b b' \<Longrightarrow> bus_only b (snd (rd8 a b'))"
  "bus_only b b' \<Longrightarrow> bus_only b (snd (rd32 a b'))"
  "bus_only b b' \<Longrightarrow> bus_only b (snd (iord a n b'))"
  by (auto simp: rd8_def rd32_def iord_def Let_def)

lemma quiet_reads [simp, intro]:
  "quiet b (snd (rd8 a b))" "quiet b (snd (rd32 a b))" "quiet b (snd (iord a n b))"
  by (simp_all add: iord_def rd8_def rd32_def Let_def quiet_log)

text \<open>What a sequence of writes, oldest last, leaves in a memory the device shares
  (the descriptor memory): the stores of the little-endian processor, byte by byte.\<close>

primrec poke :: "ioev \<Rightarrow> (u32 \<Rightarrow> u8) \<Rightarrow> (u32 \<Rightarrow> u8)" where
  "poke (Rd8 a v) m = m"
| "poke (Rd32 a v) m = m"
| "poke (RdPending v) m = m"
| "poke (Wr8 a v) m = m(a := v)"
| "poke (Wr16 a v) m = m(a := ucast v, a + 1 := ucast (drop_bit 8 v))"
| "poke (Wr32 a v) m = m(a := ucast v, a + 1 := ucast (drop_bit 8 v),
     a + 2 := ucast (drop_bit 16 v), a + 3 := ucast (drop_bit 24 v))"
| "poke (Delay n) m = m"

definition mem_after :: "ioev list \<Rightarrow> (u32 \<Rightarrow> u8) \<Rightarrow> (u32 \<Rightarrow> u8)" where
  "mem_after es m = foldr poke es m"

lemma mem_after_simps [simp]:
  "mem_after [] m = m" "mem_after (e # es) m = poke e (mem_after es m)"
  "mem_after (es @ fs) m = mem_after es (mem_after fs m)"
  by (simp_all add: mem_after_def)

text \<open>A little-endian 32-bit (16-bit) word of the memory.\<close>

definition peek32 :: "(u32 \<Rightarrow> u8) \<Rightarrow> u32 \<Rightarrow> u32" where
  "peek32 m a = ucast (m a) OR push_bit 8 (ucast (m (a + 1)))
     OR push_bit 16 (ucast (m (a + 2))) OR push_bit 24 (ucast (m (a + 3)))"

definition peek16 :: "(u32 \<Rightarrow> u8) \<Rightarrow> u32 \<Rightarrow> u16" where
  "peek16 m a = ucast (m a) OR push_bit 8 (ucast (m (a + 1)))"

lemma bytes_u32: "ucast (ucast v :: u8) OR push_bit 8 (ucast (ucast (drop_bit 8 v) :: u8))
    OR push_bit 16 (ucast (ucast (drop_bit 16 v) :: u8))
    OR push_bit 24 (ucast (ucast (drop_bit 24 v) :: u8)) = (v :: u32)" (is "?l = v")
proof (rule bit_word_eqI)
  fix n assume n: "n < LENGTH(32)"
  consider "n < 8" | "8 \<le> n" "n < 16" | "16 \<le> n" "n < 24" | "24 \<le> n" by linarith
  then show "bit ?l n = bit v n" by cases (use n in \<open>auto simp: bit_simps\<close>)
qed

lemma bytes_u16: "ucast (ucast v :: u8) OR push_bit 8 (ucast (ucast (drop_bit 8 v) :: u8)) = (v :: u16)"
  by (rule bit_word_eqI) (auto simp: bit_simps)

subsection \<open>Busy waiting\<close>

text \<open>\<open>spin c\<close> is \<open>while (c);\<close>: the condition \<open>c\<close> reads the hardware and so
  changes the state.  The loop that never ends is \<open>None\<close>.\<close>

partial_function (option) spin :: "('s \<Rightarrow> bool \<times> 's) \<Rightarrow> 's \<Rightarrow> 's option" where
  "spin c s = (case c s of (busy, s') \<Rightarrow> if busy then spin c s' else Some s')"

primrec poll_state :: "('s \<Rightarrow> bool \<times> 's) \<Rightarrow> nat \<Rightarrow> 's \<Rightarrow> 's" where
  "poll_state c 0 s = s"
| "poll_state c (Suc n) s = poll_state c n (snd (c s))"

lemma spin_returns:
  "\<not> fst (c (poll_state c n s)) \<Longrightarrow> \<exists>t. spin c s = Some t"
proof (induction n arbitrary: s)
  case 0
  then show ?case by (subst spin.simps) (auto split: prod.splits)
next
  case (Suc n)
  obtain busy s' where c: "c s = (busy, s')" by fastforce
  with Suc show ?case by (subst spin.simps) (auto simp: c)
qed

lemma spin_Some_polls:
  "spin c s = Some t \<Longrightarrow> \<exists>n. \<not> fst (c (poll_state c n s)) \<and> t = poll_state c (Suc n) s"
proof (induction rule: spin.raw_induct [rotated, consumes 1, case_names step])
  case (step spin' c s t)
  obtain busy s' where c: "c s = (busy, s')" by fastforce
  show ?case
  proof (cases busy)
    case True
    with step(2) c have "spin' c s' = Some t" by simp
    from step(1)[OF this] obtain n where
      n: "\<not> fst (c (poll_state c n s'))" "t = poll_state c (Suc n) s'" by blast
    show ?thesis by (rule exI[of _ "Suc n"]) (use n c in simp)
  next
    case False
    with step(2) c show ?thesis by (intro exI[of _ 0]) auto
  qed
qed

lemma spin_terminates_iff:
  "(\<exists>t. spin c s = Some t) \<longleftrightarrow> (\<exists>n. \<not> fst (c (poll_state c n s)))"
  using spin_returns spin_Some_polls by metis

text \<open>The contract of a polling loop: the condition keeps an invariant.  Every
  wait of the drivers is an instance, with the invariant ``the device saw
  nothing but reads''.\<close>

locale polling =
  fixes poll :: "'s \<Rightarrow> bool \<times> 's"
    and inv :: "'s \<Rightarrow> 's \<Rightarrow> bool"
  assumes inv_refl: "inv s s"
    and inv_step: "inv s t \<Longrightarrow> inv s (snd (poll t))"
begin

lemma poll_inv: "inv s t \<Longrightarrow> inv s (poll_state poll n t)"
  by (induction n arbitrary: t) (auto intro: inv_step)

lemma spin_inv: "spin poll s = Some t \<Longrightarrow> inv s t"
  using spin_Some_polls poll_inv inv_refl by metis

end

text \<open>A device that settles: after the history \<open>es\<close>, once enough reads and waits have
  gone by and nothing has been written, its answers satisfy \<open>P\<close>.\<close>

definition settles :: "(ioev list \<Rightarrow> u32 \<Rightarrow> u32) \<Rightarrow> ioev list \<Rightarrow> ((u32 \<Rightarrow> u32) \<Rightarrow> bool) \<Rightarrow> bool" where
  "settles h es P \<longleftrightarrow>
    (\<exists>n. \<forall>fs. n \<le> length fs \<longrightarrow> (\<forall>e\<in>set fs. \<not> is_wr e) \<longrightarrow> P (h (fs @ es)))"

locale reading_poll = polling poll quiet
  for poll :: "'a bus_scheme \<Rightarrow> bool \<times> 'a bus_scheme" +
  fixes ready :: "(u32 \<Rightarrow> u32) \<Rightarrow> bool"
  assumes progress: "length (trace s) < length (trace (snd (poll s)))"
    and leaves: "(\<And>fs. \<forall>e\<in>set fs. \<not> is_wr e \<Longrightarrow> ready (hw s (fs @ trace s))) \<Longrightarrow> \<not> fst (poll s)"
begin

lemma poll_grows: "length (trace s) + n \<le> length (trace (poll_state poll n s))"
proof (induction n arbitrary: s)
  case (Suc n)
  show ?case using progress [of s] Suc.IH [of "snd (poll s)"] by simp
qed simp

lemma spin_settles:
  assumes "settles (hw s) (trace s) ready"
  shows "\<exists>t. spin poll s = Some t \<and> quiet s t"
proof -
  obtain n where n: "\<And>fs. n \<le> length fs \<Longrightarrow> \<forall>e\<in>set fs. \<not> is_wr e \<Longrightarrow> ready (hw s (fs @ trace s))"
    using assms by (auto simp: settles_def)
  let ?t = "poll_state poll n s"
  obtain es where es: "\<forall>e\<in>set es. \<not> is_wr e" "?t = s\<lparr>trace := es @ trace s\<rparr>"
    using poll_inv [OF quiet_refl, of s n] by (auto simp: quiet_def)
  then have len: "n \<le> length es" using poll_grows [of s n] by simp
  have tr: "trace ?t = es @ trace s" "hw ?t = hw s" by (simp_all add: es(2))
  have "ready (hw ?t (fs @ trace ?t))" if fs: "\<forall>e\<in>set fs. \<not> is_wr e" for fs
  proof -
    have "\<forall>e\<in>set (fs @ es). \<not> is_wr e" using fs es(1) by auto
    moreover have "n \<le> length (fs @ es)" using len by simp
    ultimately have "ready (hw s ((fs @ es) @ trace s))" by (intro n)
    then show ?thesis by (simp only: tr append_assoc)
  qed
  then have "\<not> fst (poll ?t)" by (rule leaves)
  then obtain t where "spin poll s = Some t" using spin_returns [of poll n s] by auto
  then show ?thesis using spin_inv [of s t] by auto
qed

end

subsection \<open>Byte buffers\<close>

text \<open>\<open>memmove\<close> out of and into a buffer at an offset; leaving the buffer is
  \<open>None\<close>.\<close>

definition bytes_at :: "u8 list \<Rightarrow> nat \<Rightarrow> nat \<Rightarrow> u8 list" where
  "bytes_at buf i n = take n (drop i buf)"

definition mem_get :: "u8 list \<Rightarrow> nat \<Rightarrow> nat \<Rightarrow> u8 list option" where
  "mem_get buf i n = (if i + n \<le> length buf then Some (bytes_at buf i n) else None)"

definition patch :: "u8 list \<Rightarrow> nat \<Rightarrow> u8 list \<Rightarrow> u8 list" where
  "patch buf i xs = take i buf @ xs @ drop (i + length xs) buf"

definition mem_put :: "u8 list \<Rightarrow> nat \<Rightarrow> u8 list \<Rightarrow> u8 list option" where
  "mem_put buf i xs = (if i + length xs \<le> length buf then Some (patch buf i xs) else None)"

text \<open>A 16-bit store of the little-endian processor.\<close>

definition le16 :: "u16 \<Rightarrow> u8 list" where
  "le16 v = [ucast v, ucast (drop_bit 8 v)]"

definition get16 :: "u8 list \<Rightarrow> nat \<Rightarrow> u16" where
  "get16 buf i = ucast (buf ! i) OR push_bit 8 (ucast (buf ! (i + 1)))"

text \<open>A 32-bit number stored most significant byte first, byte by byte.\<close>

definition be32 :: "u32 \<Rightarrow> u8 list" where
  "be32 v = [ucast (drop_bit 24 v), ucast (drop_bit 16 v), ucast (drop_bit 8 v), ucast v]"

definition get_be32 :: "u8 list \<Rightarrow> nat \<Rightarrow> u32" where
  "get_be32 buf i = push_bit 24 (ucast (buf ! i)) OR push_bit 16 (ucast (buf ! (i + 1)))
     OR push_bit 8 (ucast (buf ! (i + 2))) OR ucast (buf ! (i + 3))"

lemma length_le16 [simp]: "length (le16 v) = 2"
  by (simp add: le16_def)

lemma length_be32 [simp]: "length (be32 v) = 4"
  by (simp add: be32_def)

lemma length_bytes_at [simp]: "i + n \<le> length buf \<Longrightarrow> length (bytes_at buf i n) = n"
  by (simp add: bytes_at_def)

lemma nth_bytes_at [simp]: "j < n \<Longrightarrow> i + n \<le> length buf \<Longrightarrow> bytes_at buf i n ! j = buf ! (i + j)"
  by (simp add: bytes_at_def)

lemma word_nonzero_bit: "w \<noteq> 0 \<Longrightarrow> \<exists>i. bit w i" for w :: "'a::len word"
  by (auto simp: bit_eq_iff)

lemma ucast_of_nat_small:
  "n < 2 ^ LENGTH('a) \<Longrightarrow> ucast (of_nat n :: 'a::len word) = (of_nat n :: 'b::len word)"
  by (simp add: unsigned_of_nat take_bit_nat_eq_self)

lemma split2: "p + 1 < length xs \<Longrightarrow> xs = take p xs @ xs ! p # xs ! (p + 1) # drop (p + 2) xs"
  using id_take_nth_drop [of p xs] Cons_nth_drop_Suc [of "p + 1" xs] by simp

lemma mem_put_Some [buf_simps]:
  "i + length xs \<le> length buf \<Longrightarrow>
    mem_put buf i xs = Some (patch buf i xs)"
  by (simp add: mem_put_def)

lemma length_patch [simp]: "i + length xs \<le> length buf \<Longrightarrow> length (patch buf i xs) = length buf"
  by (simp add: patch_def)

lemma nth_patch [buf_simps]:
  "i + length xs \<le> length buf \<Longrightarrow> j < length buf \<Longrightarrow>
    patch buf i xs ! j = (if i \<le> j \<and> j < i + length xs then xs ! (j - i) else buf ! j)"
  by (auto simp: patch_def nth_append min_def)

lemma mem_put_length: "mem_put buf i xs = Some buf' \<Longrightarrow> length buf' = length buf"
  by (auto simp: mem_put_def patch_def split: if_splits)

lemma mem_put_nth:
  "mem_put buf i xs = Some buf' \<Longrightarrow> j < length buf \<Longrightarrow>
    buf' ! j = (if i \<le> j \<and> j < i + length xs then xs ! (j - i) else buf ! j)"
  by (auto simp: mem_put_def nth_patch split: if_splits)

lemma mem_put_ex: "i + length xs \<le> length buf \<Longrightarrow> \<exists>buf'. mem_put buf i xs = Some buf'"
  by (simp add: mem_put_def)

lemma mem_get_put:
  "mem_put buf i xs = Some buf' \<Longrightarrow> mem_get buf' i (length xs) = Some xs"
  by (auto simp: mem_put_def patch_def mem_get_def bytes_at_def split: if_splits)

lemma mem_get_nth: "mem_get buf i n = Some xs \<Longrightarrow> j < n \<Longrightarrow> xs ! j = buf ! (i + j)"
  by (auto simp: mem_get_def bytes_at_def split: if_splits)

lemma mem_get_length: "mem_get buf i n = Some xs \<Longrightarrow> length xs = n"
  by (auto simp: mem_get_def bytes_at_def split: if_splits)

text \<open>A sequence of stores into one buffer, in program order, and the byte they leave at
  an index: the last store that covers it decides.\<close>

fun stores :: "u8 list \<Rightarrow> (nat \<times> u8 list) list \<Rightarrow> u8 list option" where
  "stores b [] = Some b"
| "stores b ((i, xs) # ps) = do { b \<leftarrow> mem_put b i xs; stores b ps }"

declare stores.simps [simp del]

fun patches :: "u8 list \<Rightarrow> (nat \<times> u8 list) list \<Rightarrow> u8 list" where
  "patches b [] = b"
| "patches b ((i, xs) # ps) = patches (patch b i xs) ps"

fun last_store :: "(nat \<times> u8 list) list \<Rightarrow> nat \<Rightarrow> u8 \<Rightarrow> u8" where
  "last_store [] j v = v"
| "last_store ((i, xs) # ps) j v = last_store ps j (if i \<le> j \<and> j < i + length xs then xs ! (j - i) else v)"

definition fits :: "nat \<Rightarrow> (nat \<times> u8 list) list \<Rightarrow> bool" where
  "fits n ps \<longleftrightarrow> list_all (\<lambda>(i, xs). i + length xs \<le> n) ps"

lemma fits_simps [simp]:
  "fits n []" "fits n ((i, xs) # ps) \<longleftrightarrow> i + length xs \<le> n \<and> fits n ps"
  by (simp_all add: fits_def)

lemma stores_Some: "fits (length b) ps \<Longrightarrow> stores b ps = Some (patches b ps)"
  by (induction b ps rule: stores.induct) (simp_all add: stores.simps mem_put_Some)

lemma length_patches: "fits (length b) ps \<Longrightarrow> length (patches b ps) = length b"
  by (induction b ps rule: patches.induct) simp_all

lemma nth_patches:
  "fits (length b) ps \<Longrightarrow> j < length b \<Longrightarrow> patches b ps ! j = last_store ps j (b ! j)"
  by (induction b ps rule: patches.induct) (simp_all add: nth_patch)

lemma last_store_out:
  "list_all (\<lambda>(i, xs). j < i \<or> i + length xs \<le> j) ps \<Longrightarrow> last_store ps j v = v"
  by (induction ps j v rule: last_store.induct) auto

end
