(* ===== verification/Checksum.thy ===== *)
theory Checksum
  imports Prelude
begin

text \<open>
  The Internet checksum of \<open>tcp_socket.c\<close>: \<open>get_ipv4_checksumm\<close> and
  \<open>get_tcp_checksumm\<close>.  The loop index of the IPv4 routine is an \<open>alt_u8\<close> and
  that of the TCP routine an \<open>alt_u16\<close>; \<open>sum_loop\<close> is the loop at either width,
  with its wrap-around, and is \<open>None\<close> where it reads outside the buffer or does
  not end.  The reference is the checksum of RFC 1071: the one's complement sum of
  the big-endian 16-bit words, an odd last byte padded with a zero.
\<close>

subsection \<open>The code\<close>

partial_function (option) sum_loop ::
  "u8 list \<Rightarrow> nat \<Rightarrow> 'l::len word \<Rightarrow> 'l word \<Rightarrow> u32 \<Rightarrow> u32 option" where
  "sum_loop data off i len acc =
    (if i < len then
       if off + unat i + 1 < length data then
         sum_loop data off (i + 2) len
           (acc + (push_bit 8 (ucast (data ! (off + unat i))) OR ucast (data ! (off + unat i + 1))))
       else None
     else Some acc)"

function fold16 :: "u32 \<Rightarrow> u32" where
  "fold16 acc = (if drop_bit 16 acc \<noteq> 0
     then fold16 ((acc AND 0xFFFF) + drop_bit 16 acc) else acc)"
  by pat_completeness auto

lemma and_FFFF_unat: "unat (s AND 0xFFFF :: u32) = unat s mod 65536"
proof -
  have "s AND 0xFFFF = take_bit 16 s"
    by (simp add: take_bit_eq_mask mask_eq_exp_minus_1)
  then show ?thesis
    by (simp only: unsigned_take_bit_eq) (simp add: take_bit_eq_mod)
qed

lemma shr16_unat: "unat (drop_bit 16 s :: u32) = unat s div 65536"
  by (simp only: unat_drop_bit_eq) (simp add: drop_bit_eq_div)

lemma fold_step_unat:
  "unat ((s AND 0xFFFF) + drop_bit 16 s :: u32) = unat s mod 65536 + unat s div 65536"
proof -
  have "unat s < 2 ^ 32" by (rule order_less_le_trans [OF unsigned_less]) simp
  then have "unat s mod 65536 + unat s div 65536 < 2 ^ 32" by simp
  then show ?thesis by (simp add: unat_word_ariths and_FFFF_unat shr16_unat)
qed

lemma fold_step_less: "\<not> n < 65536 \<Longrightarrow> n mod 65536 + n div 65536 < (n :: nat)"
proof -
  assume "\<not> n < 65536"
  then have "0 < n div 65536" by (simp add: div_greater_zero_iff)
  then show ?thesis using div_mult_mod_eq [of n 65536] by linarith
qed

lemma shr16_eq_0: "drop_bit 16 s = (0 :: u32) \<longleftrightarrow> unat s < 65536"
proof -
  have "drop_bit 16 s = 0 \<longleftrightarrow> unat (drop_bit 16 s) = 0"
    by (simp add: unat_eq_zero)
  also have "\<dots> \<longleftrightarrow> unat s < 65536" by (simp only: shr16_unat) (auto simp: Euclidean_Rings.div_eq_0_iff)
  finally show ?thesis .
qed

termination fold16
  by (relation "measure unat")
    (simp_all only: wf_measure in_measure fold_step_unat shr16_eq_0, rule fold_step_less, assumption)

declare fold16.simps [simp del]

definition swap16 :: "u16 \<Rightarrow> u16" where
  "swap16 r = drop_bit 8 r OR push_bit 8 r"

definition get_ipv4_checksumm :: "u8 list \<Rightarrow> nat \<Rightarrow> u8 \<Rightarrow> u16 option" where
  "get_ipv4_checksumm data off len =
    do { acc \<leftarrow> sum_loop data off 0 len 0;
         let r = (ucast (NOT (fold16 acc)) :: u16);
         Some (swap16 r) }"

definition get_tcp_checksumm ::
  "u8 list \<Rightarrow> u8 list \<Rightarrow> u8 list \<Rightarrow> nat \<Rightarrow> u16 \<Rightarrow> u16 option" where
  "get_tcp_checksumm source_ip dest_ip tcp_data off len =
    do { acc \<leftarrow> sum_loop source_ip 0 (0 :: u8) 4 0;
         acc \<leftarrow> sum_loop dest_ip 0 (0 :: u8) 4 acc;
         let acc = acc + 0x6;
         let acc = acc + ucast len;
         acc \<leftarrow> sum_loop tcp_data off 0 len acc;
         let r = (ucast (NOT (fold16 acc)) :: u16);
         Some (swap16 r) }"

subsection \<open>The reference: RFC 1071\<close>

fun be_sum :: "u8 list \<Rightarrow> nat" where
  "be_sum [] = 0"
| "be_sum [a] = 256 * unat a"
| "be_sum (a # b # xs) = 256 * unat a + unat b + be_sum xs"

function ones_fold :: "nat \<Rightarrow> nat" where
  "ones_fold n = (if n < 65536 then n else ones_fold (n mod 65536 + n div 65536))"
  by pat_completeness auto
termination
  by (relation "measure id") (simp_all only: wf_measure in_measure id_apply, rule fold_step_less, assumption)

declare ones_fold.simps [simp del]

text \<open>What the receiver of a packet checks: the folded sum over everything the
  checksum covers, the checksum field included, is all ones.\<close>

definition cksum_ok :: "nat \<Rightarrow> bool" where
  "cksum_ok n \<longleftrightarrow> ones_fold n = 65535"

lemma ones_fold_less: "ones_fold n < 65536"
  by (induction n rule: ones_fold.induct) (subst ones_fold.simps, simp)

lemma ones_fold_mod: "ones_fold n mod 65535 = n mod 65535"
proof (induction n rule: ones_fold.induct)
  case (1 n)
  show ?case
  proof (cases "n < 65536")
    case True then show ?thesis by (simp add: ones_fold.simps)
  next
    case False
    have "n = n mod 65536 + n div 65536 + 65535 * (n div 65536)"
      using div_mult_mod_eq [of n 65536] by simp
    then have "n mod 65535 = (n mod 65536 + n div 65536) mod 65535"
      by (metis mod_mult_self2)
    with 1 [OF False] False show ?thesis by (simp add: ones_fold.simps [of n])
  qed
qed

lemma ones_fold_0: "ones_fold n = 0 \<longleftrightarrow> n = 0"
proof (induction n rule: ones_fold.induct)
  case (1 n)
  show ?case
  proof (cases "n < 65536")
    case True then show ?thesis by (simp add: ones_fold.simps)
  next
    case False
    then have "n div 65536 \<noteq> 0" "n \<noteq> 0" by auto
    with 1 [OF False] False show ?thesis
      by (simp add: ones_fold.simps [of n] del: div_eq_0_iff)
  qed
qed

lemma cksum_ok_iff: "cksum_ok n \<longleftrightarrow> 0 < n \<and> 65535 dvd n"
proof
  assume "cksum_ok n"
  then show "0 < n \<and> 65535 dvd n"
    using ones_fold_mod [of n] ones_fold_0 [of n] by (auto simp: cksum_ok_def)
next
  assume n: "0 < n \<and> 65535 dvd n"
  then have "65535 dvd ones_fold n" "ones_fold n \<noteq> 0"
    using ones_fold_mod [of n] ones_fold_0 [of n] by auto
  then obtain k where k: "ones_fold n = 65535 * k" "k > 0" by fastforce
  then have "k < 2" using ones_fold_less [of n] by simp
  with k show "cksum_ok n" by (simp add: cksum_ok_def)
qed

lemma cksum_complement: "cksum_ok (n + (65535 - ones_fold n))"
proof -
  have "(n + (65535 - ones_fold n)) mod 65535 = (ones_fold n + (65535 - ones_fold n)) mod 65535"
    by (metis mod_add_left_eq ones_fold_mod)
  also have "\<dots> = 0" using ones_fold_less [of n] by simp
  finally have "65535 dvd n + (65535 - ones_fold n)" by (rule mod_0_imp_dvd)
  then show ?thesis using ones_fold_0 [of n] by (auto simp: cksum_ok_iff)
qed


subsection \<open>The loop computes the big-endian sum\<close>

lemma word_be16: "push_bit 8 (ucast a) OR ucast b = (of_nat (256 * unat a + unat b) :: u32)" for a b :: u8
proof -
  have "push_bit 8 (ucast a) OR ucast b = (push_bit 8 (ucast a) + ucast b :: u32)"
    by (rule disjunctive_add [symmetric]) (auto simp: bit_simps dest: bit_imp_le_length)
  also have "\<dots> = of_nat (256 * unat a + unat b)"
    by (simp add: push_bit_eq_mult)
  finally show ?thesis .
qed

lemma unat_add_2: "unat i + 2 < 2 ^ LENGTH('l) \<Longrightarrow> unat (i + 2) = unat i + 2" for i :: "'l::len word"
proof -
  assume a: "unat i + 2 < 2 ^ LENGTH('l)"
  then have "unat (2 :: 'l word) = 2"
    by (cases "LENGTH('l) = 1") (simp_all add: unsigned_numeral take_bit_nat_eq_self)
  with a show ?thesis by (simp add: unat_word_ariths)
qed

lemma be_sum_append: "even (length xs) \<Longrightarrow> be_sum (xs @ ys) = be_sum xs + be_sum ys"
  by (induction xs rule: be_sum.induct) auto

lemma be_sum_bound: "be_sum xs \<le> 65535 * ((length xs + 1) div 2)"
proof (induction xs rule: be_sum.induct)
  case (2 a)
  have "unat a < 256" using unsigned_less [of a] by simp
  then show ?case by simp
next
  case (3 a b xs)
  have "unat a < 256" "unat b < 256" using unsigned_less [of a] unsigned_less [of b] by simp_all
  with 3 show ?case by simp
qed simp

lemma sum_loop_closed:
  fixes i len :: "'l::len word"
  assumes "unat i + 2 * k = unat len + unat len mod 2" "unat i + 2 * k < 2 ^ LENGTH('l)"
    and "off + unat i + 2 * k \<le> length data"
  shows "sum_loop data off i len acc
    = Some (acc + of_nat (be_sum (bytes_at data (off + unat i) (2 * k))))"
  using assms
proof (induction k arbitrary: i acc)
  case 0
  then have "\<not> i < len" by (simp add: word_less_nat_alt)
  then show ?case by (subst sum_loop.simps) (simp add: bytes_at_def)
next
  case (Suc k)
  let ?j = "off + unat i"
  have lt: "unat i < unat len" using Suc.prems(1) by (cases "even (unat len)") (auto elim: oddE)
  have two: "unat (i + 2) = unat i + 2"
    by (rule unat_add_2) (use Suc.prems(2) in simp)
  have d: "drop ?j data = data ! ?j # data ! (?j + 1) # drop (?j + 2) data"
    using Suc.prems(3) by (simp add: Cons_nth_drop_Suc)
  have "sum_loop data off i len acc = sum_loop data off (i + 2) len
     (acc + of_nat (256 * unat (data ! ?j) + unat (data ! (?j + 1))))"
    using lt Suc.prems(3) by (subst sum_loop.simps) (simp add: word_less_nat_alt word_be16)
  also have "\<dots> = Some (acc + of_nat (256 * unat (data ! ?j) + unat (data ! (?j + 1)))
     + of_nat (be_sum (bytes_at data (off + unat (i + 2)) (2 * k))))"
    by (rule Suc.IH) (use Suc.prems two in auto)
  finally show ?case by (simp add: d two add.assoc bytes_at_def)
qed


lemma sum_loop_word:
  assumes "unat len + unat len mod 2 < 2 ^ LENGTH('l)" "off + unat len + unat len mod 2 \<le> length data"
  shows "sum_loop data off 0 (len :: 'l::len word) acc
    = Some (acc + of_nat (be_sum (bytes_at data off (unat len + unat len mod 2))))"
proof -
  have "2 * ((unat len + unat len mod 2) div 2) = unat len + unat len mod 2" by presburger
  then show ?thesis
    using sum_loop_closed [of "0 :: 'l word" "(unat len + unat len mod 2) div 2" len off data acc] assms
    by simp
qed

text \<open>An 8-bit (16-bit) index never reaches the odd length 255 (65535): it wraps to 0
  and the loop goes on for ever.\<close>

lemma even_add_2: "even (unat (i + 2)) = even (unat i)" for i :: "'l::len word"
proof -
  have "even (unat (i + 2)) = even ((unat i + unat (2 :: 'l word)) mod 2 ^ LENGTH('l))"
    by (simp add: unat_word_ariths)
  also have "\<dots> = even (unat i + unat (2 :: 'l word))"
    by (rule dvd_mod_iff) simp
  also have "even (unat (2 :: 'l word))"
    by (cases "LENGTH('l) = 1") (simp_all add: unsigned_numeral take_bit_nat_eq_self)
  then have "even (unat i + unat (2 :: 'l word)) = even (unat i)" by simp
  finally show ?thesis .
qed

lemma sum_loop_max:
  "sum_loop data off i len acc = Some s \<Longrightarrow> len = (- 1 :: 'l::len word) \<Longrightarrow> odd (unat i)"
proof (induction rule: sum_loop.raw_induct [rotated, consumes 1, case_names step])
  case (step f data off i len acc s)
  show ?case
  proof (cases "i < len")
    case True
    with step(2) obtain acc' where "f data off (i + 2) len acc' = Some s"
      by (auto split: if_splits)
    from step(1) [OF this step(3)] show ?thesis by (simp add: even_add_2)
  next
    case False
    with step(3) have "i = - 1" by (simp add: not_less word_order.extremum_unique)
    then show ?thesis by (simp add: unsigned_minus_1_eq_mask mask_eq_exp_minus_1)
  qed
qed

subsection \<open>Folding and the value stored\<close>

definition cksum16 :: "nat \<Rightarrow> u16" where
  "cksum16 n = swap16 (of_nat (65535 - ones_fold n))"

lemma fold16_ones: "unat (fold16 s) = ones_fold (unat s)"
proof (induction s rule: fold16.induct)
  case (1 s)
  show ?case
  proof (cases "unat s < 65536")
    case True
    then show ?thesis by (subst fold16.simps, subst ones_fold.simps) (simp add: shr16_eq_0)
  next
    case False
    then have "fold16 s = fold16 ((s AND 0xFFFF) + drop_bit 16 s)"
      by (subst fold16.simps) (simp add: shr16_eq_0)
    moreover have "ones_fold (unat s) = ones_fold (unat s mod 65536 + unat s div 65536)"
      using False by (subst ones_fold.simps) simp
    ultimately show ?thesis
      using 1 False by (simp only: fold_step_unat shr16_eq_0 not_False_eq_True simp_thms)
  qed
qed

lemma not_fold16: "ucast (NOT (fold16 (of_nat n))) = (of_nat (65535 - ones_fold n) :: u16)"
  if "n < 2 ^ 32"
proof -
  have "ones_fold n = unat (fold16 (of_nat n))"
    using that by (simp add: fold16_ones unsigned_of_nat take_bit_nat_eq_self)
  moreover have "of_nat (65535 - ones_fold n) = (- 1 - of_nat (ones_fold n) :: u16)"
    using ones_fold_less [of n] by (simp add: of_nat_diff)
  moreover have "ucast (NOT (fold16 (of_nat n))) = (NOT (ucast (fold16 (of_nat n))) :: u16)"
    by (rule bit_word_eqI) (simp add: bit_simps)
  ultimately show ?thesis by (simp add: not_eq_complement)
qed

lemma le16_swap16: "le16 (swap16 v) = [ucast (drop_bit 8 v), ucast v]"
  by (auto simp: le16_def swap16_def bit_simps intro!: bit_word_eqI dest: bit_imp_le_length)

lemma be_sum_le16_swap16: "be_sum (le16 (swap16 v)) = unat v"
proof -
  have "unat (ucast (drop_bit 8 v) :: u8) = unat v div 256"
  proof -
    have "unat v div 256 < 256" using unsigned_less [of v, where 'a = nat] by (simp add: less_mult_imp_div_less)
    moreover have "unat (drop_bit 8 v) = unat v div 256"
      by (simp only: unat_drop_bit_eq) (simp add: drop_bit_eq_div)
    ultimately show ?thesis by (simp only: unsigned_ucast_eq take_bit_nat_eq_self) (simp add: take_bit_nat_eq_self)
  qed
  moreover have "unat (ucast v :: u8) = unat v mod 256"
    by (simp add: unsigned_ucast_eq take_bit_eq_mod)
  ultimately show ?thesis by (simp add: le16_swap16)
qed

lemma unat_cksum: "unat (of_nat (65535 - ones_fold n) :: u16) = 65535 - ones_fold n"
  by (simp add: unsigned_of_nat take_bit_nat_eq_self)

lemma be_sum_patch:
  assumes put: "mem_put buf (off + p) (le16 (swap16 v)) = Some buf'"
    and p: "even p" "p + 2 \<le> len" "off + len \<le> length buf"
    and z: "buf ! (off + p) = 0" "buf ! (off + p + 1) = 0"
  shows "be_sum (bytes_at buf' off len) = be_sum (bytes_at buf off len) + unat v"
proof -
  let ?S = "bytes_at buf off len"
  have l: "length buf' = length buf" using put by (rule mem_put_length)
  have S: "?S = take p ?S @ [0, 0] @ drop (p + 2) ?S"
  proof -
    have "?S = take p ?S @ ?S ! p # ?S ! (p + 1) # drop (p + 2) ?S"
      by (rule split2) (use p in simp)
    then show ?thesis using p z by simp
  qed
  have S': "bytes_at buf' off len = take p ?S @ le16 (swap16 v) @ drop (p + 2) ?S"
  proof (rule nth_equalityI)
    show "length (bytes_at buf' off len) = length (take p ?S @ le16 (swap16 v) @ drop (p + 2) ?S)"
      using p l by simp
    fix j assume "j < length (bytes_at buf' off len)"
    then have j: "j < len" using p l by simp
    then have "bytes_at buf' off len ! j
        = (if p \<le> j \<and> j < p + 2 then le16 (swap16 v) ! (j - p) else buf ! (off + j))"
      using p l mem_put_nth [OF put, of "off + j"] by auto
    also have "\<dots> = (take p ?S @ le16 (swap16 v) @ drop (p + 2) ?S) ! j"
    proof (cases "j < p + 2")
      case False
      then have "Suc (Suc (off + j - 2)) = off + j" "\<not> j - p < 2" by simp_all
      with False p j show ?thesis by (simp add: nth_append)
    qed (use p j in \<open>auto simp: nth_append\<close>)
    finally show "bytes_at buf' off len ! j = (take p ?S @ le16 (swap16 v) @ drop (p + 2) ?S) ! j" .
  qed
  have "be_sum ?S = be_sum (take p ?S) + be_sum (drop (p + 2) ?S)"
    using p by (subst S) (simp add: be_sum_append)
  moreover have "be_sum (bytes_at buf' off len) = be_sum (take p ?S) + unat v + be_sum (drop (p + 2) ?S)"
    using p by (simp add: S' be_sum_append be_sum_le16_swap16)
  ultimately show ?thesis by simp
qed


subsection \<open>The contract of a checksum routine\<close>

text \<open>\<open>pseudo q len\<close> is what a routine adds to the bytes of the region itself, from
  its other arguments \<open>q\<close>; \<open>lim\<close> the length its loop index can count to.\<close>

locale checksum_routine =
  fixes cks :: "'q \<Rightarrow> u8 list \<Rightarrow> nat \<Rightarrow> nat \<Rightarrow> u16 option"
    and valid :: "'q \<Rightarrow> bool"
    and pseudo :: "'q \<Rightarrow> nat \<Rightarrow> nat"
    and lim :: nat
  assumes cks_value: "valid q \<Longrightarrow> len < lim \<Longrightarrow> off + len + len mod 2 \<le> length data \<Longrightarrow>
      cks q data off len = Some (cksum16 (pseudo q len + be_sum (bytes_at data off (len + len mod 2))))"
begin

lemma total: "valid q \<Longrightarrow> len < lim \<Longrightarrow> off + len + len mod 2 \<le> length data \<Longrightarrow>
    \<exists>c. cks q data off len = Some c"
  by (simp add: cks_value)

lemma stored_ok:
  assumes "valid q" "len < lim" "off + len + len mod 2 \<le> length data" "even p" "p + 2 \<le> len"
    and "data ! (off + p) = 0" "data ! (off + p + 1) = 0"
    and "cks q data off len = Some c" "mem_put data (off + p) (le16 c) = Some data'"
  shows "cksum_ok (pseudo q len + be_sum (bytes_at data' off (len + len mod 2)))"
proof -
  let ?S = "pseudo q len + be_sum (bytes_at data off (len + len mod 2))"
  have c: "c = swap16 (of_nat (65535 - ones_fold ?S))"
    using cks_value [OF assms(1-3)] assms(8) by (simp add: cksum16_def)
  have "be_sum (bytes_at data' off (len + len mod 2))
      = be_sum (bytes_at data off (len + len mod 2)) + (65535 - ones_fold ?S)"
    using be_sum_patch [OF assms(9) [unfolded c] assms(4)] assms by (simp add: unat_cksum)
  then show ?thesis using cksum_complement [of ?S] by (simp add: add.assoc)
qed

end

lemma sum_loop_from_0: "len = - 1 \<Longrightarrow> sum_loop data off 0 len acc = None"
  using sum_loop_max [of data off 0 len acc] by (cases "sum_loop data off 0 len acc") auto

lemma be_sum_32:
  assumes "length xs \<le> 65536"
  shows "be_sum xs \<le> 65535 * 32768"
proof -
  have "(length xs + 1) div 2 \<le> 32768" using assms by linarith
  then show ?thesis using be_sum_bound [of xs] by (meson mult_le_mono2 order_trans)
qed

lemma ip_sum_loop:
  assumes "length ip = 4"
  shows "sum_loop ip 0 (0 :: u8) 4 acc = Some (acc + of_nat (be_sum ip))"
  using sum_loop_word [of "4 :: u8" 0 ip acc] assms by (simp add: bytes_at_def)

lemma ipv4_value:
  assumes "len < 255" "off + len + len mod 2 \<le> length data"
  shows "get_ipv4_checksumm data off (of_nat len)
    = Some (cksum16 (be_sum (bytes_at data off (len + len mod 2))))"
proof -
  have u: "unat (of_nat len :: u8) = len"
    using assms(1) by (simp add: unsigned_of_nat take_bit_nat_eq_self)
  have "len + len mod 2 < 256" using assms(1) by presburger
  then have s: "sum_loop data off 0 (of_nat len :: u8) 0
      = Some (of_nat (be_sum (bytes_at data off (len + len mod 2))))"
    using sum_loop_word [of "of_nat len :: u8" off data 0] assms(2) by (simp add: u)
  have "be_sum (bytes_at data off (len + len mod 2)) \<le> 65535 * 32768"
    by (rule be_sum_32) (use assms \<open>len + len mod 2 < 256\<close> in simp)
  then have "be_sum (bytes_at data off (len + len mod 2)) < 2 ^ 32" by simp
  from not_fold16 [OF this] show ?thesis
    by (simp add: get_ipv4_checksumm_def s cksum16_def)
qed

lemma tcp_value:
  assumes "len < 65535" "off + len + len mod 2 \<le> length data" "length sip = 4" "length dip = 4"
  shows "get_tcp_checksumm sip dip data off (of_nat len)
    = Some (cksum16 (be_sum sip + be_sum dip + 6 + len + be_sum (bytes_at data off (len + len mod 2))))"
proof -
  let ?B = "be_sum (bytes_at data off (len + len mod 2))"
  have u: "unat (of_nat len :: u16) = len"
    using assms(1) by (simp add: unsigned_of_nat take_bit_nat_eq_self)
  have l: "len + len mod 2 < 65536" using assms(1) by presburger
  then have s: "sum_loop data off 0 (of_nat len :: u16) acc = Some (acc + of_nat ?B)" for acc
    using sum_loop_word [of "of_nat len :: u16" off data acc] assms(2) by (simp add: u)
  have "?B \<le> 65535 * 32768" by (rule be_sum_32) (use assms l in simp)
  moreover have "be_sum sip \<le> 65535 * 2" "be_sum dip \<le> 65535 * 2"
    using be_sum_bound [of sip] be_sum_bound [of dip] assms(3,4) by simp_all
  ultimately have "be_sum sip + be_sum dip + 6 + len + ?B < 2 ^ 32" using assms(1) by simp
  from not_fold16 [OF this] have "ucast (NOT (fold16 (of_nat (be_sum sip) + of_nat (be_sum dip) + 6 + of_nat len + of_nat ?B)))
      = (of_nat (65535 - ones_fold (be_sum sip + be_sum dip + 6 + len + ?B)) :: u16)" by simp
  moreover have "ucast (of_nat len :: u16) = (of_nat len :: u32)"
    by (rule ucast_of_nat_small) (use assms(1) in simp)
  ultimately show ?thesis
    by (simp add: get_tcp_checksumm_def s ip_sum_loop assms(3,4) cksum16_def)
qed

definition pseudo_sum :: "u8 list \<times> u8 list \<Rightarrow> nat \<Rightarrow> nat" where
  "pseudo_sum q len = be_sum (fst q) + be_sum (snd q) + 6 + len"

interpretation ipv4: checksum_routine
  "\<lambda>_ data off len. get_ipv4_checksumm data off (of_nat len)" "\<lambda>_. True" "\<lambda>_ _. 0" 255
  by unfold_locales (simp add: ipv4_value)

interpretation tcp: checksum_routine
  "\<lambda>q data off len. get_tcp_checksumm (fst q) (snd q) data off (of_nat len)"
  "\<lambda>q. length (fst q) = 4 \<and> length (snd q) = 4" pseudo_sum 65535
  by unfold_locales (simp add: tcp_value pseudo_sum_def)

subsection \<open>Properties\<close>

text \<open>A header whose checksum field is zero and then receives what \<open>get_ipv4_checksumm\<close>
  computed, stored in the processor's byte order, sums to all ones at the receiver.\<close>
theorem ipv4_checksum_stored_ok:
  assumes "len < 255" "off + len + len mod 2 \<le> length data" "even p" "p + 2 \<le> len"
    and "data ! (off + p) = 0" "data ! (off + p + 1) = 0"
    and "get_ipv4_checksumm data off (of_nat len) = Some c"
    and "mem_put data (off + p) (le16 c) = Some data'"
  shows "cksum_ok (be_sum (bytes_at data' off (len + len mod 2)))"
  using ipv4.stored_ok [of len off data p c data'] assms by simp

lemma ipv4_checksum_stored_ok_witness:
  "\<exists>c d. get_ipv4_checksumm (replicate 20 0) 0 20 = Some c \<and> mem_put (replicate 20 0) 10 (le16 c) = Some d
    \<and> cksum_ok (be_sum (bytes_at d 0 20))"
proof -
  let ?d = "replicate 20 0 :: u8 list"
  obtain c where c: "get_ipv4_checksumm ?d 0 20 = Some c" using ipv4.total [of 20 0 ?d] by auto
  obtain d where d: "mem_put ?d 10 (le16 c) = Some d" using mem_put_ex [of 10 "le16 c" ?d] by auto
  show ?thesis using ipv4_checksum_stored_ok [of 20 0 ?d 10 c d] c d by auto
qed

text \<open>The same for \<open>get_tcp_checksumm\<close>, whose sum covers the pseudo header as well; an odd
  length takes in the byte behind the data.\<close>
theorem tcp_checksum_stored_ok:
  assumes "length sip = 4" "length dip = 4" "len < 65535" "off + len + len mod 2 \<le> length data"
    and "even p" "p + 2 \<le> len" "data ! (off + p) = 0" "data ! (off + p + 1) = 0"
    and "get_tcp_checksumm sip dip data off (of_nat len) = Some c"
    and "mem_put data (off + p) (le16 c) = Some data'"
  shows "cksum_ok (be_sum sip + be_sum dip + 6 + len + be_sum (bytes_at data' off (len + len mod 2)))"
  using tcp.stored_ok [of "(sip, dip)" len off data p c data'] assms by (simp add: pseudo_sum_def)

lemma tcp_checksum_stored_ok_witness:
  "\<exists>c d. get_tcp_checksumm [1, 2, 3, 4] [5, 6, 7, 8] (replicate 40 0) 0 21 = Some c
    \<and> mem_put (replicate 40 0) 16 (le16 c) = Some d
    \<and> cksum_ok (be_sum [1, 2, 3, 4] + be_sum [5, 6, 7, 8] + 6 + 21 + be_sum (bytes_at d 0 22))"
proof -
  let ?d = "replicate 40 0 :: u8 list"
  obtain c where c: "get_tcp_checksumm [1, 2, 3, 4] [5, 6, 7, 8] ?d 0 21 = Some c"
    using tcp.total [of "([1, 2, 3, 4], [5, 6, 7, 8])" 21 0 ?d] by auto
  obtain d where d: "mem_put ?d 16 (le16 c) = Some d" using mem_put_ex [of 16 "le16 c" ?d] by auto
  show ?thesis using tcp_checksum_stored_ok [of "[1, 2, 3, 4]" "[5, 6, 7, 8]" 21 0 ?d 16 c d] c d by auto
qed

text \<open>Neither routine returns for the largest length of its index type: the 8-bit index never
  reaches 255, the 16-bit one never 65535.\<close>
theorem checksum_longest_hangs:
  "get_ipv4_checksumm data off 255 = None \<and> get_tcp_checksumm sip dip data off 65535 = None"
  by (simp add: get_ipv4_checksumm_def get_tcp_checksumm_def sum_loop_from_0 [where len = 255]
      sum_loop_from_0 [where len = 65535] option.case_eq_if)

end
