(* ===== verification/Irq.thy ===== *)
theory Irq
  imports Prelude
begin

text \<open>
  Interrupts: \<open>HAL/inc/sys/alt_irq.h\<close>, \<open>HAL/inc/priv/alt_legacy_irq.h\<close>,
  \<open>alt_iic.c\<close>, \<open>alt_iic_isr_register.c\<close>, \<open>alt_irq_register.c\<close> and
  \<open>alt_irq_handler.c\<close>, for the internal interrupt controller.  A handler is a
  value of a type \<open>'h\<close>; what running it does is the parameter \<open>run\<close> of the
  dispatcher.  \<open>None\<close> is a table access out of bounds, a call of a null handler or a
  loop that does not end.
\<close>

datatype errno = EIO | EBUSY | EINVAL | ENODEV | EACCES | ENFILE | EBADFD | ENOSYS | ENOTTY
  | ENOENT | EMFILE | EINPROGRESS | ENOTSUP | EWOULDBLOCK | EPERM | EAGAIN
  | ESRCH | ECHILD

text \<open>A C result that is 0 or a negated error number: \<open>None\<close> is 0.\<close>

type_synonym rc = "errno option"

text \<open>The functions of the program whose addresses are taken: interrupt handlers, DMA
  callbacks and alarm callbacks.\<close>

datatype fn = Alt_avalon_sgdma_irq | Rx_ethernet_isr | Timeout_isr | Alt_avalon_timer_sc_irq
  | Altera_avalon_jtag_uart_irq | Altera_avalon_jtag_uart_timeout | Alt_lcd_16207_timeout
  | Nios2_pcsample

record 'h irqs = bus +
  alt_irq_active :: u32
  alt_priority_mask :: u32
  alt_irq :: "('h option \<times> u32) list"    \<comment> \<open>handler and context of each interrupt\<close>

definition ALT_NIRQ :: nat where "ALT_NIRQ = 32"

definition NIOS2_STATUS_PIE_MSK :: u32 where "NIOS2_STATUS_PIE_MSK = 1"

subsection \<open>Masking\<close>

definition alt_irq_enabled :: "'a bus_scheme \<Rightarrow> u32" where
  "alt_irq_enabled s = cpu_status s AND NIOS2_STATUS_PIE_MSK"

definition alt_irq_disable_all :: "'a bus_scheme \<Rightarrow> u32 \<times> 'a bus_scheme" where
  "alt_irq_disable_all s = (let ctx = cpu_status s in
     (ctx, s\<lparr>cpu_status := ctx AND NOT NIOS2_STATUS_PIE_MSK\<rparr>))"

definition alt_irq_enable_all :: "u32 \<Rightarrow> 'a bus_scheme \<Rightarrow> 'a bus_scheme" where
  "alt_irq_enable_all ctx s = s\<lparr>cpu_status := ctx\<rparr>"

definition alt_irq_cpu_enable_interrupts :: "'a bus_scheme \<Rightarrow> 'a bus_scheme" where
  "alt_irq_cpu_enable_interrupts s = s\<lparr>cpu_status := NIOS2_STATUS_PIE_MSK\<rparr>"

definition alt_irq_pending :: "'a bus_scheme \<Rightarrow> u32 \<times> 'a bus_scheme" where
  "alt_irq_pending s = (let active = ipend s (trace s) in (active, log_ev (RdPending active) s))"

definition alt_irq_disable :: "u32 \<Rightarrow> ('h, 'a) irqs_scheme \<Rightarrow> rc \<times> ('h, 'a) irqs_scheme" where
  "alt_irq_disable n s =
    (let (status, s) = alt_irq_disable_all s;
         s = s\<lparr>alt_irq_active := alt_irq_active s AND NOT (push_bit (unat n) 1)\<rparr>;
         s = s\<lparr>ienable := alt_irq_active s\<rparr>
     in (None, alt_irq_enable_all status s))"

definition alt_irq_enable :: "u32 \<Rightarrow> ('h, 'a) irqs_scheme \<Rightarrow> rc \<times> ('h, 'a) irqs_scheme" where
  "alt_irq_enable n s =
    (let (status, s) = alt_irq_disable_all s;
         s = s\<lparr>alt_irq_active := alt_irq_active s OR push_bit (unat n) 1\<rparr>;
         s = s\<lparr>ienable := alt_irq_active s\<rparr>
     in (None, alt_irq_enable_all status s))"

definition alt_irq_interruptible :: "u32 \<Rightarrow> ('h, 'a) irqs_scheme \<Rightarrow> u32 \<times> ('h, 'a) irqs_scheme" where
  "alt_irq_interruptible priority s =
    (let old_priority = alt_priority_mask s;
         s = s\<lparr>alt_priority_mask := push_bit (unat priority) 1 - 1\<rparr>;
         s = s\<lparr>ienable := alt_irq_active s AND alt_priority_mask s\<rparr>;
         s = s\<lparr>cpu_status := 1\<rparr>
     in (old_priority, s))"

definition alt_irq_non_interruptible :: "u32 \<Rightarrow> ('h, 'a) irqs_scheme \<Rightarrow> ('h, 'a) irqs_scheme" where
  "alt_irq_non_interruptible m s =
    (let s = s\<lparr>cpu_status := 0\<rparr>;
         s = s\<lparr>alt_priority_mask := m\<rparr>
     in s\<lparr>ienable := m AND alt_irq_active s\<rparr>)"

subsection \<open>The enhanced API\<close>

definition alt_ic_irq_enable :: "u32 \<Rightarrow> u32 \<Rightarrow> ('h, 'a) irqs_scheme \<Rightarrow> rc \<times> ('h, 'a) irqs_scheme" where
  "alt_ic_irq_enable ic_id irq s = alt_irq_enable irq s"

definition alt_ic_irq_disable :: "u32 \<Rightarrow> u32 \<Rightarrow> ('h, 'a) irqs_scheme \<Rightarrow> rc \<times> ('h, 'a) irqs_scheme" where
  "alt_ic_irq_disable ic_id irq s = alt_irq_disable irq s"

definition alt_ic_irq_enabled :: "u32 \<Rightarrow> u32 \<Rightarrow> 'a bus_scheme \<Rightarrow> u32" where
  "alt_ic_irq_enabled ic_id irq s =
    (let irq_enabled = ienable s in if irq_enabled AND push_bit (unat irq) 1 \<noteq> 0 then 1 else 0)"

text \<open>The two stores \<open>alt_irq[id].handler = isr; alt_irq[id].context = isr_context\<close>.\<close>

definition set_handler :: "int \<Rightarrow> 'h option \<Rightarrow> u32 \<Rightarrow> ('h, 'a) irqs_scheme
    \<Rightarrow> ('h, 'a) irqs_scheme option" where
  "set_handler n isr ctx s =
    (if 0 \<le> n \<and> nat n < length (alt_irq s)
     then Some (s\<lparr>alt_irq := (alt_irq s)[nat n := (isr, ctx)]\<rparr>) else None)"

text \<open>The interrupt number arrives as \<open>alt_u32\<close> and is compared as \<open>int\<close>.\<close>

definition alt_iic_isr_register :: "u32 \<Rightarrow> u32 \<Rightarrow> 'h option \<Rightarrow> u32 \<Rightarrow> ('h, 'a) irqs_scheme
    \<Rightarrow> (rc \<times> ('h, 'a) irqs_scheme) option" where
  "alt_iic_isr_register ic_id irq isr isr_context s =
    (let n = sint irq in
     if n < int ALT_NIRQ then do {
       let (status, s) = alt_irq_disable_all s;
       s \<leftarrow> set_handler n isr isr_context s;
       let (rc, s) = (if isr \<noteq> None then alt_ic_irq_enable ic_id (word_of_int n) s
                      else alt_ic_irq_disable ic_id (word_of_int n) s);
       Some (rc, alt_irq_enable_all status s)
     } else Some (Some EINVAL, s))"

definition alt_ic_isr_register :: "u32 \<Rightarrow> u32 \<Rightarrow> 'h option \<Rightarrow> u32 \<Rightarrow> ('h, 'a) irqs_scheme
    \<Rightarrow> (rc \<times> ('h, 'a) irqs_scheme) option" where
  "alt_ic_isr_register ic_id irq isr isr_context s = alt_iic_isr_register ic_id irq isr isr_context s"

text \<open>The legacy entry compares the number unsigned.\<close>

definition alt_irq_register :: "u32 \<Rightarrow> u32 \<Rightarrow> 'h option \<Rightarrow> ('h, 'a) irqs_scheme
    \<Rightarrow> (rc \<times> ('h, 'a) irqs_scheme) option" where
  "alt_irq_register n ctx handler s =
    (if unat n < ALT_NIRQ then do {
       let (status, s) = alt_irq_disable_all s;
       s \<leftarrow> set_handler (uint n) handler ctx s;
       let (rc, s) = (if handler \<noteq> None then alt_irq_enable n s else alt_irq_disable n s);
       Some (rc, alt_irq_enable_all status s)
     } else Some (Some EINVAL, s))"

subsection \<open>The dispatcher\<close>

partial_function (option) irq_scan :: "u32 \<Rightarrow> u32 \<Rightarrow> nat \<Rightarrow> nat option" where
  "irq_scan active m i =
    (if active AND m \<noteq> 0 then Some i else irq_scan active (push_bit 1 m) (i + 1))"

partial_function (option) alt_irq_dispatch ::
  "('h \<Rightarrow> u32 \<Rightarrow> ('h, 'a) irqs_scheme \<Rightarrow> ('h, 'a) irqs_scheme option) \<Rightarrow> u32
    \<Rightarrow> ('h, 'a) irqs_scheme \<Rightarrow> ('h, 'a) irqs_scheme option" where
  "alt_irq_dispatch run active s = do {
     i \<leftarrow> irq_scan active 1 0;
     s \<leftarrow> (if i < length (alt_irq s) then
             (case alt_irq s ! i of (None, _) \<Rightarrow> None | (Some h, ctx) \<Rightarrow> run h ctx s)
           else None);
     (case alt_irq_pending s of
        (active, s) \<Rightarrow> if active \<noteq> 0 then alt_irq_dispatch run active s else Some s) }"

definition alt_irq_handler ::
  "('h \<Rightarrow> u32 \<Rightarrow> ('h, 'a) irqs_scheme \<Rightarrow> ('h, 'a) irqs_scheme option)
    \<Rightarrow> ('h, 'a) irqs_scheme \<Rightarrow> ('h, 'a) irqs_scheme option" where
  "alt_irq_handler run s = (let (active, s) = alt_irq_pending s in alt_irq_dispatch run active s)"

subsection \<open>Lemmas\<close>

lemma sint_small: "unat irq < 32 \<Longrightarrow> sint irq = int (unat irq)" for irq :: u32
proof -
  assume "unat irq < 32"
  then have "int (unat irq) < 32" by linarith
  then have "uint irq < 32" by simp
  then have "signed_take_bit 31 (uint irq) = uint irq"
    by (intro signed_take_bit_int_eq_self) (auto intro: order_trans [of _ 0])
  then show ?thesis by (simp add: sint_uint)
qed

lemma sint_negative: "0x80000000 \<le> irq \<Longrightarrow> sint irq < 0" for irq :: u32
proof -
  assume "0x80000000 \<le> irq"
  then have "0x80000000 \<le> uint irq" by (simp add: word_le_def)
  moreover have "uint irq < 2 ^ 32" by (rule order_less_le_trans [OF uint_lt2p]) simp
  ultimately have "uint irq div 2 ^ 31 = 1" by simp
  then have "bit (uint irq) 31" by (simp add: bit_iff_odd)
  then show ?thesis by (simp add: sint_uint)
qed

lemma irq_scan_step: "irq_scan active (2 ^ i) i =
    (if bit active i then Some i else irq_scan active (2 ^ Suc i) (Suc i))"
  by (subst irq_scan.simps) (simp add: and_exp_eq_0_iff_not_bit push_bit_eq_mult mult.commute)

lemma irq_scan_finds:
  "bit active (i + k) \<Longrightarrow> \<forall>j<k. \<not> bit active (i + j) \<Longrightarrow> irq_scan active (2 ^ i) i = Some (i + k)"
proof (induction k arbitrary: i)
  case 0
  then show ?case by (subst irq_scan_step) simp
next
  case (Suc k)
  have "irq_scan active (2 ^ Suc i) (Suc i) = Some (Suc i + k)"
  proof (rule Suc.IH)
    show "bit active (Suc i + k)" using Suc.prems(1) by simp
    show "\<forall>j<k. \<not> bit active (Suc i + j)"
      using Suc.prems(2) by (metis Suc_mono add_Suc add_Suc_right)
  qed
  moreover have "\<not> bit active i" using Suc.prems(2) by auto
  ultimately show ?case by (subst irq_scan_step) simp
qed

lemma irq_scan_lowest:
  assumes "active \<noteq> 0"
  shows "irq_scan active 1 0 = Some (LEAST i. bit active i)"
proof -
  let ?l = "LEAST i. bit active i"
  obtain i where "bit active i" using word_nonzero_bit [OF assms] ..
  then have "bit active ?l" by (rule LeastI)
  moreover have "\<forall>j<?l. \<not> bit active j" using not_less_Least by blast
  ultimately have "irq_scan active (2 ^ 0) 0 = Some (0 + ?l)"
    by (intro irq_scan_finds) (simp_all only: add_0)
  then show ?thesis by (simp only: power_0 add_0)
qed

lemma irq_scan_idle: "irq_scan active m i = Some n \<Longrightarrow> active \<noteq> 0"
proof (induction rule: irq_scan.raw_induct [rotated, consumes 1, case_names step])
  case (step f active m i n)
  show ?case
  proof (cases "active AND m = 0")
    case True
    with step(2) have "f active (push_bit 1 m) (i + 1) = Some n" by (simp del: push_bit_of_Suc_0)
    then show ?thesis by (rule step(1))
  qed auto
qed

lemma irq_scan_0 [simp]: "irq_scan 0 m i = None"
  using irq_scan_idle [of 0 m i] by (cases "irq_scan 0 m i") auto

lemma isr_register_value:
  assumes "unat irq < 32" "length (alt_irq s) = 32"
  shows "alt_ic_isr_register ic irq (Some h) ctx s = Some (None,
    s\<lparr>alt_irq := (alt_irq s)[unat irq := (Some h, ctx)],
      alt_irq_active := alt_irq_active s OR push_bit (unat irq) 1,
      ienable := alt_irq_active s OR push_bit (unat irq) 1\<rparr>)"
proof -
  have "sint irq = int (unat irq)" using assms(1) by (rule sint_small)
  moreover have "int (unat irq) < 32" using assms(1) by linarith
  ultimately show ?thesis using assms
    by (simp add: Let_def alt_ic_isr_register_def alt_iic_isr_register_def ALT_NIRQ_def set_handler_def
        alt_irq_disable_all_def alt_irq_enable_all_def alt_ic_irq_enable_def alt_irq_enable_def)
qed

subsection \<open>Properties\<close>

text \<open>Registering a handler for one of the 32 interrupts replaces exactly that
  entry of the table, enables the interrupt at the processor, leaves the global
  interrupt enable as it was and reports success.\<close>
theorem isr_register_effect:
  assumes "unat irq < 32" "length (alt_irq s) = 32"
  shows "alt_ic_isr_register ic irq (Some h) ctx s = Some (None,
    s\<lparr>alt_irq := (alt_irq s)[unat irq := (Some h, ctx)],
      alt_irq_active := alt_irq_active s OR push_bit (unat irq) 1,
      ienable := alt_irq_active s OR push_bit (unat irq) 1\<rparr>)"
  by (rule isr_register_value [OF assms])

definition boot_irqs :: "fn irqs" where
  "boot_irqs = \<lparr>hw = (\<lambda>_ _. 0), ipend = (\<lambda>es. if es = [] then 6 else 0), trace = [], cpu_status = 1, ienable = 0,
     alt_irq_active = 0, alt_priority_mask = 0, alt_irq = replicate 32 (Some Timeout_isr, 0)\<rparr>"

lemma isr_register_effect_witness:
  "\<exists>s'. alt_ic_isr_register 0 2 (Some Timeout_isr) 0 boot_irqs = Some (None, s') \<and> ienable s' = 4"
  using isr_register_effect [of 2 boot_irqs 0 Timeout_isr 0] by (simp add: boot_irqs_def)

text \<open>A number with the top bit set passes the guard, because it is compared as a
  signed \<open>int\<close>, and the handler table is then accessed out of bounds; the legacy
  entry rejects the same number.\<close>
theorem isr_register_negative:
  assumes "0x80000000 \<le> irq"
  shows "alt_ic_isr_register ic irq isr ctx s = None \<and>
    alt_irq_register irq ctx isr s = Some (Some EINVAL, s)"
  using sint_negative [OF assms] word_le_nat_alt [THEN iffD1, OF assms]
  by (auto simp: alt_ic_isr_register_def alt_iic_isr_register_def alt_irq_register_def ALT_NIRQ_def
      set_handler_def Let_def split: prod.splits)

lemma isr_register_negative_witness:
  "alt_ic_isr_register 0 0xFFFFFFFF (Some Timeout_isr) 0 boot_irqs = None"
  using isr_register_negative [of "0xFFFFFFFF" 0 "Some Timeout_isr" 0 boot_irqs] by simp

text \<open>C15: the dispatcher runs the handler of the lowest numbered pending interrupt, and goes
  on until none is pending.\<close>
theorem irq_handler_lowest_first:
  assumes "alt_irq_pending s = (active, s1)" "active \<noteq> 0"
    and "i = (LEAST i. bit active i)" "length (alt_irq s1) = 32" "alt_irq s1 ! i = (Some h, ctx)"
  shows "alt_irq_handler run s =
    do { s2 \<leftarrow> run h ctx s1;
         (case alt_irq_pending s2 of (active', s3) \<Rightarrow>
            if active' \<noteq> 0 then alt_irq_dispatch run active' s3 else Some s3) }"
proof -
  have "i < 32"
  proof -
    obtain j where "bit active j" using word_nonzero_bit [OF assms(2)] ..
    then have "bit active i" using assms(3) LeastI by metis
    then show ?thesis using bit_imp_le_length by fastforce
  qed
  then show ?thesis using assms
    by (simp add: alt_irq_handler_def irq_scan_lowest alt_irq_dispatch.simps [of run active]
        split: prod.splits)
qed

lemma irq_handler_lowest_first_witness:
  "alt_irq_handler (\<lambda>h ctx s. Some (s\<lparr>cpu_status := 7\<rparr>)) boot_irqs \<noteq> None"
proof -
  have "(LEAST i. bit (6 :: u32) i) = 1"
    by (rule Least_equality) (auto simp: bit_iff_odd not_less_eq_eq intro!: Suc_leI gr0I)
  then show ?thesis
    using irq_handler_lowest_first [of boot_irqs 6 "snd (alt_irq_pending boot_irqs)" 1 Timeout_isr 0
        "\<lambda>h ctx s. Some (s\<lparr>cpu_status := 7\<rparr>)"]
    by (simp add: boot_irqs_def alt_irq_pending_def log_ev_def)
qed

text \<open>Entered with no interrupt pending, the dispatcher never returns: the inner
  scan shifts its mask out of the word.\<close>
theorem irq_handler_spurious:
  "ipend s (trace s) = 0 \<Longrightarrow> alt_irq_handler run s = None"
  by (simp add: alt_irq_handler_def alt_irq_pending_def alt_irq_dispatch.simps)

lemma irq_handler_spurious_witness:
  "alt_irq_handler (\<lambda>h ctx s. Some s) (boot_irqs\<lparr>ipend := \<lambda>_. 0\<rparr>) = None"
  by (rule irq_handler_spurious) simp

end
