(* ===== verification/DevList.thy ===== *)
theory DevList
  imports Irq
begin

text \<open>
  The HAL's circular doubly linked lists (\<open>HAL/inc/sys/alt_llist.h\<close>) and the device
  registry built on them (\<open>alt_dev_llist_insert.c\<close>, \<open>alt_find_dev.c\<close>,
  \<open>alt_fs_reg.c\<close>, \<open>alt_find_file.c\<close>).  The heap is the two pointer fields of every
  element and the name every device carries (\<open>None\<close> is a null name); the abstract view
  is the HOL list of the elements between head and head.  An operation that would
  follow a null name, read beyond a string or walk for ever is \<open>None\<close>.
\<close>

record 'p heap =
  nxt :: "'p \<Rightarrow> 'p"
  previous :: "'p \<Rightarrow> 'p"
  dev_name :: "'p \<Rightarrow> string option"

subsection \<open>The code\<close>

definition alt_llist_insert :: "'p \<Rightarrow> 'p \<Rightarrow> ('p, 'a) heap_scheme \<Rightarrow> ('p, 'a) heap_scheme" where
  "alt_llist_insert l entry h =
    (let h = h\<lparr>previous := (previous h)(entry := l)\<rparr>;
         h = h\<lparr>nxt := (nxt h)(entry := nxt h l)\<rparr>;
         h = h\<lparr>previous := (previous h)(nxt h l := entry)\<rparr>;
         h = h\<lparr>nxt := (nxt h)(l := entry)\<rparr>
     in h)"

definition alt_llist_remove :: "'p \<Rightarrow> ('p, 'a) heap_scheme \<Rightarrow> ('p, 'a) heap_scheme" where
  "alt_llist_remove entry h =
    (let h = h\<lparr>previous := (previous h)(nxt h entry := previous h entry)\<rparr>;
         h = h\<lparr>nxt := (nxt h)(previous h entry := nxt h entry)\<rparr>;
         h = h\<lparr>previous := (previous h)(entry := entry)\<rparr>;
         h = h\<lparr>nxt := (nxt h)(entry := entry)\<rparr>
     in h)"

text \<open>A device argument that may be null is an option; \<open>e\<close> is the variable \<open>ALT_ERRNO\<close>.\<close>

definition alt_dev_llist_insert ::
  "'p option \<Rightarrow> 'p \<Rightarrow> errno option \<Rightarrow> 'p heap \<Rightarrow> rc \<times> errno option \<times> 'p heap" where
  "alt_dev_llist_insert dev l e h = (case dev of
     None \<Rightarrow> (Some EINVAL, Some EINVAL, h)
   | Some d \<Rightarrow> if dev_name h d = None then (Some EINVAL, Some EINVAL, h)
               else (None, e, alt_llist_insert l d h))"

definition alt_fs_reg :: "'p \<Rightarrow> 'p \<Rightarrow> 'p heap \<Rightarrow> rc \<times> 'p heap" where
  "alt_fs_reg alt_fs_list dev h =
    (if dev_name h dev = None then (Some ENODEV, h)
     else (None, alt_llist_insert alt_fs_list dev h))"

text \<open>\<open>memcmp(next->name, name, strlen(name) + 1)\<close> is 0 when the two strings, their
  terminating zeros included, agree.\<close>

partial_function (option) find_dev_from :: "'p heap \<Rightarrow> string \<Rightarrow> 'p \<Rightarrow> 'p \<Rightarrow> 'p option option" where
  "find_dev_from h name l next =
    (if next \<noteq> l then
       (case dev_name h next of
          None \<Rightarrow> None
        | Some nm \<Rightarrow> if nm = name then Some (Some next) else find_dev_from h name l (nxt h next))
     else Some None)"

definition alt_find_dev :: "string \<Rightarrow> 'p \<Rightarrow> 'p heap \<Rightarrow> 'p option option" where
  "alt_find_dev name l h = find_dev_from h name l (nxt h l)"

text \<open>The test of one file system: \<open>len\<close> is the length of its name without a final
  slash; \<open>name[len]\<close> is read before the prefix is compared, and is out of bounds when
  \<open>name\<close> is shorter.\<close>

definition fs_matches :: "string \<Rightarrow> string \<Rightarrow> bool option" where
  "fs_matches fs name =
    (let len = length fs in
     if len = 0 then None else
     let len = (if fs ! (len - 1) = CHR ''/'' then len - 1 else len) in
     if len > length name then None
     else Some ((len = length name \<or> name ! len = CHR ''/'') \<and> take len fs = take len name))"

partial_function (option) find_file_from :: "'p heap \<Rightarrow> string \<Rightarrow> 'p \<Rightarrow> 'p \<Rightarrow> 'p option option" where
  "find_file_from h name l next =
    (if next \<noteq> l then
       (case dev_name h next of
          None \<Rightarrow> None
        | Some nm \<Rightarrow> do {
            m \<leftarrow> fs_matches nm name;
            if m then Some (Some next) else find_file_from h name l (nxt h next) })
     else Some None)"

definition alt_find_file :: "'p \<Rightarrow> string \<Rightarrow> 'p heap \<Rightarrow> 'p option option" where
  "alt_find_file alt_fs_list name h = find_file_from h name alt_fs_list (nxt h alt_fs_list)"

subsection \<open>The abstraction: a HOL list\<close>

fun dchain :: "('p, 'a) heap_scheme \<Rightarrow> 'p list \<Rightarrow> bool" where
  "dchain h (a # b # xs) \<longleftrightarrow> nxt h a = b \<and> previous h b = a \<and> dchain h (b # xs)"
| "dchain h _ \<longleftrightarrow> True"

definition dlist :: "('p, 'a) heap_scheme \<Rightarrow> 'p \<Rightarrow> 'p list \<Rightarrow> bool" where
  "dlist h l xs \<longleftrightarrow> distinct (l # xs) \<and> dchain h (l # xs @ [l])"

lemma dchain_append:
  "dchain h (xs @ a # ys) \<longleftrightarrow> dchain h (xs @ [a]) \<and> dchain h (a # ys)"
proof (induction xs)
  case (Cons x xs)
  then show ?case by (cases xs) auto
qed simp

lemma dchain_cong:
  "dchain h xs \<Longrightarrow> \<forall>x\<in>set (butlast xs). nxt h' x = nxt h x
    \<Longrightarrow> \<forall>x\<in>set (tl xs). previous h' x = previous h x \<Longrightarrow> dchain h' xs"
  by (induction h xs rule: dchain.induct) (auto split: if_splits)

lemma dlist_next: "dlist h l xs \<Longrightarrow> nxt h l = hd (xs @ [l])"
  by (cases xs) (auto simp: dlist_def)

lemma insert_dlist:
  assumes "dlist h l xs" "e \<noteq> l" "e \<notin> set xs"
  shows "dlist (alt_llist_insert l e h) l (e # xs)"
proof (cases xs)
  case Nil
  with assms show ?thesis by (auto simp: dlist_def alt_llist_insert_def Let_def)
next
  case (Cons x ys)
  let ?h = "alt_llist_insert l e h"
  from assms Cons have d: "distinct (l # x # ys)" "nxt h l = x" "dchain h (x # ys @ [l])"
    and e: "e \<noteq> x" "e \<notin> set ys" by (auto simp: dlist_def)
  have "dchain ?h (x # ys @ [l])"
    by (rule dchain_cong [OF d(3)])
      (use d e assms(2) in \<open>auto simp: alt_llist_insert_def Let_def butlast_append\<close>)
  moreover have "nxt ?h l = e" "previous ?h e = l" "nxt ?h e = x" "previous ?h x = e"
    using d e assms(2) by (auto simp: alt_llist_insert_def Let_def)
  ultimately show ?thesis using Cons assms by (auto simp: dlist_def)
qed

lemma remove_fields:
  assumes "nxt h e = q" "previous h e = p" "p \<noteq> e" "q \<noteq> e"
  shows "nxt (alt_llist_remove e h) = (nxt h)(p := q, e := e)"
    and "previous (alt_llist_remove e h) = (previous h)(q := p, e := e)"
  using assms by (auto simp: alt_llist_remove_def Let_def)

lemma remove_dlist:
  assumes "dlist h l (as @ e # bs)"
  shows "dlist (alt_llist_remove e h) l (as @ bs)"
proof -
  let ?h = "alt_llist_remove e h"
  define p ps where "p = last (l # as)" and "ps = butlast (l # as)"
  then have p: "l # as = ps @ [p]" by (simp only: append_butlast_last_id list.distinct not_False_eq_True)
  obtain q qs where q: "bs @ [l] = q # qs" by (cases bs) auto
  have d: "distinct (l # as @ e # bs)" using assms by (simp add: dlist_def)
  have "l # (as @ e # bs) @ [l] = ps @ p # e # q # qs"
    using arg_cong [OF p, of "\<lambda>x. x @ e # bs @ [l]"] q by simp
  then have "dchain h (ps @ p # e # q # qs)" using assms by (simp only: dlist_def)
  then have c: "dchain h (ps @ [p])" "nxt h e = q" "previous h e = p" "dchain h (q # qs)"
    using dchain_append [of h ps p "e # q # qs"] by simp_all
  have "distinct (ps @ [p])" "set (l # as) = set (ps @ [p])"
    using d by (simp_all only: flip: p) simp
  then have p_in: "p \<in> set (l # as)" and p_notin: "p \<notin> set ps" and psub: "set ps \<subseteq> set (l # as)"
    by auto
  have "distinct (q # qs)" "set (bs @ [l]) = set (q # qs)"
    using d by (simp_all only: flip: q) auto
  then have q_in: "q \<in> set (bs @ [l])" and q_notin: "q \<notin> set qs" and qsub: "set qs \<subseteq> set (bs @ [l])"
    by auto
  have ne: "p \<noteq> e" "q \<noteq> e" using p_in q_in d by auto
  note f = remove_fields [OF c(2,3) ne]
  have tlp: "tl (ps @ [p]) = as" using p by (metis list.sel(3))
  have blq: "butlast (q # qs) = bs" using q by (metis butlast_snoc)
  have "dchain ?h (ps @ [p])"
    by (rule dchain_cong [OF c(1)])
      (use tlp p_notin psub q_in d in \<open>auto simp: f butlast_append\<close>)
  moreover have "dchain ?h (q # qs)"
    by (rule dchain_cong [OF c(4)])
      (use blq q_notin qsub p_in d in \<open>auto simp: f\<close>)
  moreover have "nxt ?h p = q" "previous ?h q = p" using ne by (simp_all add: f)
  ultimately have "dchain ?h (ps @ p # q # qs)" using dchain_append [of ?h ps p "q # qs"] by simp
  moreover have "l # (as @ bs) @ [l] = ps @ p # q # qs"
    using arg_cong [OF p, of "\<lambda>x. x @ bs @ [l]"] q by simp
  ultimately show ?thesis using d by (simp add: dlist_def)
qed

lemma remove_unlinked:
  "nxt h e = e \<Longrightarrow> previous h e = e \<Longrightarrow> alt_llist_remove e h = h"
  by (simp add: alt_llist_remove_def Let_def fun_upd_idem)

lemma remove_self:
  assumes "dlist h l (as @ e # bs)"
  shows "nxt (alt_llist_remove e h) e = e" "previous (alt_llist_remove e h) e = e"
  by (simp_all add: alt_llist_remove_def Let_def)

lemma names_kept [simp]:
  "dev_name (alt_llist_insert l e h) = dev_name h"
  "dev_name (alt_llist_remove e h) = dev_name h"
  by (simp_all add: alt_llist_insert_def alt_llist_remove_def Let_def)

subsection \<open>Lookup\<close>

lemma find_dev_from_list:
  assumes "dchain h (x # xs @ [l])" "l \<notin> set xs" "\<forall>p\<in>set xs. dev_name h p \<noteq> None"
  shows "find_dev_from h name l (nxt h x) = Some (find (\<lambda>p. dev_name h p = Some name) xs)"
  using assms
proof (induction xs arbitrary: x)
  case Nil
  then show ?case by (subst find_dev_from.simps) simp
next
  case (Cons y ys)
  have "nxt h x = y" using Cons.prems(1) by simp
  moreover have "find_dev_from h name l (nxt h y) = Some (find (\<lambda>p. dev_name h p = Some name) ys)"
    by (rule Cons.IH) (use Cons.prems in auto)
  ultimately show ?case using Cons.prems
    by (subst find_dev_from.simps) (auto split: option.splits)
qed

lemma find_dev_list:
  assumes "dlist h l xs" "\<forall>p\<in>set xs. dev_name h p \<noteq> None"
  shows "alt_find_dev name l h = Some (find (\<lambda>p. dev_name h p = Some name) xs)"
  using find_dev_from_list [of h l xs l name] assms by (auto simp: alt_find_dev_def dlist_def)

definition registry :: "'p \<Rightarrow> 'p heap \<Rightarrow> 'p set \<Rightarrow> bool" where
  "registry l h ps \<longleftrightarrow> (\<exists>xs. dlist h l xs \<and> set xs = ps \<and> (\<forall>p\<in>ps. dev_name h p \<noteq> None))"

text \<open>What the drivers rely on: a device is found under its name once it has been
  registered, and registering another device does not change that.\<close>

locale device_registry =
  fixes reg :: "'p \<Rightarrow> 'h \<Rightarrow> 'h"
    and look :: "string \<Rightarrow> 'h \<Rightarrow> 'p option option"
    and nm :: "'h \<Rightarrow> 'p \<Rightarrow> string option"
    and wf :: "'h \<Rightarrow> 'p set \<Rightarrow> bool"
    and fresh :: "'p \<Rightarrow> bool"
  assumes reg_wf: "wf h ps \<Longrightarrow> fresh p \<Longrightarrow> p \<notin> ps \<Longrightarrow> nm h p = Some s \<Longrightarrow> wf (reg p h) (insert p ps)"
    and reg_nm: "nm (reg p h) = nm h"
    and look_reg: "wf h ps \<Longrightarrow> fresh p \<Longrightarrow> p \<notin> ps \<Longrightarrow> nm h p = Some s \<Longrightarrow>
      look n (reg p h) = (if n = s then Some (Some p) else look n h)"
    and look_total: "wf h ps \<Longrightarrow> \<exists>r. look n h = Some r"
begin

lemma look_two:
  assumes "wf h ps" "fresh p" "fresh q" "p \<notin> ps" "q \<notin> ps" "p \<noteq> q" "nm h p = Some s" "nm h q = Some t" "s \<noteq> t"
  shows "look s (reg q (reg p h)) = Some (Some p) \<and> look t (reg q (reg p h)) = Some (Some q)"
proof -
  have "wf (reg p h) (insert p ps)" using assms by (intro reg_wf)
  then show ?thesis using assms look_reg [of h ps p s] look_reg [of "reg p h" "insert p ps" q t]
    by (simp add: reg_nm)
qed

end

lemma registry_insert:
  assumes "registry l h ps" "p \<noteq> l" "p \<notin> ps" "dev_name h p = Some s"
  shows "registry l (alt_llist_insert l p h) (insert p ps)"
    and "alt_find_dev n l (alt_llist_insert l p h) = (if n = s then Some (Some p) else alt_find_dev n l h)"
proof -
  from assms(1) obtain xs where xs: "dlist h l xs" "set xs = ps" "\<forall>p\<in>ps. dev_name h p \<noteq> None"
    by (auto simp: registry_def)
  have d: "dlist (alt_llist_insert l p h) l (p # xs)" using insert_dlist [OF xs(1)] assms xs(2) by simp
  then show "registry l (alt_llist_insert l p h) (insert p ps)"
    unfolding registry_def by (intro exI [of _ "p # xs"]) (use xs assms in simp)
  show "alt_find_dev n l (alt_llist_insert l p h) = (if n = s then Some (Some p) else alt_find_dev n l h)"
    using find_dev_list [OF d, of n] find_dev_list [OF xs(1), of n] xs(2,3) assms(4) by auto
qed

interpretation sgdma_registry: device_registry
  "alt_llist_insert l" "\<lambda>n. alt_find_dev n l" dev_name "registry l" "\<lambda>p. p \<noteq> l"
  for l
proof unfold_locales
  show "registry l h ps \<Longrightarrow> \<exists>r. alt_find_dev n l h = Some r" for h :: "'a heap" and ps n
    using find_dev_list [of h l _ n] by (auto simp: registry_def)
qed (simp_all add: registry_insert)

subsection \<open>Properties\<close>

text \<open>C14: on a well-formed list, \<open>alt_llist_insert\<close> is Cons, \<open>alt_llist_remove\<close> removes exactly
  its element, and removing that element again changes nothing.\<close>
theorem llist_refines_list:
  assumes "dlist h l (as @ e # bs)" "x \<noteq> l" "x \<notin> set (as @ e # bs)"
  shows "dlist (alt_llist_insert l x h) l (x # as @ e # bs)
    \<and> dlist (alt_llist_remove e h) l (as @ bs)
    \<and> alt_llist_remove e (alt_llist_remove e h) = alt_llist_remove e h"
  using insert_dlist [OF assms] remove_dlist [OF assms(1)] remove_self [OF assms(1)]
  by (simp add: remove_unlinked)

lemma llist_refines_list_witness:
  "dlist (alt_llist_remove 1 \<lparr>nxt = (\<lambda>p. 1 - p), previous = (\<lambda>p. 1 - p), dev_name = (\<lambda>_. None)\<rparr>) (0 :: nat) []"
  using llist_refines_list [of "\<lparr>nxt = (\<lambda>p. 1 - p), previous = (\<lambda>p. 1 - p), dev_name = (\<lambda>_. None)\<rparr>" "0 :: nat" "[]" 1 "[]" 2]
  by (simp add: dlist_def)

text \<open>\<open>alt_find_dev\<close> ends on every well-formed list of named devices, and returns the first
  device whose name is exactly the one asked for, or null when there is none.\<close>
theorem find_dev_first_match:
  assumes "dlist h l xs" "\<forall>p\<in>set xs. dev_name h p \<noteq> None"
  shows "alt_find_dev name l h = Some (find (\<lambda>p. dev_name h p = Some name) xs)"
  by (rule find_dev_list [OF assms])

lemma find_dev_first_match_witness:
  "alt_find_dev ''b'' (0 :: nat) \<lparr>nxt = (\<lambda>p. 1 - p), previous = (\<lambda>p. 1 - p), dev_name = (\<lambda>_. Some ''a'')\<rparr> = Some None"
  using find_dev_first_match [of "\<lparr>nxt = (\<lambda>p. 1 - p), previous = (\<lambda>p. 1 - p), dev_name = (\<lambda>_. Some ''a'')\<rparr>" "0 :: nat" "[1]" "''b''"]
  by (simp add: dlist_def)

end
