(* ===== verification/Sgdma.thy ===== *)
theory Sgdma
  imports DevList
begin

text \<open>
  The scatter-gather DMA driver, \<open>drivers/src/altera_avalon_sgdma.c\<close>, with the
  register and descriptor layouts of its headers.  A descriptor is 32 bytes of on-chip
  memory the controller reads and writes as well, so its stores and loads are bus
  accesses.  The system state \<open>dsys\<close> adds to the interrupt state the device structures
  of the two controllers and the registry of devices.
\<close>

record sgdma_dev =
  dev_base :: u32
  callback :: "fn option"
  callback_context :: u32
  chain_control :: u32

record dsys = "fn irqs" +
  dev_heap :: "u32 heap"
  sgdma_devs :: "u32 \<Rightarrow> sgdma_dev"
  alt_sgdma_list :: u32
  alt_errno :: "errno option"

abbreviation (input) "STATUS_BUSY_MSK \<equiv> (0x10 :: u32)"
abbreviation (input) "CONTROL_IE_GLOBAL_MSK \<equiv> (0x10 :: u32)"
abbreviation (input) "CONTROL_RUN_MSK \<equiv> (0x20 :: u32)"
abbreviation (input) "CONTROL_STOP_DMA_ER_MSK \<equiv> (0x40 :: u32)"
abbreviation (input) "CONTROL_SOFTWARERESET_MSK \<equiv> (0x10000 :: u32)"
abbreviation (input) "CONTROL_DESC_POLL_EN_MSK \<equiv> (0x40000 :: u32)"
abbreviation (input) "CONTROL_DESC_POLL_FREQ_MSK \<equiv> (0x7FF00000 :: u32)"
abbreviation (input) "DESC_CONTROL_OWNED_BY_HW_MSK \<equiv> (0x80 :: u8)"
abbreviation (input) "SGDMA_STATUS \<equiv> (0 :: u32)"
abbreviation (input) "SGDMA_CONTROL \<equiv> (4 :: u32)"
abbreviation (input) "SGDMA_NEXT_DESC_POINTER \<equiv> (8 :: u32)"

subsection \<open>Transfers\<close>

definition alt_avalon_sgdma_do_async_transfer ::
  "sgdma_dev \<Rightarrow> u32 \<Rightarrow> 'a bus_scheme \<Rightarrow> rc \<times> 'a bus_scheme" where
  "alt_avalon_sgdma_do_async_transfer dev desc s =
    (let (st, s) = iord (dev_base dev) SGDMA_STATUS s in
     if st AND STATUS_BUSY_MSK \<noteq> 0 then (Some EBUSY, s)
     else
       let (c, s) = iord (dev_base dev) SGDMA_CONTROL s;
           s = iowr (dev_base dev) SGDMA_CONTROL (c AND NOT CONTROL_RUN_MSK) s;
           s = iowr (dev_base dev) SGDMA_STATUS 0xFF s;
           s = iowr (dev_base dev) SGDMA_NEXT_DESC_POINTER desc s;
           s = (if callback dev \<noteq> None then
                  let (control, s) = iord (dev_base dev) SGDMA_CONTROL s;
                      control = control OR (chain_control dev OR CONTROL_RUN_MSK OR CONTROL_STOP_DMA_ER_MSK)
                  in iowr (dev_base dev) SGDMA_CONTROL control s
                else
                  let (control, s) = iord (dev_base dev) SGDMA_CONTROL s;
                      control = control OR (CONTROL_RUN_MSK OR CONTROL_STOP_DMA_ER_MSK);
                      control = control AND NOT CONTROL_IE_GLOBAL_MSK
                  in iowr (dev_base dev) SGDMA_CONTROL control s)
       in (None, s))"

definition sgdma_busy :: "u32 \<Rightarrow> 'a bus_scheme \<Rightarrow> bool \<times> 'a bus_scheme" where
  "sgdma_busy b s = (let (st, s) = iord b SGDMA_STATUS s in (st AND STATUS_BUSY_MSK \<noteq> 0, s))"

definition alt_avalon_sgdma_do_sync_transfer ::
  "sgdma_dev \<Rightarrow> u32 \<Rightarrow> 'a bus_scheme \<Rightarrow> (u8 \<times> 'a bus_scheme) option" where
  "alt_avalon_sgdma_do_sync_transfer dev desc s = do {
     s \<leftarrow> spin (sgdma_busy (dev_base dev)) s;
     let (c, s) = iord (dev_base dev) SGDMA_CONTROL s;
     let s = iowr (dev_base dev) SGDMA_CONTROL (c AND NOT CONTROL_RUN_MSK) s;
     let s = iowr (dev_base dev) SGDMA_STATUS 0xFF s;
     let s = iowr (dev_base dev) SGDMA_NEXT_DESC_POINTER desc s;
     let (c, s) = iord (dev_base dev) SGDMA_CONTROL s;
     let s = iowr (dev_base dev) SGDMA_CONTROL (CONTROL_RUN_MSK OR CONTROL_STOP_DMA_ER_MSK OR c) s;
     s \<leftarrow> spin (sgdma_busy (dev_base dev)) s;
     let (c, s) = iord (dev_base dev) SGDMA_CONTROL s;
     let s = iowr (dev_base dev) SGDMA_CONTROL (c AND NOT CONTROL_RUN_MSK) s;
     let (st, s) = iord (dev_base dev) SGDMA_STATUS s;
     let s = iowr (dev_base dev) SGDMA_STATUS 0xFF s;
     Some (ucast st, s) }"

subsection \<open>Descriptors\<close>

text \<open>The fields of a descriptor at \<open>desc\<close>: \<open>read_addr\<close> 0, \<open>read_addr_pad\<close> 4,
  \<open>write_addr\<close> 8, \<open>write_addr_pad\<close> 12, \<open>next\<close> 16, \<open>next_pad\<close> 20, \<open>bytes_to_transfer\<close> 24,
  \<open>read_burst\<close> 26, \<open>write_burst\<close> 27, \<open>actual_bytes_transferred\<close> 28, \<open>status\<close> 30,
  \<open>control\<close> 31.\<close>

definition desc_control :: "int \<Rightarrow> int \<Rightarrow> int \<Rightarrow> u8 \<Rightarrow> u8" where
  "desc_control generate_eop read_fixed write_fixed_or_sop atlantic_channel =
    (DESC_CONTROL_OWNED_BY_HW_MSK
     OR (if generate_eop \<noteq> 0 then 1 else 0)
     OR (if read_fixed \<noteq> 0 then 2 else 0)
     OR (if write_fixed_or_sop \<noteq> 0 then 4 else 0)
     OR (if atlantic_channel \<noteq> 0 then push_bit 3 (atlantic_channel AND 0x0F) else 0))"

definition alt_avalon_sgdma_construct_descriptor_burst ::
  "u32 \<Rightarrow> u32 \<Rightarrow> u32 \<Rightarrow> u32 \<Rightarrow> u16 \<Rightarrow> int \<Rightarrow> int \<Rightarrow> int \<Rightarrow> int \<Rightarrow> int \<Rightarrow> u8
    \<Rightarrow> 'a bus_scheme \<Rightarrow> 'a bus_scheme" where
  "alt_avalon_sgdma_construct_descriptor_burst desc next read_addr write_addr length_or_eop
      generate_eop read_fixed write_fixed_or_sop read_burst write_burst atlantic_channel s =
    (let (nc, s) = rd8 (next + 31) s;
         s = wr8 (next + 31) (nc AND NOT DESC_CONTROL_OWNED_BY_HW_MSK) s;
         s = wr32 desc read_addr s;
         s = wr32 (desc + 8) write_addr s;
         s = wr32 (desc + 16) next s;
         s = wr32 (desc + 4) 0 s;
         s = wr32 (desc + 12) 0 s;
         s = wr32 (desc + 20) 0 s;
         s = wr16 (desc + 24) length_or_eop s;
         s = wr16 (desc + 28) 0 s;
         s = wr8 (desc + 30) 0 s;
         s = wr8 (desc + 26) (word_of_int read_burst) s;
         s = wr8 (desc + 27) (word_of_int write_burst) s
     in wr8 (desc + 31) (desc_control generate_eop read_fixed write_fixed_or_sop atlantic_channel) s)"

definition alt_avalon_sgdma_construct_descriptor ::
  "u32 \<Rightarrow> u32 \<Rightarrow> u32 \<Rightarrow> u32 \<Rightarrow> u16 \<Rightarrow> int \<Rightarrow> int \<Rightarrow> int \<Rightarrow> u8
    \<Rightarrow> 'a bus_scheme \<Rightarrow> 'a bus_scheme" where
  "alt_avalon_sgdma_construct_descriptor desc next read_addr write_addr length_or_eop
      generate_eop read_fixed write_fixed_or_sop atlantic_channel s =
    alt_avalon_sgdma_construct_descriptor_burst desc next read_addr write_addr length_or_eop
      generate_eop read_fixed write_fixed_or_sop 0 0 atlantic_channel s"

definition alt_avalon_sgdma_construct_mem_to_mem_desc_burst ::
  "u32 \<Rightarrow> u32 \<Rightarrow> u32 \<Rightarrow> u32 \<Rightarrow> u16 \<Rightarrow> int \<Rightarrow> int \<Rightarrow> int \<Rightarrow> int
    \<Rightarrow> 'a bus_scheme \<Rightarrow> 'a bus_scheme" where
  "alt_avalon_sgdma_construct_mem_to_mem_desc_burst desc next read_addr write_addr len
      read_fixed write_fixed read_burst write_burst s =
    alt_avalon_sgdma_construct_descriptor_burst desc next read_addr write_addr len
      0 read_fixed write_fixed read_burst write_burst 0 s"

definition alt_avalon_sgdma_construct_mem_to_mem_desc ::
  "u32 \<Rightarrow> u32 \<Rightarrow> u32 \<Rightarrow> u32 \<Rightarrow> u16 \<Rightarrow> int \<Rightarrow> int \<Rightarrow> 'a bus_scheme \<Rightarrow> 'a bus_scheme" where
  "alt_avalon_sgdma_construct_mem_to_mem_desc desc next read_addr write_addr len
      read_fixed write_fixed s =
    alt_avalon_sgdma_construct_mem_to_mem_desc_burst desc next read_addr write_addr len
      read_fixed write_fixed 0 0 s"

definition alt_avalon_sgdma_construct_stream_to_mem_desc_burst ::
  "u32 \<Rightarrow> u32 \<Rightarrow> u32 \<Rightarrow> u16 \<Rightarrow> int \<Rightarrow> int \<Rightarrow> 'a bus_scheme \<Rightarrow> 'a bus_scheme" where
  "alt_avalon_sgdma_construct_stream_to_mem_desc_burst desc next write_addr length_or_eop
      write_fixed write_burst s =
    alt_avalon_sgdma_construct_descriptor_burst desc next 0 write_addr length_or_eop
      0 0 write_fixed 0 write_burst 0 s"

definition alt_avalon_sgdma_construct_stream_to_mem_desc ::
  "u32 \<Rightarrow> u32 \<Rightarrow> u32 \<Rightarrow> u16 \<Rightarrow> int \<Rightarrow> 'a bus_scheme \<Rightarrow> 'a bus_scheme" where
  "alt_avalon_sgdma_construct_stream_to_mem_desc desc next write_addr length_or_eop write_fixed s =
    alt_avalon_sgdma_construct_stream_to_mem_desc_burst desc next write_addr length_or_eop
      write_fixed 0 s"

definition alt_avalon_sgdma_construct_mem_to_stream_desc_burst ::
  "u32 \<Rightarrow> u32 \<Rightarrow> u32 \<Rightarrow> u16 \<Rightarrow> int \<Rightarrow> int \<Rightarrow> int \<Rightarrow> int \<Rightarrow> u8
    \<Rightarrow> 'a bus_scheme \<Rightarrow> 'a bus_scheme" where
  "alt_avalon_sgdma_construct_mem_to_stream_desc_burst desc next read_addr len
      read_fixed generate_sop generate_eop read_burst atlantic_channel s =
    alt_avalon_sgdma_construct_descriptor_burst desc next read_addr 0 len
      generate_eop read_fixed generate_sop read_burst 0 atlantic_channel s"

definition alt_avalon_sgdma_construct_mem_to_stream_desc ::
  "u32 \<Rightarrow> u32 \<Rightarrow> u32 \<Rightarrow> u16 \<Rightarrow> int \<Rightarrow> int \<Rightarrow> int \<Rightarrow> u8
    \<Rightarrow> 'a bus_scheme \<Rightarrow> 'a bus_scheme" where
  "alt_avalon_sgdma_construct_mem_to_stream_desc desc next read_addr len
      read_fixed generate_sop generate_eop atlantic_channel s =
    alt_avalon_sgdma_construct_mem_to_stream_desc_burst desc next read_addr len
      read_fixed generate_sop generate_eop 0 atlantic_channel s"

definition alt_avalon_sgdma_check_descriptor_status ::
  "u32 \<Rightarrow> 'a bus_scheme \<Rightarrow> rc \<times> 'a bus_scheme" where
  "alt_avalon_sgdma_check_descriptor_status desc s =
    (let (st, s) = rd8 (desc + 30) s in
     if st AND (0x1 OR 0x2 OR 0x4 OR 0x8 OR 0x10 OR 0x20 OR 0x40) \<noteq> 0 then (Some EIO, s)
     else
       let (c, s) = rd8 (desc + 31) s in
       if c AND DESC_CONTROL_OWNED_BY_HW_MSK \<noteq> 0 then (Some EINPROGRESS, s) else (None, s))"

subsection \<open>Control\<close>

definition alt_avalon_sgdma_register_callback ::
  "u32 \<Rightarrow> fn option \<Rightarrow> u32 \<Rightarrow> u32 \<Rightarrow> 'a dsys_scheme \<Rightarrow> 'a dsys_scheme" where
  "alt_avalon_sgdma_register_callback p cb control context s =
    s\<lparr>sgdma_devs := (sgdma_devs s)(p := (sgdma_devs s p)
       \<lparr>callback := cb, callback_context := context, chain_control := control\<rparr>)\<rparr>"

definition alt_avalon_sgdma_start :: "sgdma_dev \<Rightarrow> 'a bus_scheme \<Rightarrow> 'a bus_scheme" where
  "alt_avalon_sgdma_start dev s =
    (let (control, s) = iord (dev_base dev) SGDMA_CONTROL s;
         control = control OR CONTROL_RUN_MSK
     in iowr (dev_base dev) SGDMA_CONTROL control s)"

definition alt_avalon_sgdma_stop :: "sgdma_dev \<Rightarrow> 'a bus_scheme \<Rightarrow> 'a bus_scheme" where
  "alt_avalon_sgdma_stop dev s =
    (let (control, s) = iord (dev_base dev) SGDMA_CONTROL s;
         control = control AND NOT CONTROL_RUN_MSK
     in iowr (dev_base dev) SGDMA_CONTROL control s)"

definition alt_avalon_sgdma_enable_desc_poll ::
  "sgdma_dev \<Rightarrow> u32 \<Rightarrow> 'a bus_scheme \<Rightarrow> 'a bus_scheme" where
  "alt_avalon_sgdma_enable_desc_poll dev frequency s =
    (let (control, s) = iord (dev_base dev) SGDMA_CONTROL s;
         control = control AND NOT CONTROL_DESC_POLL_FREQ_MSK;
         control = control OR (CONTROL_DESC_POLL_EN_MSK
           OR (push_bit 20 frequency AND CONTROL_DESC_POLL_FREQ_MSK))
     in iowr (dev_base dev) SGDMA_CONTROL control s)"

definition alt_avalon_sgdma_disable_desc_poll :: "sgdma_dev \<Rightarrow> 'a bus_scheme \<Rightarrow> 'a bus_scheme" where
  "alt_avalon_sgdma_disable_desc_poll dev s =
    (let (control, s) = iord (dev_base dev) SGDMA_CONTROL s;
         control = control AND NOT CONTROL_DESC_POLL_EN_MSK
     in iowr (dev_base dev) SGDMA_CONTROL control s)"

text \<open>The result of \<open>alt_avalon_sgdma_open\<close> is the device or null (the inner option).\<close>

definition alt_avalon_sgdma_open :: "string \<Rightarrow> 'a dsys_scheme \<Rightarrow> (u32 option \<times> 'a dsys_scheme) option" where
  "alt_avalon_sgdma_open name s = do {
     dev \<leftarrow> alt_find_dev name (alt_sgdma_list s) (dev_heap s);
     let s = (if dev = None then s\<lparr>alt_errno := Some ENODEV\<rparr> else s);
     Some (dev, s) }"

text \<open>The interrupt handler; \<open>run\<close> is what calling the registered callback does.\<close>

definition alt_avalon_sgdma_irq ::
  "(fn \<Rightarrow> u32 \<Rightarrow> 'a dsys_scheme \<Rightarrow> 'a dsys_scheme option) \<Rightarrow> u32 \<Rightarrow> 'a dsys_scheme
    \<Rightarrow> 'a dsys_scheme option" where
  "alt_avalon_sgdma_irq run context s =
    (let dev = sgdma_devs s context;
         (c, s) = iord (dev_base dev) SGDMA_CONTROL s;
         s = iowr (dev_base dev) SGDMA_CONTROL (c OR 0x80000000) s;
         (_, s) = iord (dev_base dev) SGDMA_CONTROL s
     in (case callback dev of
           None \<Rightarrow> Some s
         | Some cb \<Rightarrow> do {
             let (cpu_sr, s) = alt_irq_disable_all s;
             s \<leftarrow> run cb (callback_context dev) s;
             Some (alt_irq_enable_all cpu_sr s) }))"

definition alt_avalon_sgdma_init :: "u32 \<Rightarrow> u32 \<Rightarrow> u32 \<Rightarrow> 'a dsys_scheme \<Rightarrow> 'a dsys_scheme option" where
  "alt_avalon_sgdma_init p ic_id irq s = do {
     let dev = sgdma_devs s p;
     let s = iowr (dev_base dev) SGDMA_CONTROL CONTROL_SOFTWARERESET_MSK s;
     let s = iowr (dev_base dev) SGDMA_CONTROL CONTROL_SOFTWARERESET_MSK s;
     let s = iowr (dev_base dev) SGDMA_CONTROL 0 s;
     let s = iowr (dev_base dev) SGDMA_STATUS 0xFF s;
     let (_, e, h) = alt_dev_llist_insert (Some p) (alt_sgdma_list s) (alt_errno s) (dev_heap s);
     let s = s\<lparr>dev_heap := h, alt_errno := e\<rparr>;
     (_, s) \<leftarrow> alt_ic_isr_register ic_id irq (Some Alt_avalon_sgdma_irq) p s;
     Some s }"

subsection \<open>Frames: what a driver call can change\<close>

lemma bus_only_iord: "bus_only a s \<Longrightarrow> iord b n s = (v, s') \<Longrightarrow> bus_only a s'"
  using bus_only_reads(3) [of a s b n] by simp

lemma bus_only_rd8: "bus_only a s \<Longrightarrow> rd8 b s = (v, s') \<Longrightarrow> bus_only a s'"
  using bus_only_reads(1) [of a s b] by simp

lemmas bus_only_steps = bus_only_iord bus_only_rd8 bus_only_ops

lemma async_bus_only: "bus_only s (snd (alt_avalon_sgdma_do_async_transfer dev desc s))"
  unfolding alt_avalon_sgdma_do_async_transfer_def Let_def
  by (auto split: prod.splits intro!: bus_only_ops elim!: bus_only_iord [rotated] intro: bus_only_refl)

lemma construct_bus_only:
  "bus_only s (alt_avalon_sgdma_construct_descriptor_burst desc next ra wa len ge rf wx rb wb ch s)"
  unfolding alt_avalon_sgdma_construct_descriptor_burst_def Let_def
  by (auto split: prod.splits intro!: bus_only_ops elim!: bus_only_rd8 [rotated] intro: bus_only_refl)

lemma check_quiet: "alt_avalon_sgdma_check_descriptor_status desc s = (r, s') \<Longrightarrow> quiet s s'"
  unfolding alt_avalon_sgdma_check_descriptor_status_def Let_def
  by (auto split: prod.splits if_splits dest!: rd8_quiet intro: quiet_trans)

lemma busy_quiet: "quiet s t \<Longrightarrow> quiet s (snd (sgdma_busy b t))"
  unfolding sgdma_busy_def Let_def
  by (auto split: prod.splits dest!: iord_quiet intro: quiet_trans)

lemma busy_step: "sgdma_busy b s = (c, t) \<Longrightarrow>
    length (trace s) < length (trace t) \<and> (c \<longleftrightarrow> hw s (trace s) b AND 0x10 \<noteq> 0)"
  by (auto simp: sgdma_busy_def iord_def rd32_def Let_def)

definition sgdma_idle :: "u32 \<Rightarrow> (u32 \<Rightarrow> u32) \<Rightarrow> bool" where
  "sgdma_idle b f \<longleftrightarrow> f b AND 0x10 = 0"

interpretation sgdma_wait: reading_poll "sgdma_busy b" "sgdma_idle b" for b
proof unfold_locales
  fix s :: "'a bus_scheme"
  show "length (trace s) < length (trace (snd (sgdma_busy b s)))"
    using busy_step [of b s] by (cases "sgdma_busy b s") auto
  assume "\<And>fs. \<forall>e\<in>set fs. \<not> is_wr e \<Longrightarrow> sgdma_idle b (hw s (fs @ trace s))"
  from this [of "[]"] show "\<not> fst (sgdma_busy b s)"
    using busy_step [of b s] by (cases "sgdma_busy b s") (auto simp: sgdma_idle_def)
qed (auto intro: busy_quiet)

subsection \<open>A sample state\<close>

text \<open>Two controllers, at 1 and 2, named as the board names them; \<open>busy\<close> is what their status
  registers read.\<close>

definition boot_dsys :: "u32 \<Rightarrow> dsys" where
  "boot_dsys busy = \<lparr>hw = (\<lambda>_ a. if a = 0x212440 then busy else 0), ipend = (\<lambda>_. 0), trace = [],
     cpu_status = 1, ienable = 0, alt_irq_active = 0, alt_priority_mask = 0, alt_irq = replicate 32 (None, 0),
     dev_heap = \<lparr>nxt = (\<lambda>p. p), previous = (\<lambda>p. p),
       dev_name = (\<lambda>p. if p = 1 then Some ''/dev/sgdma_0'' else Some ''/dev/sgdma_1'')\<rparr>,
     sgdma_devs = (\<lambda>_. \<lparr>dev_base = 0x212440, callback = Some Rx_ethernet_isr, callback_context = 5, chain_control = 0x14\<rparr>),
     alt_sgdma_list = 0, alt_errno = None\<rparr>"

subsection \<open>Properties\<close>

text \<open>A busy controller is left alone: the asynchronous transfer answers \<open>-EBUSY\<close>
  and has written nothing to any device.\<close>
theorem async_busy:
  assumes "hw s (trace s) (dev_base dev) AND 0x10 \<noteq> 0"
  shows "fst (alt_avalon_sgdma_do_async_transfer dev desc s) = Some EBUSY
    \<and> quiet s (snd (alt_avalon_sgdma_do_async_transfer dev desc s))"
  using assms unfolding alt_avalon_sgdma_do_async_transfer_def Let_def
  by (auto split: prod.splits dest!: iord_quiet)

lemma async_busy_witness:
  "fst (alt_avalon_sgdma_do_async_transfer (sgdma_devs (boot_dsys 0x10) 1) 0x210000 (boot_dsys 0x10)) = Some EBUSY"
  using async_busy [of "boot_dsys 0x10" "sgdma_devs (boot_dsys 0x10) 1"] by (simp add: boot_dsys_def)

text \<open>An idle controller is started by exactly four register writes, in this order:
  stop it, clear its status, give it the descriptor, start it.  The last control word
  has RUN and STOP\_DMA\_ER set, and the interrupt enables of the registered callback,
  or, with no callback, the global interrupt enable clear.\<close>
theorem async_idle:
  assumes idle: "hw s (trace s) (dev_base dev) AND 0x10 = 0"
    and run: "alt_avalon_sgdma_do_async_transfer dev desc s = (r, s')"
  shows "r = None \<and> (\<exists>c c'. writes s' =
      [Wr32 (dev_base dev + 16) c', Wr32 (dev_base dev + 32) desc,
       Wr32 (dev_base dev) 0xFF, Wr32 (dev_base dev + 16) c] @ writes s
    \<and> \<not> bit c 5 \<and> bit c' 5 \<and> bit c' 6
    \<and> (callback dev = None \<longrightarrow> \<not> bit c' 4)
    \<and> (callback dev \<noteq> None \<longrightarrow> c' AND chain_control dev = chain_control dev))"
proof -
  obtain st s1 where 1: "iord (dev_base dev) 0 s = (st, s1)" by fastforce
  obtain c s2 where 2: "iord (dev_base dev) 4 s1 = (c, s2)" by fastforce
  let ?s = "iowr (dev_base dev) 8 desc (iowr (dev_base dev) 0 0xFF
      (iowr (dev_base dev) 4 (c AND NOT 0x20) s2))"
  obtain d s3 where 3: "iord (dev_base dev) 4 ?s = (d, s3)" by fastforce
  have st: "st AND 0x10 = 0" using iord_quiet [OF 1] idle by simp
  have w: "writes s2 = writes s" "writes s3 = writes ?s"
    using 1 2 3 by (auto dest!: iord_quiet dest: quiet_writes quiet_trans)
  show ?thesis
  proof (cases "callback dev = None")
    case True
    let ?c = "(d OR (0x20 OR 0x40)) AND NOT 0x10"
    have "r = None" "s' = iowr (dev_base dev) 4 ?c s3"
      using run True st by (auto simp: alt_avalon_sgdma_do_async_transfer_def 1 2 3 [simplified])
    then show ?thesis using True w
      by (intro conjI exI [of _ "c AND NOT 0x20"] exI [of _ ?c]) (auto simp: bit_simps)
  next
    case False
    let ?c = "d OR (chain_control dev OR 0x20 OR 0x40)"
    have "r = None" "s' = iowr (dev_base dev) 4 ?c s3"
      using run False st by (auto simp: alt_avalon_sgdma_do_async_transfer_def 1 2 3 [simplified])
    moreover have "?c AND chain_control dev = chain_control dev"
      by (rule bit_word_eqI) (auto simp: bit_simps)
    ultimately show ?thesis using False w
      by (intro conjI exI [of _ "c AND NOT 0x20"] exI [of _ ?c]) (auto simp: bit_simps)
  qed
qed

lemma async_idle_witness:
  "fst (alt_avalon_sgdma_do_async_transfer (sgdma_devs (boot_dsys 0) 1) 0x210000 (boot_dsys 0)) = None"
  using async_idle [of "boot_dsys 0" "sgdma_devs (boot_dsys 0) 1" "0x210000", OF _ prod.collapse [symmetric]]
  by (auto simp: boot_dsys_def)

text \<open>The writes of the descriptor constructor, oldest last.\<close>

definition desc_writes :: "u32 \<Rightarrow> u32 \<Rightarrow> u8 \<Rightarrow> u32 \<Rightarrow> u32 \<Rightarrow> u16 \<Rightarrow> u8 \<Rightarrow> u8 \<Rightarrow> u8 \<Rightarrow> ioev list" where
  "desc_writes desc next nc ra wa len rb wb ctl =
    [Wr8 (desc + 31) ctl, Wr8 (desc + 27) wb, Wr8 (desc + 26) rb, Wr8 (desc + 30) 0,
     Wr16 (desc + 28) 0, Wr16 (desc + 24) len, Wr32 (desc + 20) 0, Wr32 (desc + 12) 0,
     Wr32 (desc + 4) 0, Wr32 (desc + 16) next, Wr32 (desc + 8) wa, Wr32 desc ra,
     Wr8 (next + 31) (nc AND NOT 0x80)]"

lemma construct_writes:
  "writes (alt_avalon_sgdma_construct_descriptor_burst desc next ra wa len ge rf wx rb wb ch s)
    = desc_writes desc next (ucast (hw s (trace s) (next + 31))) ra wa len (word_of_int rb)
        (word_of_int wb) (desc_control ge rf wx ch) @ writes s"
  by (simp add: alt_avalon_sgdma_construct_descriptor_burst_def desc_writes_def Let_def rd8_def)

lemma desc_control_owned: "desc_control ge rf wx ch AND 0x80 \<noteq> 0"
proof -
  have "bit (desc_control ge rf wx ch) 7" by (simp add: desc_control_def bit_simps)
  moreover have "bit (0x80 :: u8) 7" by simp
  ultimately have "bit (desc_control ge rf wx ch AND 0x80) 7" by (simp only: bit_and_iff simp_thms)
  then show ?thesis by (metis bit_0_eq bot_apply bot_bool_def)
qed

text \<open>Once a descriptor is built, a reader of the descriptor memory finds every field
  the caller asked for, the padding and the counters zero, the descriptor owned by the
  hardware, and, where the successor is another descriptor, the successor not owned.\<close>
theorem descriptor_contents:
  fixes s :: "'a bus_scheme" and m0 :: "u32 \<Rightarrow> u8"
  assumes m: "m = mem_after (writes (alt_avalon_sgdma_construct_descriptor_burst desc next ra wa len
      ge rf wx rb wb ch s)) m0"
    and nx: "next = desc + 32"
  shows "peek32 m desc = ra \<and> peek32 m (desc + 8) = wa \<and> peek32 m (desc + 16) = next
    \<and> peek32 m (desc + 4) = 0 \<and> peek32 m (desc + 12) = 0 \<and> peek32 m (desc + 20) = 0
    \<and> peek16 m (desc + 24) = len \<and> peek16 m (desc + 28) = 0 \<and> m (desc + 30) = 0
    \<and> m (desc + 31) = desc_control ge rf wx ch \<and> m (desc + 31) AND 0x80 \<noteq> 0
    \<and> m (next + 31) AND 0x80 = 0"
proof -
  have "(x AND NOT 0x80) AND 0x80 = 0" for x :: u8
    by (rule bit_word_eqI) (auto simp: bit_simps)
  then show ?thesis
    using desc_control_owned [of ge rf wx ch]
    unfolding m nx construct_writes
    by (simp add: desc_writes_def peek32_def peek16_def bytes_u32 bytes_u16 add.assoc)
qed

lemma descriptor_contents_witness:
  "peek32 (mem_after (writes (alt_avalon_sgdma_construct_descriptor_burst 0x210000 0x210020 0x1000 0 60
      1 0 1 0 0 0 (boot_dsys 0))) (\<lambda>_. 0)) 0x210000 = 0x1000"
  using descriptor_contents [OF refl, of "0x210020" "0x210000" "0x1000" 0 60 1 0 1 0 0 0 "boot_dsys 0" "\<lambda>_. 0"]
  by simp

text \<open>C12: the controller never sees a half-built descriptor as its own: whatever the constructor
  has written when it is looked at before its last write, a descriptor that was not owned by the
  hardware is still not owned; the last write is the control byte, which hands it over.\<close>
theorem descriptor_published_last:
  assumes "writes (alt_avalon_sgdma_construct_descriptor_burst desc next ra wa len ge rf wx rb wb ch s)
      = late @ early @ writes s" "late \<noteq> []"
    and "mem_after (writes s) m0 (desc + 31) AND 0x80 = 0"
  shows "mem_after (early @ writes s) m0 (desc + 31) AND 0x80 = 0
    \<and> hd late = Wr8 (desc + 31) (desc_control ge rf wx ch)
    \<and> mem_after (late @ early @ writes s) m0 (desc + 31) AND 0x80 \<noteq> 0"
proof -
  define nc where "nc = (ucast (hw s (trace s) (next + 31)) :: u8)"
  let ?d = "desc_writes desc next nc ra wa len (word_of_int rb) (word_of_int wb) (desc_control ge rf wx ch)"
  have d: "?d = late @ early" using assms(1) [unfolded construct_writes] by (simp add: nc_def)
  then obtain e late' where late: "late = e # late'" "e = Wr8 (desc + 31) (desc_control ge rf wx ch)"
    "tl ?d = late' @ early" using assms(2) by (cases late) (auto simp: desc_writes_def)
  then have "set early \<subseteq> set (tl ?d)" by simp
  moreover have "poke e m (desc + 31) AND 0x80 = 0"
    if "e \<in> set (tl ?d)" "m (desc + 31) AND 0x80 = 0" for e m
  proof -
    have "(nc AND NOT 0x80) AND 0x80 = (0 :: u8)" by (rule bit_word_eqI) (auto simp: bit_simps)
    with that show ?thesis by (auto simp: desc_writes_def)
  qed
  ultimately have "mem_after (early @ writes s) m0 (desc + 31) AND 0x80 = 0"
    using assms(3) by (induction early) auto
  then show ?thesis using late desc_control_owned by simp
qed

lemma descriptor_published_last_witness:
  "mem_after (tl (writes (alt_avalon_sgdma_construct_descriptor_burst 0x210000 0x210020 0x1000 0 60
      1 0 1 0 0 0 (boot_dsys 0)))) (\<lambda>_. 0) (0x210000 + 31) AND 0x80 = 0"
proof -
  define w where "w = writes (alt_avalon_sgdma_construct_descriptor_burst 0x210000 0x210020 0x1000 0 60
      1 0 1 0 0 0 (boot_dsys 0))"
  have n: "writes (boot_dsys 0) = []" by (simp add: boot_dsys_def writes_def)
  have e: "w = [hd w] @ tl w @ writes (boot_dsys 0)"
    unfolding w_def construct_writes by (simp add: n desc_writes_def)
  then show ?thesis
    using descriptor_published_last [OF e [unfolded w_def], of "\<lambda>_. 0"] by (simp add: w_def n)
qed

text \<open>The synchronous transfer returns whenever the controller finishes, before and
  after the transfer is started; it then has stopped the controller, cleared its status
  and returns the status it read.\<close>
theorem sync_returns:
  assumes "\<And>es. settles (hw s) es (sgdma_idle (dev_base dev))"
  shows "\<exists>st s'. alt_avalon_sgdma_do_sync_transfer dev desc s = Some (st, s')
    \<and> hd (writes s') = Wr32 (dev_base dev) 0xFF \<and> (\<exists>c. writes s' ! 1 = Wr32 (dev_base dev + 16) c \<and> \<not> bit c 5)"
proof -
  let ?b = "dev_base dev"
  obtain s1 where 1: "spin (sgdma_busy ?b) s = Some s1" "quiet s s1"
    using sgdma_wait.spin_settles [of s ?b] assms by blast
  obtain c s2 where 2: "iord ?b 4 s1 = (c, s2)" by fastforce
  let ?s = "iowr ?b 8 desc (iowr ?b 0 0xFF (iowr ?b 4 (c AND NOT 0x20) s2))"
  obtain d s3 where 3: "iord ?b 4 ?s = (d, s3)" by fastforce
  let ?s4 = "iowr ?b 4 (0x20 OR 0x40 OR d) s3"
  have "hw ?s4 = hw s"
    using 1 2 3 by (auto dest!: iord_quiet quiet_bus_only bus_only_hw)
  then obtain s5 where 5: "spin (sgdma_busy ?b) ?s4 = Some s5"
    using sgdma_wait.spin_settles [of ?s4 ?b] assms by metis
  obtain e s6 where 6: "iord ?b 4 s5 = (e, s6)" by fastforce
  obtain st s7 where 7: "iord ?b 0 (iowr ?b 4 (e AND NOT 0x20) s6) = (st, s7)" by fastforce
  have w: "writes s7 = Wr32 (?b + 16) (e AND NOT 0x20) # writes s6"
    using 7 by (auto dest!: iord_quiet quiet_writes)
  have "alt_avalon_sgdma_do_sync_transfer dev desc s = Some (ucast st, iowr ?b 0 0xFF s7)"
    using 1 2 3 5 6 7 by (simp add: alt_avalon_sgdma_do_sync_transfer_def Let_def)
  then show ?thesis using w by (intro exI conjI) (auto simp: bit_simps)
qed

lemma sync_returns_witness:
  "\<exists>st s'. alt_avalon_sgdma_do_sync_transfer (sgdma_devs (boot_dsys 0) 1) 0x210000 (boot_dsys 0) = Some (st, s')"
  using sync_returns [of "boot_dsys 0" "sgdma_devs (boot_dsys 0) 1" "0x210000"]
  by (auto simp: boot_dsys_def settles_def sgdma_idle_def)

text \<open>C13: the DMA interrupt handler acknowledges the interrupt at the controller before it
  calls the callback, calls it with interrupts masked, and restores the processor status
  that was in force when it was entered.\<close>
theorem sgdma_irq_masks_callback:
  assumes "callback (sgdma_devs s p) = Some cb"
    and "alt_avalon_sgdma_irq run p s = Some s'"
  shows "\<exists>s1 s2 c. quiet (iowr (dev_base (sgdma_devs s p)) 4 (c OR 0x80000000) s1) (s2\<lparr>cpu_status := cpu_status s\<rparr>)
    \<and> quiet s s1 \<and> alt_irq_enabled s2 = 0
    \<and> (\<exists>s3. run cb (callback_context (sgdma_devs s p)) s2 = Some s3 \<and> s' = s3\<lparr>cpu_status := cpu_status s\<rparr>)"
proof -
  let ?d = "sgdma_devs s p"
  obtain c s1 where 1: "iord (dev_base ?d) 4 s = (c, s1)" by fastforce
  let ?w = "iowr (dev_base ?d) 4 (c OR 0x80000000) s1"
  obtain x s2 where 2: "iord (dev_base ?d) 4 ?w = (x, s2)" by fastforce
  let ?m = "s2\<lparr>cpu_status := cpu_status s2 AND NOT NIOS2_STATUS_PIE_MSK\<rparr>"
  have q: "quiet s s1" "quiet ?w s2" using 1 2 by (auto dest!: iord_quiet)
  then have cs: "cpu_status s2 = cpu_status s"
    by (auto simp: quiet_def iowr_def wr32_def log_ev_def)
  have m: "s2\<lparr>cpu_status := cpu_status s\<rparr> = s2" by (simp flip: cs)
  have "alt_avalon_sgdma_irq run p s = do {
      s3 \<leftarrow> run cb (callback_context ?d) ?m; Some (s3\<lparr>cpu_status := cpu_status s2\<rparr>) }"
    using assms(1) by (simp add: Let_def alt_avalon_sgdma_irq_def 1 2 alt_irq_disable_all_def alt_irq_enable_all_def)
  with assms(2) obtain s3 where "run cb (callback_context ?d) ?m = Some s3"
    "s' = s3\<lparr>cpu_status := cpu_status s\<rparr>" by (auto simp: cs split: bind_splits)
  moreover have "alt_irq_enabled ?m = 0"
    by (simp add: alt_irq_enabled_def NIOS2_STATUS_PIE_MSK_def) (rule bit_word_eqI, auto simp: bit_simps)
  ultimately show ?thesis using q m
    by (intro exI [of _ s1] exI [of _ ?m] exI [of _ c]) auto
qed

lemma sgdma_irq_masks_callback_witness:
  "\<exists>s'. alt_avalon_sgdma_irq (\<lambda>cb ctx s. Some s) 1 (boot_dsys 0) = Some s' \<and> cpu_status s' = 1"
proof -
  have c: "callback (sgdma_devs (boot_dsys 0) 1) = Some Rx_ethernet_isr" "cpu_status (boot_dsys 0) = 1"
    by (simp_all add: boot_dsys_def)
  then obtain s' where "alt_avalon_sgdma_irq (\<lambda>cb ctx s. Some s) 1 (boot_dsys 0) = Some s'"
    by (simp add: alt_avalon_sgdma_irq_def Let_def case_prod_beta)
  with sgdma_irq_masks_callback [OF c(1) this] c(2) show ?thesis by auto
qed

lemma word8_error_mask: "st AND 0x7F = 0 \<longleftrightarrow> (\<forall>i<7. \<not> bit st i)" for st :: u8
proof -
  have "0x7F = (mask 7 :: u8)" by (simp add: mask_eq_exp_minus_1)
  then have "st AND 0x7F = take_bit 7 st" by (simp add: take_bit_eq_mask)
  then show ?thesis by (auto simp: bit_eq_iff bit_take_bit_iff)
qed

text \<open>The status of a descriptor: an error bit answers \<open>-EIO\<close> whoever owns it;
  otherwise a descriptor the hardware owns answers \<open>-EINPROGRESS\<close>, and only a released,
  error-free one answers 0.\<close>
theorem descriptor_status_cases:
  assumes "alt_avalon_sgdma_check_descriptor_status desc s = (r, s')"
  shows "let st = ucast (hw s (trace s) (desc + 30)) :: u8;
             ctl = ucast (hw s (Rd8 (desc + 30) st # trace s) (desc + 31)) :: u8
         in r = (if \<exists>i<7. bit st i then Some EIO else if bit ctl 7 then Some EINPROGRESS else None)
            \<and> quiet s s'"
proof -
  have m: "x AND 0x80 \<noteq> 0 \<longleftrightarrow> bit x 7" for x :: u8
    using and_exp_eq_0_iff_not_bit [of x 7] by simp
  show ?thesis using assms check_quiet [OF assms]
    by (auto simp: alt_avalon_sgdma_check_descriptor_status_def Let_def rd8_def word8_error_mask m
        split: if_splits)
qed

lemma descriptor_status_cases_witness:
  "fst (alt_avalon_sgdma_check_descriptor_status 0x210000 (boot_dsys 0)) = None"
  using descriptor_status_cases [of "0x210000" "boot_dsys 0"
      "fst (alt_avalon_sgdma_check_descriptor_status 0x210000 (boot_dsys 0))"
      "snd (alt_avalon_sgdma_check_descriptor_status 0x210000 (boot_dsys 0))"]
  by (simp add: boot_dsys_def Let_def)

text \<open>Enabling descriptor polling changes the poll-enable bit and the 11-bit frequency
  field of the control register and nothing else; the frequency is cut to 11 bits.\<close>
theorem enable_poll_control:
  assumes "s' = alt_avalon_sgdma_enable_desc_poll dev frequency s"
  shows "\<exists>c. writes s' = Wr32 (dev_base dev + 16) c # writes s \<and> bit c 18
    \<and> take_bit 11 (drop_bit 20 c) = take_bit 11 frequency
    \<and> (\<forall>i. i \<noteq> 18 \<longrightarrow> i < 20 \<or> i = 31 \<longrightarrow> bit c i = bit (hw s (trace s) (dev_base dev + 16)) i)"
proof -
  let ?r = "hw s (trace s) (dev_base dev + 16)"
  let ?c = "(?r AND NOT 0x7FF00000) OR (0x40000 OR (push_bit 20 frequency AND 0x7FF00000))"
  have "0x7FF00000 = (push_bit 20 (mask 11) :: u32)" "0x40000 = (push_bit 18 1 :: u32)"
    by (simp_all add: mask_eq_exp_minus_1)
  then have f: "bit (0x7FF00000 :: u32) i \<longleftrightarrow> 20 \<le> i \<and> i < 31"
    and e: "bit (0x40000 :: u32) i \<longleftrightarrow> i = 18" for i
    by (auto simp only: bit_push_bit_iff bit_mask_iff possible_bit_word bit_1_iff) auto
  have "writes s' = Wr32 (dev_base dev + 16) ?c # writes s"
    by (simp add: assms alt_avalon_sgdma_enable_desc_poll_def iord_def rd32_def Let_def)
  moreover have "bit ?c 18" by (simp only: bit_or_iff e simp_thms)
  moreover have "take_bit 11 (drop_bit 20 ?c) = take_bit 11 frequency"
  proof (rule bit_word_eqI)
    fix n assume "n < LENGTH(32)"
    then show "bit (take_bit 11 (drop_bit 20 ?c)) n = bit (take_bit 11 frequency) n"
      by (auto simp only: bit_take_bit_iff bit_drop_bit_eq comp_def bit_or_iff bit_and_iff bit_not_iff
          f e bit_push_bit_iff possible_bit_word) auto
  qed
  moreover have "\<forall>i. i \<noteq> 18 \<longrightarrow> i < 20 \<or> i = 31 \<longrightarrow> bit ?c i = bit ?r i"
    by (auto simp only: bit_or_iff bit_and_iff bit_not_iff f e possible_bit_word) auto
  ultimately show ?thesis by blast
qed

lemma enable_poll_control_witness:
  "\<exists>c. writes (alt_avalon_sgdma_enable_desc_poll (sgdma_devs (boot_dsys 0) 1) 7 (boot_dsys 0))
      = [Wr32 (0x212440 + 16) c] \<and> bit c 18 \<and> take_bit 11 (drop_bit 20 c) = take_bit 11 7"
  using enable_poll_control [OF refl, of "sgdma_devs (boot_dsys 0) 1" 7 "boot_dsys 0"]
  by (auto simp: boot_dsys_def writes_def)

lemma writes_other_fields [simp]:
  "dev_heap (iowr b n v s) = dev_heap s" "sgdma_devs (iowr b n v s) = sgdma_devs s"
  "alt_sgdma_list (iowr b n v s) = alt_sgdma_list s" "alt_errno (iowr b n v s) = alt_errno s"
  by (simp_all add: iowr_def wr32_def log_ev_def)

lemma writes_irq_fields [simp]:
  "alt_irq (iowr b n v t) = alt_irq t" "alt_irq_active (iowr b n v t) = alt_irq_active t"
  "ienable (iowr b n v t) = ienable t" "cpu_status (iowr b n v t) = cpu_status t"
  by (simp_all add: iowr_def wr32_def log_ev_def)

lemma sgdma_init_effect:
  assumes "unat irq < 32" "length (alt_irq s) = 32" "dev_name (dev_heap s) p \<noteq> None"
  shows "\<exists>s'. alt_avalon_sgdma_init p ic irq s = Some s'
    \<and> dev_heap s' = alt_llist_insert (alt_sgdma_list s) p (dev_heap s)
    \<and> alt_sgdma_list s' = alt_sgdma_list s \<and> sgdma_devs s' = sgdma_devs s
    \<and> alt_irq s' = (alt_irq s)[unat irq := (Some Alt_avalon_sgdma_irq, p)]"
  using assms
  by (auto simp: alt_avalon_sgdma_init_def Let_def alt_dev_llist_insert_def isr_register_value)

text \<open>After the two controllers have been initialised, opening either by its name returns
  that controller, whatever else was registered before them.\<close>
theorem sgdma_open_after_init:
  assumes reg: "registry (alt_sgdma_list s) (dev_heap s) ps"
    and p: "p \<notin> ps" "p \<noteq> alt_sgdma_list s" "dev_name (dev_heap s) p = Some n"
    and q: "q \<notin> ps" "q \<noteq> alt_sgdma_list s" "dev_name (dev_heap s) q = Some n'"
    and ne: "p \<noteq> q" "n \<noteq> n'"
    and irqs: "unat i < 32" "unat j < 32" "length (alt_irq s) = 32"
  shows "\<exists>s1 s2. alt_avalon_sgdma_init p ic i s = Some s1 \<and> alt_avalon_sgdma_init q ic j s1 = Some s2
    \<and> alt_avalon_sgdma_open n s2 = Some (Some p, s2) \<and> alt_avalon_sgdma_open n' s2 = Some (Some q, s2)
    \<and> alt_irq s2 ! unat j = (Some Alt_avalon_sgdma_irq, q)"
proof -
  let ?l = "alt_sgdma_list s"
  obtain s1 where 1: "alt_avalon_sgdma_init p ic i s = Some s1"
    "dev_heap s1 = alt_llist_insert ?l p (dev_heap s)" "alt_sgdma_list s1 = ?l"
    "alt_irq s1 = (alt_irq s)[unat i := (Some Alt_avalon_sgdma_irq, p)]"
    using sgdma_init_effect [of i s p ic] p irqs by auto
  then obtain s2 where 2: "alt_avalon_sgdma_init q ic j s1 = Some s2"
    "dev_heap s2 = alt_llist_insert ?l q (dev_heap s1)" "alt_sgdma_list s2 = ?l"
    "alt_irq s2 = (alt_irq s1)[unat j := (Some Alt_avalon_sgdma_irq, q)]"
    using sgdma_init_effect [of j s1 q ic] q irqs by auto
  have "alt_find_dev n ?l (dev_heap s2) = Some (Some p) \<and> alt_find_dev n' ?l (dev_heap s2) = Some (Some q)"
    unfolding 2(2) 1(2) using sgdma_registry.look_two [OF reg] p q ne by metis
  then show ?thesis using 1 2 irqs by (simp add: alt_avalon_sgdma_open_def)
qed

lemma sgdma_open_after_init_witness:
  "\<exists>s1 s2. alt_avalon_sgdma_init 1 0 1 (boot_dsys 0) = Some s1 \<and> alt_avalon_sgdma_init 2 0 0 s1 = Some s2
    \<and> alt_avalon_sgdma_open ''/dev/sgdma_0'' s2 = Some (Some 1, s2)"
proof -
  have "registry (alt_sgdma_list (boot_dsys 0)) (dev_heap (boot_dsys 0)) {}"
    unfolding registry_def by (intro exI [of _ "[]"]) (simp add: dlist_def boot_dsys_def)
  from sgdma_open_after_init [OF this, of 1 "''/dev/sgdma_0''" 2 "''/dev/sgdma_1''" 1 0 0]
  show ?thesis by (auto simp: boot_dsys_def)
qed

end
