(* ===== verification/Packet.thy ===== *)
theory Packet
  imports Checksum Sgdma
begin

text \<open>
  The data of \<open>tcp_socket.c\<close> and \<open>tcp_socket.h\<close>: the page served, the connection
  structure, the two frame buffers, and \<open>create_tcp_pkt\<close>, which builds an outgoing
  segment in \<open>tx_frame\<close>.  The packed structures the code lays over the buffers are
  offsets into byte lists: \<open>eth_flds\<close> 0 (\<open>dest_addr\<close> 0, \<open>source_addr\<close> 6, \<open>type\<close> 12),
  the rest of \<open>ipv4_header\<close> (\<open>ver_ihl\<close> 14, \<open>dscp\<close> 15, \<open>total_len\<close> 16, \<open>id\<close> 18,
  \<open>flags_frag_ofset\<close> 20, \<open>ttl\<close> 22, \<open>protocol\<close> 23, \<open>checksum\<close> 24, \<open>sender_ip\<close> 26,
  \<open>dest_ip\<close> 30), the TCP part of \<open>tcp_packet_out\<close> (\<open>sender_port\<close> 34,
  \<open>destination_port\<close> 36, \<open>seq_num\<close> 38, \<open>ack_num\<close> 42, \<open>header_len\<close> 46, \<open>flags\<close> 47,
  \<open>window\<close> 48, \<open>checksumm\<close> 50, \<open>urgent_data_pntr\<close> 52, \<open>payload\<close> 54).  Received
  headers start at \<open>rx_frame + 2\<close>.
\<close>

subsection \<open>The page\<close>

definition bytes_of :: "string \<Rightarrow> u8 list" where
  "bytes_of s = map of_char s"

definition html_text :: string where
  "html_text = '' <!DOCTYPE html><html><head><title>Altera WebSrv</title><link rel='' @ [CHR 0x22] @ ''icon'' @ [CHR 0x22] @ '' type='' @ [CHR 0x22] @ ''image/x-icon'' @ [CHR 0x22] @ '' href='' @ [CHR 0x22] @ ''https://github.com/favicon.ico'' @ [CHR 0x22] @ ''></head>''
   @ ''<html><body>''
   @ ''<h2>Leds checkboxes</h2>''
   @ ''<form>''
   @ ''  <input type='' @ [CHR 0x22] @ ''checkbox'' @ [CHR 0x22] @ '' id='' @ [CHR 0x22] @ ''led1'' @ [CHR 0x22] @ '' name='' @ [CHR 0x22] @ ''led1'' @ [CHR 0x22] @ '' value='' @ [CHR 0x22] @ ''en'' @ [CHR 0x22] @ ''>''
   @ ''  <label for='' @ [CHR 0x22] @ ''led1'' @ [CHR 0x22] @ ''> LED1</label><br>''
   @ ''  <input type='' @ [CHR 0x22] @ ''checkbox'' @ [CHR 0x22] @ '' id='' @ [CHR 0x22] @ ''led2'' @ [CHR 0x22] @ '' name='' @ [CHR 0x22] @ ''led2'' @ [CHR 0x22] @ '' value='' @ [CHR 0x22] @ ''en'' @ [CHR 0x22] @ ''>''
   @ ''  <label for='' @ [CHR 0x22] @ ''led2'' @ [CHR 0x22] @ ''> LED2</label><br>''
   @ ''  <input type='' @ [CHR 0x22] @ ''checkbox'' @ [CHR 0x22] @ '' id='' @ [CHR 0x22] @ ''led3'' @ [CHR 0x22] @ '' name='' @ [CHR 0x22] @ ''led3'' @ [CHR 0x22] @ '' value='' @ [CHR 0x22] @ ''en'' @ [CHR 0x22] @ ''>''
   @ ''  <label for='' @ [CHR 0x22] @ ''led3'' @ [CHR 0x22] @ ''> LED3</label><br><br>''
   @ ''  <label for='' @ [CHR 0x22] @ ''lcd'' @ [CHR 0x22] @ ''>LCD output:</label><br>''
   @ ''  <input type='' @ [CHR 0x22] @ ''text'' @ [CHR 0x22] @ '' id=lcd'' @ [CHR 0x22] @ [CHR 0x22] @ '' name='' @ [CHR 0x22] @ ''lcd'' @ [CHR 0x22] @ ''><br><br>''
   @ ''  <input type='' @ [CHR 0x22] @ ''submit'' @ [CHR 0x22] @ '' value='' @ [CHR 0x22] @ ''Submit'' @ [CHR 0x22] @ ''>''
   @ ''</form>''
   @ ''</body></html>''"

definition html_page :: "u8 list" where
  "html_page = bytes_of html_text"

lemma length_bytes_of [simp]: "length (bytes_of s) = length s"
  by (simp add: bytes_of_def)

lemma html_page_length: "length html_page = 619"
  by (simp add: html_page_def html_text_def)

text \<open>\<open>sizeof(html_page) - 1\<close>.\<close>

definition HTML_PAGE_LEN :: u16 where "HTML_PAGE_LEN = of_nat (length html_page)"

lemma HTML_PAGE_LEN_val: "HTML_PAGE_LEN = 619"
  by (simp add: HTML_PAGE_LEN_def html_page_length)

subsection \<open>State\<close>

datatype tcp_state = CLOSED | LISTEN | SYN_SENT | SYN_RECEIVED | ESTABLISHED | CLOSE_WAIT
  | LAST_ACK | FIN_WAIT | CLOSING | TIME_WAIT

record timer_struct =
  tmr_id :: u32
  tmr_irq :: u32
  tmr_base :: u32
  tmr_set_timer_zero :: bool

record tcp_conn =
  state :: tcp_state
  link :: bool
  dest_mac :: "u8 list"
  source_mac :: "u8 list"
  dest_ip :: "u8 list"
  source_port :: u16
  dest_port :: u16
  ack_num :: u16
  seq_num :: u32
  last_acked :: u32
  last_sended_len :: u16
  window :: u16
  rec_payload_len :: u16
  acked :: bool
  command_sent :: bool
  got_html_req :: bool
  payload :: "u8 list"

text \<open>The globals of \<open>tcp_socket.c\<close>.  \<open>tcp_recieved\<close> is the offset in \<open>rx_frame\<close> that
  pointer has.  \<open>after_my_ip\<close> is the two bytes the linker placed behind \<open>my_ip\<close>, which
  one \<open>memmove\<close> reads.  \<open>sent\<close> is not in the code: it records, newest first, what
  \<open>tx_frame\<close> held when a transmit descriptor for it was accepted.\<close>

record net = dsys +
  tx_frame :: "u8 list"
  rx_frame :: "u8 list"
  tx_frame_addr :: u32
  rx_frame_addr :: u32
  TCP :: tcp_conn
  tcp_recieved :: nat
  sgdma_tx_dev :: "u32 option"
  sgdma_rx_dev :: "u32 option"
  set_timer_zero :: bool
  secs :: int
  tmr :: timer_struct
  after_my_ip :: "u8 list"
  sent :: "u8 list list"

definition my_ip :: "u8 list" where "my_ip = [0xa9, 0xfe, 0xe5, 0x0e]"
definition my_mac :: "u8 list" where "my_mac = [0x60, 0xe3, 0x27, 0x04, 0xd5, 0xe3]"

lemma length_my_ip [simp]: "length my_ip = 4" by (simp add: my_ip_def)
lemma length_my_mac [simp]: "length my_mac = 6" by (simp add: my_mac_def)

subsection \<open>Building a segment\<close>

text \<open>\<open>TCP->seq_num += TCP->rec_payload_len + (TCP->rec_payload_len == 0)\<close>.\<close>

definition ack_advance :: "tcp_conn \<Rightarrow> tcp_conn" where
  "ack_advance c = c\<lparr>seq_num := seq_num c + (ucast (rec_payload_len c)
     + (if rec_payload_len c = 0 then 1 else 0))\<rparr>"

definition create_tcp_pkt :: "u8 \<Rightarrow> u8 list \<Rightarrow> u8 \<Rightarrow> u16 \<Rightarrow> 'a net_scheme \<Rightarrow> 'a net_scheme option" where
  "create_tcp_pkt flags data header_len payload_len s = do {
     let c = TCP s;
     let full_len = 20 + 20 + payload_len;
     let c' = ack_advance c;
     d \<leftarrow> mem_get data 0 (unat payload_len);
     b \<leftarrow> stores (tx_frame s) [
       \<comment> \<open>ip fields\<close>
       (0, dest_mac c),
       (6, my_mac),
       (12, le16 0x0008),
       (14, [0x45]),
       (15, [0]),
       (20, le16 0x0040),
       (18, le16 0xe117),
       (22, [0x80]),
       (23, [6]),
       (26, my_ip @ after_my_ip s),
       (30, dest_ip c),
       (16, [ucast (drop_bit 8 full_len)]),
       (17, [ucast full_len]),
       \<comment> \<open>TCP fields\<close>
       (34, le16 0x5000),
       (36, le16 (dest_port c)),
       (38, be32 (last_acked c)),
       (42, be32 (seq_num c')),
       (46, [push_bit 4 (header_len div 4)]),
       (47, [flags]),
       (48, le16 0xf0fa),
       (52, le16 0),
       (54, d),
       \<comment> \<open>checksums\<close>
       (24, le16 0)];
     ck \<leftarrow> get_ipv4_checksumm b 14 20;
     b \<leftarrow> mem_put b 24 (le16 ck);
     b \<leftarrow> mem_put b 50 (le16 0);
     ck \<leftarrow> get_tcp_checksumm my_ip (dest_ip c) b 34 (20 + payload_len);
     b \<leftarrow> mem_put b 50 (le16 ck);
     Some (s\<lparr>tx_frame := b, TCP := c'\<rparr>) }"

lemma seq_bytes: "get_be32 (be32 v) 0 = v"
proof (rule bit_word_eqI)
  fix n assume n: "n < LENGTH(32)"
  consider "n < 8" | "8 \<le> n" "n < 16" | "16 \<le> n" "n < 24" | "24 \<le> n" by linarith
  then show "bit (get_be32 (be32 v) 0) n = bit v n"
    by cases (use n in \<open>auto simp: get_be32_def be32_def bit_simps\<close>)
qed

subsection \<open>What the segment looks like\<close>

text \<open>The header before the checksums, in the order of the buffer.\<close>

definition pkt_header :: "u8 \<Rightarrow> u8 \<Rightarrow> u16 \<Rightarrow> tcp_conn \<Rightarrow> u8 list" where
  "pkt_header flags header_len payload_len c =
    dest_mac c @ my_mac @ [0x08, 0x00, 0x45, 0,
      ucast (drop_bit 8 (40 + payload_len)), ucast (40 + payload_len),
      0x17, 0xe1, 0x40, 0, 0x80, 6, 0, 0] @ my_ip @ dest_ip c @
    [0x00, 0x50] @ le16 (dest_port c) @ be32 (last_acked c) @ be32 (seq_num c) @
    [push_bit 4 (header_len div 4), flags, 0xfa, 0xf0]"

text \<open>The connection structure's arrays have their C sizes.\<close>

definition conn_ok :: "tcp_conn \<Rightarrow> bool" where
  "conn_ok c \<longleftrightarrow> length (dest_mac c) = 6 \<and> length (dest_ip c) = 4 \<and> length (payload c) = 64"

definition bufs_ok :: "'a net_scheme \<Rightarrow> bool" where
  "bufs_ok s \<longleftrightarrow> conn_ok (TCP s) \<and> length (tx_frame s) = 1518 \<and> length (rx_frame s) = 1518
     \<and> length (after_my_ip s) = 2"

definition pkt_stores :: "u8 \<Rightarrow> u8 list \<Rightarrow> u8 \<Rightarrow> u16 \<Rightarrow> u8 list \<Rightarrow> tcp_conn \<Rightarrow> (nat \<times> u8 list) list" where
  "pkt_stores flags d header_len payload_len tail c =
    [(0, dest_mac c), (6, my_mac), (12, le16 0x0008), (14, [0x45]), (15, [0]), (20, le16 0x0040),
     (18, le16 0xe117), (22, [0x80]), (23, [6]), (26, my_ip @ tail), (30, dest_ip c),
     (16, [ucast (drop_bit 8 (40 + payload_len))]), (17, [ucast (40 + payload_len)]),
     (34, le16 0x5000), (36, le16 (dest_port c)), (38, be32 (last_acked c)),
     (42, be32 (seq_num (ack_advance c))), (46, [push_bit 4 (header_len div 4)]), (47, [flags]),
     (48, le16 0xf0fa), (52, le16 0), (54, d), (24, le16 0)]"

lemma pkt_stores_fit:
  assumes "conn_ok c" "length tail = 2" "length d \<le> 1024"
  shows "fits 1518 (pkt_stores flags d header_len payload_len tail c)"
  using assms by (simp add: pkt_stores_def conn_ok_def)

subsection \<open>A sample state\<close>

text \<open>The state after start-up, with a connection in state \<open>st\<close>, idle hardware and \<open>f\<close> as
  the received frame; the theorems are evaluated on it.\<close>

definition boot_conn :: "tcp_state \<Rightarrow> tcp_conn" where
  "boot_conn st = \<lparr>state = st, link = False, dest_mac = [1, 2, 3, 4, 5, 6], source_mac = replicate 6 0,
     dest_ip = [10, 0, 0, 1], source_port = 0, dest_port = 0x3930, ack_num = 0, seq_num = 100,
     last_acked = 0x13370000, last_sended_len = 0, window = 0, rec_payload_len = 0, acked = False,
     command_sent = False, got_html_req = False, payload = replicate 64 0\<rparr>"

definition boot_net :: "tcp_state \<Rightarrow> u8 list \<Rightarrow> net" where
  "boot_net st f = \<lparr>hw = (\<lambda>_ _. 0), ipend = (\<lambda>_. 0), trace = [], cpu_status = 1, ienable = 0,
     alt_irq_active = 0, alt_priority_mask = 0, alt_irq = replicate 32 (None, 0),
     dev_heap = \<lparr>nxt = (\<lambda>p. p), previous = (\<lambda>p. p), dev_name = (\<lambda>_. None)\<rparr>,
     sgdma_devs = (\<lambda>_. \<lparr>dev_base = 0x212440, callback = None, callback_context = 0, chain_control = 0\<rparr>),
     alt_sgdma_list = 0, alt_errno = None,
     tx_frame = replicate 1518 0, rx_frame = f, tx_frame_addr = 0x1000, rx_frame_addr = 0x2000,
     TCP = boot_conn st, tcp_recieved = 26, sgdma_tx_dev = Some 1, sgdma_rx_dev = Some 2,
     set_timer_zero = False, secs = 0,
     tmr = \<lparr>tmr_id = 0, tmr_irq = 2, tmr_base = 0x212480, tmr_set_timer_zero = False\<rparr>,
     after_my_ip = [0, 0], sent = []\<rparr>"

lemma boot_net_fields [simp]:
  "hw (boot_net st f) = (\<lambda>_ _. 0)" "trace (boot_net st f) = []" "rx_frame (boot_net st f) = f" "TCP (boot_net st f) = boot_conn st"
  "tx_frame (boot_net st f) = replicate 1518 0" "sent (boot_net st f) = []" "secs (boot_net st f) = 0"
  "tmr_set_timer_zero (tmr (boot_net st f)) = False" "tmr_irq (tmr (boot_net st f)) = 2"
  "alt_irq (boot_net st f) = replicate 32 (None, 0)" "after_my_ip (boot_net st f) = [0, 0]"
  "sgdma_tx_dev (boot_net st f) = Some 1" "sgdma_rx_dev (boot_net st f) = Some 2"
  "state (boot_conn st) = st" "dest_ip (boot_conn st) = [10, 0, 0, 1]" "dest_port (boot_conn st) = 0x3930"
  "last_acked (boot_conn st) = 0x13370000" "last_sended_len (boot_conn st) = 0" "command_sent (boot_conn st) = False"
  by (simp_all add: boot_net_def boot_conn_def)

lemma boot_bufs: "length f = 1518 \<Longrightarrow> bufs_ok (boot_net st f)"
  by (simp add: bufs_ok_def conn_ok_def boot_conn_def)

lemma create_tcp_pkt_eq:
  fixes flags header_len :: u8 and payload_len :: u16 and s :: "'a net_scheme"
  assumes "bufs_ok s" "unat payload_len \<le> length data" "unat payload_len \<le> 1024"
  defines "b \<equiv> patches (tx_frame s) (pkt_stores flags (bytes_at data 0 (unat payload_len)) header_len
      payload_len (after_my_ip s) (TCP s))"
  shows "create_tcp_pkt flags data header_len payload_len s =
    do { ck \<leftarrow> get_ipv4_checksumm b 14 20;
         b \<leftarrow> mem_put b 24 (le16 ck);
         b \<leftarrow> mem_put b 50 (le16 0);
         ck \<leftarrow> get_tcp_checksumm my_ip (dest_ip (TCP s)) b 34 (20 + payload_len);
         b \<leftarrow> mem_put b 50 (le16 ck);
         Some (s\<lparr>tx_frame := b, TCP := ack_advance (TCP s)\<rparr>) }"
proof -
  have "stores (tx_frame s) (pkt_stores flags (bytes_at data 0 (unat payload_len)) header_len
      payload_len (after_my_ip s) (TCP s)) = Some b"
    unfolding b_def by (rule stores_Some)
      (use assms in \<open>simp add: bufs_ok_def pkt_stores_fit\<close>)
  then show ?thesis using assms(2)
    by (simp add: create_tcp_pkt_def pkt_stores_def Let_def mem_get_def)
qed

lemma le16_consts:
  "le16 0xe117 = [0x17, 0xe1]" "le16 0xf0fa = [0xfa, 0xf0]" "le16 0x5000 = [0x00, 0x50]"
  "le16 0x0008 = [0x08, 0x00]" "le16 0x0040 = [0x40, 0x00]" "le16 0 = [0, 0]"
  "le16 0x0608 = [0x08, 0x06]" "le16 0x0100 = [0x00, 0x01]" "le16 0x0406 = [0x06, 0x04]"
  "le16 0x0200 = [0x00, 0x02]"
  by code_simp+

lemma upt50: "[0..<50] = [0,1,2,3,4,5,6,7,8,9,10,11,12,13,14,15,16,17,18,19,20,21,22,23,24,25,
    26,27,28,29,30,31,32,33,34,35,36,37,38,39,40,41,42,43,44,45,46,47,48,49]"
  by code_simp

lemma pkt_body_nth:
  assumes "conn_ok c" "length tail = 2" "length b = 1518" "length d \<le> 1024"
    and b': "b' = patches b (pkt_stores flags d header_len payload_len tail c)"
  shows "bytes_at b' 0 50 = pkt_header flags header_len payload_len (ack_advance c)"
    and "j < length d \<Longrightarrow> b' ! (54 + j) = d ! j"
    and "54 + length d \<le> j \<Longrightarrow> j < 1518 \<Longrightarrow> b' ! j = b ! j"
    and "b' ! 52 = 0 \<and> b' ! 53 = 0"
proof -
  obtain m0 m1 m2 m3 m4 m5 where m: "dest_mac c = [m0, m1, m2, m3, m4, m5]"
    using assms(1) by (auto simp: conn_ok_def length_Suc_conv eval_nat_numeral)
  obtain d0 d1 d2 d3 where ip: "dest_ip c = [d0, d1, d2, d3]"
    using assms(1) by (auto simp: conn_ok_def length_Suc_conv eval_nat_numeral)
  obtain t0 t1 where t: "tail = [t0, t1]"
    using assms(2) by (auto simp: length_Suc_conv eval_nat_numeral)
  have nth: "k < 1518 \<Longrightarrow> b' ! k = last_store (pkt_stores flags d header_len payload_len tail c) k (b ! k)" for k
    unfolding b' by (rule nth_patches) (use assms pkt_stores_fit in simp_all)
  have ac: "dest_mac (ack_advance c) = dest_mac c" "dest_ip (ack_advance c) = dest_ip c"
    "dest_port (ack_advance c) = dest_port c" "last_acked (ack_advance c) = last_acked c"
    by (simp_all add: ack_advance_def)
  note ev = ac pkt_stores_def m ip t le16_consts le16_def [of "dest_port c"] be32_def my_ip_def my_mac_def
  have "length b' = 1518" unfolding b' using assms pkt_stores_fit by (simp add: length_patches)
  have "b' ! j = pkt_header flags header_len payload_len (ack_advance c) ! j" if "j < 50" for j
  proof -
    have "list_all (\<lambda>j. last_store (pkt_stores flags d header_len payload_len tail c) j (b ! j)
        = pkt_header flags header_len payload_len (ack_advance c) ! j) [0..<50]"
      unfolding upt50
      by (simp add: ev pkt_header_def le16_def [of "dest_port c"] be32_def del: One_nat_def)
    then show ?thesis using nth that by (simp add: list_all_iff)
  qed
  then show "bytes_at b' 0 50 = pkt_header flags header_len payload_len (ack_advance c)"
    using \<open>length b' = 1518\<close>
    by (intro nth_equalityI) (simp_all add: ac m ip pkt_header_def my_mac_def)
  show "j < length d \<Longrightarrow> b' ! (54 + j) = d ! j"
    using assms(4) by (subst nth) (simp_all add: ev)
  show "54 + length d \<le> j \<Longrightarrow> j < 1518 \<Longrightarrow> b' ! j = b ! j"
    by (subst nth) (simp_all add: ev)
  show "b' ! 52 = 0 \<and> b' ! 53 = 0"
    by (subst nth, simp, subst nth) (simp_all add: ev)
qed

lemma bytes_at_patch:
  assumes "i + length xs \<le> length b" "off + n \<le> length b" "off + n \<le> i \<or> i + length xs \<le> off"
  shows "bytes_at (patch b i xs) off n = bytes_at b off n"
  using assms by (intro nth_equalityI) (auto simp: nth_patch)

text \<open>The frame as the receiver checks it: the IP header's checksum, and the TCP checksum
  over the pseudo header, taken from the frame itself, and the segment, whose length
  follows from the IP total length.\<close>

definition ip_cksum_ok :: "u8 list \<Rightarrow> bool" where
  "ip_cksum_ok fr \<longleftrightarrow> cksum_ok (be_sum (bytes_at fr 14 20))"

definition tcp_seg_len :: "u8 list \<Rightarrow> nat" where
  "tcp_seg_len fr = 256 * unat (fr ! 16) + unat (fr ! 17) - 20"

definition tcp_cksum_ok :: "u8 list \<Rightarrow> bool" where
  "tcp_cksum_ok fr \<longleftrightarrow> 34 + tcp_seg_len fr \<le> length fr \<and>
     cksum_ok (be_sum (bytes_at fr 26 4) + be_sum (bytes_at fr 30 4) + unat (fr ! 23)
       + tcp_seg_len fr + be_sum (bytes_at fr 34 (tcp_seg_len fr)))"

lemma bytes_at_Suc: "off + n < length b \<Longrightarrow> bytes_at b off (Suc n) = bytes_at b off n @ [b ! (off + n)]"
  by (simp add: bytes_at_def take_Suc_conv_app_nth)

text \<open>Everything a caller of \<open>create_tcp_pkt\<close> needs: it returns, and the buffer has the
  header, the payload, the old bytes behind them and two good checksums.\<close>

definition built :: "u8 \<Rightarrow> u8 list \<Rightarrow> u8 \<Rightarrow> u16 \<Rightarrow> tcp_conn \<Rightarrow> u8 list \<Rightarrow> u8 list \<Rightarrow> bool" where
  "built flags data header_len payload_len c old b \<longleftrightarrow> length b = 1518
    \<and> (\<forall>j<24. b ! j = pkt_header flags header_len payload_len c ! j)
    \<and> (\<forall>j. 26 \<le> j \<longrightarrow> j < 50 \<longrightarrow> b ! j = pkt_header flags header_len payload_len c ! j)
    \<and> b ! 52 = 0 \<and> b ! 53 = 0
    \<and> (\<forall>j<unat payload_len. b ! (54 + j) = data ! j)
    \<and> (\<forall>j. 54 + unat payload_len \<le> j \<longrightarrow> j < 1518 \<longrightarrow> b ! j = old ! j)
    \<and> cksum_ok (be_sum (bytes_at b 14 20))
    \<and> (let n = 20 + unat payload_len in
       cksum_ok (be_sum my_ip + be_sum (dest_ip c) + 6 + n + be_sum (bytes_at b 34 (n + n mod 2))))"

lemma create_tcp_pkt_built:
  fixes s :: "'a net_scheme"
  assumes ok: "bufs_ok s" and len: "unat payload_len \<le> length data" "unat payload_len \<le> 1024"
  shows "\<exists>b. create_tcp_pkt flags data header_len payload_len s
      = Some (s\<lparr>tx_frame := b, TCP := ack_advance (TCP s)\<rparr>)
    \<and> built flags data header_len payload_len (ack_advance (TCP s)) (tx_frame s) b"
proof -
  let ?d = "bytes_at data 0 (unat payload_len)" and ?n = "20 + unat payload_len"
  let ?hdr = "pkt_header flags header_len payload_len (ack_advance (TCP s))"
  define b0 where "b0 = patches (tx_frame s) (pkt_stores flags ?d header_len payload_len (after_my_ip s) (TCP s))"
  have c: "conn_ok (TCP s)" "length (tx_frame s) = 1518" "length (after_my_ip s) = 2" "length ?d = unat payload_len"
    using ok len by (simp_all add: bufs_ok_def)
  have ip4: "length (dest_ip (TCP s)) = 4" using c(1) by (simp add: conn_ok_def)
  have l0: "length b0 = 1518" using c len pkt_stores_fit [of "TCP s" "after_my_ip s" ?d]
    by (simp add: b0_def length_patches)
  note n0 = pkt_body_nth [OF c(1,3,2) _ b0_def, unfolded c(4), OF len(2)]
  have h0: "b0 ! j = ?hdr ! j" if "j < 50" for j
    using arg_cong [OF n0(1), of "\<lambda>x. x ! j"] that l0 by simp
  have z0: "b0 ! 24 = 0" "b0 ! 25 = 0"
  proof -
    have "length (dest_mac (TCP s)) = 6" using c(1) by (simp add: conn_ok_def)
    then have "?hdr ! 24 = 0 \<and> ?hdr ! 25 = 0"
      by (simp add: pkt_header_def ack_advance_def nth_append)
    then show "b0 ! 24 = 0" "b0 ! 25 = 0" using h0 by simp_all
  qed
  obtain ck1 where ck1: "get_ipv4_checksumm b0 14 20 = Some ck1"
    using ipv4.total [of 20 14 b0] l0 by auto
  define b1 where "b1 = patch b0 24 (le16 ck1)"
  define b2 where "b2 = patch b1 50 (le16 0)"
  have l: "length b1 = 1518" "length b2 = 1518" using l0 by (simp_all add: b1_def b2_def)
  have u: "20 + payload_len = of_nat ?n" by simp
  have m2: "unat payload_len + (20 + unat payload_len) mod 2 \<le> 1464"
    using len(2) mod_less_divisor [of 2 "20 + unat payload_len"] by linarith
  obtain ck2 where ck2: "get_tcp_checksumm my_ip (dest_ip (TCP s)) b2 34 (20 + payload_len) = Some ck2"
    using tcp.total [of "(my_ip, dest_ip (TCP s))" ?n 34 b2] m2 len l ip4 unfolding u by auto
  define b3 where "b3 = patch b2 50 (le16 ck2)"
  have l3: "length b3 = 1518" using l by (simp add: b3_def)
  have eq: "create_tcp_pkt flags data header_len payload_len s
      = Some (s\<lparr>tx_frame := b3, TCP := ack_advance (TCP s)\<rparr>)"
    using create_tcp_pkt_eq [OF ok len, of flags header_len] l0 l ck1 ck2
    unfolding b0_def [symmetric] by (simp add: mem_put_Some b1_def b2_def b3_def)
  have "cksum_ok (0 + be_sum (bytes_at b1 14 (20 + 20 mod 2)))"
    by (rule ipv4.stored_ok [where len = 20 and off = 14 and p = 10 and data = b0 and c = ck1]) (use l0 z0 ck1 in \<open>simp_all add: mem_put_Some b1_def\<close>)
  moreover have "bytes_at b3 14 20 = bytes_at b1 14 20"
    unfolding b3_def b2_def using l by (simp add: bytes_at_patch)
  ultimately have ip: "cksum_ok (be_sum (bytes_at b3 14 20))" by simp
  have z2: "b2 ! 50 = 0" "b2 ! 51 = 0" unfolding b2_def using l by (simp_all add: nth_patch le16_consts)
  have "cksum_ok (pseudo_sum (my_ip, dest_ip (TCP s)) ?n + be_sum (bytes_at b3 34 (?n + ?n mod 2)))"
    by (rule tcp.stored_ok [where off = 34 and p = 16 and data = b2 and c = ck2])
      (use m2 len l ip4 z2 ck2 in \<open>simp_all add: mem_put_Some b3_def\<close>)
  then have tc: "cksum_ok (be_sum my_ip + be_sum (dest_ip (TCP s)) + 6 + ?n + be_sum (bytes_at b3 34 (?n + ?n mod 2)))"
    by (simp add: pseudo_sum_def)
  have away: "b3 ! j = b0 ! j" if "j < 1518" "j \<notin> {24, 25, 50, 51}" for j
    using that l0 l by (auto simp: b3_def b2_def b1_def nth_patch)
  have "built flags data header_len payload_len (ack_advance (TCP s)) (tx_frame s) b3"
    unfolding built_def Let_def
  proof (intro conjI allI impI)
    show "cksum_ok (be_sum my_ip + be_sum (dest_ip (ack_advance (TCP s))) + 6 + ?n
        + be_sum (bytes_at b3 34 (?n + ?n mod 2)))" using tc by (simp add: ack_advance_def)
    show "b3 ! j = ?hdr ! j" if "j < 24" for j using that h0 [of j] away [of j] by simp
    show "b3 ! j = ?hdr ! j" if "26 \<le> j" "j < 50" for j using that h0 [of j] away [of j] by simp
    show "b3 ! (54 + j) = data ! j" if "j < unat payload_len" for j
      using that n0(2) [of j] away [of "54 + j"] len by simp
    show "b3 ! j = tx_frame s ! j" if "54 + unat payload_len \<le> j" "j < 1518" for j
      using that n0(3) [of j] away [of j] by simp
  qed (use l3 ip n0(4) away [of 52] away [of 53] in simp_all)
  with eq show ?thesis by blast
qed

lemma be16_bytes: "256 * unat (ucast (drop_bit 8 v) :: u8) + unat (ucast v :: u8) = unat v" for v :: u16
  using be_sum_le16_swap16 [of v] by (simp add: le16_swap16)

lemma bytes_at_take: "off + n \<le> l \<Longrightarrow> bytes_at (take l b) off n = bytes_at b off n"
  by (simp add: bytes_at_def drop_take min_def)

lemma pkt_header_nth:
  assumes "conn_ok c"
  shows "pkt_header flags header_len payload_len c ! 16 = ucast (drop_bit 8 (40 + payload_len))"
    and "pkt_header flags header_len payload_len c ! 17 = ucast (40 + payload_len)"
    and "pkt_header flags header_len payload_len c ! 23 = 6"
    and "j < 4 \<Longrightarrow> pkt_header flags header_len payload_len c ! (26 + j) = my_ip ! j"
    and "j < 4 \<Longrightarrow> pkt_header flags header_len payload_len c ! (30 + j) = dest_ip c ! j"
    and "j < 4 \<Longrightarrow> pkt_header flags header_len payload_len c ! (38 + j) = be32 (last_acked c) ! j"
    and "j < 4 \<Longrightarrow> pkt_header flags header_len payload_len c ! (42 + j) = be32 (seq_num c) ! j"
    and "pkt_header flags header_len payload_len c ! 47 = flags"
    and "j < 6 \<Longrightarrow> pkt_header flags header_len payload_len c ! j = dest_mac c ! j"
    and "j < 2 \<Longrightarrow> pkt_header flags header_len payload_len c ! (36 + j) = le16 (dest_port c) ! j"
  using assms by (simp_all add: pkt_header_def conn_ok_def nth_append)

lemma built_bytes:
  assumes "built flags data header_len payload_len c old b" "conn_ok c"
  shows "bytes_at b 26 4 = my_ip" "bytes_at b 30 4 = dest_ip c" "b ! 23 = 6"
    and "b ! 16 = ucast (drop_bit 8 (40 + payload_len))" "b ! 17 = ucast (40 + payload_len)"
    and "b ! 47 = flags" "get_be32 b 38 = last_acked c" "get_be32 b 42 = seq_num c"
    and "bytes_at b 0 6 = dest_mac c" "bytes_at b 36 2 = le16 (dest_port c)"
proof -
  note b = assms(1) [unfolded built_def Let_def]
  note p = pkt_header_nth [OF assms(2)]
  have l: "length b = 1518" "length (dest_ip c) = 4" "length (dest_mac c) = 6"
    using b assms(2) by (simp_all add: conn_ok_def)
  show "bytes_at b 26 4 = my_ip" "bytes_at b 30 4 = dest_ip c" "bytes_at b 0 6 = dest_mac c"
    "bytes_at b 36 2 = le16 (dest_port c)"
    using b l p by (auto intro!: nth_equalityI)
  show "b ! 23 = 6" "b ! 16 = ucast (drop_bit 8 (40 + payload_len))" "b ! 17 = ucast (40 + payload_len)"
    "b ! 47 = flags" using b p by simp_all
  have "get_be32 b 38 = get_be32 (be32 (last_acked c)) 0"
    using b p(6) [of 0] p(6) [of 1] p(6) [of 2] p(6) [of 3] by (simp add: get_be32_def eval_nat_numeral)
  then show "get_be32 b 38 = last_acked c" by (simp only: seq_bytes)
  have "get_be32 b 42 = get_be32 (be32 (seq_num c)) 0"
    using b p(7) [of 0] p(7) [of 1] p(7) [of 2] p(7) [of 3] by (simp add: get_be32_def eval_nat_numeral)
  then show "get_be32 b 42 = seq_num c" by (simp only: seq_bytes)
qed

text \<open>The code adds the byte behind an odd payload to the checksum and the receiver does not, so
  the checksum verifies exactly if there is no such byte or it is zero.\<close>

lemma be_sum_snoc: "odd (length xs) \<Longrightarrow> be_sum (xs @ [x]) = be_sum xs + unat x"
  by (induction xs rule: be_sum.induct) auto

lemma cksum_ok_add_byte:
  fixes x :: u8
  assumes "cksum_ok (n + unat x)" "0 < n"
  shows "cksum_ok n \<longleftrightarrow> x = 0"
proof
  assume "cksum_ok n"
  then have "65535 dvd unat x" using assms(1) by (simp add: cksum_ok_iff dvd_add_right_iff)
  moreover have "unat x < 65535" using unsigned_less [of x, where 'a = nat] by simp
  ultimately have "unat x = 0" using nat_dvd_not_less by blast
  then show "x = 0" by (simp add: unat_eq_zero)
qed (use assms(1) in simp)

lemma built_checksums:
  assumes B: "built flags data header_len payload_len c old b" and c: "conn_ok c"
    and len: "unat payload_len \<le> 1024" and L: "54 + unat payload_len \<le> L" "L \<le> 1518"
  shows "ip_cksum_ok (take L b)"
    and "tcp_cksum_ok (take L b) \<longleftrightarrow> even (unat payload_len) \<or> old ! (54 + unat payload_len) = 0"
proof -
  let ?n = "20 + unat payload_len" and ?x = "old ! (54 + unat payload_len)"
  note b = B [unfolded built_def Let_def] and f = built_bytes [OF B c]
  let ?h = "be_sum my_ip + be_sum (dest_ip c) + 6 + ?n"
  have lb: "length b = 1518" using b by simp
  show "ip_cksum_ok (take L b)" using b L by (simp add: ip_cksum_ok_def bytes_at_take)
  have "unat (40 + payload_len) = 40 + unat payload_len"
    using len by (simp add: unat_word_ariths)
  then have tl: "tcp_seg_len (take L b) = ?n"
    using f(4,5) L be16_bytes [of "40 + payload_len"] by (simp add: tcp_seg_len_def)
  have t: "tcp_cksum_ok (take L b) \<longleftrightarrow> cksum_ok (?h + be_sum (bytes_at b 34 ?n))"
    using tl L lb f by (simp add: tcp_cksum_ok_def bytes_at_take)
  have code: "cksum_ok (?h + be_sum (bytes_at b 34 (?n + ?n mod 2)))" using b by metis
  show "tcp_cksum_ok (take L b) \<longleftrightarrow> even (unat payload_len) \<or> ?x = 0"
  proof (cases "even (unat payload_len)")
    case True
    then show ?thesis using t code by simp
  next
    case False
    have l: "length (bytes_at b 34 ?n) = ?n" using lb len by simp
    have "?n mod 2 = 1" using False by presburger
    moreover have "b ! (34 + ?n) = ?x" using b len by simp
    ultimately have "bytes_at b 34 (?n + ?n mod 2) = bytes_at b 34 ?n @ [?x]"
      using lb len bytes_at_Suc [of 34 ?n b] by simp
    moreover have "odd (length (bytes_at b 34 ?n))" using l False by simp
    ultimately have "cksum_ok ((?h + be_sum (bytes_at b 34 ?n)) + unat ?x)"
      using code be_sum_snoc [of "bytes_at b 34 ?n" ?x] by (simp add: add.assoc)
    then show ?thesis using cksum_ok_add_byte [of "?h + be_sum (bytes_at b 34 ?n)" ?x] t False by simp
  qed
qed

lemma built_frame_ok:
  assumes "built flags data header_len payload_len c old b" "conn_ok c" "unat payload_len \<le> 1024"
    and "odd (unat payload_len) \<longrightarrow> old ! (54 + unat payload_len) = 0"
    and "54 + unat payload_len \<le> L" "L \<le> 1518"
  shows "ip_cksum_ok (take L b) \<and> tcp_cksum_ok (take L b)"
  using built_checksums [OF assms(1-3,5,6)] assms(4) by blast

lemma patches_append: "patches b (ps @ qs) = patches (patches b ps) qs"
  by (induction b ps rule: patches.induct) simp_all

lemma patch_covered:
  assumes "length t = 2" "length u = 2" "length xs = 4" "length ip = 4" "34 \<le> length b"
  shows "patch (patch b 26 (xs @ t)) 30 ip = patch (patch b 26 (xs @ u)) 30 ip"
  using assms by (intro nth_equalityI) (auto simp: nth_patch nth_append)

lemma pkt_stores_tail:
  assumes "conn_ok c" "length b = 1518" "length t = 2" "length u = 2"
  shows "patches b (pkt_stores flags d header_len payload_len t c)
    = patches b (pkt_stores flags d header_len payload_len u c)"
proof -
  define ps where "ps = take 9 (pkt_stores flags d header_len payload_len t c)"
  define qs where "qs = drop 11 (pkt_stores flags d header_len payload_len t c)"
  have e: "pkt_stores flags d header_len payload_len x c = ps @ [(26, my_ip @ x), (30, dest_ip c)] @ qs" for x
    by (simp add: ps_def qs_def pkt_stores_def)
  have "fits 1518 ps" using assms by (simp add: ps_def pkt_stores_def conn_ok_def)
  then have "length (patches b ps) = 1518" using assms(2) by (simp add: length_patches)
  then show ?thesis unfolding e patches_append
    using patch_covered [of t u my_ip "dest_ip c" "patches b ps"] assms by (simp add: conn_ok_def)
qed

subsection \<open>Properties\<close>

text \<open>C4: \<open>create_tcp_pkt\<close> returns for every payload of at most 1024 bytes; the segment it
  leaves carries the connection's sequence number and the advanced acknowledgement number,
  the requested flags and payload, and its IP checksum verifies.  The TCP checksum verifies at
  the receiver exactly if the payload is even or the byte that an earlier frame left behind it in
  the buffer is zero: for an odd payload the code sums that byte too.\<close>
theorem create_tcp_pkt_correct:
  fixes s :: "'a net_scheme"
  assumes "bufs_ok s" "unat payload_len \<le> length data" "unat payload_len \<le> 1024"
  shows "\<exists>b. create_tcp_pkt flags data header_len payload_len s
      = Some (s\<lparr>tx_frame := b, TCP := ack_advance (TCP s)\<rparr>)
    \<and> (let fr = take (54 + unat payload_len + 2) b in
       ip_cksum_ok fr
       \<and> (tcp_cksum_ok fr \<longleftrightarrow> even (unat payload_len) \<or> tx_frame s ! (54 + unat payload_len) = 0)
       \<and> get_be32 fr 38 = last_acked (TCP s)
       \<and> get_be32 fr 42 = seq_num (TCP s) + (if rec_payload_len (TCP s) = 0 then 1
                            else ucast (rec_payload_len (TCP s)))
       \<and> fr ! 47 = flags \<and> bytes_at fr 54 (unat payload_len) = take (unat payload_len) data)"
proof -
  obtain b where b: "create_tcp_pkt flags data header_len payload_len s
      = Some (s\<lparr>tx_frame := b, TCP := ack_advance (TCP s)\<rparr>)"
    and B: "built flags data header_len payload_len (ack_advance (TCP s)) (tx_frame s) b"
    using create_tcp_pkt_built [OF assms] by blast
  have c: "conn_ok (ack_advance (TCP s))"
    using assms(1) by (simp add: bufs_ok_def conn_ok_def ack_advance_def)
  have l: "length b = 1518" using B by (simp add: built_def)
  let ?L = "54 + unat payload_len + 2"
  let ?fr = "take ?L b"
  have "?L \<le> 1518" using assms(3) by simp
  note ck = built_checksums [OF B c assms(3) _ this]
  have "get_be32 ?fr 38 = get_be32 b 38" "get_be32 ?fr 42 = get_be32 b 42" "?fr ! 47 = b ! 47"
    by (simp_all add: get_be32_def)
  moreover have "bytes_at ?fr 54 (unat payload_len) = take (unat payload_len) data"
    using B l assms(2,3) by (intro nth_equalityI) (auto simp: built_def)
  ultimately show ?thesis using b ck built_bytes [OF B c]
    by (intro exI [of _ b]) (auto simp: Let_def ack_advance_def)
qed

lemma create_tcp_pkt_correct_witness:
  "\<exists>s'. create_tcp_pkt 0x11 html_page 20 HTML_PAGE_LEN (boot_net ESTABLISHED (replicate 1518 0)) = Some s'
    \<and> tcp_cksum_ok (take 675 (tx_frame s'))"
  using create_tcp_pkt_correct [OF boot_bufs [of "replicate 1518 0" ESTABLISHED, simplified],
      of HTML_PAGE_LEN html_page "0x11" 20]
  by (auto simp: html_page_length HTML_PAGE_LEN_val Let_def)

text \<open>The two bytes behind \<open>my_ip\<close> that \<open>create_tcp_pkt\<close> reads by mistake never reach the
  packet: the destination address is stored over them.\<close>
theorem create_tcp_pkt_overread_harmless:
  fixes s :: "'a net_scheme"
  assumes "bufs_ok s" "length t = 2" "unat payload_len \<le> length data" "unat payload_len \<le> 1024"
  shows "map_option tx_frame (create_tcp_pkt flags data header_len payload_len (s\<lparr>after_my_ip := t\<rparr>))
    = map_option tx_frame (create_tcp_pkt flags data header_len payload_len s)"
proof -
  let ?d = "bytes_at data 0 (unat payload_len)" and ?c = "TCP s"
  have c: "conn_ok ?c" "length (tx_frame s) = 1518" "length (after_my_ip s) = 2" "length ?d = unat payload_len"
    using assms(1,3) by (simp_all add: bufs_ok_def)
  have "patches (tx_frame s) (pkt_stores flags ?d header_len payload_len t ?c)
      = patches (tx_frame s) (pkt_stores flags ?d header_len payload_len (after_my_ip s) ?c)"
    by (rule pkt_stores_tail) (use c assms(2) in auto)
  moreover have "bufs_ok (s\<lparr>after_my_ip := t\<rparr>)" using assms(1,2) by (simp add: bufs_ok_def)
  ultimately show ?thesis using assms(1,3,4)
    by (simp add: create_tcp_pkt_eq map_option_bind comp_def)
qed

lemma create_tcp_pkt_overread_harmless_witness:
  "map_option tx_frame (create_tcp_pkt 0x10 [] 20 0 ((boot_net ESTABLISHED (replicate 1518 0))\<lparr>after_my_ip := [0x60, 0xe3]\<rparr>))
    = map_option tx_frame (create_tcp_pkt 0x10 [] 20 0 (boot_net ESTABLISHED (replicate 1518 0)))"
  by (rule create_tcp_pkt_overread_harmless [OF boot_bufs]) simp_all

end
