(* ===== verification/TcpServer.thy ===== *)
theory TcpServer
  imports Packet
begin

text \<open>
  The server of \<open>tcp_socket.c\<close>: sending, the receive interrupt with ARP and the TCP state
  machine, the one-second timer interrupt, and the start-up of the Ethernet core.  A
  handler is a function of the whole state \<open>net\<close>; \<open>None\<close> is a poll that never ends, a
  null device, an access outside a buffer, or a signed overflow.  The hardware puts a
  received frame into \<open>rx_frame\<close> before it raises the receive interrupt.
\<close>

definition TIMER_0_BASE :: u32 where "TIMER_0_BASE = 0x212480"
definition DESCRIPTOR_MEMORY_BASE :: u32 where "DESCRIPTOR_MEMORY_BASE = 0x210000"
definition ETH_TSE_0_TRANSMIT_FIFO_DEPTH :: u32 where "ETH_TSE_0_TRANSMIT_FIFO_DEPTH = 512"
definition ETH_TSE_0_RECEIVE_FIFO_DEPTH :: u32 where "ETH_TSE_0_RECEIVE_FIFO_DEPTH = 2048"

definition tx_descriptor :: u32 where "tx_descriptor = DESCRIPTOR_MEMORY_BASE"
definition tx_descriptor_end :: u32 where "tx_descriptor_end = DESCRIPTOR_MEMORY_BASE + 32"
definition rx_descriptor :: u32 where "rx_descriptor = DESCRIPTOR_MEMORY_BASE + 2 * 32"
definition rx_descriptor_end :: u32 where "rx_descriptor_end = DESCRIPTOR_MEMORY_BASE + 3 * 32"

text \<open>The timer's control register: interrupt enable 1, continuous 2, start 4, stop 8.\<close>

definition timer_control :: "u32 \<Rightarrow> u32 \<Rightarrow> 'a bus_scheme \<Rightarrow> 'a bus_scheme" where
  "timer_control base v = iowr base 1 v"

definition TIMER_START :: u32 where "TIMER_START = (2 OR 4 OR 1)"
definition TIMER_STOP :: u32 where "TIMER_STOP = (2 OR 8 OR 1)"

subsection \<open>Sending\<close>

text \<open>\<open>while (alt_avalon_sgdma_check_descriptor_status(desc) != 0);\<close>\<close>

definition desc_not_ready :: "u32 \<Rightarrow> 'a bus_scheme \<Rightarrow> bool \<times> 'a bus_scheme" where
  "desc_not_ready desc s =
    (let (r, s) = alt_avalon_sgdma_check_descriptor_status desc s in (r \<noteq> None, s))"

definition send_packet :: "u32 \<Rightarrow> nat \<Rightarrow> 'a net_scheme \<Rightarrow> 'a net_scheme option" where
  "send_packet data len s = do {
     s \<leftarrow> spin (desc_not_ready tx_descriptor) s;
     let s = alt_avalon_sgdma_construct_mem_to_stream_desc tx_descriptor tx_descriptor_end data
               (of_nat len) 0 1 1 0 s;
     dev \<leftarrow> sgdma_tx_dev s;
     let (r, s) = alt_avalon_sgdma_do_async_transfer (sgdma_devs s dev) tx_descriptor s;
     Some (if r = None then s\<lparr>sent := take len (tx_frame s) # sent s\<rparr> else s) }"

text \<open>Waiting for the receive descriptor and handing it out again, the end of the receive
  interrupt.\<close>

definition rearm_rx :: "'a net_scheme \<Rightarrow> 'a net_scheme option" where
  "rearm_rx s = do {
     s \<leftarrow> spin (desc_not_ready rx_descriptor) s;
     let s = alt_avalon_sgdma_construct_stream_to_mem_desc rx_descriptor rx_descriptor_end
               (rx_frame_addr s) 0 0 s;
     dev \<leftarrow> sgdma_rx_dev s;
     let (_, s) = alt_avalon_sgdma_do_async_transfer (sgdma_devs s dev) rx_descriptor s;
     Some s }"

definition sgdma_int_en :: "'a net_scheme \<Rightarrow> 'a net_scheme option" where
  "sgdma_int_en s = do {
     dev \<leftarrow> sgdma_rx_dev s;
     let s = alt_avalon_sgdma_register_callback dev (Some Rx_ethernet_isr) 0x14 0 s;
     let s = alt_avalon_sgdma_construct_stream_to_mem_desc rx_descriptor rx_descriptor_end
               (rx_frame_addr s) 0 0 s;
     let (_, s) = alt_avalon_sgdma_do_async_transfer (sgdma_devs s dev) rx_descriptor s;
     Some s }"

subsection \<open>Reading the received frame\<close>

text \<open>The fields of \<open>ipv4_recieved\<close> and \<open>arp_recieved\<close>, both at \<open>rx_frame + 2\<close>, and of
  \<open>tcp_recieved\<close>.\<close>

abbreviation "eth_type s \<equiv> get16 (rx_frame s) (2 + 12)"
abbreviation "ip_ver_ihl s \<equiv> rx_frame s ! (2 + 14)"
abbreviation "ip_protocol s \<equiv> rx_frame s ! (2 + 23)"
abbreviation "tcp_byte s i \<equiv> rx_frame s ! (tcp_recieved s + i)"
abbreviation "tcp_sender_port s \<equiv> get16 (rx_frame s) (tcp_recieved s)"
abbreviation "tcp_destination_port s \<equiv> get16 (rx_frame s) (tcp_recieved s + 2)"
abbreviation "tcp_window s \<equiv> get16 (rx_frame s) (tcp_recieved s + 14)"
abbreviation "flag_fin s \<equiv> bit (tcp_byte s 13) 0"
abbreviation "flag_syn s \<equiv> bit (tcp_byte s 13) 1"
abbreviation "flag_ack s \<equiv> bit (tcp_byte s 13) 4"

definition checkmac :: "'a net_scheme \<Rightarrow> bool" where
  "checkmac s \<longleftrightarrow> rx_frame s ! 2 = my_mac ! 0 \<and> rx_frame s ! 3 = my_mac ! 1
     \<and> rx_frame s ! 4 = my_mac ! 2 \<and> rx_frame s ! 5 = my_mac ! 3
     \<and> rx_frame s ! 6 = my_mac ! 4 \<and> rx_frame s ! 7 = my_mac ! 5"

definition check_tcp_sender_ip :: "'a net_scheme \<Rightarrow> bool" where
  "check_tcp_sender_ip s \<longleftrightarrow> rx_frame s ! (2 + 26) = dest_ip (TCP s) ! 0
     \<and> rx_frame s ! (2 + 27) = dest_ip (TCP s) ! 1 \<and> rx_frame s ! (2 + 28) = dest_ip (TCP s) ! 2
     \<and> rx_frame s ! (2 + 29) = dest_ip (TCP s) ! 3"

definition get_seq_num :: "'a net_scheme \<Rightarrow> u32" where
  "get_seq_num s = get_be32 (rx_frame s) (tcp_recieved s + 4)"

definition check_checksumm :: bool where
  "check_checksumm = True"

definition get_payload_len :: "'a net_scheme \<Rightarrow> u32" where
  "get_payload_len s =
    (let ip_len = ucast (rx_frame s ! (2 + 17)) + push_bit 8 (ucast (rx_frame s ! (2 + 16)));
         ip_len = ip_len - ucast (drop_bit 4 (tcp_byte s 12)) * 4;
         ip_len = ip_len - ucast (ip_ver_ihl s AND 0xf) * 4
     in ip_len)"

definition upd_conn :: "(tcp_conn \<Rightarrow> tcp_conn) \<Rightarrow> 'a net_scheme \<Rightarrow> 'a net_scheme" where
  "upd_conn f s = s\<lparr>TCP := f (TCP s)\<rparr>"

definition ack_check :: "'a net_scheme \<Rightarrow> 'a net_scheme" where
  "ack_check s =
    (if flag_ack s then
       let acked_num = get_be32 (rx_frame s) (tcp_recieved s + 8) in
       if acked_num = last_acked (TCP s) + ucast (last_sended_len (TCP s)) + 1 then
         let s = (if last_sended_len (TCP s) \<noteq> 0
                  then upd_conn (\<lambda>c. c\<lparr>last_acked := last_acked c + (ucast (last_sended_len c) + 1)\<rparr>) s
                  else s);
             s = upd_conn (\<lambda>c. c\<lparr>last_acked := last_acked c + of_bool (command_sent c)\<rparr>) s
         in upd_conn (\<lambda>c. c\<lparr>acked := True\<rparr>) s
       else upd_conn (\<lambda>c. c\<lparr>acked := False\<rparr>) s
     else upd_conn (\<lambda>c. c\<lparr>acked := False\<rparr>) s)"

text \<open>\<open>memmove(TCP->payload, tcp_recieved->payload, n)\<close>.\<close>

definition copy_payload :: "nat \<Rightarrow> 'a net_scheme \<Rightarrow> 'a net_scheme option" where
  "copy_payload n s = do {
     d \<leftarrow> mem_get (rx_frame s) (tcp_recieved s + 20) n;
     p \<leftarrow> mem_put (payload (TCP s)) 0 d;
     Some (upd_conn (\<lambda>c. c\<lparr>payload := p\<rparr>) s) }"

subsection \<open>The receive interrupt\<close>

definition arp_reply :: "'a net_scheme \<Rightarrow> 'a net_scheme option" where
  "arp_reply s = do {
     sender_hard_addr \<leftarrow> mem_get (rx_frame s) (2 + 22) 6;
     sender_ip \<leftarrow> mem_get (rx_frame s) (2 + 28) 4;
     b \<leftarrow> stores (tx_frame s) [
       (0, sender_hard_addr),
       (6, my_mac),
       (12, le16 0x0608),
       (14, le16 0x0100),
       (16, le16 0x0008),
       (18, le16 0x0406),
       (20, le16 0x0200),
       (22, my_mac),
       (28, my_ip),
       (32, sender_hard_addr),
       (38, sender_ip)];
     send_packet (tx_frame_addr s) 44 (s\<lparr>tx_frame := b\<rparr>) }"

definition rx_arp :: "'a net_scheme \<Rightarrow> 'a net_scheme option" where
  "rx_arp s =
    (if eth_type s = 0x0608 then
       if rx_frame s ! (2 + 38) = my_ip ! 0 \<and> rx_frame s ! (2 + 39) = my_ip ! 1
          \<and> rx_frame s ! (2 + 40) = my_ip ! 2 \<and> rx_frame s ! (2 + 41) = my_ip ! 3
       then arp_reply s else Some s
     else Some s)"

definition on_listen :: "'a net_scheme \<Rightarrow> 'a net_scheme option" where
  "on_listen s =
    (let s = upd_conn (\<lambda>c. c\<lparr>command_sent := False\<rparr>) s in
     if flag_syn s then do {
       mac \<leftarrow> mem_get (rx_frame s) (2 + 6) 6;
       let s = upd_conn (\<lambda>c. c\<lparr>dest_mac := mac\<rparr>) s;
       let s = upd_conn (\<lambda>c. c\<lparr>dest_port := tcp_sender_port s\<rparr>) s;
       ip \<leftarrow> mem_get (rx_frame s) (2 + 26) 4;
       let s = upd_conn (\<lambda>c. c\<lparr>dest_ip := ip\<rparr>) s;
       let s = upd_conn (\<lambda>c. c\<lparr>seq_num := get_seq_num s\<rparr>) s;
       let s = upd_conn (\<lambda>c. c\<lparr>rec_payload_len := ucast (get_payload_len s)\<rparr>) s;
       let s = upd_conn (\<lambda>c. c\<lparr>window := tcp_window s\<rparr>) s;
       let s = upd_conn (\<lambda>c. c\<lparr>last_acked := 0x13370000\<rparr>) s;
       s \<leftarrow> copy_payload 24 s;
       s \<leftarrow> create_tcp_pkt 0x12 (payload (TCP s)) 32 12 s;
       let s = upd_conn (\<lambda>c. c\<lparr>last_sended_len := 0\<rparr>) s;
       s \<leftarrow> send_packet (tx_frame_addr s) (66 + 2) s;
       let s = upd_conn (\<lambda>c. c\<lparr>state := SYN_RECEIVED\<rparr>) s;
       Some (timer_control TIMER_0_BASE TIMER_START s)
     } else Some s)"

definition on_syn_received :: "'a net_scheme \<Rightarrow> 'a net_scheme option" where
  "on_syn_received s =
    (if flag_ack s then
       if check_tcp_sender_ip s then
         if dest_port (TCP s) = tcp_sender_port s then
           let s = ack_check s in
           if acked (TCP s) then
             Some ((upd_conn (\<lambda>c. c\<lparr>state := ESTABLISHED\<rparr>) s)\<lparr>set_timer_zero := True\<rparr>)
           else Some s
         else Some s
       else Some s
     else Some s)"

text \<open>The answer to a request that starts with \<open>GET\<close>: the page, with FIN.\<close>

definition send_page :: "'a net_scheme \<Rightarrow> 'a net_scheme option" where
  "send_page s = do {
     let s = upd_conn (\<lambda>c. c\<lparr>window := tcp_window s\<rparr>) s;
     s \<leftarrow> create_tcp_pkt 0x11 html_page 20 HTML_PAGE_LEN s;
     let s = upd_conn (\<lambda>c. c\<lparr>last_sended_len := HTML_PAGE_LEN\<rparr>) s;
     s \<leftarrow> send_packet (tx_frame_addr s) (54 + unat (last_sended_len (TCP s)) + 2) s;
     let s = upd_conn (\<lambda>c. c\<lparr>state := FIN_WAIT\<rparr>) s;
     s \<leftarrow> copy_payload 64 s;
     Some (upd_conn (\<lambda>c. c\<lparr>got_html_req := True\<rparr>) s) }"

text \<open>The rest of the established state: answer a FIN with FIN, anything else with ACK.\<close>

definition close_or_ack :: "'a net_scheme \<Rightarrow> 'a net_scheme option" where
  "close_or_ack s =
    (if flag_fin s then do {
       let s = upd_conn (\<lambda>c. c\<lparr>last_acked := last_acked c + 1\<rparr>) s;
       s \<leftarrow> create_tcp_pkt 0x11 (payload (TCP s)) 20 0 s;
       s \<leftarrow> send_packet (tx_frame_addr s) (54 + 2) s;
       Some (upd_conn (\<lambda>c. c\<lparr>state := LAST_ACK\<rparr>) s)
     } else do {
       s \<leftarrow> create_tcp_pkt 0x10 (payload (TCP s)) 20 0 s;
       let s = upd_conn (\<lambda>c. c\<lparr>last_sended_len := 0\<rparr>) s;
       send_packet (tx_frame_addr s) (54 + 2) s })"

definition on_established :: "'a net_scheme \<Rightarrow> 'a net_scheme option" where
  "on_established s =
    (if flag_ack s then
       if check_tcp_sender_ip s then
         if dest_port (TCP s) = tcp_sender_port s then
           let s = ack_check s;
               s = upd_conn (\<lambda>c. c\<lparr>seq_num := get_seq_num s\<rparr>) s;
               s = upd_conn (\<lambda>c. c\<lparr>rec_payload_len := ucast (get_payload_len s)\<rparr>) s in
           if acked (TCP s) then
             let s = s\<lparr>set_timer_zero := True\<rparr> in
             if rec_payload_len (TCP s) > 1 then do {
               message \<leftarrow> mem_get (rx_frame s) (tcp_recieved s + 20) 3;
               if message = bytes_of ''GET'' then send_page s else close_or_ack s
             } else close_or_ack s
           else Some s
         else Some s
       else Some s
     else Some s)"

definition on_fin_wait :: "'a net_scheme \<Rightarrow> 'a net_scheme option" where
  "on_fin_wait s =
    (if flag_ack s \<and> flag_fin s then
       if check_tcp_sender_ip s then
         if dest_port (TCP s) = tcp_sender_port s then
           let s = upd_conn (\<lambda>c. c\<lparr>seq_num := get_seq_num s\<rparr>) s;
               s = upd_conn (\<lambda>c. c\<lparr>rec_payload_len := ucast (get_payload_len s)\<rparr>) s;
               s = ack_check s in
           if acked (TCP s) then do {
             s \<leftarrow> create_tcp_pkt 0x10 (payload (TCP s)) 20 0 s;
             let s = upd_conn (\<lambda>c. c\<lparr>last_sended_len := 0\<rparr>) s;
             s \<leftarrow> send_packet (tx_frame_addr s) (54 + 2) s;
             Some (upd_conn (\<lambda>c. c\<lparr>state := LISTEN\<rparr>) s)
           } else Some s
         else Some s
       else Some s
     else Some s)"

definition on_last_ack :: "'a net_scheme \<Rightarrow> 'a net_scheme option" where
  "on_last_ack s =
    (if flag_ack s then
       if check_tcp_sender_ip s then
         if dest_port (TCP s) = tcp_sender_port s then
           let s = upd_conn (\<lambda>c. c\<lparr>seq_num := get_seq_num s\<rparr>) s;
               s = upd_conn (\<lambda>c. c\<lparr>rec_payload_len := ucast (get_payload_len s)\<rparr>) s;
               s = ack_check s in
           if acked (TCP s) then Some (upd_conn (\<lambda>c. c\<lparr>state := LISTEN\<rparr>) s) else Some s
         else Some s
       else Some s
     else Some s)"

definition tcp_switch :: "'a net_scheme \<Rightarrow> 'a net_scheme option" where
  "tcp_switch s = (case state (TCP s) of
     LISTEN \<Rightarrow> on_listen s
   | SYN_RECEIVED \<Rightarrow> on_syn_received s
   | ESTABLISHED \<Rightarrow> on_established s
   | FIN_WAIT \<Rightarrow> on_fin_wait s
   | LAST_ACK \<Rightarrow> on_last_ack s
   | _ \<Rightarrow> Some s)"

definition rx_tcp :: "'a net_scheme \<Rightarrow> 'a net_scheme option" where
  "rx_tcp s =
    (if eth_type s = 0x0008 \<and> ip_protocol s = 0x06 then
       if checkmac s \<and> check_checksumm then
         let tcp_start_point = unat (ip_ver_ihl s AND 0xf) * 4 + 14;
             s = s\<lparr>tcp_recieved := 2 + tcp_start_point\<rparr> in
         if tcp_destination_port s = 0x5000 then tcp_switch s else Some s
       else Some s
     else Some s)"

definition rx_ethernet_isr :: "'a net_scheme \<Rightarrow> 'a net_scheme option" where
  "rx_ethernet_isr s = do { s \<leftarrow> rx_arp s; s \<leftarrow> rx_tcp s; rearm_rx s }"

subsection \<open>The timer interrupt\<close>

text \<open>\<open>++secs\<close> on an \<open>int\<close>.\<close>

definition inc_secs :: "'a net_scheme \<Rightarrow> 'a net_scheme option" where
  "inc_secs s = (if secs s < 2 ^ 31 - 1 then Some (s\<lparr>secs := secs s + 1\<rparr>) else None)"

definition timeout_listen :: "'a net_scheme \<Rightarrow> 'a net_scheme option" where
  "timeout_listen s = do {
     s \<leftarrow> inc_secs s;
     if secs s = 60 then
       let s = upd_conn (\<lambda>c. c\<lparr>state := LISTEN\<rparr>) s;
           s = timer_control (tmr_base (tmr s)) TIMER_STOP s
       in Some (s\<lparr>secs := 0\<rparr>)
     else Some s }"

definition timeout_established :: "'a net_scheme \<Rightarrow> 'a net_scheme option" where
  "timeout_established s = do {
     s \<leftarrow> inc_secs s;
     if secs s = 10 then do {
       let s = upd_conn (\<lambda>c. c\<lparr>seq_num := seq_num c - 1\<rparr>) s;
       let s = upd_conn (\<lambda>c. c\<lparr>last_acked := last_acked c + 1\<rparr>) s;
       s \<leftarrow> create_tcp_pkt 0x11 (payload (TCP s)) 20 0 s;
       s \<leftarrow> send_packet (tx_frame_addr s) (54 + 2) s;
       let s = upd_conn (\<lambda>c. c\<lparr>state := FIN_WAIT\<rparr>) s;
       let s = upd_conn (\<lambda>c. c\<lparr>command_sent := True\<rparr>) s;
       Some (s\<lparr>secs := 0\<rparr>)
     } else Some s }"

definition timeout_isr :: "'a net_scheme \<Rightarrow> 'a net_scheme option" where
  "timeout_isr s =
    (let s = iowr TIMER_0_BASE 0 0 s;
         s = (if tmr_set_timer_zero (tmr s)
              then s\<lparr>secs := 0, tmr := (tmr s)\<lparr>tmr_set_timer_zero := False\<rparr>\<rparr> else s)
     in (case state (TCP s) of
           ESTABLISHED \<Rightarrow> timeout_established s
         | SYN_RECEIVED \<Rightarrow> timeout_listen s
         | FIN_WAIT \<Rightarrow> timeout_listen s
         | LAST_ACK \<Rightarrow> timeout_listen s
         | _ \<Rightarrow> Some ((timer_control (tmr_base (tmr s)) TIMER_STOP s)\<lparr>secs := 0\<rparr>)))"

subsection \<open>Start-up\<close>

definition TIMEOUT_PERIOD :: u32 where "TIMEOUT_PERIOD = 100000000 * (1000 div 1000)"

definition timer_int_en :: "'a net_scheme \<Rightarrow> 'a net_scheme option" where
  "timer_int_en s = do {
     let t = tmr s;
     (_, s) \<leftarrow> alt_ic_isr_register (tmr_id t) (tmr_irq t) (Some Timeout_isr) 0 s;
     let s = iowr (tmr_base t) 2 TIMEOUT_PERIOD s;
     Some (iowr (tmr_base t) 3 (drop_bit 16 TIMEOUT_PERIOD) s) }"

text \<open>\<open>while (*(tse + 2) != (*(tse + 2) | m));\<close>: the register is read twice.\<close>

definition tse_lacks :: "u32 \<Rightarrow> u32 \<Rightarrow> 'a bus_scheme \<Rightarrow> bool \<times> 'a bus_scheme" where
  "tse_lacks tse m s =
    (let (x, s) = iord tse 2 s; (y, s) = iord tse 2 s in (x \<noteq> y OR m, s))"

definition tse_differs :: "u32 \<Rightarrow> u32 \<Rightarrow> 'a bus_scheme \<Rightarrow> bool \<times> 'a bus_scheme" where
  "tse_differs tse v s = (let (x, s) = iord tse 2 s in (x \<noteq> v, s))"

definition tse_init :: "u32 \<Rightarrow> tcp_conn \<Rightarrow> 'a net_scheme \<Rightarrow> 'a net_scheme option" where
  "tse_init tse TCP_link s = do {
     let s = s\<lparr>TCP := TCP_link\<rparr>;
     (d, s) \<leftarrow> alt_avalon_sgdma_open ''/dev/sgdma_0'' s;
     let s = s\<lparr>sgdma_tx_dev := d\<rparr>;
     (d, s) \<leftarrow> alt_avalon_sgdma_open ''/dev/sgdma_1'' s;
     let s = s\<lparr>sgdma_rx_dev := d\<rparr>;
     let s = iowr tse 0x0F 0 s;
     let (x, s) = iord tse 2 s;
     let s = iowr tse 2 (x OR 0x00800220) s;
     s \<leftarrow> spin (tse_lacks tse 0x00800220) s;
     let s = iowr tse 0x09 (ETH_TSE_0_TRANSMIT_FIFO_DEPTH - 16) s;
     let s = iowr tse 0x0E 3 s;
     let s = iowr tse 0x0D 8 s;
     let s = iowr tse 0x07 (ETH_TSE_0_RECEIVE_FIFO_DEPTH - 16) s;
     let s = iowr tse 0x0C 8 s;
     let s = iowr tse 0x0B 8 s;
     let s = iowr tse 0x0A 0 s;
     let s = iowr tse 0x08 0 s;
     let s = iowr tse 0x03 0x0427E360 s;
     let s = iowr tse 0x04 0x0000E3D5 s;
     let s = iowr tse 0x05 1518 s;
     let s = iowr tse 0x17 12 s;
     let s = iowr tse 0x06 0xFFFF s;
     let s = iowr tse 0x02 0x00800220 s;
     let s = iowr tse 0x02 0x00802220 s;
     s \<leftarrow> spin (tse_differs tse 0x00800220) s;
     let s = iowr tse 0x02 0x0400022B s;
     s \<leftarrow> spin (tse_lacks tse 0x0400022B) s;
     sgdma_int_en s }"

subsection \<open>Effects of sending and re-arming\<close>

text \<open>A descriptor the controller has released without an error.\<close>

definition desc_ready :: "u32 \<Rightarrow> (u32 \<Rightarrow> u32) \<Rightarrow> bool" where
  "desc_ready d f \<longleftrightarrow> (ucast (f (d + 30)) :: u8) AND 0x7F = 0 \<and> (ucast (f (d + 31)) :: u8) AND 0x80 = 0"

lemma not_ready_step:
  "length (trace s) < length (trace (snd (desc_not_ready d s)))"
  "quiet s t \<Longrightarrow> quiet s (snd (desc_not_ready d t))"
  "(\<And>fs. \<forall>e\<in>set fs. \<not> is_wr e \<Longrightarrow> desc_ready d (hw s (fs @ trace s))) \<Longrightarrow> \<not> fst (desc_not_ready d s)"
proof -
  show "length (trace s) < length (trace (snd (desc_not_ready d s)))"
    by (auto simp: desc_not_ready_def alt_avalon_sgdma_check_descriptor_status_def rd8_def Let_def)
  show "quiet s t \<Longrightarrow> quiet s (snd (desc_not_ready d t))"
    unfolding desc_not_ready_def Let_def
    by (auto split: prod.splits dest!: check_quiet intro: quiet_trans)
  assume r: "\<And>fs. \<forall>e\<in>set fs. \<not> is_wr e \<Longrightarrow> desc_ready d (hw s (fs @ trace s))"
  let ?st = "ucast (hw s (trace s) (d + 30)) :: u8"
  have "?st AND 0x7F = 0" using r [of "[]"] by (simp add: desc_ready_def)
  moreover have "(ucast (hw s (Rd8 (d + 30) ?st # trace s) (d + 31)) :: u8) AND 0x80 = 0"
    using r [of "[Rd8 (d + 30) ?st]"] by (simp add: desc_ready_def)
  ultimately show "\<not> fst (desc_not_ready d s)"
    by (simp add: desc_not_ready_def alt_avalon_sgdma_check_descriptor_status_def rd8_def Let_def)
qed

interpretation desc_wait: reading_poll "desc_not_ready d" "desc_ready d" for d
proof unfold_locales
  fix s :: "'a bus_scheme"
  show "\<not> fst (desc_not_ready d s)"
    if "\<And>fs. \<forall>e\<in>set fs. \<not> is_wr e \<Longrightarrow> desc_ready d (hw s (fs @ trace s))"
    by (rule not_ready_step(3)) (rule that)
qed (simp_all add: not_ready_step(1,2))

definition sends :: "nat \<Rightarrow> 'a net_scheme \<Rightarrow> 'a net_scheme \<Rightarrow> bool" where
  "sends len s s' \<longleftrightarrow> (\<exists>t x. s' = s\<lparr>trace := t, sent := x\<rparr>
     \<and> (x = sent s \<or> x = take len (tx_frame s) # sent s))"

lemma sent_same: "s\<lparr>trace := t, sent := sent s\<rparr> = s\<lparr>trace := t\<rparr>" for s :: "'a net_scheme"
  by simp

lemma bus_only_net: "bus_only s s' \<longleftrightarrow> (\<exists>es. s' = s\<lparr>trace := es @ trace s\<rparr>)"
  by (simp add: bus_only_def)

lemma m2s_bus_only: "bus_only s (alt_avalon_sgdma_construct_mem_to_stream_desc d n r l rf gs ge ch s)"
  by (simp add: alt_avalon_sgdma_construct_mem_to_stream_desc_def
      alt_avalon_sgdma_construct_mem_to_stream_desc_burst_def construct_bus_only)

lemma s2m_bus_only: "bus_only s (alt_avalon_sgdma_construct_stream_to_mem_desc d n w l wx s)"
  by (simp add: alt_avalon_sgdma_construct_stream_to_mem_desc_def
      alt_avalon_sgdma_construct_stream_to_mem_desc_burst_def construct_bus_only)

lemma send_packet_sends:
  assumes "send_packet data len s = Some s'"
  shows "sends len s s'"
proof -
  obtain s1 where 1: "spin (desc_not_ready tx_descriptor) s = Some s1"
    using assms by (auto simp: send_packet_def split: bind_splits)
  let ?s2 = "alt_avalon_sgdma_construct_mem_to_stream_desc tx_descriptor tx_descriptor_end data
               (of_nat len) 0 1 1 0 s1"
  obtain dev where dev: "sgdma_tx_dev ?s2 = Some dev"
    using assms 1 by (auto simp: send_packet_def Let_def split: bind_splits)
  obtain r s3 where 3: "alt_avalon_sgdma_do_async_transfer (sgdma_devs ?s2 dev) tx_descriptor ?s2 = (r, s3)"
    by fastforce
  have "bus_only s s1" using desc_wait.spin_inv [OF 1] by (rule quiet_bus_only)
  also have "bus_only s1 ?s2" by (rule m2s_bus_only)
  also have "bus_only ?s2 s3" using async_bus_only [of ?s2 "sgdma_devs ?s2 dev" tx_descriptor] 3 by simp
  finally obtain es where "s3 = s\<lparr>trace := es @ trace s\<rparr>" by (auto simp: bus_only_def)
  moreover have "s' = (if r = None then s3\<lparr>sent := take len (tx_frame s3) # sent s3\<rparr> else s3)"
    using assms 1 dev 3 by (auto simp: send_packet_def Let_def)
  ultimately show ?thesis unfolding sends_def
    by (intro exI [of _ "es @ trace s"] exI [of _ "if r = None then take len (tx_frame s) # sent s else sent s"])
      (auto simp: sent_same)
qed

text \<open>The transmit controller is idle, and stays so as long as nothing is written to its control
  register, which is not part of the transmit descriptors.\<close>

definition tx_idle :: "'a net_scheme \<Rightarrow> bool" where
  "tx_idle s \<longleftrightarrow> (\<forall>p. sgdma_tx_dev s = Some p \<longrightarrow> (let b = dev_base (sgdma_devs s p) in
     b + 16 \<notin> {tx_descriptor..<rx_descriptor}
     \<and> (\<forall>es. (\<forall>v. Wr32 (b + 16) v \<notin> set es) \<longrightarrow> hw s (es @ trace s) b AND 0x10 = 0)))"

lemma tx_idle_simps [simp]:
  "tx_idle (s\<lparr>tx_frame := b\<rparr>) = tx_idle s" "tx_idle (s\<lparr>TCP := c\<rparr>) = tx_idle s"
  "tx_idle (s\<lparr>tcp_recieved := n\<rparr>) = tx_idle s" "tx_idle (s\<lparr>set_timer_zero := z\<rparr>) = tx_idle s"
  by (simp_all add: tx_idle_def)

lemma tx_desc_writes:
  assumes "Wr32 a v \<in> set (desc_writes tx_descriptor tx_descriptor_end nc ra wa len rb wb ctl)"
  shows "a \<in> {tx_descriptor..<rx_descriptor}"
  using assms
  by (auto simp: desc_writes_def tx_descriptor_def tx_descriptor_end_def rx_descriptor_def
      DESCRIPTOR_MEMORY_BASE_def)

lemma send_packet_starts:
  assumes "send_packet data len s = Some s'" "tx_idle s"
  shows "sent s' = take len (tx_frame s) # sent s"
proof -
  obtain s1 where 1: "spin (desc_not_ready tx_descriptor) s = Some s1"
    using assms(1) by (auto simp: send_packet_def split: bind_splits)
  let ?s2 = "alt_avalon_sgdma_construct_mem_to_stream_desc tx_descriptor tx_descriptor_end data
               (of_nat len) 0 1 1 0 s1"
  obtain dev where dev: "sgdma_tx_dev ?s2 = Some dev"
    using assms(1) 1 by (auto simp: send_packet_def Let_def split: bind_splits)
  let ?b = "dev_base (sgdma_devs ?s2 dev)"
  have "quiet s s1" using desc_wait.spin_inv [OF 1] by blast
  then obtain fs where fs: "s1 = s\<lparr>trace := fs @ trace s\<rparr>" "\<forall>e\<in>set fs. \<not> is_wr e"
    by (auto simp: quiet_def bus_only_net)
  obtain gs where gs: "?s2 = s1\<lparr>trace := gs @ trace s1\<rparr>"
    using m2s_bus_only [of s1 tx_descriptor tx_descriptor_end data "of_nat len" 0 1 1 0] by (auto simp: bus_only_net)
  then have same: "sgdma_tx_dev s = Some dev" "sgdma_devs ?s2 = sgdma_devs s" "hw ?s2 = hw s"
    "trace ?s2 = (gs @ fs) @ trace s" "tx_frame ?s2 = tx_frame s" "sent ?s2 = sent s"
    using dev fs by simp_all
  have "Wr32 (?b + 16) v \<notin> set (gs @ fs)" for v
  proof
    assume "Wr32 (?b + 16) v \<in> set (gs @ fs)"
    then have "Wr32 (?b + 16) v \<in> set (filter is_wr gs)" using fs(2) by auto
    moreover have "writes ?s2 = desc_writes tx_descriptor tx_descriptor_end
        (ucast (hw s1 (trace s1) (tx_descriptor_end + 31))) data 0 (of_nat len) 0 0 (desc_control 1 0 1 0) @ writes s1"
      using construct_writes [of tx_descriptor tx_descriptor_end data 0 "of_nat len" 1 0 1 0 0 0 s1]
      by (simp add: alt_avalon_sgdma_construct_mem_to_stream_desc_def
          alt_avalon_sgdma_construct_mem_to_stream_desc_burst_def)
    then have "filter is_wr gs = desc_writes tx_descriptor tx_descriptor_end
        (ucast (hw s1 (trace s1) (tx_descriptor_end + 31))) data 0 (of_nat len) 0 0 (desc_control 1 0 1 0)"
      by (simp add: gs writes_def)
    ultimately show False using tx_desc_writes assms(2) same(1,2) by (auto simp: tx_idle_def Let_def)
  qed
  moreover have "\<forall>es. (\<forall>v. Wr32 (?b + 16) v \<notin> set es) \<longrightarrow> hw s (es @ trace s) ?b AND 0x10 = 0"
    using assms(2) same(1,2) by (simp add: tx_idle_def Let_def)
  ultimately have "hw ?s2 (trace ?s2) ?b AND 0x10 = 0" unfolding same(3,4) by blast
  then have "fst (alt_avalon_sgdma_do_async_transfer (sgdma_devs ?s2 dev) tx_descriptor ?s2) = None"
    using async_idle [OF _ prod.collapse [symmetric], of ?s2 "sgdma_devs ?s2 dev" tx_descriptor] by simp
  moreover obtain es where "snd (alt_avalon_sgdma_do_async_transfer (sgdma_devs ?s2 dev) tx_descriptor ?s2)
      = ?s2\<lparr>trace := es @ trace ?s2\<rparr>" using async_bus_only [of ?s2] by (auto simp: bus_only_net)
  ultimately show ?thesis using assms(1) 1 dev same
    by (cases "alt_avalon_sgdma_do_async_transfer (sgdma_devs ?s2 dev) tx_descriptor ?s2")
      (auto simp: send_packet_def Let_def)
qed

text \<open>\<open>x\<close> is what was sent after \<open>fr\<close> was handed over in \<open>s\<close>: an idle controller accepts it.\<close>

definition accepted :: "'a net_scheme \<Rightarrow> u8 list \<Rightarrow> u8 list list \<Rightarrow> bool" where
  "accepted s fr x \<longleftrightarrow> x = fr # sent s \<or> \<not> tx_idle s \<and> x = sent s"

lemma accepted_cases: "accepted s fr x \<Longrightarrow> x = sent s \<or> x = fr # sent s"
  by (auto simp: accepted_def)

lemma accepted_simps [simp]:
  "accepted (s\<lparr>tx_frame := b\<rparr>) = accepted s" "accepted (s\<lparr>TCP := c\<rparr>) = accepted s"
  "accepted (s\<lparr>tcp_recieved := n\<rparr>) = accepted s" "accepted (s\<lparr>set_timer_zero := z\<rparr>) = accepted s"
  by (simp_all add: accepted_def fun_eq_iff)

lemma send_packet_accepted:
  "send_packet data len s = Some s' \<Longrightarrow> accepted s (take len (tx_frame s)) (sent s')"
  using send_packet_sends [of data len s s'] send_packet_starts [of data len s s']
  by (auto simp: accepted_def sends_def)

lemma send_packet_returns:
  assumes "settles (hw s) (trace s) (desc_ready tx_descriptor)" "sgdma_tx_dev s \<noteq> None"
  shows "\<exists>s'. send_packet data len s = Some s'"
proof -
  obtain s1 where 1: "spin (desc_not_ready tx_descriptor) s = Some s1" "quiet s s1"
    using desc_wait.spin_settles [OF assms(1)] by blast
  let ?s2 = "alt_avalon_sgdma_construct_mem_to_stream_desc tx_descriptor tx_descriptor_end data
               (of_nat len) 0 1 1 0 s1"
  have "bus_only s ?s2" using 1(2) m2s_bus_only by (meson bus_only_trans quiet_bus_only)
  then have "sgdma_tx_dev ?s2 = sgdma_tx_dev s" by (auto simp: bus_only_def)
  then show ?thesis using assms(2) 1(1)
    by (auto simp: send_packet_def Let_def split: prod.splits)
qed

lemma rearm_rx_bus_only:
  assumes "rearm_rx s = Some s'"
  shows "bus_only s s'"
proof -
  obtain s1 where 1: "spin (desc_not_ready rx_descriptor) s = Some s1"
    using assms by (auto simp: rearm_rx_def split: bind_splits)
  let ?s2 = "alt_avalon_sgdma_construct_stream_to_mem_desc rx_descriptor rx_descriptor_end
               (rx_frame_addr s1) 0 0 s1"
  obtain dev where dev: "sgdma_rx_dev ?s2 = Some dev"
    using assms 1 by (auto simp: rearm_rx_def Let_def split: bind_splits)
  have "bus_only s s1" using desc_wait.spin_inv [OF 1] by (rule quiet_bus_only)
  also have "bus_only s1 ?s2" by (rule s2m_bus_only)
  also have "bus_only ?s2 (snd (alt_avalon_sgdma_do_async_transfer (sgdma_devs ?s2 dev) rx_descriptor ?s2))"
    by (rule async_bus_only)
  also have "\<dots> = s'"
    using assms 1 dev by (auto simp: rearm_rx_def Let_def split: prod.splits)
  finally show ?thesis .
qed

lemma rearm_rx_returns:
  assumes "settles (hw s) (trace s) (desc_ready rx_descriptor)" "sgdma_rx_dev s \<noteq> None"
  shows "\<exists>s'. rearm_rx s = Some s'"
proof -
  obtain s1 where 1: "spin (desc_not_ready rx_descriptor) s = Some s1" "quiet s s1"
    using desc_wait.spin_settles [OF assms(1)] by blast
  let ?s2 = "alt_avalon_sgdma_construct_stream_to_mem_desc rx_descriptor rx_descriptor_end
               (rx_frame_addr s1) 0 0 s1"
  have "bus_only s ?s2" using 1(2) s2m_bus_only by (meson bus_only_trans quiet_bus_only)
  then have "sgdma_rx_dev ?s2 = sgdma_rx_dev s" by (auto simp: bus_only_def)
  then show ?thesis using assms(2) 1(1)
    by (auto simp: rearm_rx_def Let_def split: prod.splits)
qed

subsection \<open>The invariant of the server\<close>

text \<open>A frame handed to the hardware is an ARP packet or has good checksums.\<close>

definition good_frame :: "u8 list \<Rightarrow> bool" where
  "good_frame fr \<longleftrightarrow> get16 fr 12 = 0x0608 \<or> ip_cksum_ok fr \<and> tcp_cksum_ok fr"

text \<open>The controllers of this state release their descriptors sooner or later.\<close>

definition dma_live :: "'a net_scheme \<Rightarrow> bool" where
  "dma_live s \<longleftrightarrow> (\<forall>es. settles (hw s) es (desc_ready tx_descriptor) \<and> settles (hw s) es (desc_ready rx_descriptor))
     \<and> sgdma_tx_dev s \<noteq> None \<and> sgdma_rx_dev s \<noteq> None"

definition srv_ok :: "'a net_scheme \<Rightarrow> bool" where
  "srv_ok s \<longleftrightarrow> bufs_ok s \<and> tx_frame s ! 673 = 0 \<and> dma_live s \<and> (\<forall>fr\<in>set (sent s). good_frame fr)"

text \<open>What no step of the connection changes.\<close>

definition env where
  "env s = (hw s, rx_frame s, sgdma_devs s, sgdma_tx_dev s, sgdma_rx_dev s, alt_irq s, after_my_ip s,
     tx_frame_addr s, rx_frame_addr s)"

definition clock where "clock s = (secs s, tmr s)"

lemma env_clock_simps [simp]:
  "env (s\<lparr>TCP := c\<rparr>) = env s" "env (s\<lparr>tx_frame := b\<rparr>) = env s" "env (s\<lparr>trace := t\<rparr>) = env s"
  "env (s\<lparr>sent := x\<rparr>) = env s" "env (s\<lparr>set_timer_zero := z\<rparr>) = env s" "env (s\<lparr>tcp_recieved := n\<rparr>) = env s"
  "env (s\<lparr>secs := k\<rparr>) = env s" "env (s\<lparr>tmr := u\<rparr>) = env s"
  "clock (s\<lparr>TCP := c\<rparr>) = clock s" "clock (s\<lparr>tx_frame := b\<rparr>) = clock s" "clock (s\<lparr>trace := t\<rparr>) = clock s"
  "clock (s\<lparr>sent := x\<rparr>) = clock s" "clock (s\<lparr>set_timer_zero := z\<rparr>) = clock s"
  "clock (s\<lparr>tcp_recieved := n\<rparr>) = clock s"
  by (simp_all add: env_def clock_def)

lemma srv_ok_simps [simp]:
  "srv_ok (s\<lparr>trace := t\<rparr>) = srv_ok s" "srv_ok (s\<lparr>set_timer_zero := z\<rparr>) = srv_ok s"
  "srv_ok (s\<lparr>tcp_recieved := n\<rparr>) = srv_ok s" "srv_ok (s\<lparr>secs := k\<rparr>) = srv_ok s"
  "srv_ok (s\<lparr>tmr := u\<rparr>) = srv_ok s"
  by (simp_all add: srv_ok_def bufs_ok_def dma_live_def)

lemma srv_ok_TCP [simp]: "srv_ok s \<Longrightarrow> srv_ok (s\<lparr>TCP := c\<rparr>) = conn_ok c"
  by (simp add: srv_ok_def bufs_ok_def dma_live_def)

lemma conn_ok_simps [simp]:
  "conn_ok (c\<lparr>state := x1\<rparr>) = conn_ok c" "conn_ok (c\<lparr>dest_port := x2\<rparr>) = conn_ok c"
  "conn_ok (c\<lparr>seq_num := x3\<rparr>) = conn_ok c" "conn_ok (c\<lparr>last_acked := x4\<rparr>) = conn_ok c"
  "conn_ok (c\<lparr>last_sended_len := x5\<rparr>) = conn_ok c" "conn_ok (c\<lparr>window := x6\<rparr>) = conn_ok c"
  "conn_ok (c\<lparr>rec_payload_len := x7\<rparr>) = conn_ok c" "conn_ok (c\<lparr>acked := x8\<rparr>) = conn_ok c"
  "conn_ok (c\<lparr>command_sent := x8\<rparr>) = conn_ok c" "conn_ok (c\<lparr>got_html_req := x8\<rparr>) = conn_ok c"
  "conn_ok (ack_advance c) = conn_ok c"
  by (simp_all add: conn_ok_def ack_advance_def)

lemma conn_ok_arrays [simp]:
  "conn_ok c \<Longrightarrow> length m = 6 \<Longrightarrow> conn_ok (c\<lparr>dest_mac := m\<rparr>)"
  "conn_ok c \<Longrightarrow> length i = 4 \<Longrightarrow> conn_ok (c\<lparr>dest_ip := i\<rparr>)"
  "conn_ok c \<Longrightarrow> length p = 64 \<Longrightarrow> conn_ok (c\<lparr>payload := p\<rparr>)"
  by (simp_all add: conn_ok_def)

lemma srv_conn: "srv_ok s \<Longrightarrow> conn_ok (TCP s)"
  by (simp add: srv_ok_def bufs_ok_def)

lemma srv_rx: "srv_ok s \<Longrightarrow> length (rx_frame s) = 1518"
  by (simp add: srv_ok_def bufs_ok_def)

lemma create_ok:
  assumes "srv_ok s" "unat payload_len \<le> length data" "payload_len \<in> {0, 12, 619}"
    and "L = 54 + unat payload_len + 2"
  shows "\<exists>b. create_tcp_pkt flags data header_len payload_len s = Some (s\<lparr>tx_frame := b, TCP := ack_advance (TCP s)\<rparr>)
    \<and> srv_ok (s\<lparr>tx_frame := b, TCP := ack_advance (TCP s)\<rparr>) \<and> good_frame (take L b)
    \<and> built flags data header_len payload_len (ack_advance (TCP s)) (tx_frame s) b"
proof -
  have b: "bufs_ok s" and z: "tx_frame s ! 673 = 0" using assms(1) by (simp_all add: srv_ok_def)
  have l: "unat payload_len \<le> 1024" using assms(3) by auto
  obtain b where eq: "create_tcp_pkt flags data header_len payload_len s
      = Some (s\<lparr>tx_frame := b, TCP := ack_advance (TCP s)\<rparr>)"
    and B: "built flags data header_len payload_len (ack_advance (TCP s)) (tx_frame s) b"
    using create_tcp_pkt_built [OF b assms(2) l] by blast
  have "b ! 673 = tx_frame s ! 673" "length b = 1518" using B assms(3) by (auto simp: built_def)
  then have "srv_ok (s\<lparr>tx_frame := b, TCP := ack_advance (TCP s)\<rparr>)"
    using assms(1) z by (simp add: srv_ok_def bufs_ok_def dma_live_def)
  moreover have "ip_cksum_ok (take L b) \<and> tcp_cksum_ok (take L b)"
  proof (rule built_frame_ok [OF B])
    show "conn_ok (ack_advance (TCP s))" using srv_conn [OF assms(1)] by simp
    show "odd (unat payload_len) \<longrightarrow> tx_frame s ! (54 + unat payload_len) = 0"
      using assms(3) z by auto
    show "L \<le> 1518" using assms(4) l by simp
  qed (use l assms(4) in simp_all)
  ultimately show ?thesis using eq B by (auto simp: good_frame_def)
qed

lemma send_ok:
  assumes "srv_ok s" "good_frame (take L (tx_frame s))"
  shows "\<exists>t x. send_packet a L s = Some (s\<lparr>trace := t, sent := x\<rparr>) \<and> srv_ok (s\<lparr>trace := t, sent := x\<rparr>)
    \<and> accepted s (take L (tx_frame s)) x"
proof -
  have d: "settles (hw s) (trace s) (desc_ready tx_descriptor)" "sgdma_tx_dev s \<noteq> None"
    using assms(1) by (simp_all add: srv_ok_def dma_live_def)
  obtain s' where s': "send_packet a L s = Some s'" using send_packet_returns [OF d] by blast
  then obtain t x where x: "s' = s\<lparr>trace := t, sent := x\<rparr>"
    using send_packet_sends [OF s'] by (auto simp: sends_def)
  then have a: "accepted s (take L (tx_frame s)) x" using send_packet_accepted [OF s'] by simp
  then have "srv_ok (s\<lparr>trace := t, sent := x\<rparr>)"
    using assms accepted_cases [OF a] by (auto simp: srv_ok_def bufs_ok_def dma_live_def)
  then show ?thesis using s' x a by (intro exI [of _ t] exI [of _ x]) simp
qed

lemma copy_payload_ok:
  assumes "srv_ok s" "tcp_recieved s \<le> 76" "n \<le> 64"
  shows "\<exists>p. copy_payload n s = Some (upd_conn (\<lambda>c. c\<lparr>payload := p\<rparr>) s) \<and> length p = 64
    \<and> (\<forall>j<n. p ! j = rx_frame s ! (tcp_recieved s + 20 + j))"
proof -
  have l: "length (payload (TCP s)) = 64" using srv_conn [OF assms(1)] by (simp add: conn_ok_def)
  let ?d = "bytes_at (rx_frame s) (tcp_recieved s + 20) n"
  have "mem_get (rx_frame s) (tcp_recieved s + 20) n = Some ?d"
    using assms srv_rx [OF assms(1)] by (simp add: mem_get_def)
  moreover have "length ?d = n" using assms srv_rx [OF assms(1)] by simp
  ultimately show ?thesis using assms l srv_rx [OF assms(1)]
    by (intro exI [of _ "patch (payload (TCP s)) 0 ?d"])
      (simp add: copy_payload_def mem_put_Some nth_patch)
qed

subsection \<open>What each branch of the state machine does\<close>

text \<open>The connection after a SYN, before it is answered; \<open>p\<close> is its payload array.\<close>

definition syn_conn :: "'a net_scheme \<Rightarrow> u8 list \<Rightarrow> tcp_conn" where
  "syn_conn s p = (TCP s)\<lparr>command_sent := False, dest_mac := bytes_at (rx_frame s) 8 6,
     dest_port := tcp_sender_port s, dest_ip := bytes_at (rx_frame s) 28 4, seq_num := get_seq_num s,
     rec_payload_len := ucast (get_payload_len s), window := tcp_window s,
     last_acked := 0x13370000, payload := p\<rparr>"

lemma mem_get_rx:
  assumes "srv_ok s" "i + n \<le> 1518"
  shows "mem_get (rx_frame s) i n = Some (bytes_at (rx_frame s) i n)" "length (bytes_at (rx_frame s) i n) = n"
  using assms srv_rx [OF assms(1)] by (simp_all add: mem_get_def)

lemma timer_control_eq: "\<exists>t. timer_control b v s = s\<lparr>trace := t\<rparr>"
  by (auto simp: timer_control_def iowr_def wr32_def log_ev_def)

lemma on_listen_syn:
  assumes "srv_ok s" "tcp_recieved s \<le> 76" "flag_syn s"
  shows "\<exists>p b t x. on_listen s = Some (s\<lparr>tx_frame := b, trace := t, sent := x,
      TCP := (ack_advance (syn_conn s p))\<lparr>last_sended_len := 0, state := SYN_RECEIVED\<rparr>\<rparr>)
    \<and> length p = 64 \<and> (\<forall>j<24. p ! j = rx_frame s ! (tcp_recieved s + 20 + j))
    \<and> built 0x12 p 32 12 (ack_advance (syn_conn s p)) (tx_frame s) b
    \<and> accepted s (take 68 b) x
    \<and> (\<exists>t'. t = Wr32 (TIMER_0_BASE + 4) TIMER_START # t')
    \<and> srv_ok (s\<lparr>tx_frame := b, trace := t, sent := x,
      TCP := (ack_advance (syn_conn s p))\<lparr>last_sended_len := 0, state := SYN_RECEIVED\<rparr>\<rparr>)"
proof -
  note c = srv_conn [OF assms(1)]
  note g = mem_get_rx [OF assms(1), of 8 6, simplified] mem_get_rx [OF assms(1), of 28 4, simplified]
  let ?s1 = "s\<lparr>TCP := syn_conn s (payload (TCP s))\<rparr>"
  have s1: "srv_ok ?s1" "tcp_recieved ?s1 \<le> 76"
    using assms c g by (simp_all add: syn_conn_def)
  obtain p where p: "copy_payload 24 ?s1 = Some (upd_conn (\<lambda>c. c\<lparr>payload := p\<rparr>) ?s1)" "length p = 64"
    "\<forall>j<24. p ! j = rx_frame s ! (tcp_recieved s + 20 + j)"
    using copy_payload_ok [OF s1, of 24] by auto
  let ?s2 = "s\<lparr>TCP := syn_conn s p\<rparr>"
  have e2: "upd_conn (\<lambda>c. c\<lparr>payload := p\<rparr>) ?s1 = ?s2" by (simp add: upd_conn_def syn_conn_def)
  have s2: "srv_ok ?s2" using assms c g p(2) by (simp add: syn_conn_def)
  obtain b where b: "create_tcp_pkt 0x12 p 32 12 ?s2 = Some (?s2\<lparr>tx_frame := b, TCP := ack_advance (TCP ?s2)\<rparr>)"
    "srv_ok (?s2\<lparr>tx_frame := b, TCP := ack_advance (TCP ?s2)\<rparr>)" "good_frame (take 68 b)"
    "built 0x12 p 32 12 (ack_advance (TCP ?s2)) (tx_frame ?s2) b"
    using create_ok [OF s2, of 12 p 68 "0x12" 32] p(2) by auto
  let ?c3 = "(ack_advance (syn_conn s p))\<lparr>last_sended_len := 0\<rparr>"
  let ?s3 = "s\<lparr>tx_frame := b, TCP := ?c3\<rparr>"
  have s3: "srv_ok ?s3" using b(2) srv_conn [OF b(2)] by (simp add: srv_ok_def bufs_ok_def dma_live_def)
  obtain t x where x: "send_packet (tx_frame_addr s) 68 ?s3 = Some (?s3\<lparr>trace := t, sent := x\<rparr>)"
    "srv_ok (?s3\<lparr>trace := t, sent := x\<rparr>)" "accepted s (take 68 b) x"
    using send_ok [OF s3, of 68 "tx_frame_addr s"] b(3) by auto
  have "on_listen s = Some (timer_control TIMER_0_BASE TIMER_START
      (s\<lparr>tx_frame := b, trace := t, sent := x, TCP := ?c3\<lparr>state := SYN_RECEIVED\<rparr>\<rparr>))"
    using assms(3) g p(1) b(1) x(1) e2
    by (simp add: on_listen_def Let_def upd_conn_def syn_conn_def get_seq_num_def get_payload_len_def)
  moreover have "srv_ok (s\<lparr>tx_frame := b, trace := t', sent := x, TCP := ?c3\<lparr>state := SYN_RECEIVED\<rparr>\<rparr>)" for t'
    using x(2) by (simp add: srv_ok_def bufs_ok_def dma_live_def)
  ultimately show ?thesis using p b(4) x(3)
    by (intro exI [of _ p] exI [of _ b] exI [of _ "Wr32 (TIMER_0_BASE + 4) TIMER_START # t"] exI [of _ x])
      (simp add: timer_control_def iowr_def wr32_def log_ev_def)
qed

lemma reply_ok:
  assumes "srv_ok s" "conn_ok (f (ack_advance (TCP s)))"
  shows "\<exists>b t x. create_tcp_pkt fl (payload (TCP s)) 20 0 s = Some (s\<lparr>tx_frame := b, TCP := ack_advance (TCP s)\<rparr>)
    \<and> send_packet (tx_frame_addr s) 56 (s\<lparr>tx_frame := b, TCP := f (ack_advance (TCP s))\<rparr>)
      = Some (s\<lparr>tx_frame := b, TCP := f (ack_advance (TCP s)), trace := t, sent := x\<rparr>)
    \<and> srv_ok (s\<lparr>tx_frame := b, TCP := f (ack_advance (TCP s)), trace := t, sent := x\<rparr>)
    \<and> built fl (payload (TCP s)) 20 0 (ack_advance (TCP s)) (tx_frame s) b
    \<and> accepted s (take 56 b) x"
proof -
  obtain b where b: "create_tcp_pkt fl (payload (TCP s)) 20 0 s = Some (s\<lparr>tx_frame := b, TCP := ack_advance (TCP s)\<rparr>)"
    "srv_ok (s\<lparr>tx_frame := b, TCP := ack_advance (TCP s)\<rparr>)" "good_frame (take 56 b)"
    "built fl (payload (TCP s)) 20 0 (ack_advance (TCP s)) (tx_frame s) b"
    using create_ok [OF assms(1), of 0 "payload (TCP s)" 56 fl 20] by auto
  let ?s = "s\<lparr>tx_frame := b, TCP := f (ack_advance (TCP s))\<rparr>"
  have "srv_ok ?s" using b(2) assms(2) by (simp add: srv_ok_def bufs_ok_def dma_live_def)
  then obtain t x where "send_packet (tx_frame_addr s) 56 ?s = Some (?s\<lparr>trace := t, sent := x\<rparr>)"
    "srv_ok (?s\<lparr>trace := t, sent := x\<rparr>)" "accepted s (take 56 b) x"
    using send_ok [of ?s 56 "tx_frame_addr s"] b(3) by auto
  with b show ?thesis by (intro exI [of _ b] exI [of _ t] exI [of _ x]) simp
qed

text \<open>What every branch guarantees: it returns, keeps the invariant, touches neither the
  environment nor the timer, and moves the state only as listed.\<close>

definition moves :: "('a net_scheme \<Rightarrow> 'a net_scheme option) \<Rightarrow> 'a net_scheme \<Rightarrow> tcp_state set \<Rightarrow> bool" where
  "moves f s S \<longleftrightarrow> (case f s of None \<Rightarrow> False | Some s' \<Rightarrow>
     srv_ok s' \<and> env s' = env s \<and> clock s' = clock s \<and> state (TCP s') \<in> S)"

lemma movesI: "f s = Some s' \<Longrightarrow> srv_ok s' \<Longrightarrow> env s' = env s \<Longrightarrow> clock s' = clock s
    \<Longrightarrow> state (TCP s') \<in> S \<Longrightarrow> moves f s S"
  by (auto simp: moves_def)

lemma moves_mono: "moves f s S \<Longrightarrow> S \<subseteq> T \<Longrightarrow> moves f s T"
  by (auto simp: moves_def split: option.splits)

lemma ack_check_eq: "\<exists>la ac. ack_check s = s\<lparr>TCP := (TCP s)\<lparr>last_acked := la, acked := ac\<rparr>\<rparr>"
  by (intro exI [of _ "last_acked (TCP (ack_check s))"] exI [of _ "acked (TCP (ack_check s))"])
    (simp add: ack_check_def upd_conn_def Let_def)

lemma ack_check_keeps:
  "srv_ok s \<Longrightarrow> srv_ok (ack_check s)" "env (ack_check s) = env s" "clock (ack_check s) = clock s"
  "state (TCP (ack_check s)) = state (TCP s)" "tcp_recieved (ack_check s) = tcp_recieved s"
  "rx_frame (ack_check s) = rx_frame s" "tx_frame (ack_check s) = tx_frame s" "sent (ack_check s) = sent s"
  "dest_ip (TCP (ack_check s)) = dest_ip (TCP s)" "dest_port (TCP (ack_check s)) = dest_port (TCP s)"
  "tx_frame_addr (ack_check s) = tx_frame_addr s" "payload (TCP (ack_check s)) = payload (TCP s)"
  "last_sended_len (TCP (ack_check s)) = last_sended_len (TCP s)"
  using ack_check_eq [of s] by (auto simp: srv_conn)

lemma on_listen_moves:
  assumes "srv_ok s" "tcp_recieved s \<le> 76" "state (TCP s) = LISTEN"
  shows "moves on_listen s {LISTEN, SYN_RECEIVED}"
proof (cases "flag_syn s")
  case True
  from on_listen_syn [OF assms(1,2) True] show ?thesis by (auto intro!: movesI)
next
  case False
  then show ?thesis using assms srv_conn [OF assms(1)]
    by (auto simp: moves_def on_listen_def upd_conn_def)
qed

lemma on_syn_received_moves:
  assumes "srv_ok s" "state (TCP s) = SYN_RECEIVED"
  shows "moves on_syn_received s {SYN_RECEIVED, ESTABLISHED}"
  using assms ack_check_keeps [of s] srv_conn [OF ack_check_keeps(1) [OF assms(1)]]
  by (auto simp: moves_def on_syn_received_def Let_def upd_conn_def)

lemma on_last_ack_moves:
  assumes "srv_ok s" "state (TCP s) = LAST_ACK"
  shows "moves on_last_ack s {LAST_ACK, LISTEN}"
proof -
  let ?s = "upd_conn (\<lambda>c. c\<lparr>rec_payload_len := ucast (get_payload_len s)\<rparr>) (upd_conn (\<lambda>c. c\<lparr>seq_num := get_seq_num s\<rparr>) s)"
  have "srv_ok ?s" using assms srv_conn [OF assms(1)] by (simp add: upd_conn_def)
  then show ?thesis
    using assms ack_check_keeps [of ?s] srv_conn [OF ack_check_keeps(1) [of ?s]]
    by (auto simp: moves_def on_last_ack_def Let_def upd_conn_def get_payload_len_def get_seq_num_def)
qed

lemma on_fin_wait_moves:
  assumes "srv_ok s" "state (TCP s) = FIN_WAIT"
  shows "moves on_fin_wait s {FIN_WAIT, LISTEN}"
proof (cases "flag_ack s \<and> flag_fin s \<and> check_tcp_sender_ip s \<and> dest_port (TCP s) = tcp_sender_port s")
  case True
  let ?u = "upd_conn (\<lambda>c. c\<lparr>rec_payload_len := ucast (get_payload_len s)\<rparr>)
    (upd_conn (\<lambda>c. c\<lparr>seq_num := get_seq_num s\<rparr>) s)"
  let ?s = "ack_check ?u"
  have s0: "srv_ok ?u" using assms srv_conn [OF assms(1)] by (simp add: upd_conn_def)
  note k = ack_check_keeps(2-) [of ?u] ack_check_keeps(1) [OF s0]
  have e: "on_fin_wait s = (if acked (TCP ?s) then do {
      s \<leftarrow> create_tcp_pkt 0x10 (payload (TCP ?s)) 20 0 ?s;
      let s = upd_conn (\<lambda>c. c\<lparr>last_sended_len := 0\<rparr>) s;
      s \<leftarrow> send_packet (tx_frame_addr s) (54 + 2) s;
      Some (upd_conn (\<lambda>c. c\<lparr>state := LISTEN\<rparr>) s) } else Some ?s)"
    using True by (simp add: on_fin_wait_def Let_def upd_conn_def get_payload_len_def get_seq_num_def)
  have c: "conn_ok (TCP ?s)" using srv_conn k by blast
  obtain b t x where r: "create_tcp_pkt 0x10 (payload (TCP ?s)) 20 0 ?s = Some (?s\<lparr>tx_frame := b, TCP := ack_advance (TCP ?s)\<rparr>)"
    "send_packet (tx_frame_addr ?s) 56 (?s\<lparr>tx_frame := b, TCP := (ack_advance (TCP ?s))\<lparr>last_sended_len := 0\<rparr>\<rparr>)
      = Some (?s\<lparr>tx_frame := b, TCP := (ack_advance (TCP ?s))\<lparr>last_sended_len := 0\<rparr>, trace := t, sent := x\<rparr>)"
    "srv_ok (?s\<lparr>tx_frame := b, TCP := (ack_advance (TCP ?s))\<lparr>last_sended_len := 0\<rparr>, trace := t, sent := x\<rparr>)"
    using reply_ok [of ?s "\<lambda>c. c\<lparr>last_sended_len := 0\<rparr>" "0x10"] k c by auto
  show ?thesis
  proof (cases "acked (TCP ?s)")
    case True
    then show ?thesis using e r k srv_conn [OF r(3)] assms srv_ok_TCP [OF r(3)]
      by (simp add: moves_def upd_conn_def)
  next
    case False
    then show ?thesis using e k assms by (simp add: moves_def upd_conn_def)
  qed
next
  case False
  then show ?thesis using assms by (auto simp: on_fin_wait_def moves_def)
qed

lemma close_or_ack_moves:
  assumes "srv_ok s" "state (TCP s) = ESTABLISHED"
  shows "moves close_or_ack s {ESTABLISHED, LAST_ACK}"
proof (cases "flag_fin s")
  case True
  let ?s = "s\<lparr>TCP := (TCP s)\<lparr>last_acked := last_acked (TCP s) + 1\<rparr>\<rparr>"
  have s: "srv_ok ?s" "conn_ok (TCP ?s)" using assms srv_conn [OF assms(1)] by simp_all
  obtain b t x where r: "create_tcp_pkt 0x11 (payload (TCP ?s)) 20 0 ?s = Some (?s\<lparr>tx_frame := b, TCP := ack_advance (TCP ?s)\<rparr>)"
    "send_packet (tx_frame_addr ?s) 56 (?s\<lparr>tx_frame := b, TCP := ack_advance (TCP ?s)\<rparr>)
      = Some (?s\<lparr>tx_frame := b, TCP := ack_advance (TCP ?s), trace := t, sent := x\<rparr>)"
    "srv_ok (?s\<lparr>tx_frame := b, TCP := ack_advance (TCP ?s), trace := t, sent := x\<rparr>)"
    using reply_ok [of ?s "\<lambda>c. c" "0x11"] s by auto
  show ?thesis using True r srv_conn [OF r(3)] srv_ok_TCP [OF r(3)]
    by (simp add: close_or_ack_def moves_def upd_conn_def Let_def)
next
  case False
  have c: "conn_ok ((ack_advance (TCP s))\<lparr>last_sended_len := 0\<rparr>)" using srv_conn [OF assms(1)] by simp
  obtain b t x where r: "create_tcp_pkt 0x10 (payload (TCP s)) 20 0 s = Some (s\<lparr>tx_frame := b, TCP := ack_advance (TCP s)\<rparr>)"
    "send_packet (tx_frame_addr s) 56 (s\<lparr>tx_frame := b, TCP := (ack_advance (TCP s))\<lparr>last_sended_len := 0\<rparr>\<rparr>)
      = Some (s\<lparr>tx_frame := b, TCP := (ack_advance (TCP s))\<lparr>last_sended_len := 0\<rparr>, trace := t, sent := x\<rparr>)"
    "srv_ok (s\<lparr>tx_frame := b, TCP := (ack_advance (TCP s))\<lparr>last_sended_len := 0\<rparr>, trace := t, sent := x\<rparr>)"
    using reply_ok [of s "\<lambda>c. c\<lparr>last_sended_len := 0\<rparr>" "0x10"] assms(1) c by auto
  show ?thesis using False r assms
    by (simp add: close_or_ack_def moves_def upd_conn_def Let_def ack_advance_def)
qed

text \<open>The page goes out: the segment holds it, FIN and ACK are set, and the request is kept.\<close>

lemma send_page_effect:
  assumes "srv_ok s" "tcp_recieved s \<le> 76"
  shows "\<exists>p b t x w. let c = ack_advance ((TCP s)\<lparr>window := w\<rparr>) in
    send_page s = Some (s\<lparr>tx_frame := b, trace := t, sent := x,
      TCP := c\<lparr>last_sended_len := HTML_PAGE_LEN, state := FIN_WAIT, payload := p, got_html_req := True\<rparr>\<rparr>)
    \<and> length p = 64 \<and> (\<forall>j<64. p ! j = rx_frame s ! (tcp_recieved s + 20 + j))
    \<and> built 0x11 html_page 20 HTML_PAGE_LEN c (tx_frame s) b
    \<and> accepted s (take 675 b) x
    \<and> srv_ok (s\<lparr>tx_frame := b, trace := t, sent := x,
      TCP := c\<lparr>last_sended_len := HTML_PAGE_LEN, state := FIN_WAIT, payload := p, got_html_req := True\<rparr>\<rparr>)"
proof -
  let ?d = "(TCP s)\<lparr>window := tcp_window s\<rparr>"
  let ?u = "s\<lparr>TCP := ?d\<rparr>" and ?c = "ack_advance ?d"
  have s0: "srv_ok ?u" using assms(1) srv_conn [OF assms(1)] by simp
  have h: "unat HTML_PAGE_LEN = 619" by (simp add: HTML_PAGE_LEN_val)
  obtain b where b: "create_tcp_pkt 0x11 html_page 20 HTML_PAGE_LEN ?u = Some (?u\<lparr>tx_frame := b, TCP := ack_advance (TCP ?u)\<rparr>)"
    "srv_ok (?u\<lparr>tx_frame := b, TCP := ack_advance (TCP ?u)\<rparr>)" "good_frame (take 675 b)"
    "built 0x11 html_page 20 HTML_PAGE_LEN (ack_advance (TCP ?u)) (tx_frame ?u) b"
    using create_ok [OF s0, of HTML_PAGE_LEN html_page 675 "0x11" 20] html_page_length h HTML_PAGE_LEN_val
    by auto
  let ?s1 = "s\<lparr>tx_frame := b, TCP := ?c\<lparr>last_sended_len := HTML_PAGE_LEN\<rparr>\<rparr>"
  have s1: "srv_ok ?s1" using b(2) srv_conn [OF b(2)] by (simp add: srv_ok_def bufs_ok_def dma_live_def)
  obtain t x where x: "send_packet (tx_frame_addr s) 675 ?s1 = Some (?s1\<lparr>trace := t, sent := x\<rparr>)"
    "srv_ok (?s1\<lparr>trace := t, sent := x\<rparr>)" "accepted s (take 675 b) x"
    using send_ok [OF s1, of 675 "tx_frame_addr s"] b(3) by auto
  let ?s2 = "s\<lparr>tx_frame := b, trace := t, sent := x, TCP := ?c\<lparr>last_sended_len := HTML_PAGE_LEN, state := FIN_WAIT\<rparr>\<rparr>"
  have s2: "srv_ok ?s2" "tcp_recieved ?s2 \<le> 76"
    using x(2) assms(2) by (simp_all add: srv_ok_def bufs_ok_def dma_live_def)
  obtain p where p: "copy_payload 64 ?s2 = Some (upd_conn (\<lambda>c. c\<lparr>payload := p\<rparr>) ?s2)" "length p = 64"
    "\<forall>j<64. p ! j = rx_frame s ! (tcp_recieved s + 20 + j)"
    using copy_payload_ok [OF s2, of 64] by auto
  have "send_page s = Some (s\<lparr>tx_frame := b, trace := t, sent := x,
      TCP := ?c\<lparr>last_sended_len := HTML_PAGE_LEN, state := FIN_WAIT, payload := p, got_html_req := True\<rparr>\<rparr>)"
    using b(1) x(1) p(1) by (simp add: send_page_def Let_def upd_conn_def h)
  moreover have "srv_ok (s\<lparr>tx_frame := b, trace := t, sent := x,
      TCP := ?c\<lparr>last_sended_len := HTML_PAGE_LEN, state := FIN_WAIT, payload := p, got_html_req := True\<rparr>\<rparr>)"
    using s2(1) p(2) by (simp add: srv_ok_def bufs_ok_def dma_live_def conn_ok_def)
  ultimately show ?thesis using b(4) x(3) p(2,3)
    by (intro exI [of _ p] exI [of _ b] exI [of _ t] exI [of _ x] exI [of _ "tcp_window s"]) (simp add: Let_def)
qed

definition est_state :: "'a net_scheme \<Rightarrow> 'a net_scheme" where
  "est_state s = (ack_check s)\<lparr>TCP := (TCP (ack_check s))\<lparr>seq_num := get_seq_num s,
     rec_payload_len := ucast (get_payload_len s)\<rparr>\<rparr>"

lemma est_state_keeps:
  assumes "srv_ok s"
  shows "srv_ok (est_state s)" "env (est_state s) = env s" "clock (est_state s) = clock s"
    "state (TCP (est_state s)) = state (TCP s)" "tcp_recieved (est_state s) = tcp_recieved s"
    "rx_frame (est_state s) = rx_frame s" "sent (est_state s) = sent s" "tx_frame (est_state s) = tx_frame s"
  using ack_check_keeps [of s] assms srv_conn [OF ack_check_keeps(1) [OF assms]]
  by (simp_all add: est_state_def)

lemma est_state_accepted [simp]: "accepted (est_state s) = accepted s"
proof -
  obtain c where "est_state s = s\<lparr>TCP := c\<rparr>" using ack_check_eq [of s] by (auto simp: est_state_def)
  then show ?thesis by simp
qed

lemma on_established_eq:
  "on_established s =
    (if flag_ack s \<and> check_tcp_sender_ip s \<and> dest_port (TCP s) = tcp_sender_port s then
       let s = est_state s in
       if acked (TCP s) then
         let s = s\<lparr>set_timer_zero := True\<rparr> in
         if rec_payload_len (TCP s) > 1 then do {
           message \<leftarrow> mem_get (rx_frame s) (tcp_recieved s + 20) 3;
           if message = bytes_of ''GET'' then send_page s else close_or_ack s
         } else close_or_ack s
       else Some s
     else Some s)"
  using ack_check_keeps(5,6) [of s]
  by (auto simp: on_established_def est_state_def Let_def upd_conn_def get_seq_num_def get_payload_len_def)

lemma moves_same: "env t = env s \<Longrightarrow> clock t = clock s \<Longrightarrow> f s = g t \<Longrightarrow> moves g t S \<Longrightarrow> moves f s S"
  by (simp add: moves_def split: option.splits)

lemma send_page_moves:
  assumes "srv_ok s" "tcp_recieved s \<le> 76"
  shows "moves send_page s {FIN_WAIT}"
  using send_page_effect [OF assms] by (auto simp: moves_def Let_def)

lemma on_established_moves:
  assumes "srv_ok s" "tcp_recieved s \<le> 76" "state (TCP s) = ESTABLISHED"
  shows "moves on_established s {ESTABLISHED, FIN_WAIT, LAST_ACK}"
proof (cases "flag_ack s \<and> check_tcp_sender_ip s \<and> dest_port (TCP s) = tcp_sender_port s
    \<and> acked (TCP (est_state s))")
  case False
  then show ?thesis using assms est_state_keeps [OF assms(1)]
    by (auto simp: moves_def on_established_eq Let_def)
next
  case True
  let ?t = "(est_state s)\<lparr>set_timer_zero := True\<rparr>"
  note k = est_state_keeps [OF assms(1)]
  have t: "srv_ok ?t" "tcp_recieved ?t \<le> 76" "state (TCP ?t) = ESTABLISHED" "env ?t = env s" "clock ?t = clock s"
    using k assms by simp_all
  have "mem_get (rx_frame ?t) (tcp_recieved ?t + 20) 3 = Some (bytes_at (rx_frame ?t) (tcp_recieved ?t + 20) 3)"
    by (rule mem_get_rx [OF t(1)]) (use t(2) in simp)
  then have e: "on_established s = (if rec_payload_len (TCP ?t) > 1 \<and>
      bytes_at (rx_frame ?t) (tcp_recieved ?t + 20) 3 = bytes_of ''GET'' then send_page ?t else close_or_ack ?t)"
    using True by (simp add: on_established_eq Let_def)
  have p: "moves send_page ?t {ESTABLISHED, FIN_WAIT, LAST_ACK}"
    by (rule moves_mono [OF send_page_moves [OF t(1,2)]]) simp
  have q: "moves close_or_ack ?t {ESTABLISHED, FIN_WAIT, LAST_ACK}"
    by (rule moves_mono [OF close_or_ack_moves [OF t(1,3)]]) auto
  have pe: "on_established s = send_page ?t \<or> on_established s = close_or_ack ?t" using e by auto
  show ?thesis
    by (rule disjE [OF pe]) (rule moves_same [OF t(4,5) _ p] moves_same [OF t(4,5) _ q], assumption)+
qed

definition tcp_moves :: "(tcp_state \<times> tcp_state) set" where
  "tcp_moves = Id \<union> {(LISTEN, SYN_RECEIVED), (SYN_RECEIVED, ESTABLISHED), (ESTABLISHED, FIN_WAIT),
     (ESTABLISHED, LAST_ACK), (FIN_WAIT, LISTEN), (LAST_ACK, LISTEN)}"

lemma tcp_switch_moves:
  assumes "srv_ok s" "tcp_recieved s \<le> 76"
  shows "moves tcp_switch s (tcp_moves `` {state (TCP s)})"
proof (cases "state (TCP s)")
  case LISTEN
  with on_listen_moves [OF assms] show ?thesis by (auto simp: moves_def tcp_switch_def tcp_moves_def split: option.splits)
next
  case SYN_RECEIVED
  with on_syn_received_moves [OF assms(1)] show ?thesis by (auto simp: moves_def tcp_switch_def tcp_moves_def split: option.splits)
next
  case ESTABLISHED
  with on_established_moves [OF assms] show ?thesis by (auto simp: moves_def tcp_switch_def tcp_moves_def split: option.splits)
next
  case FIN_WAIT
  with on_fin_wait_moves [OF assms(1)] show ?thesis by (auto simp: moves_def tcp_switch_def tcp_moves_def split: option.splits)
next
  case LAST_ACK
  with on_last_ack_moves [OF assms(1)] show ?thesis by (auto simp: moves_def tcp_switch_def tcp_moves_def split: option.splits)
qed (use assms in \<open>simp_all add: moves_def tcp_switch_def tcp_moves_def\<close>)

lemma header_offset: "unat (x AND 0xf) * 4 + 14 + 2 \<le> 76" for x :: u8
proof -
  have "unat (x AND 0xf) \<le> 15"
    using word_and_le1 [of x "0xf"] by (simp add: word_le_nat_alt)
  then show ?thesis by simp
qed

lemma rx_tcp_moves:
  assumes "srv_ok s"
  shows "moves rx_tcp s (tcp_moves `` {state (TCP s)})"
proof -
  let ?t = "s\<lparr>tcp_recieved := 2 + (unat (ip_ver_ihl s AND 0xf) * 4 + 14)\<rparr>"
  have t: "srv_ok ?t" "tcp_recieved ?t \<le> 76" "env ?t = env s" "clock ?t = clock s" "TCP ?t = TCP s"
    using assms header_offset [of "ip_ver_ihl s"] by simp_all
  from tcp_switch_moves [OF t(1,2)] have sw: "moves tcp_switch ?t (tcp_moves `` {state (TCP s)})"
    by (simp only: t(5))
  have st: "state (TCP s) \<in> tcp_moves `` {state (TCP s)}" by (simp add: tcp_moves_def)
  show ?thesis
  proof (cases "eth_type s = 0x0008 \<and> ip_protocol s = 0x06 \<and> checkmac s \<and> check_checksumm
      \<and> tcp_destination_port ?t = 0x5000")
    case True
    then have "rx_tcp s = tcp_switch ?t" by (simp add: rx_tcp_def Let_def)
    then show ?thesis by (rule moves_same [where f = rx_tcp and g = tcp_switch, OF t(3,4) _ sw])
  next
    case False
    then have "rx_tcp s = Some s \<or> rx_tcp s = Some ?t" by (auto simp: rx_tcp_def Let_def)
    then show ?thesis using assms t st by (auto simp: moves_def)
  qed
qed

lemma arp_buffer:
  assumes "length b = 1518" "length sha = 6" "length spa = 4"
  shows "\<exists>b'. stores b [(0, sha), (6, my_mac), (12, le16 0x0608), (14, le16 0x0100), (16, le16 0x0008),
       (18, le16 0x0406), (20, le16 0x0200), (22, my_mac), (28, my_ip), (32, sha), (38, spa)] = Some b'
    \<and> length b' = 1518 \<and> (\<forall>j. 42 \<le> j \<longrightarrow> j < 1518 \<longrightarrow> b' ! j = b ! j)
    \<and> take 42 b' = sha @ my_mac @ [8, 6, 0, 1, 8, 0, 6, 4, 0, 2] @ my_mac @ my_ip @ sha @ spa"
proof -
  let ?ps = "[(0, sha), (6, my_mac), (12, le16 0x0608), (14, le16 0x0100), (16, le16 0x0008),
       (18, le16 0x0406), (20, le16 0x0200), (22, my_mac), (28, my_ip), (32, sha), (38, spa)]"
  have f: "fits (length b) ?ps" using assms by simp
  obtain m0 m1 m2 m3 m4 m5 where m: "sha = [m0, m1, m2, m3, m4, m5]"
    using assms(2) by (auto simp: length_Suc_conv eval_nat_numeral)
  obtain d0 d1 d2 d3 where d: "spa = [d0, d1, d2, d3]"
    using assms(3) by (auto simp: length_Suc_conv eval_nat_numeral)
  let ?b = "patches b ?ps"
  have l: "length ?b = 1518" using length_patches [OF f] assms(1) by simp
  have n: "?b ! j = last_store ?ps j (b ! j)" if "j < 1518" for j
    using nth_patches [OF f] assms(1) that by simp
  have u: "[0..<42] = [0,1,2,3,4,5,6,7,8,9,10,11,12,13,14,15,16,17,18,19,20,21,22,23,24,25,
    26,27,28,29,30,31,32,33,34,35,36,37,38,39,40,41]" by code_simp
  have "list_all (\<lambda>j. last_store ?ps j (b ! j) =
      (sha @ my_mac @ [8, 6, 0, 1, 8, 0, 6, 4, 0, 2] @ my_mac @ my_ip @ sha @ spa) ! j) [0..<42]"
    unfolding u by (simp add: m d le16_consts my_ip_def my_mac_def del: One_nat_def)
  then have "take 42 ?b = sha @ my_mac @ [8, 6, 0, 1, 8, 0, 6, 4, 0, 2] @ my_mac @ my_ip @ sha @ spa"
    using l assms n by (intro nth_equalityI) (simp_all add: list_all_iff)
  moreover have "\<forall>j. 42 \<le> j \<longrightarrow> j < 1518 \<longrightarrow> ?b ! j = b ! j"
    using n assms by (simp add: last_store_out)
  ultimately show ?thesis using stores_Some [OF f] l by blast
qed

lemma arp_reply_effect:
  assumes "srv_ok s"
  shows "\<exists>b t x. arp_reply s = Some (s\<lparr>tx_frame := b, trace := t, sent := x\<rparr>)
    \<and> srv_ok (s\<lparr>tx_frame := b, trace := t, sent := x\<rparr>)
    \<and> take 42 b = bytes_at (rx_frame s) 24 6 @ my_mac @ [8, 6, 0, 1, 8, 0, 6, 4, 0, 2]
        @ my_mac @ my_ip @ bytes_at (rx_frame s) 24 6 @ bytes_at (rx_frame s) 30 4
    \<and> get16 (take 44 b) 12 = 0x0608
    \<and> accepted s (take 44 b) x"
proof -
  note g = mem_get_rx [OF assms, of 24 6, simplified] mem_get_rx [OF assms, of 30 4, simplified]
  have l: "length (tx_frame s) = 1518" using assms by (simp add: srv_ok_def bufs_ok_def)
  obtain b where b: "stores (tx_frame s) [(0, bytes_at (rx_frame s) 24 6), (6, my_mac), (12, le16 0x0608), (14, le16 0x0100),
       (16, le16 0x0008), (18, le16 0x0406), (20, le16 0x0200), (22, my_mac), (28, my_ip),
       (32, bytes_at (rx_frame s) 24 6), (38, bytes_at (rx_frame s) 30 4)] = Some b"
    "length b = 1518" "\<forall>j. 42 \<le> j \<longrightarrow> j < 1518 \<longrightarrow> b ! j = tx_frame s ! j"
    "take 42 b = bytes_at (rx_frame s) 24 6 @ my_mac @ [8, 6, 0, 1, 8, 0, 6, 4, 0, 2]
        @ my_mac @ my_ip @ bytes_at (rx_frame s) 24 6 @ bytes_at (rx_frame s) 30 4"
    using arp_buffer [OF l g(2,4)] by blast
  let ?s = "s\<lparr>tx_frame := b\<rparr>"
  have s: "srv_ok ?s" using assms b(2,3) by (simp add: srv_ok_def bufs_ok_def dma_live_def)
  have "b ! 12 = take 42 b ! 12" "b ! 13 = take 42 b ! 13" by simp_all
  then have "b ! 12 = 8" "b ! 13 = 6" unfolding b(4) using g(2) by (simp_all add: nth_append)
  moreover have "ucast (8 :: u8) OR push_bit 8 (ucast (6 :: u8)) = (0x0608 :: u16)" by code_simp
  ultimately have ty: "get16 (take 44 b) 12 = 0x0608" by (simp add: get16_def)
  then have "good_frame (take 44 (tx_frame ?s))" by (simp add: good_frame_def)
  then obtain t x where "send_packet (tx_frame_addr s) 44 ?s = Some (?s\<lparr>trace := t, sent := x\<rparr>)"
    "srv_ok (?s\<lparr>trace := t, sent := x\<rparr>)" "accepted s (take 44 b) x"
    using send_ok [OF s, of 44 "tx_frame_addr s"] by auto
  moreover have "arp_reply s = send_packet (tx_frame_addr s) 44 ?s"
    using g(1,3) b(1) by (simp add: arp_reply_def)
  ultimately show ?thesis using b(4) ty by (intro exI [of _ b] exI [of _ t] exI [of _ x]) simp
qed

lemma rx_arp_effect:
  assumes "srv_ok s"
  shows "\<exists>s'. rx_arp s = Some s' \<and> srv_ok s' \<and> env s' = env s \<and> clock s' = clock s \<and> TCP s' = TCP s
    \<and> tcp_recieved s' = tcp_recieved s \<and> set_timer_zero s' = set_timer_zero s
    \<and> (\<forall>fr \<in> set (sent s') - set (sent s). get16 fr 12 = 0x0608)"
proof (cases "rx_arp s = Some s")
  case False
  have "rx_arp s = arp_reply s \<or> rx_arp s = Some s" unfolding rx_arp_def by presburger
  with False have "rx_arp s = arp_reply s" by simp
  moreover obtain b t x where "arp_reply s = Some (s\<lparr>tx_frame := b, trace := t, sent := x\<rparr>)"
    "srv_ok (s\<lparr>tx_frame := b, trace := t, sent := x\<rparr>)" "get16 (take 44 b) 12 = 0x0608"
    "accepted s (take 44 b) x"
    using arp_reply_effect [OF assms] by blast
  ultimately show ?thesis by (auto dest: accepted_cases)
qed (use assms in auto)

text \<open>The whole receive interrupt.\<close>

lemma rx_isr_effect:
  assumes "srv_ok s"
  shows "\<exists>s1 s2 t. rx_arp s = Some s1 \<and> rx_tcp s1 = Some s2 \<and> rx_ethernet_isr s = Some (s2\<lparr>trace := t\<rparr>)
    \<and> srv_ok s1 \<and> srv_ok s2 \<and> env s2 = env s \<and> clock s2 = clock s \<and> TCP s1 = TCP s
    \<and> (state (TCP s), state (TCP s2)) \<in> tcp_moves"
proof -
  obtain s1 where 1: "rx_arp s = Some s1" "srv_ok s1" "env s1 = env s" "clock s1 = clock s" "TCP s1 = TCP s"
    using rx_arp_effect [OF assms] by blast
  obtain s2 where 2: "rx_tcp s1 = Some s2" "srv_ok s2" "env s2 = env s1" "clock s2 = clock s1"
    "state (TCP s2) \<in> tcp_moves `` {state (TCP s1)}"
    using rx_tcp_moves [OF 1(2)] by (auto simp: moves_def split: option.splits)
  have "settles (hw s2) (trace s2) (desc_ready rx_descriptor)" "sgdma_rx_dev s2 \<noteq> None"
    using 2(2) by (simp_all add: srv_ok_def dma_live_def)
  then obtain s3 where 3: "rearm_rx s2 = Some s3" using rearm_rx_returns by blast
  then obtain es where "s3 = s2\<lparr>trace := es @ trace s2\<rparr>"
    using rearm_rx_bus_only by (auto simp: bus_only_def)
  then show ?thesis using 1 2 3
    by (intro exI [of _ s1] exI [of _ s2] exI [of _ "es @ trace s2"]) (simp add: rx_ethernet_isr_def)
qed

lemma timer_control_fields:
  "srv_ok (timer_control b v s) = srv_ok s" "env (timer_control b v s) = env s"
  "TCP (timer_control b v s) = TCP s" "tmr (timer_control b v s) = tmr s" "secs (timer_control b v s) = secs s"
  "sent (timer_control b v s) = sent s"
  by (simp_all add: timer_control_def iowr_def wr32_def log_ev_def)

lemma timer_fields:
  "srv_ok (iowr b n v s) = srv_ok s" "env (iowr b n v s) = env s"
  "TCP (iowr b n v s) = TCP s" "tmr (iowr b n v s) = tmr s" "secs (iowr b n v s) = secs s"
  "sent (iowr b n v s) = sent s"
  by (simp_all add: iowr_def wr32_def log_ev_def)

text \<open>The abstract timer: the connection state and the seconds counted in it.\<close>

fun timer_next :: "tcp_state \<times> int \<Rightarrow> tcp_state \<times> int" where
  "timer_next (ESTABLISHED, k) = (if k + 1 = 10 then (FIN_WAIT, 0) else (ESTABLISHED, k + 1))"
| "timer_next (SYN_RECEIVED, k) = (if k + 1 = 60 then (LISTEN, 0) else (SYN_RECEIVED, k + 1))"
| "timer_next (FIN_WAIT, k) = (if k + 1 = 60 then (LISTEN, 0) else (FIN_WAIT, k + 1))"
| "timer_next (LAST_ACK, k) = (if k + 1 = 60 then (LISTEN, 0) else (LAST_ACK, k + 1))"
| "timer_next (st, k) = (st, 0)"

definition timer_view :: "'a net_scheme \<Rightarrow> tcp_state \<times> int" where
  "timer_view s = (state (TCP s), secs s)"

definition ticks :: "('a net_scheme \<Rightarrow> 'a net_scheme option) \<Rightarrow> 'a net_scheme \<Rightarrow> tcp_state \<times> int \<Rightarrow> bool" where
  "ticks f s v \<longleftrightarrow> (case f s of None \<Rightarrow> False | Some s' \<Rightarrow>
     srv_ok s' \<and> env s' = env s \<and> tmr s' = tmr s \<and> timer_view s' = v)"

lemma timeout_listen_ticks:
  assumes "srv_ok s" "secs s < 2 ^ 31 - 1"
  shows "ticks timeout_listen s (if secs s + 1 = 60 then (LISTEN, 0) else (state (TCP s), secs s + 1))"
  using assms srv_conn [OF assms(1)]
  by (simp add: ticks_def timeout_listen_def inc_secs_def Let_def upd_conn_def timer_control_fields timer_view_def)

lemma timeout_established_ticks:
  assumes "srv_ok s" "secs s < 2 ^ 31 - 1" "state (TCP s) = ESTABLISHED"
  shows "ticks timeout_established s (if secs s + 1 = 10 then (FIN_WAIT, 0) else (ESTABLISHED, secs s + 1))"
proof (cases "secs s + 1 = 10")
  case True
  let ?t = "s\<lparr>secs := 10, TCP := (TCP s)\<lparr>seq_num := seq_num (TCP s) - 1, last_acked := last_acked (TCP s) + 1\<rparr>\<rparr>"
  have t: "srv_ok ?t" "conn_ok (TCP ?t)" using assms srv_conn [OF assms(1)] by simp_all
  obtain b u x where r: "create_tcp_pkt 0x11 (payload (TCP ?t)) 20 0 ?t = Some (?t\<lparr>tx_frame := b, TCP := ack_advance (TCP ?t)\<rparr>)"
    "send_packet (tx_frame_addr ?t) 56 (?t\<lparr>tx_frame := b, TCP := ack_advance (TCP ?t)\<rparr>)
      = Some (?t\<lparr>tx_frame := b, TCP := ack_advance (TCP ?t), trace := u, sent := x\<rparr>)"
    "srv_ok (?t\<lparr>tx_frame := b, TCP := ack_advance (TCP ?t), trace := u, sent := x\<rparr>)"
    using reply_ok [of ?t "\<lambda>c. c" "0x11"] t by auto
  have "srv_ok (s\<lparr>tx_frame := b, trace := u, sent := x, TCP := c\<rparr>)" if "conn_ok c" for c
    using r(3) that by (simp add: srv_ok_def bufs_ok_def dma_live_def)
  then show ?thesis using True assms r srv_conn [OF r(3)]
    by (simp add: ticks_def timeout_established_def inc_secs_def Let_def upd_conn_def timer_view_def)
next
  case False
  then show ?thesis using assms
    by (simp add: ticks_def timeout_established_def inc_secs_def timer_view_def)
qed

definition counts :: "tcp_state \<Rightarrow> bool" where
  "counts st \<longleftrightarrow> st \<in> {SYN_RECEIVED, ESTABLISHED, FIN_WAIT, LAST_ACK}"

lemma timeout_isr_ticks:
  assumes "srv_ok s" "counts (state (TCP s)) \<longrightarrow> secs s < 2 ^ 31 - 1" "\<not> tmr_set_timer_zero (tmr s)"
  shows "ticks timeout_isr s (timer_next (timer_view s))"
proof -
  let ?t = "iowr TIMER_0_BASE 0 0 s"
  have t: "srv_ok ?t" "counts (state (TCP s)) \<longrightarrow> secs ?t < 2 ^ 31 - 1" "TCP ?t = TCP s" "env ?t = env s" "tmr ?t = tmr s" "secs ?t = secs s"
    using assms by (simp_all add: timer_fields)
  show ?thesis
  proof (cases "state (TCP s)")
    case ESTABLISHED
    then show ?thesis using timeout_established_ticks [OF t(1)] t assms(3)
      by (auto simp: counts_def ticks_def timeout_isr_def Let_def timer_view_def split: option.splits if_splits)
  next
    case SYN_RECEIVED
    then show ?thesis using timeout_listen_ticks [OF t(1)] t assms(3)
      by (auto simp: counts_def ticks_def timeout_isr_def Let_def timer_view_def split: option.splits if_splits)
  next
    case FIN_WAIT
    then show ?thesis using timeout_listen_ticks [OF t(1)] t assms(3)
      by (auto simp: counts_def ticks_def timeout_isr_def Let_def timer_view_def split: option.splits if_splits)
  next
    case LAST_ACK
    then show ?thesis using timeout_listen_ticks [OF t(1)] t assms(3)
      by (auto simp: counts_def ticks_def timeout_isr_def Let_def timer_view_def split: option.splits if_splits)
  qed (use t assms in \<open>simp_all add: ticks_def timeout_isr_def Let_def timer_view_def timer_control_fields\<close>)
qed

subsection \<open>Histories\<close>

text \<open>A history of the server: frames arriving (the controller fills \<open>rx_frame\<close>, then
  interrupts) and timer interrupts, in any order.\<close>

definition deliver :: "u8 list \<Rightarrow> 'a net_scheme \<Rightarrow> 'a net_scheme" where
  "deliver f s = s\<lparr>rx_frame := f\<rparr>"

inductive srv_reach :: "'a net_scheme \<Rightarrow> 'a net_scheme \<Rightarrow> bool" for s0 where
  start: "srv_reach s0 s0"
| frame: "srv_reach s0 s \<Longrightarrow> length f = 1518 \<Longrightarrow> rx_ethernet_isr (deliver f s) = Some t \<Longrightarrow> srv_reach s0 t"
| tick: "srv_reach s0 s \<Longrightarrow> timeout_isr s = Some t \<Longrightarrow> srv_reach s0 t"

inductive_cases srv_reachE: "srv_reach s0 s"

text \<open>The states the server can be in: the others are declared and never entered.\<close>

definition used_state :: "tcp_state \<Rightarrow> bool" where
  "used_state st \<longleftrightarrow> st \<in> {LISTEN, SYN_RECEIVED, ESTABLISHED, FIN_WAIT, LAST_ACK}"

definition srv_inv :: "'a net_scheme \<Rightarrow> bool" where
  "srv_inv s \<longleftrightarrow> srv_ok s \<and> \<not> tmr_set_timer_zero (tmr s) \<and> 0 \<le> secs s
     \<and> used_state (state (TCP s))"

lemma deliver_ok: "srv_ok s \<Longrightarrow> length f = 1518 \<Longrightarrow> srv_ok (deliver f s)"
  by (simp add: deliver_def srv_ok_def bufs_ok_def dma_live_def)

lemma deliver_fields [simp]: "TCP (deliver f s) = TCP s" "clock (deliver f s) = clock s" "sent (deliver f s) = sent s"
  "secs (deliver f s) = secs s" "tmr (deliver f s) = tmr s" "rx_frame (deliver f s) = f"
  by (simp_all add: deliver_def clock_def)

lemma rx_isr_moves:
  assumes "srv_ok s" "rx_ethernet_isr s = Some s'"
  shows "srv_ok s'" "clock s' = clock s" "(state (TCP s), state (TCP s')) \<in> tcp_moves" "env s' = env s"
  using rx_isr_effect [OF assms(1)] assms(2) by auto

lemma timeout_isr_counts: "timeout_isr s = Some t \<Longrightarrow> \<not> tmr_set_timer_zero (tmr s) \<Longrightarrow>
    counts (state (TCP s)) \<longrightarrow> secs s < 2 ^ 31 - 1"
  by (auto simp: counts_def timeout_isr_def timeout_listen_def timeout_established_def inc_secs_def
      timer_fields Let_def split: if_splits bind_splits)

lemma timer_next_range:
  "timer_next (st, k) = (st', k') \<Longrightarrow> 0 \<le> k \<Longrightarrow> 0 \<le> k' \<and>
    (used_state st \<longrightarrow> used_state st')"
  by (cases st) (auto simp: used_state_def split: if_splits)

lemma timeout_isr_inv:
  assumes "srv_inv s" "timeout_isr s = Some t"
  shows "srv_inv t" "timer_view t = timer_next (timer_view s)" "env t = env s" "tmr t = tmr s"
proof -
  have i: "srv_ok s" "\<not> tmr_set_timer_zero (tmr s)" "0 \<le> secs s" using assms(1) by (simp_all add: srv_inv_def)
  have "ticks timeout_isr s (timer_next (timer_view s))"
    by (rule timeout_isr_ticks [OF i(1) timeout_isr_counts [OF assms(2) i(2)] i(2)])
  then show v: "timer_view t = timer_next (timer_view s)" "env t = env s" "tmr t = tmr s"
    using assms(2) by (simp_all add: ticks_def)
  have "srv_ok t" using \<open>ticks timeout_isr s _\<close> assms(2) by (simp add: ticks_def)
  then show "srv_inv t"
    using timer_next_range [of "state (TCP s)" "secs s" "state (TCP t)" "secs t"] v assms(1)
    by (simp add: srv_inv_def timer_view_def)
qed

lemma rx_isr_inv:
  assumes "srv_inv s" "length f = 1518" "rx_ethernet_isr (deliver f s) = Some t"
  shows "srv_inv t"
  using rx_isr_moves [OF deliver_ok assms(3)] assms(1,2)
  by (auto simp: srv_inv_def tcp_moves_def used_state_def clock_def)

lemma srv_reach_inv: "srv_reach s0 s \<Longrightarrow> srv_inv s0 \<Longrightarrow> srv_inv s"
  by (induction rule: srv_reach.induct) (auto intro: rx_isr_inv timeout_isr_inv(1))

subsection \<open>Sample frames\<close>

text \<open>A frame from the client 10.0.0.1, port 0x3039, to the server's port 80, with sequence
  number 100.\<close>

definition client_frame :: "u8 list \<Rightarrow> u8 \<Rightarrow> u8 \<Rightarrow> u8 list \<Rightarrow> u8 list" where
  "client_frame ack len flags data = [0, 0] @ my_mac @ [1, 2, 3, 4, 5, 6, 8, 0, 0x45, 0, 0, len,
     0, 0, 0, 0, 64, 6, 0, 0, 10, 0, 0, 1] @ my_ip @ [0x30, 0x39, 0, 0x50, 0, 0, 0, 100] @ ack @
     [0x50, flags, 1, 0, 0, 0, 0, 0] @ data @ replicate (1462 - length data) 0"

definition syn_frame :: "u8 list" where
  "syn_frame = client_frame [0, 0, 0, 0] 40 0x02 []"

definition get_frame :: "u8 list" where
  "get_frame = client_frame [0x13, 0x37, 0, 1] 45 0x18 (bytes_of ''GET /'')"

definition arp_frame :: "u8 list" where
  "arp_frame = [0, 0, 0xff, 0xff, 0xff, 0xff, 0xff, 0xff, 1, 2, 3, 4, 5, 6, 8, 6, 0, 1, 8, 0, 6, 4, 0, 1,
     1, 2, 3, 4, 5, 6, 10, 0, 0, 1, 0, 0, 0, 0, 0, 0] @ my_ip @ replicate 1474 0"

lemma frame_lengths [simp]:
  "length syn_frame = 1518" "length get_frame = 1518" "length arp_frame = 1518"
  by (simp_all add: syn_frame_def get_frame_def arp_frame_def client_frame_def)

lemma boot_ok: "length f = 1518 \<Longrightarrow> srv_ok (boot_net st f)"
  by (simp add: srv_ok_def boot_bufs dma_live_def settles_def desc_ready_def)

lemma boot_inv: "length f = 1518 \<Longrightarrow> used_state st \<Longrightarrow> srv_inv (boot_net st f)"
  by (simp add: srv_inv_def boot_ok)

subsection \<open>A receive error\<close>

text \<open>A write to one of the 32 bytes of the descriptor at \<open>d\<close>.\<close>

fun touches :: "u32 \<Rightarrow> ioev \<Rightarrow> bool" where
  "touches d (Wr8 a _) \<longleftrightarrow> a \<in> {d..<d + 32}"
| "touches d (Wr16 a _) \<longleftrightarrow> a \<in> {d - 1..<d + 32}"
| "touches d (Wr32 a _) \<longleftrightarrow> a \<in> {d - 3..<d + 32}"
| "touches d _ \<longleftrightarrow> False"

text \<open>The receive descriptor was completed with an error bit, which stays there until the
  descriptor is written; the registers of the transmit controller are no part of it.\<close>

definition rx_failed :: "'a net_scheme \<Rightarrow> bool" where
  "rx_failed s \<longleftrightarrow> (\<forall>es. (\<forall>e\<in>set es. \<not> touches rx_descriptor e) \<longrightarrow>
       (ucast (hw s (es @ trace s) (rx_descriptor + 30)) :: u8) AND 0x7F \<noteq> 0)
     \<and> (\<forall>p. sgdma_tx_dev s = Some p \<longrightarrow> (let b = dev_base (sgdma_devs s p) in
         \<forall>a\<in>{b, b + 16, b + 32}. a \<notin> {rx_descriptor - 3..<rx_descriptor + 32}))"

lemma rx_failed_simps [simp]:
  "rx_failed (s\<lparr>tx_frame := b\<rparr>) = rx_failed s" "rx_failed (s\<lparr>TCP := c\<rparr>) = rx_failed s"
  "rx_failed (s\<lparr>tcp_recieved := n\<rparr>) = rx_failed s" "rx_failed (s\<lparr>set_timer_zero := z\<rparr>) = rx_failed s"
  "rx_failed (s\<lparr>sent := x\<rparr>) = rx_failed s" "rx_failed (upd_conn f s) = rx_failed s"
  by (simp_all add: rx_failed_def upd_conn_def)

lemma rx_failed_ack_check [simp]: "rx_failed (ack_check s) = rx_failed s"
proof -
  obtain c where "ack_check s = s\<lparr>TCP := c\<rparr>" using ack_check_eq [of s] by blast
  then show ?thesis by simp
qed

lemma touches_wr: "touches d e \<Longrightarrow> is_wr e"
  by (cases e) auto

lemma rx_failed_step:
  assumes "rx_failed s" "bus_only s t" "writes t = ws @ writes s" "\<forall>e\<in>set ws. \<not> touches rx_descriptor e"
  shows "rx_failed t"
proof -
  obtain es where t: "t = s\<lparr>trace := es @ trace s\<rparr>" using assms(2) by (auto simp: bus_only_net)
  then have "filter is_wr es = ws" using assms(3) by (simp add: writes_def)
  then have "\<forall>e\<in>set es. \<not> touches rx_descriptor e" using assms(4) touches_wr by auto
  moreover have "\<forall>gs. (\<forall>e\<in>set gs. \<not> touches rx_descriptor e) \<longrightarrow>
      (ucast (hw s (gs @ trace s) (rx_descriptor + 30)) :: u8) AND 0x7F \<noteq> 0"
    using assms(1) unfolding rx_failed_def by blast
  ultimately have "(ucast (hw s (fs @ es @ trace s) (rx_descriptor + 30)) :: u8) AND 0x7F \<noteq> 0"
    if "\<forall>e\<in>set fs. \<not> touches rx_descriptor e" for fs
    using that by (metis append_assoc UnE set_append)
  then show ?thesis using assms(1) by (simp add: rx_failed_def t)
qed

lemma rx_failed_quiet: "quiet s t \<Longrightarrow> rx_failed s \<Longrightarrow> rx_failed t"
  using rx_failed_step [of s t "[]"] by (simp add: quiet_bus_only quiet_writes)

lemma rx_failed_tx_desc:
  "rx_failed s \<Longrightarrow> rx_failed (alt_avalon_sgdma_construct_mem_to_stream_desc tx_descriptor tx_descriptor_end
     data n 0 1 1 0 s)"
  by (rule rx_failed_step [OF _ m2s_bus_only])
    (auto simp: alt_avalon_sgdma_construct_mem_to_stream_desc_def
      alt_avalon_sgdma_construct_mem_to_stream_desc_burst_def construct_writes desc_writes_def
      tx_descriptor_def tx_descriptor_end_def rx_descriptor_def DESCRIPTOR_MEMORY_BASE_def)

lemma rx_failed_async:
  assumes "rx_failed s" "sgdma_tx_dev s = Some p"
    and r: "alt_avalon_sgdma_do_async_transfer (sgdma_devs s p) d s = (r, t)"
  shows "rx_failed t"
proof (cases "hw s (trace s) (dev_base (sgdma_devs s p)) AND 0x10 = 0")
  case True
  then obtain c c' where w: "writes t = [Wr32 (dev_base (sgdma_devs s p) + 16) c', Wr32 (dev_base (sgdma_devs s p) + 32) d,
       Wr32 (dev_base (sgdma_devs s p)) 0xFF, Wr32 (dev_base (sgdma_devs s p) + 16) c] @ writes s"
    using async_idle [OF True r] by blast
  show ?thesis
    using assms(1,2) async_bus_only [of s "sgdma_devs s p" d] r
    by (intro rx_failed_step [OF assms(1) _ w]) (auto simp: rx_failed_def Let_def)
next
  case False
  then show ?thesis using async_busy [OF False, of d] r rx_failed_quiet [of s t] assms(1) by simp
qed

lemma rx_failed_send:
  assumes "send_packet a n s = Some t" "rx_failed s"
  shows "rx_failed t"
proof -
  obtain s1 where 1: "spin (desc_not_ready tx_descriptor) s = Some s1"
    using assms(1) by (auto simp: send_packet_def split: bind_splits)
  let ?s2 = "alt_avalon_sgdma_construct_mem_to_stream_desc tx_descriptor tx_descriptor_end a
               (of_nat n) 0 1 1 0 s1"
  obtain dev where dev: "sgdma_tx_dev ?s2 = Some dev"
    using assms(1) 1 by (auto simp: send_packet_def Let_def split: bind_splits)
  obtain r s3 where 3: "alt_avalon_sgdma_do_async_transfer (sgdma_devs ?s2 dev) tx_descriptor ?s2 = (r, s3)"
    by fastforce
  have "rx_failed ?s2"
    by (rule rx_failed_tx_desc [OF rx_failed_quiet [OF desc_wait.spin_inv [OF 1] assms(2)]])
  then have "rx_failed s3" using rx_failed_async dev 3 by blast
  then show ?thesis using assms(1) 1 dev 3 by (auto simp: send_packet_def Let_def split: if_splits)
qed

lemma rx_failed_create: "create_tcp_pkt fl d h n s = Some t \<Longrightarrow> rx_failed s \<Longrightarrow> rx_failed t"
  by (auto simp: create_tcp_pkt_def Let_def split: bind_splits)

lemma rx_failed_copy: "copy_payload n s = Some t \<Longrightarrow> rx_failed s \<Longrightarrow> rx_failed t"
  by (auto simp: copy_payload_def split: bind_splits)

lemma rx_failed_timer: "rx_failed s \<Longrightarrow> rx_failed (timer_control TIMER_0_BASE v s)"
  by (rule rx_failed_step [of _ _ "[Wr32 (TIMER_0_BASE + 4) v]"])
    (auto simp: timer_control_def TIMER_0_BASE_def rx_descriptor_def DESCRIPTOR_MEMORY_BASE_def)

lemmas rx_failed_ops = rx_failed_send rx_failed_create rx_failed_copy rx_failed_timer

lemma rx_failed_arp: "rx_arp s = Some t \<Longrightarrow> rx_failed s \<Longrightarrow> rx_failed t"
  by (auto simp: rx_arp_def arp_reply_def split: bind_splits if_splits dest: rx_failed_ops)

lemma rx_failed_listen: "on_listen s = Some t \<Longrightarrow> rx_failed s \<Longrightarrow> rx_failed t"
  by (auto simp: on_listen_def Let_def split: bind_splits if_splits intro!: rx_failed_timer
      dest!: rx_failed_ops(1-3))

lemma rx_failed_page: "send_page s = Some t \<Longrightarrow> rx_failed s \<Longrightarrow> rx_failed t"
  and rx_failed_close: "close_or_ack s = Some t \<Longrightarrow> rx_failed s \<Longrightarrow> rx_failed t"
  by (auto simp: send_page_def close_or_ack_def Let_def split: bind_splits if_splits dest!: rx_failed_ops(1-3))

lemma rx_failed_syn: "on_syn_received s = Some t \<Longrightarrow> rx_failed s \<Longrightarrow> rx_failed t"
  and rx_failed_last: "on_last_ack s = Some t \<Longrightarrow> rx_failed s \<Longrightarrow> rx_failed t"
  by (auto simp: on_syn_received_def on_last_ack_def Let_def split: if_splits)

lemma rx_failed_fin: "on_fin_wait s = Some t \<Longrightarrow> rx_failed s \<Longrightarrow> rx_failed t"
  by (auto simp: on_fin_wait_def Let_def split: bind_splits if_splits dest!: rx_failed_ops(1-3))

lemma rx_failed_est: "on_established s = Some t \<Longrightarrow> rx_failed s \<Longrightarrow> rx_failed t"
  by (auto simp: on_established_def Let_def split: bind_splits if_splits dest!: rx_failed_page rx_failed_close)

lemma rx_failed_tcp: "rx_tcp s = Some t \<Longrightarrow> rx_failed s \<Longrightarrow> rx_failed t"
  by (auto simp: rx_tcp_def tcp_switch_def Let_def split: if_splits tcp_state.splits
      dest!: rx_failed_listen rx_failed_syn rx_failed_est rx_failed_fin rx_failed_last)

lemma spin_stuck: "(\<And>n. fst (c (poll_state c n s))) \<Longrightarrow> spin c s = None"
  using spin_Some_polls [of c s] by (cases "spin c s") auto

lemma rx_failed_waits:
  assumes "rx_failed s"
  shows "fst (desc_not_ready rx_descriptor (poll_state (desc_not_ready rx_descriptor) n s))"
proof -
  let ?t = "poll_state (desc_not_ready rx_descriptor) n s"
  have "quiet s ?t" using desc_wait.poll_inv quiet_refl by blast
  then have "rx_failed ?t" using assms by (rule rx_failed_quiet)
  then have "(ucast (hw ?t ([] @ trace ?t) (rx_descriptor + 30)) :: u8) AND 0x7F \<noteq> 0"
    unfolding rx_failed_def by (metis empty_iff list.set(1))
  then show ?thesis
    by (simp add: desc_not_ready_def alt_avalon_sgdma_check_descriptor_status_def rd8_def Let_def)
qed

subsection \<open>Properties\<close>

text \<open>C1: whatever frames arrive and however the timer interrupts fall between them, every
  frame the server hands to the hardware is an ARP packet or a TCP segment whose IP and TCP
  checksums verify, the connection is in one of five states, and, as long as the DMA
  controllers release their descriptors, the handler of the next frame returns without
  leaving a buffer, whatever that frame contains.\<close>
theorem server_safe:
  assumes "srv_inv s0" "srv_reach s0 s" "length f = 1518"
  shows "(\<forall>fr\<in>set (sent s). good_frame fr) \<and> used_state (state (TCP s))
    \<and> (\<exists>t. rx_ethernet_isr (deliver f s) = Some t)"
proof -
  have i: "srv_inv s" using srv_reach_inv assms by blast
  then have "srv_ok (deliver f s)" using assms(3) by (simp add: deliver_ok srv_inv_def)
  then have "\<exists>t. rx_ethernet_isr (deliver f s) = Some t" using rx_isr_effect by blast
  then show ?thesis using i by (simp add: srv_inv_def srv_ok_def)
qed

lemma server_safe_witness:
  "\<exists>t. rx_ethernet_isr (deliver get_frame (boot_net LISTEN syn_frame)) = Some t"
  using server_safe [OF boot_inv srv_reach.start, of syn_frame LISTEN get_frame]
  by (simp add: used_state_def)

text \<open>C7: a received frame moves the connection only along the edges of \<open>tcp_moves\<close>: a SYN
  leaves LISTEN, an acknowledged SYN establishes, an established connection closes towards
  FIN\_WAIT or LAST\_ACK, and both of these return to LISTEN.\<close>
theorem rx_transitions:
  assumes "srv_ok s" "rx_ethernet_isr s = Some s'"
  shows "(state (TCP s), state (TCP s')) \<in> tcp_moves"
  using rx_isr_moves [OF assms] by simp

lemma rx_transitions_witness:
  "\<exists>s'. rx_ethernet_isr (boot_net LISTEN syn_frame) = Some s' \<and> (LISTEN, state (TCP s')) \<in> tcp_moves"
proof -
  obtain s' where "rx_ethernet_isr (boot_net LISTEN syn_frame) = Some s'"
    using rx_isr_effect [OF boot_ok, of syn_frame LISTEN] by auto
  then show ?thesis using rx_transitions [OF boot_ok, of syn_frame LISTEN s'] by simp
qed

text \<open>C5: the timer interrupt refines the abstract timer \<open>timer_next\<close> on the connection
  state and the seconds counted: it always returns, and 60 seconds without progress in
  SYN\_RECEIVED, FIN\_WAIT or LAST\_ACK lead back to LISTEN, 10 seconds in ESTABLISHED to
  FIN\_WAIT.\<close>
theorem timer_refines:
  assumes "srv_inv s" "secs s < 2 ^ 31 - 1"
  shows "\<exists>t. timeout_isr s = Some t \<and> timer_view t = timer_next (timer_view s)"
  using timeout_isr_ticks [of s] assms by (auto simp: srv_inv_def ticks_def split: option.splits)

lemma timer_refines_witness:
  "\<exists>t. timeout_isr (boot_net SYN_RECEIVED syn_frame) = Some t \<and> timer_view t = (SYN_RECEIVED, 1)"
  using timer_refines [OF boot_inv, of syn_frame SYN_RECEIVED] by (simp add: used_state_def timer_view_def)

text \<open>C9: received frames never restart the idle count: \<open>rx_ethernet_isr\<close> asks for it in the
  global \<open>set_timer_zero\<close>, the timer looks at the flag of its own structure, and no frame
  changes the seconds or that flag.\<close>
theorem traffic_does_not_reset_timer:
  assumes "srv_ok s" "rx_ethernet_isr s = Some s'"
  shows "secs s' = secs s \<and> tmr_set_timer_zero (tmr s') = tmr_set_timer_zero (tmr s)"
  using rx_isr_moves(2) [OF assms] by (simp add: clock_def)

lemma traffic_does_not_reset_timer_witness:
  "\<exists>s'. rx_ethernet_isr (boot_net ESTABLISHED get_frame) = Some s' \<and> secs s' = 0"
proof -
  obtain s' where "rx_ethernet_isr (boot_net ESTABLISHED get_frame) = Some s'"
    using rx_isr_effect [OF boot_ok, of get_frame ESTABLISHED] by auto
  then show ?thesis using traffic_does_not_reset_timer [OF boot_ok, of get_frame ESTABLISHED s'] by simp
qed

primrec tick_n :: "nat \<Rightarrow> 'a net_scheme \<Rightarrow> 'a net_scheme option" where
  "tick_n 0 s = Some s"
| "tick_n (Suc n) s = do { s \<leftarrow> timeout_isr s; tick_n n s }"

text \<open>C8: a connection that becomes established more than nine seconds into the handshake is
  never closed by the timer: the count has passed 10 already, so it grows without limit,
  whatever number of seconds passes before the count itself overflows.\<close>
theorem late_handshake_never_times_out:
  assumes "srv_inv s" "state (TCP s) = ESTABLISHED" "10 \<le> secs s" "secs s + int n < 2 ^ 31 - 1"
  shows "\<exists>t. tick_n n s = Some t \<and> state (TCP t) = ESTABLISHED \<and> secs t = secs s + int n"
  using assms
proof (induction n arbitrary: s)
  case (Suc n)
  have "ticks timeout_isr s (timer_next (timer_view s))"
    by (rule timeout_isr_ticks) (use Suc.prems in \<open>auto simp: srv_inv_def\<close>)
  then obtain t where t: "timeout_isr s = Some t" "timer_view t = timer_next (timer_view s)"
    by (auto simp: ticks_def split: option.splits)
  then have "srv_inv t" "state (TCP t) = ESTABLISHED" "secs t = secs s + 1"
    using timeout_isr_inv(1) [OF Suc.prems(1)] Suc.prems(2,3) by (simp_all add: timer_view_def)
  with Suc.IH [of t] Suc.prems t(1) show ?case by auto
qed simp

lemma late_handshake_never_times_out_witness:
  "\<exists>t. tick_n 1000 ((boot_net ESTABLISHED syn_frame)\<lparr>secs := 30\<rparr>) = Some t
    \<and> state (TCP t) = ESTABLISHED \<and> secs t = 1030"
  using late_handshake_never_times_out [of "(boot_net ESTABLISHED syn_frame)\<lparr>secs := 30\<rparr>" 1000]
    boot_inv [of syn_frame ESTABLISHED] by (simp add: srv_inv_def used_state_def)

text \<open>An established connection whose count is below 10 is closed by a FIN after exactly
  the missing seconds, if nothing else happens.\<close>
theorem idle_connection_closes:
  assumes "srv_inv s" "state (TCP s) = ESTABLISHED" "secs s < 10"
  shows "\<exists>t. tick_n (nat (10 - secs s)) s = Some t \<and> state (TCP t) = FIN_WAIT \<and> secs t = 0"
proof -
  have "\<exists>t. tick_n (Suc n) u = Some t \<and> state (TCP t) = FIN_WAIT \<and> secs t = 0"
    if "srv_inv u" "state (TCP u) = ESTABLISHED" "10 - secs u = int (Suc n)" for n u
    using that
  proof (induction n arbitrary: u)
    case 0
    then show ?case using timeout_isr_ticks [of u] by (auto simp: ticks_def timer_view_def srv_inv_def split: option.splits)
  next
    case (Suc n)
    have "ticks timeout_isr u (timer_next (timer_view u))"
      by (rule timeout_isr_ticks) (use Suc.prems in \<open>auto simp: srv_inv_def\<close>)
    then obtain t where t: "timeout_isr u = Some t" "timer_view t = timer_next (timer_view u)"
      by (auto simp: ticks_def split: option.splits)
    then have "srv_inv t" "state (TCP t) = ESTABLISHED" "10 - secs t = int (Suc n)"
      using timeout_isr_inv(1) [OF Suc.prems(1)] Suc.prems(2,3) by (simp_all add: timer_view_def)
    then obtain v where "tick_n (Suc n) t = Some v" "state (TCP v) = FIN_WAIT" "secs v = 0"
      using Suc.IH by blast
    with t(1) show ?case by (subst tick_n.simps) simp
  qed
  moreover have "nat (10 - secs s) = Suc (nat (9 - secs s))" "10 - secs s = int (Suc (nat (9 - secs s)))"
    using assms(3) by linarith+
  ultimately show ?thesis using assms(1,2) by metis
qed

lemma idle_connection_closes_witness:
  "\<exists>t. tick_n 10 (boot_net ESTABLISHED syn_frame) = Some t \<and> state (TCP t) = FIN_WAIT \<and> secs t = 0"
  using idle_connection_closes [OF boot_inv, of syn_frame ESTABLISHED] by (simp add: used_state_def)

text \<open>A frame addressed to the server's TCP port, read before the handler runs.\<close>

definition tcp_off :: "'a net_scheme \<Rightarrow> nat" where
  "tcp_off s = 2 + (unat (ip_ver_ihl s AND 0xf) * 4 + 14)"

definition for_server :: "'a net_scheme \<Rightarrow> bool" where
  "for_server s \<longleftrightarrow> eth_type s = 0x0008 \<and> ip_protocol s = 0x06 \<and> checkmac s
     \<and> get16 (rx_frame s) (tcp_off s + 2) = 0x5000"

lemma for_server_isr:
  assumes "for_server s"
  shows "rx_ethernet_isr s = do { s \<leftarrow> tcp_switch (s\<lparr>tcp_recieved := tcp_off s\<rparr>); rearm_rx s }"
  using assms by (simp add: for_server_def rx_ethernet_isr_def rx_arp_def rx_tcp_def check_checksumm_def tcp_off_def Let_def)

lemma isr_after_switch:
  assumes "srv_ok s" "for_server s" "tcp_switch (s\<lparr>tcp_recieved := tcp_off s\<rparr>) = Some u" "srv_ok u"
  shows "\<exists>t. rx_ethernet_isr s = Some (u\<lparr>trace := t\<rparr>)"
proof -
  have "settles (hw u) (trace u) (desc_ready rx_descriptor)" "sgdma_rx_dev u \<noteq> None"
    using assms(4) by (simp_all add: srv_ok_def dma_live_def)
  then obtain v where v: "rearm_rx u = Some v" using rearm_rx_returns by blast
  then obtain es where "v = u\<lparr>trace := es @ trace u\<rparr>" using rearm_rx_bus_only by (auto simp: bus_only_def)
  then show ?thesis using assms(2,3) v by (auto simp: for_server_isr)
qed

lemma sample_offsets:
  "tcp_off (boot_net st syn_frame) = 36" "tcp_off (boot_net st get_frame) = 36"
  by (simp_all add: tcp_off_def syn_frame_def get_frame_def client_frame_def my_mac_def my_ip_def)

lemma sample_for_server:
  "for_server (boot_net st syn_frame)" "for_server (boot_net st get_frame)"
  by (simp_all add: for_server_def sample_offsets checkmac_def get16_def)
    (simp_all add: syn_frame_def get_frame_def client_frame_def my_mac_def my_ip_def bytes_of_def)

lemma sample_bytes:
  "syn_frame ! 49 = 2" "syn_frame ! 19 = 40" "syn_frame ! 18 = 0" "syn_frame ! 48 = 0x50" "syn_frame ! 16 = 0x45"
  "bytes_at syn_frame 28 4 = [10, 0, 0, 1]"
  "get_frame ! 49 = 0x18" "get_frame ! 19 = 45" "get_frame ! 18 = 0" "get_frame ! 48 = 0x50" "get_frame ! 16 = 0x45"
  "bytes_at get_frame 28 4 = [10, 0, 0, 1]" "get16 get_frame 36 = 0x3930" "get_be32 get_frame 44 = 0x13370001"
  "bytes_at get_frame 56 3 = bytes_of ''GET''"
  by (simp_all add: syn_frame_def get_frame_def client_frame_def my_mac_def my_ip_def bytes_of_def
      bytes_at_def get16_def get_be32_def)

lemma sample_payload_len:
  "get_payload_len ((boot_net st syn_frame)\<lparr>tcp_recieved := 36\<rparr>) = 0"
  "get_payload_len ((boot_net st get_frame)\<lparr>tcp_recieved := 36\<rparr>) = 5"
  by (simp_all add: get_payload_len_def sample_bytes)


lemma boot_idle: "tx_idle (boot_net st f)"
  by (simp add: tx_idle_def boot_net_def tx_descriptor_def rx_descriptor_def DESCRIPTOR_MEMORY_BASE_def)


lemma sender_ip_iff:
  assumes "length (rx_frame s) = 1518" "length (dest_ip (TCP s)) = 4"
  shows "check_tcp_sender_ip s \<longleftrightarrow> bytes_at (rx_frame s) 28 4 = dest_ip (TCP s)"
proof -
  have "(bytes_at (rx_frame s) 28 4 = dest_ip (TCP s)) \<longleftrightarrow>
      (\<forall>j<4. rx_frame s ! (28 + j) = dest_ip (TCP s) ! j)"
    using assms by (simp add: list_eq_iff_nth_eq)
  also have "\<dots> \<longleftrightarrow> check_tcp_sender_ip s"
    by (auto simp: check_tcp_sender_ip_def eval_nat_numeral less_Suc_eq)
  finally show ?thesis by simp
qed

text \<open>C6: while a connection is open, a frame from another address or another port has no
  effect on it, and the only thing the server may send because of it is an ARP answer.\<close>
theorem other_peer_ignored:
  assumes "srv_ok s" "state (TCP s) \<noteq> LISTEN" "rx_ethernet_isr s = Some s'"
    and "bytes_at (rx_frame s) 28 4 \<noteq> dest_ip (TCP s) \<or> get16 (rx_frame s) (tcp_off s) \<noteq> dest_port (TCP s)"
  shows "TCP s' = TCP s \<and> (\<forall>fr \<in> set (sent s') - set (sent s). get16 fr 12 = 0x0608)"
proof -
  obtain s1 where 1: "rx_arp s = Some s1" "srv_ok s1" "env s1 = env s" "TCP s1 = TCP s"
    "tcp_recieved s1 = tcp_recieved s" "\<forall>fr \<in> set (sent s1) - set (sent s). get16 fr 12 = 0x0608"
    using rx_arp_effect [OF assms(1)] by blast
  have rx: "rx_frame s1 = rx_frame s" using 1(3) by (simp add: env_def)
  let ?t = "s1\<lparr>tcp_recieved := tcp_off s1\<rparr>"
  have off: "tcp_off s1 = tcp_off s" by (simp add: tcp_off_def rx)
  have "check_tcp_sender_ip ?t \<longleftrightarrow> bytes_at (rx_frame s) 28 4 = dest_ip (TCP s)"
    using sender_ip_iff [of ?t] srv_rx [OF 1(2)] srv_conn [OF 1(2)] rx 1(4) by (simp add: conn_ok_def)
  then have no: "\<not> (check_tcp_sender_ip ?t \<and> dest_port (TCP ?t) = tcp_sender_port ?t)"
    using assms(4) rx off 1(4) by auto
  have "tcp_switch ?t = Some ?t"
    using assms(2) 1(4) no by (cases "state (TCP s)")
      (auto simp: tcp_switch_def on_syn_received_def on_established_def on_fin_wait_def on_last_ack_def)
  then have "rx_tcp s1 = Some s1 \<or> rx_tcp s1 = Some ?t"
    by (simp add: rx_tcp_def Let_def tcp_off_def)
  then obtain s2 where 2: "rx_tcp s1 = Some s2" "TCP s2 = TCP s" "sent s2 = sent s1" using 1(4) by auto
  have "rearm_rx s2 = Some s'" using assms(3) 1(1) 2(1) by (simp add: rx_ethernet_isr_def)
  then obtain es where "s' = s2\<lparr>trace := es @ trace s2\<rparr>" using rearm_rx_bus_only by (auto simp: bus_only_def)
  then show ?thesis using 1(6) 2 by simp
qed

lemma other_peer_ignored_witness:
  "\<exists>s'. rx_ethernet_isr (boot_net ESTABLISHED arp_frame) = Some s' \<and> TCP s' = boot_conn ESTABLISHED"
proof -
  obtain s' where "rx_ethernet_isr (boot_net ESTABLISHED arp_frame) = Some s'"
    using rx_isr_effect [OF boot_ok, of arp_frame ESTABLISHED] by auto
  moreover have "bytes_at arp_frame 28 4 \<noteq> [10, 0, 0, 1]"
    by (simp add: arp_frame_def my_ip_def bytes_at_def)
  ultimately show ?thesis using other_peer_ignored [OF boot_ok, of arp_frame ESTABLISHED s'] by simp
qed

text \<open>\<open>ack_check\<close> accepts exactly the acknowledgement of everything sent: the number must
  be \<open>last_acked + last_sended_len + 1\<close>, and only then is \<open>last_acked\<close> advanced, by the length
  sent and its FIN if there was one, and by one for a FIN the timer sent.\<close>
theorem ack_check_accepts:
  "acked (TCP (ack_check s)) = (flag_ack s \<and> get_be32 (rx_frame s) (tcp_recieved s + 8)
      = last_acked (TCP s) + ucast (last_sended_len (TCP s)) + 1)
   \<and> last_acked (TCP (ack_check s)) = last_acked (TCP s) +
      (if acked (TCP (ack_check s)) then
         (if last_sended_len (TCP s) = 0 then 0 else ucast (last_sended_len (TCP s)) + 1)
         + of_bool (command_sent (TCP s)) else 0)"
  by (simp add: ack_check_def upd_conn_def Let_def)

lemma get_request_effect:
  assumes "srv_ok s" "for_server s" "state (TCP s) = ESTABLISHED"
    and "bit (rx_frame s ! (tcp_off s + 13)) 4"
    and "bytes_at (rx_frame s) 28 4 = dest_ip (TCP s)" "get16 (rx_frame s) (tcp_off s) = dest_port (TCP s)"
    and "get_be32 (rx_frame s) (tcp_off s + 8) = last_acked (TCP s) + ucast (last_sended_len (TCP s)) + 1"
    and n: "n = (ucast (get_payload_len (s\<lparr>tcp_recieved := tcp_off s\<rparr>)) :: u16)" "1 < n"
    and "bytes_at (rx_frame s) (tcp_off s + 20) 3 = bytes_of ''GET''"
  shows "\<exists>s'. rx_ethernet_isr s = Some s' \<and> state (TCP s') = FIN_WAIT \<and> got_html_req (TCP s')
    \<and> payload (TCP s') = bytes_at (rx_frame s) (tcp_off s + 20) 64
    \<and> (let fr = take 675 (tx_frame s') in
       get_be32 fr 38 = last_acked (TCP (ack_check (s\<lparr>tcp_recieved := tcp_off s\<rparr>)))
       \<and> bytes_at fr 54 619 = html_page \<and> fr ! 47 = 0x11
       \<and> get_be32 fr 42 = get_be32 (rx_frame s) (tcp_off s + 4) + ucast n
       \<and> ip_cksum_ok fr \<and> tcp_cksum_ok fr \<and> accepted s fr (sent s'))"
proof -
  let ?t = "s\<lparr>tcp_recieved := tcp_off s\<rparr>"
  have t: "srv_ok ?t" "tcp_recieved ?t \<le> 76"
    using assms(1) header_offset [of "ip_ver_ihl s"] by (simp_all add: tcp_off_def)
  let ?e = "(est_state ?t)\<lparr>set_timer_zero := True\<rparr>"
  note k = est_state_keeps [OF t(1)]
  have e: "srv_ok ?e" "tcp_recieved ?e \<le> 76" "rx_frame ?e = rx_frame s" "tcp_recieved ?e = tcp_off s" "sent ?e = sent s"
    using k t(2) by simp_all
  have "check_tcp_sender_ip ?t"
    using sender_ip_iff [of ?t] srv_rx [OF assms(1)] srv_conn [OF assms(1)] assms(5) by (simp add: conn_ok_def)
  moreover have "acked (TCP (est_state ?t))" using assms(4,7) by (simp add: est_state_def ack_check_def upd_conn_def Let_def)
  moreover have r: "rec_payload_len (TCP (est_state ?t)) = n" "seq_num (TCP (est_state ?t)) = get_be32 (rx_frame s) (tcp_off s + 4)"
    using n(1) by (simp_all add: est_state_def get_seq_num_def)
  moreover have "mem_get (rx_frame s) (tcp_off s + 20) 3 = Some (bytes_of ''GET'')"
    using mem_get_rx(1) [OF e(1), of "tcp_off s + 20" 3] e assms(10) by simp
  ultimately have sw: "tcp_switch ?t = send_page ?e"
    using assms(3-7) n(2) e by (simp add: tcp_switch_def on_established_eq Let_def)
  obtain p b tr x w where P: "let c = ack_advance ((TCP ?e)\<lparr>window := w\<rparr>) in
    send_page ?e = Some (?e\<lparr>tx_frame := b, trace := tr, sent := x,
      TCP := c\<lparr>last_sended_len := HTML_PAGE_LEN, state := FIN_WAIT, payload := p, got_html_req := True\<rparr>\<rparr>)
    \<and> length p = 64 \<and> (\<forall>j<64. p ! j = rx_frame ?e ! (tcp_recieved ?e + 20 + j))
    \<and> built 0x11 html_page 20 HTML_PAGE_LEN c (tx_frame ?e) b
    \<and> accepted ?e (take 675 b) x
    \<and> srv_ok (?e\<lparr>tx_frame := b, trace := tr, sent := x,
      TCP := c\<lparr>last_sended_len := HTML_PAGE_LEN, state := FIN_WAIT, payload := p, got_html_req := True\<rparr>\<rparr>)"
    using send_page_effect [OF e(1,2)] by blast
  let ?c = "ack_advance ((TCP ?e)\<lparr>window := w\<rparr>)"
  let ?u = "?e\<lparr>tx_frame := b, trace := tr, sent := x,
      TCP := ?c\<lparr>last_sended_len := HTML_PAGE_LEN, state := FIN_WAIT, payload := p, got_html_req := True\<rparr>\<rparr>"
  have l: "send_page ?e = Some ?u" and ok: "srv_ok ?u" and B: "built 0x11 html_page 20 HTML_PAGE_LEN ?c (tx_frame ?e) b"
    and x: "accepted s (take 675 b) x"
    and p: "length p = 64" "\<forall>j<64. p ! j = rx_frame s ! (tcp_off s + 20 + j)"
    using P e by (simp_all add: Let_def)
  obtain t' where i: "rx_ethernet_isr s = Some (?u\<lparr>trace := t'\<rparr>)"
    using isr_after_switch [OF assms(1,2), of ?u] sw l ok by metis
  have c: "conn_ok ?c" using srv_conn [OF e(1)] by simp
  have h: "unat HTML_PAGE_LEN = 619" by (simp add: HTML_PAGE_LEN_val)
  have z: "tx_frame ?e ! 673 = 0" using e(1) by (simp add: srv_ok_def)
  have good: "ip_cksum_ok (take 675 b) \<and> tcp_cksum_ok (take 675 b)"
    by (rule built_frame_ok [OF B c]) (use z h in simp_all)
  have lb: "length b = 1518" "\<forall>j<619. b ! (54 + j) = html_page ! j" using B h by (simp_all add: built_def)
  have "bytes_at (take 675 b) 54 619 = html_page"
    using lb by (intro nth_equalityI) (simp_all add: bytes_at_take html_page_length)
  moreover have "p = bytes_at (rx_frame s) (tcp_off s + 20) 64"
    using p srv_rx [OF assms(1)] e(2,4) by (intro nth_equalityI) simp_all
  moreover have "seq_num ?c = get_be32 (rx_frame s) (tcp_off s + 4) + ucast n"
    using r n(2) by (auto simp: ack_advance_def)
  moreover have "last_acked ?c = last_acked (TCP (ack_check ?t))"
    by (simp add: ack_advance_def est_state_def)
  moreover have "get_be32 (take 675 b) 42 = get_be32 b 42" "get_be32 (take 675 b) 38 = get_be32 b 38"
    by (simp_all add: get_be32_def)
  ultimately show ?thesis using i x good built_bytes [OF B c]
    by (intro exI [of _ "?u\<lparr>trace := t'\<rparr>"]) (simp add: Let_def)
qed

text \<open>C3: an acknowledged request that starts with GET, from the peer of the established
  connection, is answered: one segment that holds the whole page with FIN and ACK set and
  acknowledges the request is handed to the transmit controller if that is idle (a busy one makes
  the driver drop it); the first 64 bytes of the request are kept for the main loop, and the
  connection waits in FIN\_WAIT.\<close>
theorem get_request_served:
  assumes "srv_ok s" "for_server s" "state (TCP s) = ESTABLISHED"
    and "bit (rx_frame s ! (tcp_off s + 13)) 4"
    and "bytes_at (rx_frame s) 28 4 = dest_ip (TCP s)" "get16 (rx_frame s) (tcp_off s) = dest_port (TCP s)"
    and "get_be32 (rx_frame s) (tcp_off s + 8) = last_acked (TCP s) + ucast (last_sended_len (TCP s)) + 1"
    and n: "n = (ucast (get_payload_len (s\<lparr>tcp_recieved := tcp_off s\<rparr>)) :: u16)" "1 < n"
    and "bytes_at (rx_frame s) (tcp_off s + 20) 3 = bytes_of ''GET''"
  shows "\<exists>s'. rx_ethernet_isr s = Some s' \<and> state (TCP s') = FIN_WAIT \<and> got_html_req (TCP s')
    \<and> payload (TCP s') = bytes_at (rx_frame s) (tcp_off s + 20) 64
    \<and> (let fr = take 675 (tx_frame s') in
       bytes_at fr 54 619 = html_page \<and> fr ! 47 = 0x11
       \<and> get_be32 fr 42 = get_be32 (rx_frame s) (tcp_off s + 4) + ucast n
       \<and> ip_cksum_ok fr \<and> tcp_cksum_ok fr \<and> (sent s' = fr # sent s \<or> \<not> tx_idle s \<and> sent s' = sent s))"
  using get_request_effect [OF assms(1-8,9,10)] by (auto simp: Let_def accepted_def)

lemma get_request_served_witness:
  "\<exists>s'. rx_ethernet_isr (boot_net ESTABLISHED get_frame) = Some s' \<and> state (TCP s') = FIN_WAIT
    \<and> bytes_at (take 675 (tx_frame s')) 54 619 = html_page \<and> sent s' = [take 675 (tx_frame s')]"
  using get_request_served [OF boot_ok sample_for_server(2), of ESTABLISHED 5]
  by (auto simp: sample_offsets sample_payload_len sample_bytes boot_idle Let_def)

text \<open>On a fresh connection the page is sent with the sequence number of the server's SYN,
  one below what the client has acknowledged, so the client drops its first byte; the page
  begins with a spare space for it.\<close>
theorem page_starts_one_byte_early:
  assumes "srv_ok s" "for_server s" "state (TCP s) = ESTABLISHED"
    and "bit (rx_frame s ! (tcp_off s + 13)) 4"
    and "bytes_at (rx_frame s) 28 4 = dest_ip (TCP s)" "get16 (rx_frame s) (tcp_off s) = dest_port (TCP s)"
    and "get_be32 (rx_frame s) (tcp_off s + 8) = last_acked (TCP s) + ucast (last_sended_len (TCP s)) + 1"
    and n: "n = (ucast (get_payload_len (s\<lparr>tcp_recieved := tcp_off s\<rparr>)) :: u16)" "1 < n"
    and "bytes_at (rx_frame s) (tcp_off s + 20) 3 = bytes_of ''GET''"
    and fresh: "last_sended_len (TCP s) = 0" "\<not> command_sent (TCP s)"
  shows "\<exists>s'. rx_ethernet_isr s = Some s' \<and> get_be32 (take 675 (tx_frame s')) 38 + 1
      = get_be32 (rx_frame s) (tcp_off s + 8)
    \<and> take 675 (tx_frame s') ! 54 = of_char CHR '' ''"
proof -
  have "last_acked (TCP (ack_check (s\<lparr>tcp_recieved := tcp_off s\<rparr>))) = last_acked (TCP s)"
    using fresh by (simp add: ack_check_def upd_conn_def Let_def)
  moreover obtain s' where s': "rx_ethernet_isr s = Some s'"
    "get_be32 (take 675 (tx_frame s')) 38 = last_acked (TCP (ack_check (s\<lparr>tcp_recieved := tcp_off s\<rparr>)))"
    "bytes_at (take 675 (tx_frame s')) 54 619 = html_page"
    using get_request_effect [OF assms(1-8,9,10)] by (auto simp: Let_def)
  moreover have "take 675 (tx_frame s') ! 54 = of_char CHR '' ''"
  proof -
    have "srv_ok s'" using rx_isr_moves(1) [OF assms(1) s'(1)] .
    then have "length (tx_frame s') = 1518" by (simp add: srv_ok_def bufs_ok_def)
    then have "take 675 (tx_frame s') ! 54 = html_page ! 0"
      unfolding s'(3) [symmetric] by simp
    then show ?thesis by (simp add: html_page_def bytes_of_def html_text_def)
  qed
  ultimately show ?thesis using assms(7) fresh by auto
qed

lemma page_starts_one_byte_early_witness:
  "\<exists>s'. rx_ethernet_isr (boot_net ESTABLISHED get_frame) = Some s'
    \<and> get_be32 (take 675 (tx_frame s')) 38 + 1 = 0x13370001"
  using page_starts_one_byte_early [OF boot_ok sample_for_server(2), of ESTABLISHED 5]
  by (auto simp: sample_offsets sample_payload_len sample_bytes Let_def)

text \<open>C11: once the controller has completed the receive descriptor with an error bit set, the
  interrupt handler does not return, whatever frame is in the buffer: after the frame is dealt
  with, every look at the descriptor says that it is not ready, for ever, with interrupts
  disabled.\<close>
theorem rx_error_hangs:
  assumes "rx_failed s"
  shows "rx_ethernet_isr s = None
    \<and> (\<forall>u v n. rx_arp s = Some u \<longrightarrow> rx_tcp u = Some v \<longrightarrow>
        fst (desc_not_ready rx_descriptor (poll_state (desc_not_ready rx_descriptor) n v)))"
proof -
  have w: "rx_failed v" if "rx_arp s = Some u" "rx_tcp u = Some v" for u v
    using rx_failed_arp rx_failed_tcp that assms by blast
  then have "rearm_rx v = None" if "rx_arp s = Some u" "rx_tcp u = Some v" for u v
    using spin_stuck [of "desc_not_ready rx_descriptor" v, OF rx_failed_waits [OF w [OF that]]]
    by (simp add: rearm_rx_def)
  then have "rx_ethernet_isr s = None"
    by (cases "rx_ethernet_isr s") (auto simp: rx_ethernet_isr_def split: bind_splits)
  then show ?thesis using w rx_failed_waits by blast
qed

text \<open>A SYN whose receive descriptor reports an error.\<close>

definition failed_net :: "u8 list \<Rightarrow> net" where
  "failed_net f = (boot_net LISTEN f)\<lparr>hw := \<lambda>_ a. if a = rx_descriptor + 30 then 1 else 0\<rparr>"

lemma rx_error_hangs_witness:
  "rx_ethernet_isr (failed_net syn_frame) = None \<and> rx_ethernet_isr (failed_net arp_frame) = None"
proof -
  have "rx_failed (failed_net f)" for f
    by (simp add: rx_failed_def failed_net_def boot_net_def rx_descriptor_def DESCRIPTOR_MEMORY_BASE_def)
  then show ?thesis using rx_error_hangs by blast
qed

text \<open>C10: an ARP packet that asks for the server's address is answered, in any state of the
  connection, by an ARP reply to the asker that names the server's two addresses; it is handed
  to the transmit controller if that is idle (a busy one makes the driver drop it).\<close>
theorem arp_answered:
  assumes "srv_ok s" "eth_type s = 0x0608" "bytes_at (rx_frame s) 40 4 = my_ip"
  shows "\<exists>s'. rx_ethernet_isr s = Some s' \<and> TCP s' = TCP s
    \<and> take 42 (tx_frame s') = bytes_at (rx_frame s) 24 6 @ my_mac @ [8, 6, 0, 1, 8, 0, 6, 4, 0, 2]
        @ my_mac @ my_ip @ bytes_at (rx_frame s) 24 6 @ bytes_at (rx_frame s) 30 4
    \<and> (sent s' = take 44 (tx_frame s') # sent s \<or> \<not> tx_idle s \<and> sent s' = sent s)"
proof -
  have "rx_frame s ! (40 + j) = my_ip ! j" if "j < 4" for j
    using arg_cong [OF assms(3), of "\<lambda>x. x ! j"] srv_rx [OF assms(1)] that by simp
  from this [of 0] this [of 1] this [of 2] this [of 3]
  have a: "rx_arp s = arp_reply s" using assms(2) by (simp add: rx_arp_def)
  obtain b t x where r: "arp_reply s = Some (s\<lparr>tx_frame := b, trace := t, sent := x\<rparr>)"
    "srv_ok (s\<lparr>tx_frame := b, trace := t, sent := x\<rparr>)"
    "take 42 b = bytes_at (rx_frame s) 24 6 @ my_mac @ [8, 6, 0, 1, 8, 0, 6, 4, 0, 2]
        @ my_mac @ my_ip @ bytes_at (rx_frame s) 24 6 @ bytes_at (rx_frame s) 30 4"
    "accepted s (take 44 b) x"
    using arp_reply_effect [OF assms(1)] by blast
  let ?u = "s\<lparr>tx_frame := b, trace := t, sent := x\<rparr>"
  have "rx_tcp ?u = Some ?u" using assms(2) by (simp add: rx_tcp_def)
  moreover obtain v where v: "rearm_rx ?u = Some v"
    using rearm_rx_returns [of ?u] r(2) by (auto simp: srv_ok_def dma_live_def)
  moreover obtain es where "v = ?u\<lparr>trace := es @ trace ?u\<rparr>"
    using rearm_rx_bus_only [OF v] by (auto simp: bus_only_def)
  ultimately show ?thesis using a r by (intro exI [of _ v]) (simp add: rx_ethernet_isr_def accepted_def)
qed

lemma arp_answered_witness:
  "\<exists>s'. rx_ethernet_isr (boot_net FIN_WAIT arp_frame) = Some s' \<and> TCP s' = boot_conn FIN_WAIT
    \<and> sent s' = [take 44 (tx_frame s')]"
proof -
  have "get16 arp_frame 14 = 0x0608" "bytes_at arp_frame 40 4 = my_ip"
    by (simp_all add: arp_frame_def my_ip_def bytes_at_def get16_def)
  then show ?thesis using arp_answered [OF boot_ok, of arp_frame FIN_WAIT] boot_idle [of FIN_WAIT arp_frame] by auto
qed

text \<open>\<open>timer_int_en\<close> takes over the interrupt of the system clock timer: whatever handler
  was registered for it, the tick handler of \<open>alt_avalon_timer_sc\<close> included, is replaced.\<close>
theorem timer_takes_over_tick_interrupt:
  assumes "length (alt_irq s) = 32" "unat (tmr_irq (tmr s)) < 32"
  shows "\<exists>s'. timer_int_en s = Some s' \<and> alt_irq s' ! unat (tmr_irq (tmr s)) = (Some Timeout_isr, 0)
    \<and> writes s' = [Wr32 (tmr_base (tmr s) + 12) (drop_bit 16 TIMEOUT_PERIOD),
                   Wr32 (tmr_base (tmr s) + 8) TIMEOUT_PERIOD] @ writes s"
  using assms by (simp add: timer_int_en_def Let_def isr_register_value writes_def)

lemma timer_takes_over_tick_interrupt_witness:
  "\<exists>s'. timer_int_en (boot_net LISTEN syn_frame) = Some s' \<and> alt_irq s' ! 2 = (Some Timeout_isr, 0)"
  using timer_takes_over_tick_interrupt [of "boot_net LISTEN syn_frame"] by auto

end
