(* ===== verification/Clock.thy ===== *)
theory Clock
  imports DevList
begin

text \<open>
  The system clock: the alarms of \<open>alt_alarm_start.c\<close> and \<open>alt_tick.c\<close>, the driver of the
  timer that ticks (\<open>altera_avalon_timer_sc.c\<close>), the time of day of \<open>alt_gettod.c\<close> and
  \<open>alt_settod.c\<close>, \<open>alt_times.c\<close> and the busy wait of \<open>alt_busy_sleep.c\<close>.  What an alarm
  callback does is the parameter \<open>run\<close>, which answers the next period.  \<open>alarm_calls\<close> is
  a history variable: the callbacks made by \<open>alt_tick\<close>, newest first.
\<close>

record alt_alarm =
  time :: u32
  callback_fn :: "fn option"
  rollover :: bool
  alarm_context :: u32

record timeval =
  tv_sec :: u32
  tv_usec :: u32

record timezone =
  tz_minuteswest :: u32
  tz_dsttime :: u32

record clk = "fn irqs" +
  alarm_heap :: "u32 heap"
  alarms :: "u32 \<Rightarrow> alt_alarm"
  alt_alarm_list :: u32
  tick_rate :: u32                 \<comment> \<open>\<open>_alt_tick_rate\<close>\<close>
  nticks :: u32                    \<comment> \<open>\<open>_alt_nticks\<close>\<close>
  alt_timezone :: timezone
  alt_resettime :: timeval
  clk_errno :: "errno option"
  alarm_calls :: "(fn \<times> u32) list"

type_synonym 'a alarm_run = "fn \<Rightarrow> u32 \<Rightarrow> 'a clk_scheme \<Rightarrow> (u32 \<times> 'a clk_scheme) option"

subsection \<open>Alarms\<close>

definition alt_ticks_per_second :: "'a clk_scheme \<Rightarrow> u32" where
  "alt_ticks_per_second s = tick_rate s"

definition alt_sysclk_init :: "u32 \<Rightarrow> 'a clk_scheme \<Rightarrow> int \<times> 'a clk_scheme" where
  "alt_sysclk_init n s = (if tick_rate s = 0 then (0, s\<lparr>tick_rate := n\<rparr>) else (-1, s))"

definition alt_nticks :: "'a clk_scheme \<Rightarrow> u32" where
  "alt_nticks s = nticks s"

definition upd_alarm :: "u32 \<Rightarrow> (alt_alarm \<Rightarrow> alt_alarm) \<Rightarrow> 'a clk_scheme \<Rightarrow> 'a clk_scheme" where
  "upd_alarm a f s = s\<lparr>alarms := (alarms s)(a := f (alarms s a))\<rparr>"

definition alt_alarm_start ::
  "u32 option \<Rightarrow> u32 \<Rightarrow> fn option \<Rightarrow> u32 \<Rightarrow> 'a clk_scheme \<Rightarrow> rc \<times> 'a clk_scheme" where
  "alt_alarm_start alarm n cb context s =
    (if alt_ticks_per_second s \<noteq> 0 then
       (case alarm of
          None \<Rightarrow> (Some EINVAL, s)
        | Some a \<Rightarrow>
            let s = upd_alarm a (\<lambda>m. m\<lparr>callback_fn := cb\<rparr>) s;
                s = upd_alarm a (\<lambda>m. m\<lparr>alarm_context := context\<rparr>) s;
                (irq_context, s) = alt_irq_disable_all s;
                current_nticks = alt_nticks s;
                s = upd_alarm a (\<lambda>m. m\<lparr>time := n + current_nticks + 1\<rparr>) s;
                s = (if time (alarms s a) < current_nticks
                     then upd_alarm a (\<lambda>m. m\<lparr>rollover := True\<rparr>) s
                     else upd_alarm a (\<lambda>m. m\<lparr>rollover := False\<rparr>) s);
                s = s\<lparr>alarm_heap := alt_llist_insert (alt_alarm_list s) a (alarm_heap s)\<rparr>
            in (None, alt_irq_enable_all irq_context s))
     else (Some ENOTSUP, s))"

definition alt_alarm_stop :: "u32 \<Rightarrow> 'a clk_scheme \<Rightarrow> 'a clk_scheme" where
  "alt_alarm_stop a s =
    (let (irq_context, s) = alt_irq_disable_all s;
         s = s\<lparr>alarm_heap := alt_llist_remove a (alarm_heap s)\<rparr>
     in alt_irq_enable_all irq_context s)"

text \<open>What \<open>alt_tick\<close> does for one alarm, and its walk along the list.  \<open>next\<close> is read
  before the callback runs.\<close>

definition alarm_expire :: "'a alarm_run \<Rightarrow> u32 \<Rightarrow> 'a clk_scheme \<Rightarrow> 'a clk_scheme option" where
  "alarm_expire run a s = do {
     f \<leftarrow> callback_fn (alarms s a);
     let c = alarm_context (alarms s a);
     (next_callback, s) \<leftarrow> run f c s;
     let s = s\<lparr>alarm_calls := (f, c) # alarm_calls s\<rparr>;
     Some (if next_callback = 0 then alt_alarm_stop a s
           else let s = upd_alarm a (\<lambda>m. m\<lparr>time := time m + next_callback\<rparr>) s in
                if time (alarms s a) < nticks s
                then upd_alarm a (\<lambda>m. m\<lparr>rollover := True\<rparr>) s else s) }"

definition alarm_tick :: "'a alarm_run \<Rightarrow> u32 \<Rightarrow> 'a clk_scheme \<Rightarrow> 'a clk_scheme option" where
  "alarm_tick run a s =
    (let s = (if rollover (alarms s a) \<and> nticks s = 0
              then upd_alarm a (\<lambda>m. m\<lparr>rollover := False\<rparr>) s else s)
     in if time (alarms s a) \<le> nticks s \<and> \<not> rollover (alarms s a)
        then alarm_expire run a s else Some s)"

partial_function (option) alarm_walk ::
  "'a alarm_run \<Rightarrow> u32 \<Rightarrow> 'a clk_scheme \<Rightarrow> 'a clk_scheme option" where
  "alarm_walk run a s =
    (if a \<noteq> alt_alarm_list s then do {
       let next = nxt (alarm_heap s) a;
       s \<leftarrow> alarm_tick run a s;
       alarm_walk run next s
     } else Some s)"

definition alt_tick :: "'a alarm_run \<Rightarrow> 'a clk_scheme \<Rightarrow> 'a clk_scheme option" where
  "alt_tick run s =
    (let a = nxt (alarm_heap s) (alt_alarm_list s);
         s = s\<lparr>nticks := nticks s + 1\<rparr>
     in alarm_walk run a s)"

subsection \<open>The timer that ticks\<close>

definition alt_avalon_timer_sc_irq :: "'a alarm_run \<Rightarrow> u32 \<Rightarrow> 'a clk_scheme \<Rightarrow> 'a clk_scheme option" where
  "alt_avalon_timer_sc_irq run base s = do {
     let s = iowr base 0 0 s;
     let (_, s) = iord base 1 s;
     let (cpu_sr, s) = alt_irq_disable_all s;
     s \<leftarrow> alt_tick run s;
     Some (alt_irq_enable_all cpu_sr s) }"

definition alt_avalon_timer_sc_init ::
  "u32 \<Rightarrow> u32 \<Rightarrow> u32 \<Rightarrow> u32 \<Rightarrow> 'a clk_scheme \<Rightarrow> 'a clk_scheme option" where
  "alt_avalon_timer_sc_init base ic irq freq s = do {
     let (_, s) = alt_sysclk_init freq s;
     let s = iowr base 1 (1 OR 2 OR 4) s;
     (_, s) \<leftarrow> alt_ic_isr_register ic irq (Some Alt_avalon_timer_sc_irq) base s;
     Some s }"

subsection \<open>The time of day\<close>

abbreviation (input) "ALT_US \<equiv> (1000000 :: u32)"

text \<open>The two loops that bring \<open>tv_usec\<close> into range.  \<open>long\<close> is 32 bits wide and signed;
  an overflow of \<open>tv_sec\<close> is undefined and answers \<open>None\<close>.\<close>

lemma sint_word_of_int: "- (2 ^ 31) \<le> k \<Longrightarrow> k < 2 ^ 31 \<Longrightarrow> sint (word_of_int k :: u32) = k"
  by (simp add: signed_of_int signed_take_bit_int_eq_self)

lemma sint_add: "- (2 ^ 31) \<le> sint x + k \<Longrightarrow> sint x + k < 2 ^ 31
    \<Longrightarrow> sint (x + word_of_int k) = sint x + k" for x :: u32
  using sint_word_of_int [of "sint x + k"] by simp

lemma sint_bounds: "- (2 ^ 31) \<le> sint x" "sint x < 2 ^ 31" for x :: u32
  using sint_greater_eq [of x] sint_less [of x] by simp_all

function usec_up :: "u32 \<Rightarrow> u32 \<Rightarrow> u32 \<times> u32" where
  "usec_up sec usec =
    (if sint usec < 0 then
       if sint sec \<le> 0 then (0, 0) else usec_up (sec - 1) (usec + ALT_US)
     else (sec, usec))"
  by pat_completeness auto
termination
proof (relation "measure (\<lambda>(sec, usec). nat (- sint usec))")
  fix sec usec :: u32
  assume "sint usec < 0"
  then show "((sec - 1, usec + ALT_US), sec, usec) \<in> measure (\<lambda>(sec, usec). nat (- sint usec))"
    using sint_add [of usec 1000000] sint_bounds [of usec] by simp
qed simp

function usec_down :: "u32 \<Rightarrow> u32 \<Rightarrow> (u32 \<times> u32) option" where
  "usec_down sec usec =
    (if 1000000 \<le> sint usec then
       if sec = 0x7FFFFFFF then None else usec_down (sec + 1) (usec - ALT_US)
     else Some (sec, usec))"
  by pat_completeness auto
termination
proof (relation "measure (\<lambda>(sec, usec). nat (sint usec))")
  fix sec usec :: u32
  assume "1000000 \<le> sint usec"
  then show "((sec + 1, usec - ALT_US), sec, usec) \<in> measure (\<lambda>(sec, usec). nat (sint usec))"
    using sint_add [of usec "-1000000"] sint_bounds [of usec] by simp
qed simp

declare usec_up.simps [simp del] usec_down.simps [simp del]

text \<open>The caller's structures are returned: the new time, and the zone when one is asked
  for.\<close>

definition alt_gettimeofday ::
  "bool \<Rightarrow> 'a clk_scheme \<Rightarrow> (errno + timeval \<times> timezone option) option" where
  "alt_gettimeofday want_zone s =
    (let n = alt_nticks s; rate = alt_ticks_per_second s in
     if rate \<noteq> 0 then
       let sec = tv_sec (alt_resettime s) + n div rate;
           usec = tv_usec (alt_resettime s)
             + ucast ((ucast n * ucast (ALT_US div rate) :: u64) mod 1000000);
           (sec, usec) = usec_up sec usec
       in do {
         (sec, usec) \<leftarrow> usec_down sec usec;
         Some (Inr (\<lparr>tv_sec = sec, tv_usec = usec\<rparr>,
                    if want_zone then Some (alt_timezone s) else None)) }
     else Some (Inl ENOTSUP))"

definition alt_settimeofday :: "timeval \<Rightarrow> timezone \<Rightarrow> 'a clk_scheme \<Rightarrow> int \<times> 'a clk_scheme" where
  "alt_settimeofday t tz s =
    (let n = alt_nticks s; rate = alt_ticks_per_second s in
     if rate \<noteq> 0 then
       (0, s\<lparr>alt_timezone := tz,
             alt_resettime := \<lparr>tv_sec = tv_sec t - n div rate,
               tv_usec = tv_usec t - (n * (ALT_US div rate)) mod ALT_US\<rparr>\<rparr>)
     else (-1, s\<lparr>clk_errno := Some ENOSYS\<rparr>))"

text \<open>\<open>times\<close>: the elapsed ticks, and the four fields of \<open>struct tms\<close> (user, system, and
  the same of the children) when it fills them in.\<close>

definition alt_times :: "'a clk_scheme \<Rightarrow> u32 \<times> (u32 \<times> u32 \<times> u32 \<times> u32) option \<times> 'a clk_scheme" where
  "alt_times s =
    (let ticks = alt_nticks s in
     if alt_ticks_per_second s = 0 then (0, None, s\<lparr>clk_errno := Some ENOSYS\<rparr>)
     else (ticks, Some (0, ticks, 0, 0), s))"

subsection \<open>The busy wait\<close>

text \<open>Each assembler loop decrements a register and branches; the value of
  \<open>loop_ne r\<close> (\<open>bne\<close>) and \<open>loop_gt r\<close> (\<open>bgt\<close>) is the number of its iterations started
  with \<open>r\<close>: the test comes after the decrement, so \<open>bne\<close> from 0 goes round the whole
  register.  The processor of \<open>system.h\<close> is the \<open>tiny\<close> one at 100 MHz.\<close>

definition loop_ne :: "u32 \<Rightarrow> nat" where
  "loop_ne r = (if r = 0 then 2 ^ 32 else unat r)"

definition loop_gt :: "u32 \<Rightarrow> nat" where
  "loop_gt r = (if sint (r - 1) > 0 then unat r else 1)"

definition NIOS2_CPU_IMPLEMENTATION :: string where "NIOS2_CPU_IMPLEMENTATION = ''tiny''"
definition cycles_per_loop :: u32 where
  "cycles_per_loop = (if NIOS2_CPU_IMPLEMENTATION = ''tiny'' then 9 else 3)"
definition ALT_CPU_FREQ :: u32 where "ALT_CPU_FREQ = 100000000"
definition loops_per_us :: u32 where "loops_per_us = ALT_CPU_FREQ div (cycles_per_loop * 1000000)"
definition us_per_big_loop :: u32 where "us_per_big_loop = 0x7FFFFFFF div loops_per_us"

definition alt_busy_sleep :: "u32 \<Rightarrow> nat" where
  "alt_busy_sleep us =
    (let big_loops = us div us_per_big_loop in
     if big_loops \<noteq> 0 then
       unat big_loops * loop_ne 0x7FFFFFFF
         + loop_ne ((us - big_loops * us_per_big_loop) * loops_per_us)
     else loop_gt (us * loops_per_us))"
subsection \<open>The abstract alarm: the number of ticks still to wait\<close>

definition due_at :: "u32 \<Rightarrow> alt_alarm \<Rightarrow> nat" where
  "due_at now m = (if rollover m then unat (time m) + 2 ^ 32 - unat now
                   else unat (time m) - unat now)"

definition alarm_ok :: "u32 \<Rightarrow> alt_alarm \<Rightarrow> bool" where
  "alarm_ok now m \<longleftrightarrow> callback_fn m \<noteq> None \<and> (if rollover m then time m < now else now < time m)"

text \<open>The record after its share of one tick, in the three cases of the code.\<close>

definition unroll :: "u32 \<Rightarrow> alt_alarm \<Rightarrow> alt_alarm" where
  "unroll now m = (if rollover m \<and> now = 0 then m\<lparr>rollover := False\<rparr> else m)"

definition again :: "u32 \<Rightarrow> u32 \<Rightarrow> alt_alarm \<Rightarrow> alt_alarm" where
  "again now p m = (let m = m\<lparr>time := time m + p\<rparr> in
     if time m < now then m\<lparr>rollover := True\<rparr> else m)"

lemma u32_bound: "unat x < 4294967296" for x :: u32
  using unsigned_less [of x] by simp

lemma unat_add: "unat (x + y) = (if unat x + unat y < 2 ^ 32 then unat x + unat y
    else unat x + unat y - 2 ^ 32)" for x y :: u32
  using u32_bound [of x] u32_bound [of y] by (simp add: unat_word_ariths mod_if)

lemma unat_suc: "now + 1 \<noteq> 0 \<Longrightarrow> unat (now + 1) = unat now + 1" for now :: u32
  using unat_add [of now 1] u32_bound [of now] by (auto simp: unat_eq_0 split: if_splits)

lemma unat_last: "now + 1 = 0 \<Longrightarrow> unat now = 2 ^ 32 - 1" for now :: u32
  using unat_add [of now 1] u32_bound [of now]
  by (cases "unat now = 2 ^ 32 - 1") auto

lemma alarm_expires_iff:
  assumes "alarm_ok now m"
  shows "(time (unroll (now + 1) m) \<le> now + 1 \<and> \<not> rollover (unroll (now + 1) m))
    \<longleftrightarrow> due_at now m = 1"
proof (cases "now + 1 = 0")
  case True
  then show ?thesis
    using assms unat_last [OF True] u32_bound [of "time m"]
    by (auto simp: alarm_ok_def due_at_def unroll_def word_less_nat_alt word_le_nat_alt split: if_splits)
next
  case False
  then show ?thesis
    using assms unat_suc [OF False] u32_bound [of "now + 1"]
    by (auto simp: alarm_ok_def due_at_def unroll_def word_less_nat_alt word_le_nat_alt split: if_splits)
qed

lemma alarm_waits:
  assumes "alarm_ok now m" "due_at now m \<noteq> 1"
  shows "alarm_ok (now + 1) (unroll (now + 1) m)"
    and "due_at (now + 1) (unroll (now + 1) m) = due_at now m - 1"
proof -
  have "alarm_ok (now + 1) (unroll (now + 1) m)
      \<and> due_at (now + 1) (unroll (now + 1) m) = due_at now m - 1"
  proof (cases "now + 1 = 0")
    case True
    then show ?thesis
      using assms unat_last [OF True] u32_bound [of "time m"]
      by (auto simp: alarm_ok_def due_at_def unroll_def word_less_nat_alt word_le_nat_alt split: if_splits)
  next
    case False
    then show ?thesis
      using assms unat_suc [OF False] u32_bound [of "now + 1"]
      by (auto simp: alarm_ok_def due_at_def unroll_def word_less_nat_alt word_le_nat_alt split: if_splits)
  qed
  then show "alarm_ok (now + 1) (unroll (now + 1) m)"
    "due_at (now + 1) (unroll (now + 1) m) = due_at now m - 1" by simp_all
qed

lemma alarm_rearmed:
  assumes "alarm_ok now m" "due_at now m = 1" "p \<noteq> 0"
  shows "alarm_ok (now + 1) (again (now + 1) p (unroll (now + 1) m))"
    and "due_at (now + 1) (again (now + 1) p (unroll (now + 1) m)) = unat p"
proof -
  let ?m = "unroll (now + 1) m"
  have e: "time ?m \<le> now + 1" "\<not> rollover ?m" using alarm_expires_iff assms by blast+
  have "unat (time m) = unat (now + 1)"
    using e(1) assms(1,2) unat_add [of now 1] u32_bound [of now] u32_bound [of "time m"]
    by (auto simp: alarm_ok_def due_at_def word_less_nat_alt split: if_splits)
  then have t: "time m = now + 1" by (simp add: word_unat_eq_iff)
  have cb: "callback_fn ?m = callback_fn m" "time ?m = time m" by (simp_all add: unroll_def)
  have p: "0 < unat p" using assms(3) by (simp add: unat_gt_0)
  note w = unat_add [of "now + 1" p] u32_bound [of "now + 1"] u32_bound [of p]
  show "alarm_ok (now + 1) (again (now + 1) p ?m)"
    "due_at (now + 1) (again (now + 1) p ?m) = unat p"
    using w p e(2) cb t assms(1)
    by (auto simp: alarm_ok_def due_at_def again_def Let_def word_less_nat_alt split: if_splits)
qed
text \<open>The callbacks always return, answer a period that depends on the alarm only, and leave
  the alarms alone.\<close>

definition callbacks_keep :: "'a alarm_run \<Rightarrow> (fn \<Rightarrow> u32 \<Rightarrow> u32) \<Rightarrow> bool" where
  "callbacks_keep run per \<longleftrightarrow> (\<forall>f c s. \<exists>s'. run f c s = Some (per f c, s')
     \<and> alarm_heap s' = alarm_heap s \<and> alarms s' = alarms s \<and> alt_alarm_list s' = alt_alarm_list s
     \<and> nticks s' = nticks s \<and> alarm_calls s' = alarm_calls s)"

definition alarm_call :: "alt_alarm \<Rightarrow> fn \<times> u32" where
  "alarm_call m = (the (callback_fn m), alarm_context m)"

definition period_of :: "(fn \<Rightarrow> u32 \<Rightarrow> u32) \<Rightarrow> alt_alarm \<Rightarrow> u32" where
  "period_of per m = per (the (callback_fn m)) (alarm_context m)"

definition ticked :: "(fn \<Rightarrow> u32 \<Rightarrow> u32) \<Rightarrow> u32 \<Rightarrow> alt_alarm \<Rightarrow> alt_alarm" where
  "ticked per now m =
    (if due_at now m = 1 \<and> period_of per m \<noteq> 0
     then again (now + 1) (period_of per m) (unroll (now + 1) m) else unroll (now + 1) m)"

definition stays :: "(fn \<Rightarrow> u32 \<Rightarrow> u32) \<Rightarrow> u32 \<Rightarrow> alt_alarm \<Rightarrow> bool" where
  "stays per now m \<longleftrightarrow> due_at now m \<noteq> 1 \<or> period_of per m \<noteq> 0"

lemma unroll_fields [simp]:
  "callback_fn (unroll now m) = callback_fn m" "alarm_context (unroll now m) = alarm_context m"
  by (simp_all add: unroll_def)

lemma alarm_tick_effect:
  assumes "callbacks_keep run per" "alarm_ok now (alarms s a)" "nticks s = now + 1"
  shows "\<exists>s'. alarm_tick run a s = Some s' \<and> nticks s' = nticks s
    \<and> alt_alarm_list s' = alt_alarm_list s
    \<and> alarms s' = (alarms s)(a := ticked per now (alarms s a))
    \<and> alarm_heap s' = (if stays per now (alarms s a) then alarm_heap s
                       else alt_llist_remove a (alarm_heap s))
    \<and> alarm_calls s' = (if due_at now (alarms s a) = 1 then [alarm_call (alarms s a)] else [])
        @ alarm_calls s"
proof -
  let ?m = "alarms s a"
  let ?s = "s\<lparr>alarms := (alarms s)(a := unroll (now + 1) ?m)\<rparr>"
  obtain f where f: "callback_fn ?m = Some f" using assms(2) by (auto simp: alarm_ok_def)
  have u: "(if rollover ?m \<and> nticks s = 0 then upd_alarm a (\<lambda>m. m\<lparr>rollover := False\<rparr>) s else s) = ?s"
    by (simp add: upd_alarm_def unroll_def assms(3))
  have e: "time (unroll (now + 1) ?m) \<le> now + 1 \<and> \<not> rollover (unroll (now + 1) ?m)
      \<longleftrightarrow> due_at now ?m = 1" using alarm_expires_iff assms(2) by blast
  obtain t where t: "run f (alarm_context ?m) ?s = Some (per f (alarm_context ?m), t)"
    "alarm_heap t = alarm_heap s" "alarms t = alarms ?s" "alt_alarm_list t = alt_alarm_list s"
    "nticks t = now + 1" "alarm_calls t = alarm_calls s"
    using assms(1) [unfolded callbacks_keep_def, rule_format, of f "alarm_context ?m" ?s] assms(3)
    by auto
  show ?thesis
  proof (cases "due_at now ?m = 1")
    case False
    then have "alarm_tick run a s = Some ?s"
      using e u assms(3) by (simp add: alarm_tick_def Let_def) blast
    then show ?thesis using False by (simp add: stays_def ticked_def)
  next
    case True
    then have x: "alarm_tick run a s = alarm_expire run a ?s"
      using e u assms(3) by (simp add: alarm_tick_def Let_def)
    show ?thesis
    proof (cases "per f (alarm_context ?m) = 0")
      case z: True
      show ?thesis using t f True z assms(3)
        by (auto simp: x alarm_expire_def alt_alarm_stop_def Let_def stays_def ticked_def
            period_of_def alarm_call_def alt_irq_disable_all_def alt_irq_enable_all_def)
    next
      case z: False
      show ?thesis using t f True z assms(3)
        by (auto simp: x alarm_expire_def Let_def stays_def ticked_def again_def upd_alarm_def
            period_of_def alarm_call_def)
    qed
  qed
qed

lemma dlist_next_in: "dlist h l (ys @ a # zs) \<Longrightarrow> nxt h a = hd (zs @ [l])"
  using dchain_append [of h "l # ys" a "zs @ [l]"] by (cases zs) (auto simp: dlist_def)

lemma alarm_walk_effect:
  assumes "callbacks_keep run per" "nticks s = now + 1"
    and "dlist (alarm_heap s) (alt_alarm_list s) (ys @ zs)"
    and "\<forall>a\<in>set zs. alarm_ok now (alarms s a)"
  shows "\<exists>s'. alarm_walk run (hd (zs @ [alt_alarm_list s])) s = Some s' \<and> nticks s' = nticks s
    \<and> alt_alarm_list s' = alt_alarm_list s
    \<and> dlist (alarm_heap s') (alt_alarm_list s) (ys @ filter (\<lambda>a. stays per now (alarms s a)) zs)
    \<and> alarms s' = (\<lambda>a. if a \<in> set zs then ticked per now (alarms s a) else alarms s a)
    \<and> alarm_calls s' = rev (map (\<lambda>a. alarm_call (alarms s a))
          (filter (\<lambda>a. due_at now (alarms s a) = 1) zs)) @ alarm_calls s"
  using assms(2-)
proof (induction zs arbitrary: s ys)
  case Nil
  then show ?case by (subst alarm_walk.simps) simp
next
  case (Cons a zs)
  let ?l = "alt_alarm_list s"
  have d: "distinct (?l # ys @ a # zs)" using Cons.prems(2) by (simp add: dlist_def)
  obtain t where t: "alarm_tick run a s = Some t" "nticks t = now + 1" "alt_alarm_list t = ?l"
    "alarms t = (alarms s)(a := ticked per now (alarms s a))"
    "alarm_heap t = (if stays per now (alarms s a) then alarm_heap s
                       else alt_llist_remove a (alarm_heap s))"
    "alarm_calls t = (if due_at now (alarms s a) = 1 then [alarm_call (alarms s a)] else [])
        @ alarm_calls s"
    using alarm_tick_effect [OF assms(1), of now s a] Cons.prems by auto
  let ?ys = "if stays per now (alarms s a) then ys @ [a] else ys"
  have "dlist (alarm_heap t) (alt_alarm_list t) (?ys @ zs)"
    using Cons.prems(2) remove_dlist [of "alarm_heap s" ?l ys a zs] t(3,5) by auto
  moreover have same: "\<forall>b\<in>set zs. alarms t b = alarms s b" using d t(4) by auto
  moreover have "\<forall>b\<in>set zs. alarm_ok now (alarms t b)" using same Cons.prems(3) by simp
  ultimately obtain u where u: "alarm_walk run (hd (zs @ [?l])) t = Some u" "nticks u = now + 1"
    "alt_alarm_list u = ?l"
    "dlist (alarm_heap u) ?l (?ys @ filter (\<lambda>b. stays per now (alarms t b)) zs)"
    "alarms u = (\<lambda>b. if b \<in> set zs then ticked per now (alarms t b) else alarms t b)"
    "alarm_calls u = rev (map (\<lambda>b. alarm_call (alarms t b))
        (filter (\<lambda>b. due_at now (alarms t b) = 1) zs)) @ alarm_calls t"
    using Cons.IH [of t ?ys] t(2,3) by auto
  have "alarm_walk run (hd ((a # zs) @ [?l])) s = Some u"
    using d t(1) u(1) dlist_next_in [OF Cons.prems(2)] by (subst alarm_walk.simps) auto
  moreover have "filter (\<lambda>b. stays per now (alarms t b)) zs = filter (\<lambda>b. stays per now (alarms s b)) zs"
    "filter (\<lambda>b. due_at now (alarms t b) = 1) zs = filter (\<lambda>b. due_at now (alarms s b) = 1) zs"
    using same by (auto intro!: filter_cong)
  moreover have "map (\<lambda>b. alarm_call (alarms t b)) (filter (\<lambda>b. due_at now (alarms s b) = 1) zs)
      = map (\<lambda>b. alarm_call (alarms s b)) (filter (\<lambda>b. due_at now (alarms s b) = 1) zs)"
    using same by auto
  moreover have "alarms u = (\<lambda>b. if b \<in> set (a # zs) then ticked per now (alarms s b) else alarms s b)"
    using u(5) same t(4) d by (auto simp: fun_eq_iff)
  ultimately show ?case using u t(6) Cons.prems(1) by auto
qed
subsection \<open>Properties\<close>

lemma alarm_started:
  assumes "tick_rate s \<noteq> 0" "n \<noteq> - 1" "alt_alarm_start (Some a) n (Some f) c s = (r, s')"
  shows "r = None" "alarm_ok (nticks s') (alarms s' a)" "due_at (nticks s') (alarms s' a) = unat n + 1"
    "alarm_call (alarms s' a) = (f, c)" "cpu_status s' = cpu_status s"
    "alarm_heap s' = alt_llist_insert (alt_alarm_list s) a (alarm_heap s)"
proof -
  have n: "unat (n + 1) = unat n + 1"
    using assms(2) unat_suc [of n] by (metis add_diff_cancel_right' diff_0)
  let ?t = "n + nticks s + 1"
  have t: "unat ?t = (if unat (nticks s) + unat n + 1 < 2 ^ 32 then unat (nticks s) + unat n + 1
      else unat (nticks s) + unat n + 1 - 2 ^ 32)"
    using unat_add [of "nticks s" "n + 1"] n by (simp add: ac_simps)
  show "r = None" "alarm_ok (nticks s') (alarms s' a)" "due_at (nticks s') (alarms s' a) = unat n + 1"
    "alarm_call (alarms s' a) = (f, c)" "cpu_status s' = cpu_status s"
    "alarm_heap s' = alt_llist_insert (alt_alarm_list s) a (alarm_heap s)"
    using assms(1,3) t u32_bound [of n] u32_bound [of "nticks s"] u32_bound [of "n + 1"] n
    by (auto simp: alt_alarm_start_def alt_ticks_per_second_def alt_nticks_def upd_alarm_def Let_def
        alt_irq_disable_all_def alt_irq_enable_all_def alarm_ok_def due_at_def alarm_call_def
        word_less_nat_alt split: if_splits)
qed

text \<open>The longest wait wraps round to the present tick, so the alarm is due at once.\<close>

lemma alarm_longest_wait_is_none:
  assumes "tick_rate s \<noteq> 0" "alt_alarm_start (Some a) (- 1) (Some f) c s = (r, s')"
  shows "time (alarms s' a) = nticks s' \<and> \<not> rollover (alarms s' a)"
  using assms
  by (auto simp: alt_alarm_start_def alt_ticks_per_second_def alt_nticks_def upd_alarm_def Let_def
      alt_irq_disable_all_def alt_irq_enable_all_def)

text \<open>C18: one tick of the system clock counts every started alarm down by one, also when the
  32-bit tick counter or the alarm's time wraps round; it calls exactly the alarms that were
  due, in list order, sets each to the period it answered and unlinks those that answered 0.\<close>
theorem alarms_count_down:
  assumes "callbacks_keep run per" "dlist (alarm_heap s) (alt_alarm_list s) xs"
    and "\<forall>a\<in>set xs. alarm_ok (nticks s) (alarms s a)"
  shows "\<exists>s'. alt_tick run s = Some s' \<and> nticks s' = nticks s + 1
    \<and> alarm_calls s' = rev (map (\<lambda>a. alarm_call (alarms s a))
          (filter (\<lambda>a. due_at (nticks s) (alarms s a) = 1) xs)) @ alarm_calls s
    \<and> dlist (alarm_heap s') (alt_alarm_list s)
        (filter (\<lambda>a. due_at (nticks s) (alarms s a) \<noteq> 1 \<or> period_of per (alarms s a) \<noteq> 0) xs)
    \<and> (\<forall>a\<in>set xs. due_at (nticks s) (alarms s a) \<noteq> 1 \<longrightarrow> alarm_ok (nticks s') (alarms s' a)
        \<and> due_at (nticks s') (alarms s' a) = due_at (nticks s) (alarms s a) - 1)
    \<and> (\<forall>a\<in>set xs. due_at (nticks s) (alarms s a) = 1 \<and> period_of per (alarms s a) \<noteq> 0
        \<longrightarrow> alarm_ok (nticks s') (alarms s' a)
            \<and> due_at (nticks s') (alarms s' a) = unat (period_of per (alarms s a)))"
proof -
  let ?s = "s\<lparr>nticks := nticks s + 1\<rparr>"
  obtain s' where s': "alarm_walk run (hd (xs @ [alt_alarm_list s])) ?s = Some s'"
    "nticks s' = nticks s + 1"
    "dlist (alarm_heap s') (alt_alarm_list s) (filter (\<lambda>a. stays per (nticks s) (alarms s a)) xs)"
    "alarms s' = (\<lambda>a. if a \<in> set xs then ticked per (nticks s) (alarms s a) else alarms s a)"
    "alarm_calls s' = rev (map (\<lambda>a. alarm_call (alarms s a))
          (filter (\<lambda>a. due_at (nticks s) (alarms s a) = 1) xs)) @ alarm_calls s"
    using alarm_walk_effect [OF assms(1), of ?s "nticks s" "[]" xs] assms(2,3) by (auto cong: if_cong)
  have "alt_tick run s = Some s'"
    using s'(1) dlist_next [OF assms(2)] by (simp add: alt_tick_def)
  then show ?thesis
    using s'(2-) assms(3) alarm_waits alarm_rearmed by (auto simp: stays_def [abs_def] ticked_def)
qed

text \<open>Two alarms: one due now that asks for a period of 6, one started across the end of the
  counter.\<close>

definition two_alarms :: clk where
  "two_alarms = \<lparr>hw = \<lambda>_ _. 0, ipend = \<lambda>_. 0, trace = [], cpu_status = 1, ienable = 0,
     alt_irq_active = 0, alt_priority_mask = 0, alt_irq = [],
     alarm_heap = \<lparr>nxt = (\<lambda>_. 0)(0 := 1, 1 := 2, 2 := 0), previous = (\<lambda>_. 0)(0 := 2, 1 := 0, 2 := 1),
       dev_name = \<lambda>_. None\<rparr>,
     alarms = (\<lambda>_. \<lparr>time = 0xFFFFFFFF, callback_fn = Some Alt_lcd_16207_timeout, rollover = False,
       alarm_context = 7\<rparr>)(2 := \<lparr>time = 3, callback_fn = Some Altera_avalon_jtag_uart_timeout,
       rollover = True, alarm_context = 8\<rparr>),
     alt_alarm_list = 0, tick_rate = 1000, nticks = 0xFFFFFFFE, alt_timezone = \<lparr>tz_minuteswest = 0,
     tz_dsttime = 0\<rparr>, alt_resettime = \<lparr>tv_sec = 0, tv_usec = 0\<rparr>, clk_errno = None,
     alarm_calls = []\<rparr>"

lemma two_alarms_ok:
  "dlist (alarm_heap two_alarms) (alt_alarm_list two_alarms) [1, 2]"
  "\<forall>a\<in>set [1, 2]. alarm_ok (nticks two_alarms) (alarms two_alarms a)"
  by (simp_all add: two_alarms_def dlist_def alarm_ok_def)

lemma steady_run: "callbacks_keep (\<lambda>f c s. Some (6, s)) (\<lambda>f c. 6)"
  by (simp add: callbacks_keep_def)

lemma alarms_count_down_witness:
  "\<exists>s'. alt_tick (\<lambda>f c s. Some (6, s)) two_alarms = Some s'
    \<and> alarm_calls s' = [(Alt_lcd_16207_timeout, 7)]
    \<and> due_at (nticks s') (alarms s' 1) = 6 \<and> due_at (nticks s') (alarms s' 2) = 4"
  using alarms_count_down [OF steady_run two_alarms_ok]
  by (auto simp: two_alarms_def due_at_def alarm_call_def period_of_def)

lemma unat_u64 [simp]: "unat (ucast x :: u64) = unat x" for x :: u32
  using u32_bound [of x] by (simp add: unsigned_ucast_eq take_bit_nat_eq_self)

text \<open>\<open>gettimeofday\<close> right after \<open>settimeofday\<close> answers the time and the zone that were
  set, as long as the microseconds since reset fit the 32 bits in which the setter computes
  them.\<close>
theorem settod_gettod:
  assumes "tick_rate s \<noteq> 0" "0 \<le> sint (tv_usec t)" "sint (tv_usec t) < 1000000"
    and "unat (nticks s) * unat (ALT_US div tick_rate s) < 2 ^ 32"
  shows "fst (alt_settimeofday t tz s) = 0
    \<and> alt_gettimeofday True (snd (alt_settimeofday t tz s)) = Some (Inr (t, Some tz))"
proof -
  let ?q = "ALT_US div tick_rate s"
  have "unat (nticks s * ?q) = unat (nticks s) * unat ?q"
    using assms(4) by (simp add: unat_word_ariths)
  moreover have "unat (ucast (nticks s) * ucast ?q :: u64) = unat (nticks s) * unat ?q"
    using assms(4) by (simp only: unat_word_ariths unat_u64) simp
  ultimately have "ucast ((ucast (nticks s) * ucast ?q :: u64) mod 1000000) = nticks s * ?q mod ALT_US"
    by (simp add: word_unat_eq_iff unsigned_ucast_eq unat_mod take_bit_nat_eq_self)
  then show ?thesis using assms(1-3)
    by (simp add: alt_settimeofday_def alt_gettimeofday_def Let_def alt_nticks_def
        alt_ticks_per_second_def usec_up.simps [of _ "tv_usec t"] usec_down.simps [of _ "tv_usec t"])
qed

lemma settod_gettod_witness:
  "alt_gettimeofday True (snd (alt_settimeofday \<lparr>tv_sec = 1000, tv_usec = 5\<rparr>
      \<lparr>tz_minuteswest = 0, tz_dsttime = 1\<rparr> (two_alarms\<lparr>nticks := 77\<rparr>)))
    = Some (Inr (\<lparr>tv_sec = 1000, tv_usec = 5\<rparr>, Some \<lparr>tz_minuteswest = 0, tz_dsttime = 1\<rparr>))"
  using settod_gettod [of "two_alarms\<lparr>nticks := 77\<rparr>" "\<lparr>tv_sec = 1000, tv_usec = 5\<rparr>"]
  by (simp add: two_alarms_def)

text \<open>Past that bound, 72 minutes after reset at 1000 ticks a second, the setter's product
  wraps while the getter's does not, and the time read back is off by most of a second.\<close>

lemma settod_drifts:
  "alt_gettimeofday False (snd (alt_settimeofday \<lparr>tv_sec = 1000000, tv_usec = 704\<rparr> z
      (two_alarms\<lparr>nticks := 4294968\<rparr>)))
    = Some (Inr (\<lparr>tv_sec = 1000000, tv_usec = 968000\<rparr>, None))"
  by (simp add: two_alarms_def alt_settimeofday_def alt_gettimeofday_def alt_nticks_def Let_def
      alt_ticks_per_second_def usec_up.simps usec_down.simps)

text \<open>The busy wait makes eleven loop passes for every microsecond up to the largest wait
  one counter can hold, and keeps to it to a few passes per refill beyond, but at an exact
  multiple of that wait the last counter starts at 0 and runs through all 32 bits, more
  than six minutes too long.\<close>
theorem busy_sleep_passes:
  "alt_busy_sleep us =
    (if us = 0 then 1
     else if unat us < 195225786 then 11 * unat us
     else unat us div 195225786 * (2 ^ 31 - 1)
       + (if unat us mod 195225786 = 0 then 2 ^ 32 else 11 * (unat us mod 195225786)))"
proof -
  have c: "loops_per_us = 11" "us_per_big_loop = 195225786"
    by (simp_all add: loops_per_us_def us_per_big_loop_def cycles_per_loop_def ALT_CPU_FREQ_def
        NIOS2_CPU_IMPLEMENTATION_def)
  have q: "unat (us div 195225786) = unat us div 195225786" by (simp add: unat_div)
  have m: "us - us div 195225786 * 195225786 = us mod 195225786"
    by (simp add: minus_div_mult_eq_mod)
  have r: "unat (us mod 195225786) = unat us mod 195225786" by (simp add: unat_mod)
  have x: "unat (11 * (us mod 195225786)) = 11 * (unat us mod 195225786)"
    using r mod_less_divisor [of 195225786 "unat us"] by (simp add: unat_word_ariths)
  have z: "us div 195225786 = 0 \<longleftrightarrow> unat us < 195225786"
    using q by (simp add: word_unat_eq_iff div_eq_0_iff)
  show ?thesis
  proof (cases "unat us < 195225786")
    case True
    then have e: "us mod 195225786 = us" using r by (simp add: word_unat_eq_iff)
    have "0 < sint (11 * us - 1) \<or> us = 0"
    proof (cases "us = 0")
      case False
      then have "unat us \<noteq> 0" by (simp add: unat_eq_0)
      moreover have "uint us = int (unat us)" by simp
      ultimately have u: "0 < uint us" "uint us < 195225786" using True by linarith+
      then have "sint (word_of_int (11 * uint us - 1) :: u32) = 11 * uint us - 1"
        by (intro sint_word_of_int) simp_all
      then show ?thesis using u by simp
    qed simp
    then show ?thesis using True z x e
      by (auto simp: alt_busy_sleep_def Let_def c loop_gt_def mult.commute [of us])
  next
    case False
    then have "us \<noteq> 0" by auto
    moreover have "11 * (us mod 195225786) = 0 \<longleftrightarrow> unat us mod 195225786 = 0"
      using x by (simp add: word_unat_eq_iff)
    ultimately show ?thesis using False z q x
      by (simp add: alt_busy_sleep_def Let_def c m loop_ne_def mult.commute [of _ 11])
  qed
qed

text \<open>What starting an alarm leaves alone.\<close>

lemma alarm_start_frame:
  "\<exists>st h al. snd (alt_alarm_start a n f c s) = s\<lparr>cpu_status := st, alarm_heap := h, alarms := al\<rparr>"
  by (intro exI [of _ "cpu_status (snd (alt_alarm_start a n f c s))"]
        exI [of _ "alarm_heap (snd (alt_alarm_start a n f c s))"]
        exI [of _ "alarms (snd (alt_alarm_start a n f c s))"] clk.equality)
    (auto simp: alt_alarm_start_def alt_irq_disable_all_def alt_irq_enable_all_def upd_alarm_def Let_def
      split: option.splits)

end
