(* ===== verification/Lcd.thy ===== *)
theory Lcd
  imports Clock
begin

text \<open>
  The character display, \<open>altera_avalon_lcd_16207.c\<close>: a terminal of two lines of 80
  characters shown through a window of 16 that scrolls.  \<open>None\<close> is a division by zero or an
  access outside an array.  \<open>char\<close> is signed on this processor.  The timer interrupt may come
  while \<open>write\<close> repaints: its \<open>ticks\<close> argument gives the number of times it comes during
  each pass of the repaint loop (the foreground is active then, so the interrupt only moves
  the scroll position).  Writes to the panel wait for it at most a million polls.
\<close>

abbreviation (input) "ALT_LCD_HEIGHT \<equiv> (2 :: nat)"
abbreviation (input) "ALT_LCD_WIDTH \<equiv> (16 :: nat)"
abbreviation (input) "ALT_LCD_VIRTUAL_WIDTH \<equiv> (80 :: nat)"

abbreviation (input) "LCD_CMD_WRITE_DATA \<equiv> (0x80 :: u8)"
abbreviation (input) "LCD_CMD_FUNCTION_SET \<equiv> (0x20 :: u8)"
abbreviation (input) "LCD_CMD_8BIT \<equiv> (0x10 :: u8)"
abbreviation (input) "LCD_CMD_TWO_LINE \<equiv> (0x08 :: u8)"
abbreviation (input) "LCD_CMD_ONOFF \<equiv> (0x08 :: u8)"
abbreviation (input) "LCD_CMD_ENABLE_DISP \<equiv> (0x04 :: u8)"
abbreviation (input) "LCD_CMD_MODES \<equiv> (0x04 :: u8)"
abbreviation (input) "LCD_CMD_MODE_INC \<equiv> (0x02 :: u8)"
abbreviation (input) "LCD_CMD_CLEAR \<equiv> (0x01 :: u8)"

record lcd_line =
  visible :: "u8 list"      \<comment> \<open>16, what the panel shows\<close>
  data :: "u8 list"         \<comment> \<open>81, the virtual line\<close>
  width :: u8               \<comment> \<open>signed\<close>
  speed :: u8

record lcd = clk +
  lcd_base :: u32
  lcd_alarm :: u32
  period :: u32
  broken :: bool
  cur_x :: u8
  cur_y :: u8
  address :: u8             \<comment> \<open>signed\<close>
  esccount :: int           \<comment> \<open>a \<open>char\<close> between -1 and 7\<close>
  scrollpos :: u8
  scrollmax :: u8
  active :: bool
  escape :: "u8 list"       \<comment> \<open>8\<close>
  lines :: "lcd_line list"

definition colstart :: "u8 list" where
  "colstart = [0x00, 0x40, 0x20, 0x60]"

text \<open>\<open>isdigit\<close> and \<open>isprint\<close> of the C locale.\<close>

definition isdigit :: "u8 \<Rightarrow> bool" where "isdigit c \<longleftrightarrow> 48 \<le> c \<and> c \<le> 57"
definition isprint :: "u8 \<Rightarrow> bool" where "isprint c \<longleftrightarrow> 32 \<le> c \<and> c \<le> 126"

definition upd_line :: "nat \<Rightarrow> (lcd_line \<Rightarrow> lcd_line) \<Rightarrow> 'a lcd_scheme \<Rightarrow> 'a lcd_scheme" where
  "upd_line y f s = s\<lparr>lines := (lines s)[y := f (lines s ! y)]\<rparr>"

primrec for_each :: "('i \<Rightarrow> 's \<Rightarrow> 's option) \<Rightarrow> 'i list \<Rightarrow> 's \<Rightarrow> 's option" where
  "for_each f [] s = Some s"
| "for_each f (i # is) s = do { s \<leftarrow> f i s; for_each f is s }"

subsection \<open>The panel\<close>

text \<open>\<open>while (status & busy) if (--i == 0) { broken = 1; return; }\<close>\<close>

primrec lcd_wait :: "nat \<Rightarrow> 'a lcd_scheme \<Rightarrow> bool \<times> 'a lcd_scheme" where
  "lcd_wait 0 s = (False, s)"
| "lcd_wait (Suc i) s =
    (let (st, s) = iord (lcd_base s) 1 s in
     if st AND 0x80 \<noteq> 0 then
       if i = 0 then (False, s\<lparr>broken := True\<rparr>) else lcd_wait i s
     else (True, s))"

definition LCD_POLLS :: nat where "LCD_POLLS = 1000000"

definition lcd_write_command :: "u8 \<Rightarrow> 'a lcd_scheme \<Rightarrow> 'a lcd_scheme" where
  "lcd_write_command command s =
    (if broken s then s else
     let (ready, s) = lcd_wait LCD_POLLS s in
     if \<not> ready then s
     else let s = usleep 100 s in iowr (lcd_base s) 0 (ucast command) s)"

definition lcd_write_data :: "u8 \<Rightarrow> 'a lcd_scheme \<Rightarrow> 'a lcd_scheme" where
  "lcd_write_data d s =
    (if broken s then s else
     let (ready, s) = lcd_wait LCD_POLLS s in
     if \<not> ready then s
     else let s = usleep 100 s;
              s = iowr (lcd_base s) 2 (ucast d) s
          in s\<lparr>address := address s + 1\<rparr>)"

definition clear_line :: "nat \<Rightarrow> 'a lcd_scheme \<Rightarrow> 'a lcd_scheme" where
  "clear_line y s =
    (let s = upd_line y (\<lambda>l. l\<lparr>data := replicate 81 32\<rparr>) s;
         s = upd_line y (\<lambda>l. l\<lparr>visible := replicate 16 32\<rparr>) s
     in upd_line y (\<lambda>l. l\<lparr>width := 0\<rparr>) s)"

definition lcd_clear_screen :: "'a lcd_scheme \<Rightarrow> 'a lcd_scheme" where
  "lcd_clear_screen s =
    (let s = lcd_write_command LCD_CMD_CLEAR s;
         s = s\<lparr>cur_x := 0\<rparr>;
         s = s\<lparr>cur_y := 0\<rparr>;
         s = s\<lparr>address := 0\<rparr>
     in clear_line 1 (clear_line 0 s))"

text \<open>One character of the repaint.  The remainder is C's: its sign is the dividend's.\<close>

definition repaint_cell :: "nat \<Rightarrow> int \<Rightarrow> int \<Rightarrow> nat \<Rightarrow> 'a lcd_scheme \<Rightarrow> 'a lcd_scheme option" where
  "repaint_cell y w offset i s =
    (if w = 0 then None else
     let j = nat ((int i + offset) mod \<bar>w\<bar>) in
     if 81 \<le> j then None else
     let c = data (lines s ! y) ! j in
     if visible (lines s ! y) ! i \<noteq> c then
       let a = of_nat i + colstart ! y;
           s = (if uint a \<noteq> sint (address s)
                then (lcd_write_command (LCD_CMD_WRITE_DATA OR a) s)\<lparr>address := a\<rparr> else s);
           s = lcd_write_data c s
       in Some (upd_line y (\<lambda>l. l\<lparr>visible := (visible l)[i := c]\<rparr>) s)
     else Some s)"

definition line_offset :: "u8 \<Rightarrow> lcd_line \<Rightarrow> int" where
  "line_offset pos l =
    (let offset = drop_bit 8 (uint pos * uint (speed l)) in
     if offset \<ge> sint (width l) then 0 else offset)"

definition repaint_line :: "nat \<Rightarrow> 'a lcd_scheme \<Rightarrow> 'a lcd_scheme option" where
  "repaint_line y s =
    (let w = sint (width (lines s ! y)); offset = line_offset (scrollpos s) (lines s ! y)
     in for_each (repaint_cell y w offset) [0..<ALT_LCD_WIDTH] s)"

definition lcd_repaint_screen :: "'a lcd_scheme \<Rightarrow> 'a lcd_scheme option" where
  "lcd_repaint_screen s = for_each repaint_line [0..<ALT_LCD_HEIGHT] s"

definition lcd_scroll_up :: "'a lcd_scheme \<Rightarrow> 'a lcd_scheme" where
  "lcd_scroll_up s =
    (let s = upd_line 0 (\<lambda>l. l\<lparr>data := patch (data l) 0 (take 80 (data (lines s ! 1)))\<rparr>) s;
         s = upd_line 1 (\<lambda>l. l\<lparr>data := patch (data l) 0 (replicate 80 32)\<rparr>) s
     in s\<lparr>cur_y := cur_y s - 1\<rparr>)"

subsection \<open>Escape sequences\<close>

text \<open>The digits at the front of a string, as a number, and what follows them; the scan must
  stop inside the buffer.\<close>

fun parse_num :: "int \<Rightarrow> u8 list \<Rightarrow> (int \<times> u8 list) option" where
  "parse_num n [] = None"
| "parse_num n (c # cs) = (if isdigit c then parse_num (n * 10 + (uint c - 48)) cs else Some (n, c # cs))"

definition escape_params :: "u8 list \<Rightarrow> (int \<times> int) option" where
  "escape_params e =
    (if e ! 0 = 91 then do {
       (parm1, rest) \<leftarrow> parse_num 0 (drop 1 e);
       if hd rest = 59 then do {
         (parm2, _) \<leftarrow> parse_num 0 (tl rest);
         Some (parm1, parm2)
       } else Some (parm1, 0)
     } else Some (-1, 0))"

text \<open>\<open>while (sp->y > ALT_LCD_HEIGHT) lcd_scroll_up(sp);\<close>\<close>

function scroll_to :: "'a lcd_scheme \<Rightarrow> 'a lcd_scheme" where
  "scroll_to s = (if cur_y s > 2 then scroll_to (lcd_scroll_up s) else s)"
  by pat_completeness auto
termination
proof (relation "measure (\<lambda>s. unat (cur_y s))")
  fix s :: "'a lcd_scheme"
  assume "2 < cur_y s"
  then have "2 < unat (cur_y s)" by (simp add: word_less_nat_alt)
  moreover from this have "cur_y s \<noteq> 0" by auto
  ultimately have "unat (cur_y s - 1) < unat (cur_y s)"
    by (simp add: unat_sub word_le_nat_alt)
  then show "(lcd_scroll_up s, s) \<in> measure (\<lambda>s. unat (cur_y s))"
    by (simp add: lcd_scroll_up_def upd_line_def Let_def)
qed simp

declare scroll_to.simps [simp del]

definition lcd_move_to :: "int \<Rightarrow> int \<Rightarrow> 'a lcd_scheme \<Rightarrow> 'a lcd_scheme" where
  "lcd_move_to parm1 parm2 s =
    (let s = (if parm2 > 0 then s\<lparr>cur_x := word_of_int (parm2 - 1)\<rparr> else s) in
     if parm1 > 0 then
       let s = s\<lparr>cur_y := word_of_int (parm1 - 1)\<rparr>;
           s = (if cur_y s > 4 then s\<lparr>cur_y := 4\<rparr> else s)
       in scroll_to s
     else s)"

text \<open>\<open>memset(sp->line[sp->y].data + sp->x, ' ', 80 - sp->x)\<close>: there are two lines.\<close>

definition lcd_clear_to_end :: "'a lcd_scheme \<Rightarrow> 'a lcd_scheme option" where
  "lcd_clear_to_end s =
    (if unat (cur_x s) < ALT_LCD_VIRTUAL_WIDTH then
       if unat (cur_y s) < ALT_LCD_HEIGHT then
         Some (upd_line (unat (cur_y s))
           (\<lambda>l. l\<lparr>data := patch (data l) (unat (cur_x s)) (replicate (80 - unat (cur_x s)) 32)\<rparr>) s)
       else None
     else Some s)"

definition lcd_handle_escape :: "u8 \<Rightarrow> 'a lcd_scheme \<Rightarrow> 'a lcd_scheme option" where
  "lcd_handle_escape c s = do {
     (parm1, parm2) \<leftarrow> escape_params (escape s);
     if c = 72 \<or> c = 102 then Some (lcd_move_to parm1 parm2 s)
     else if c = 74 then Some (if parm1 = 2 then lcd_clear_screen s else s)
     else if c = 75 then (if parm1 < 1 then lcd_clear_to_end s else Some s)
     else Some s }"

subsection \<open>Writing\<close>

definition lcd_put_escape :: "u8 \<Rightarrow> 'a lcd_scheme \<Rightarrow> 'a lcd_scheme option" where
  "lcd_put_escape c s =
    (let n = esccount s in
     if (n = 0 \<and> c \<noteq> 91) \<or> (n > 0 \<and> \<not> isdigit c \<and> c \<noteq> 59) then do {
       e \<leftarrow> mem_put (escape s) (nat n) [0];
       s \<leftarrow> lcd_handle_escape c (s\<lparr>escape := e\<rparr>);
       Some (s\<lparr>esccount := -1\<rparr>)
     } else if n < 7 then do {
       e \<leftarrow> mem_put (escape s) (nat n) [c];
       Some (s\<lparr>escape := e, esccount := n + 1\<rparr>)
     } else Some s)"

definition lcd_put_printable :: "u8 \<Rightarrow> 'a lcd_scheme \<Rightarrow> 'a lcd_scheme option" where
  "lcd_put_printable c s =
    (let s = (if unat (cur_y s) \<ge> ALT_LCD_HEIGHT then lcd_scroll_up s else s) in do {
       s \<leftarrow> (if unat (cur_x s) < ALT_LCD_VIRTUAL_WIDTH then
               if unat (cur_y s) < ALT_LCD_HEIGHT then
                 Some (upd_line (unat (cur_y s)) (\<lambda>l. l\<lparr>data := (data l)[unat (cur_x s) := c]\<rparr>) s)
               else None
             else Some s);
       Some (s\<lparr>cur_x := cur_x s + 1\<rparr>) })"

definition lcd_put :: "u8 \<Rightarrow> 'a lcd_scheme \<Rightarrow> 'a lcd_scheme option" where
  "lcd_put c s =
    (if esccount s \<ge> 0 then lcd_put_escape c s
     else if c = 27 then Some (s\<lparr>esccount := 0\<rparr>)
     else if c = 13 then Some (s\<lparr>cur_x := 0\<rparr>)
     else if c = 10 then
       let s = s\<lparr>cur_x := 0\<rparr>; s = s\<lparr>cur_y := cur_y s + 1\<rparr>
       in Some (if unat (cur_y s) > ALT_LCD_HEIGHT then lcd_scroll_up s else s)
     else if c = 8 then Some (if cur_x s > 0 then s\<lparr>cur_x := cur_x s - 1\<rparr> else s)
     else if isprint c then lcd_put_printable c s
     else Some s)"

text \<open>The width of a line: where its last character is, at least the panel's width, one space
  more when it is longer.\<close>

primrec last_used :: "u8 list \<Rightarrow> nat \<Rightarrow> nat" where
  "last_used d 0 = 0"
| "last_used d (Suc n) = (if d ! n \<noteq> 32 then Suc n else last_used d n)"

definition line_width :: "u8 list \<Rightarrow> nat" where
  "line_width d = (let n = last_used d ALT_LCD_VIRTUAL_WIDTH in
     if n \<le> ALT_LCD_WIDTH then ALT_LCD_WIDTH else n + 1)"

definition set_width :: "nat \<Rightarrow> nat \<times> 'a lcd_scheme \<Rightarrow> nat \<times> 'a lcd_scheme" where
  "set_width y = (\<lambda>(widthmax, s).
    let n = line_width (data (lines s ! y));
        s = upd_line y (\<lambda>l. l\<lparr>width := of_nat n\<rparr>) s;
        widthmax = (if widthmax < n then n else widthmax);
        s = upd_line y (\<lambda>l. l\<lparr>speed := 0\<rparr>) s
    in (widthmax, s))"

definition set_speed :: "nat \<Rightarrow> nat \<Rightarrow> 'a lcd_scheme \<Rightarrow> 'a lcd_scheme" where
  "set_speed widthmax y s =
    (if sint (width (lines s ! y)) > int ALT_LCD_WIDTH then
       upd_line y (\<lambda>l. l\<lparr>speed := word_of_int (256 * sint (width l) div int widthmax)\<rparr>) s
     else s)"

definition lcd_set_scroll :: "'a lcd_scheme \<Rightarrow> 'a lcd_scheme" where
  "lcd_set_scroll s =
    (let (widthmax, s) = set_width 1 (set_width 0 (ALT_LCD_WIDTH, s)) in
     if widthmax \<le> ALT_LCD_WIDTH then s\<lparr>scrollmax := 0\<rparr>
     else let widthmax = widthmax * 2;
              s = s\<lparr>scrollmax := of_nat widthmax\<rparr>
          in set_speed widthmax 1 (set_speed widthmax 0 s))"

definition alt_lcd_16207_timeout :: "'a lcd_scheme \<Rightarrow> (u32 \<times> 'a lcd_scheme) option" where
  "alt_lcd_16207_timeout s = do {
     let s = (if unat (scrollpos s) + 1 \<ge> unat (scrollmax s) then s\<lparr>scrollpos := 0\<rparr>
              else s\<lparr>scrollpos := scrollpos s + 1\<rparr>);
     s \<leftarrow> (if scrollmax s > 0 \<and> \<not> active s then lcd_repaint_screen s else Some s);
     Some (period s, s) }"

primrec lcd_ticks :: "nat \<Rightarrow> 'a lcd_scheme \<Rightarrow> 'a lcd_scheme option" where
  "lcd_ticks 0 s = Some s"
| "lcd_ticks (Suc n) s = do { (_, s) \<leftarrow> alt_lcd_16207_timeout s; lcd_ticks n s }"

text \<open>The repaint loop of \<open>write\<close>, with the interrupts that come in each pass.\<close>

fun lcd_paint_loop :: "nat list \<Rightarrow> 'a lcd_scheme \<Rightarrow> 'a lcd_scheme option" where
  "lcd_paint_loop ticks s = do {
     let old_scrollpos = scrollpos s;
     s \<leftarrow> lcd_repaint_screen s;
     s \<leftarrow> lcd_ticks (case ticks of [] \<Rightarrow> 0 | n # _ \<Rightarrow> n) s;
     let s = s\<lparr>active := False\<rparr>;
     if scrollpos s = old_scrollpos then Some s
     else case ticks of [] \<Rightarrow> None | _ # ticks \<Rightarrow> lcd_paint_loop ticks (s\<lparr>active := True\<rparr>) }"

definition altera_avalon_lcd_16207_write ::
  "nat list \<Rightarrow> u8 list \<Rightarrow> 'a lcd_scheme \<Rightarrow> (nat \<times> 'a lcd_scheme) option" where
  "altera_avalon_lcd_16207_write ticks text s = do {
     let s = s\<lparr>active := True\<rparr>;
     s \<leftarrow> for_each lcd_put text s;
     let s = lcd_set_scroll s;
     s \<leftarrow> lcd_paint_loop ticks s;
     Some (length text, s) }"

text \<open>Start-up: the commands to the panel, then the driver's own state and its alarm.\<close>

definition lcd_init_hw :: "'a lcd_scheme \<Rightarrow> 'a lcd_scheme" where
  "lcd_init_hw s =
    (let s = s\<lparr>broken := False\<rparr>;
         s = usleep 15000 s;
         s = iowr (lcd_base s) 0 (ucast (LCD_CMD_FUNCTION_SET OR LCD_CMD_8BIT)) s;
         s = usleep 4100 s;
         s = iowr (lcd_base s) 0 (ucast (LCD_CMD_FUNCTION_SET OR LCD_CMD_8BIT)) s;
         s = usleep 1000 s;
         s = iowr (lcd_base s) 0 (ucast (LCD_CMD_FUNCTION_SET OR LCD_CMD_8BIT)) s;
         s = lcd_write_command (LCD_CMD_FUNCTION_SET OR LCD_CMD_8BIT OR LCD_CMD_TWO_LINE) s;
         s = lcd_write_command LCD_CMD_ONOFF s;
         s = lcd_clear_screen s;
         s = lcd_write_command (LCD_CMD_MODES OR LCD_CMD_MODE_INC) s
     in lcd_write_command (LCD_CMD_ONOFF OR LCD_CMD_ENABLE_DISP) s)"

definition altera_avalon_lcd_16207_init :: "'a lcd_scheme \<Rightarrow> 'a lcd_scheme" where
  "altera_avalon_lcd_16207_init s =
    (let s = lcd_init_hw s;
         s = s\<lparr>esccount := -1\<rparr>;
         s = s\<lparr>escape := replicate 8 0\<rparr>;
         s = s\<lparr>scrollpos := 0\<rparr>;
         s = s\<lparr>scrollmax := 0\<rparr>;
         s = s\<lparr>active := False\<rparr>;
         s = s\<lparr>period := alt_ticks_per_second s div 10\<rparr>;
         (_, s) = alt_alarm_start (Some (lcd_alarm s)) (period s) (Some Alt_lcd_16207_timeout) 0 s
     in s)"

declare lcd_paint_loop.simps [simp del]

subsection \<open>Loops over indices\<close>

lemma for_each_append:
  "for_each f (xs @ ys) s = do { s \<leftarrow> for_each f xs s; for_each f ys s }"
  by (induction xs arbitrary: s) (auto split: bind_splits)

lemma for_each_upt:
  assumes "I 0 s" "\<And>i s. i < n \<Longrightarrow> I i s \<Longrightarrow> \<exists>s'. f i s = Some s' \<and> I (Suc i) s'"
  shows "\<exists>s'. for_each f [0..<n] s = Some s' \<and> I n s'"
  using assms
proof (induction n)
  case (Suc n)
  then obtain t where "for_each f [0..<n] s = Some t" "I n t" by auto
  with Suc.prems(2) [of n t] show ?case by (auto simp: for_each_append)
qed simp

subsection \<open>The state of the driver\<close>

definition line_ok :: "lcd_line \<Rightarrow> bool" where
  "line_ok l \<longleftrightarrow> length (visible l) = 16 \<and> length (data l) = 81 \<and> data l ! 80 = 32"

definition lcd_ok :: "'a lcd_scheme \<Rightarrow> bool" where
  "lcd_ok s \<longleftrightarrow> length (lines s) = 2 \<and> (\<forall>l\<in>set (lines s). line_ok l) \<and> length (escape s) = 8
     \<and> - 1 \<le> esccount s \<and> esccount s \<le> 7 \<and> unat (cur_y s) \<le> 2"

lemma lcd_ok_line: "lcd_ok s \<Longrightarrow> y < 2 \<Longrightarrow> line_ok (lines s ! y)"
  by (simp add: lcd_ok_def)

lemma upd_line_sel [simp]:
  "lines (upd_line y f s) = (lines s)[y := f (lines s ! y)]"
  "trace (upd_line y f s) = trace s" "broken (upd_line y f s) = broken s"
  "address (upd_line y f s) = address s" "scrollpos (upd_line y f s) = scrollpos s"
  "cur_x (upd_line y f s) = cur_x s" "cur_y (upd_line y f s) = cur_y s"
  "esccount (upd_line y f s) = esccount s" "escape (upd_line y f s) = escape s"
  "lcd_base (upd_line y f s) = lcd_base s" "active (upd_line y f s) = active s"
  "scrollmax (upd_line y f s) = scrollmax s"
  by (simp_all add: upd_line_def)

lemma lcd_ok_upd_line:
  "lcd_ok s \<Longrightarrow> y < 2 \<Longrightarrow> line_ok (f (lines s ! y)) \<Longrightarrow> lcd_ok (upd_line y f s)"
  unfolding lcd_ok_def upd_line_def
  by (auto simp: all_set_conv_all_nth nth_list_update)

lemma patch_line:
  assumes "length d = 81" "d ! 80 = 32" "i + length xs \<le> 80"
  shows "length (patch d i xs) = 81" "patch d i xs ! 80 = 32"
  using assms by (simp_all add: nth_patch)

subsection \<open>The hardware seen from the writes\<close>

text \<open>What the panel's controller does with a write: it keeps 128 character cells and a cursor
  that a command places, clears, or a datum advances.\<close>

record panel =
  ddram :: "u8 \<Rightarrow> u8"
  cursor :: u8

definition panel_command :: "u8 \<Rightarrow> panel \<Rightarrow> panel" where
  "panel_command c p =
    (if c AND 0x80 \<noteq> 0 then p\<lparr>cursor := c AND 0x7F\<rparr>
     else if c = 1 then \<lparr>ddram = \<lambda>_. 32, cursor = 0\<rparr> else p)"

definition panel_data :: "u8 \<Rightarrow> panel \<Rightarrow> panel" where
  "panel_data c p = p\<lparr>ddram := (ddram p)(cursor p := c), cursor := cursor p + 1\<rparr>"

definition panel_step :: "u32 \<Rightarrow> ioev \<Rightarrow> panel \<Rightarrow> panel" where
  "panel_step base e p = (case e of
     Wr32 a v \<Rightarrow> if a = base then panel_command (ucast v) p
                 else if a = base + 8 then panel_data (ucast v) p else p
   | _ \<Rightarrow> p)"

definition panel_of :: "'a lcd_scheme \<Rightarrow> panel" where
  "panel_of s = foldr (panel_step (lcd_base s)) (trace s) \<lparr>ddram = \<lambda>_. 0, cursor = 0\<rparr>"

text \<open>The driver's picture of the panel is right, unless it has given the panel up.\<close>

definition in_sync :: "'a lcd_scheme \<Rightarrow> bool" where
  "in_sync s \<longleftrightarrow> broken s \<or> cursor (panel_of s) = address s
     \<and> (\<forall>y<2. \<forall>i<16. ddram (panel_of s) (colstart ! y + of_nat i) = visible (lines s ! y) ! i)"

lemma panel_quiet:
  "\<forall>e\<in>set es. \<not> is_wr e \<Longrightarrow> foldr (panel_step b) (es @ t) p = foldr (panel_step b) t p"
proof (induction es)
  case (Cons e es)
  then show ?case by (cases e) (auto simp: panel_step_def)
qed simp

lemma lcd_wait_effect:
  "lcd_wait i s = (r, s') \<Longrightarrow> \<exists>es b. (\<forall>e\<in>set es. \<not> is_wr e)
     \<and> s' = s\<lparr>trace := es @ trace s, broken := b\<rparr> \<and> (if r then b = broken s else b \<or> i = 0)"
proof (induction i arbitrary: s)
  case 0
  then show ?case by (auto intro!: exI [of _ "[]"] exI [of _ "broken s"])
next
  case (Suc i)
  obtain st t where rd: "iord (lcd_base s) 1 s = (st, t)" by fastforce
  then have t: "t = s\<lparr>trace := Rd32 (lcd_base s + 4) st # trace s\<rparr>"
    by (auto simp: iord_def rd32_def log_ev_def Let_def)
  show ?case
  proof (cases "st AND 0x80 \<noteq> 0 \<and> i \<noteq> 0")
    case True
    then have "lcd_wait i t = (r, s')" using Suc.prems rd by simp
    from Suc.IH [OF this] True obtain es b where
      "\<forall>e\<in>set es. \<not> is_wr e" "s' = t\<lparr>trace := es @ trace t, broken := b\<rparr>" "if r then b = broken t else b"
      by metis
    then have "(\<forall>e\<in>set (es @ [Rd32 (lcd_base s + 4) st]). \<not> is_wr e)
      \<and> s' = s\<lparr>trace := (es @ [Rd32 (lcd_base s + 4) st]) @ trace s, broken := b\<rparr>
      \<and> (if r then b = broken s else b \<or> Suc i = 0)"
      by (simp add: t)
    then show ?thesis by blast
  next
    case False
    then have "(r, s') = (if st AND 0x80 = 0 then (True, t) else (False, t\<lparr>broken := True\<rparr>))"
      using Suc.prems rd by (cases "st AND 0x80 = 0") simp_all
    then consider "r" "s' = t" | "\<not> r" "s' = t\<lparr>broken := True\<rparr>"
      by (metis prod.inject)
    then show ?thesis
    proof cases
      case 1
      then show ?thesis
        by (intro exI [of _ "[Rd32 (lcd_base s + 4) st]"] exI [of _ "broken s"]) (simp add: t)
    next
      case 2
      then show ?thesis
        by (intro exI [of _ "[Rd32 (lcd_base s + 4) st]"] exI [of _ True]) (simp add: t)
    qed
  qed
qed

lemma ucast_u8_u32 [simp]: "ucast (ucast c :: u32) = c" for c :: u8
  by (simp add: ucast_up_ucast_id is_up)

lemma lcd_polls_pos: "LCD_POLLS \<noteq> 0"
  by (simp add: LCD_POLLS_def)

lemma write_command_effect:
  "\<exists>t b. lcd_write_command c s = s\<lparr>trace := t, broken := b\<rparr> \<and> (broken s \<longrightarrow> b)
    \<and> (\<not> b \<longrightarrow> panel_of (lcd_write_command c s) = panel_command c (panel_of s))"
proof (cases "broken s")
  case True
  then show ?thesis
    by (intro exI [of _ "trace s"] exI [of _ True]) (simp add: lcd_write_command_def)
next
  case False
  obtain r u where w: "lcd_wait LCD_POLLS s = (r, u)" by fastforce
  obtain es b where q: "\<forall>e\<in>set es. \<not> is_wr e" "u = s\<lparr>trace := es @ trace s, broken := b\<rparr>"
    "if r then b = broken s else b"
    using lcd_wait_effect [OF w] lcd_polls_pos by metis
  show ?thesis
  proof (cases r)
    case True
    then show ?thesis using w q False panel_quiet [OF q(1)]
      by (intro exI [of _ "Wr32 (lcd_base s) (ucast c) # Delay 100 # es @ trace s"] exI [of _ False])
        (simp add: lcd_write_command_def iowr_def wr32_def usleep_def log_ev_def panel_of_def
          panel_step_def Let_def)
  next
    case r: False
    then show ?thesis using w q False
      by (intro exI [of _ "es @ trace s"] exI [of _ True]) (simp add: lcd_write_command_def Let_def)
  qed
qed

lemma write_data_effect:
  "\<exists>t b a. lcd_write_data c s = s\<lparr>trace := t, broken := b, address := a\<rparr> \<and> (broken s \<longrightarrow> b)
    \<and> (\<not> b \<longrightarrow> a = address s + 1 \<and> panel_of (lcd_write_data c s) = panel_data c (panel_of s))"
proof (cases "broken s")
  case True
  then show ?thesis
    by (intro exI [of _ "trace s"] exI [of _ True] exI [of _ "address s"]) (simp add: lcd_write_data_def)
next
  case False
  obtain r u where w: "lcd_wait LCD_POLLS s = (r, u)" by fastforce
  obtain es b where q: "\<forall>e\<in>set es. \<not> is_wr e" "u = s\<lparr>trace := es @ trace s, broken := b\<rparr>"
    "if r then b = broken s else b"
    using lcd_wait_effect [OF w] lcd_polls_pos by metis
  show ?thesis
  proof (cases r)
    case True
    then show ?thesis using w q False panel_quiet [OF q(1)]
      by (intro exI [of _ "Wr32 (lcd_base s + 8) (ucast c) # Delay 100 # es @ trace s"] exI [of _ False]
            exI [of _ "address s + 1"])
        (simp add: lcd_write_data_def iowr_def wr32_def usleep_def log_ev_def panel_of_def
          panel_step_def Let_def)
  next
    case r: False
    then show ?thesis using w q False
      by (intro exI [of _ "es @ trace s"] exI [of _ True] exI [of _ "address s"])
        (simp add: lcd_write_data_def Let_def)
  qed
qed
subsection \<open>Repainting\<close>

text \<open>The character of the virtual line that window cell \<open>i\<close> of line \<open>y\<close> should show.\<close>

definition view :: "'a lcd_scheme \<Rightarrow> nat \<Rightarrow> nat \<Rightarrow> u8" where
  "view s y i = (let l = lines s ! y in
     data l ! nat ((int i + line_offset (scrollpos s) l) mod sint (width l)))"

definition scroll_ok :: "'a lcd_scheme \<Rightarrow> bool" where
  "scroll_ok s \<longleftrightarrow> (\<forall>y<2. 16 \<le> sint (width (lines s ! y)) \<and> sint (width (lines s ! y)) \<le> 81)"

definition paints :: "'a lcd_scheme \<Rightarrow> 'a lcd_scheme \<Rightarrow> bool" where
  "paints s s' \<longleftrightarrow> (\<exists>t b a L. s' = s\<lparr>trace := t, broken := b, address := a, lines := L\<rparr>
     \<and> (broken s \<longrightarrow> b)
     \<and> map (\<lambda>l. (data l, width l, speed l, length (visible l))) L
         = map (\<lambda>l. (data l, width l, speed l, length (visible l))) (lines s))"

lemma paints_refl: "paints s s"
  unfolding paints_def
  by (intro exI [of _ "trace s"] exI [of _ "broken s"] exI [of _ "address s"] exI [of _ "lines s"]) simp

lemma paints_trans:
  assumes "paints s s1" "paints s1 s2"
  shows "paints s s2"
proof -
  obtain t b a L where 1: "s1 = s\<lparr>trace := t, broken := b, address := a, lines := L\<rparr>"
    "broken s \<longrightarrow> b" "map (\<lambda>l. (data l, width l, speed l, length (visible l))) L
         = map (\<lambda>l. (data l, width l, speed l, length (visible l))) (lines s)"
    using assms(1) unfolding paints_def by blast
  obtain t' b' a' L' where 2: "s2 = s1\<lparr>trace := t', broken := b', address := a', lines := L'\<rparr>"
    "broken s1 \<longrightarrow> b'" "map (\<lambda>l. (data l, width l, speed l, length (visible l))) L'
         = map (\<lambda>l. (data l, width l, speed l, length (visible l))) (lines s1)"
    using assms(2) unfolding paints_def by blast
  have "s2 = s\<lparr>trace := t', broken := b', address := a', lines := L'\<rparr>" unfolding 2(1) 1(1) by simp
  moreover have "broken s \<longrightarrow> b'" using 1(1,2) 2(2) by simp
  moreover have "map (\<lambda>l. (data l, width l, speed l, length (visible l))) L'
         = map (\<lambda>l. (data l, width l, speed l, length (visible l))) (lines s)"
    using 1(1,3) 2(3) by simp
  ultimately show ?thesis unfolding paints_def by blast
qed

lemma paints_line:
  assumes "paints s s'" "y < length (lines s)"
  shows "data (lines s' ! y) = data (lines s ! y)" "width (lines s' ! y) = width (lines s ! y)"
    "speed (lines s' ! y) = speed (lines s ! y)"
    "length (visible (lines s' ! y)) = length (visible (lines s ! y))"
proof -
  have m: "map (\<lambda>l. (data l, width l, speed l, length (visible l))) (lines s')
      = map (\<lambda>l. (data l, width l, speed l, length (visible l))) (lines s)"
    using assms(1) by (auto simp: paints_def)
  then have "length (lines s') = length (lines s)" by (rule map_eq_imp_length_eq)
  then show "data (lines s' ! y) = data (lines s ! y)" "width (lines s' ! y) = width (lines s ! y)"
    "speed (lines s' ! y) = speed (lines s ! y)"
    "length (visible (lines s' ! y)) = length (visible (lines s ! y))"
    using arg_cong [OF m, of "\<lambda>x. x ! y"] assms(2) by simp_all
qed

lemma paints_fields:
  assumes "paints s s'"
  shows "scrollpos s' = scrollpos s" "scrollmax s' = scrollmax s" "active s' = active s"
    "cur_x s' = cur_x s" "cur_y s' = cur_y s" "esccount s' = esccount s" "escape s' = escape s"
    "lcd_base s' = lcd_base s" "length (lines s') = length (lines s)" "broken s \<Longrightarrow> broken s'"
    "period s' = period s"
  using assms by (auto simp: paints_def dest: map_eq_imp_length_eq)

lemma paints_ok: "paints s s' \<Longrightarrow> lcd_ok s \<Longrightarrow> lcd_ok s'"
  using paints_fields [of s s'] paints_line [of s s']
  by (auto simp: lcd_ok_def line_ok_def all_set_conv_all_nth)

lemma paints_view:
  "paints s s' \<Longrightarrow> lcd_ok s \<Longrightarrow> y < 2 \<Longrightarrow> view s' y i = view s y i"
  "paints s s' \<Longrightarrow> lcd_ok s \<Longrightarrow> y < 2 \<Longrightarrow> width (lines s' ! y) = width (lines s ! y)"
  "paints s s' \<Longrightarrow> lcd_ok s \<Longrightarrow> y < 2 \<Longrightarrow>
     line_offset (scrollpos s') (lines s' ! y) = line_offset (scrollpos s) (lines s ! y)"
  "paints s s' \<Longrightarrow> lcd_ok s \<Longrightarrow> scroll_ok s \<Longrightarrow> scroll_ok s'"
  using paints_fields [of s s'] paints_line [of s s']
  by (auto simp: lcd_ok_def view_def line_offset_def scroll_ok_def Let_def)

lemma cell_address:
  assumes "y < 2" "i < 16"
  shows "(0x80 OR (of_nat i + colstart ! y)) AND 0x80 \<noteq> 0"
    "(0x80 OR (of_nat i + colstart ! y)) AND 0x7F = of_nat i + colstart ! y"
    "uint (of_nat i + colstart ! y) = sint (of_nat i + colstart ! y)"
proof -
  have "\<forall>y\<in>set [0..<2]. \<forall>i\<in>set [0..<16]. let a = of_nat i + colstart ! y in
      (0x80 OR a) AND 0x80 \<noteq> 0 \<and> (0x80 OR a) AND 0x7F = a \<and> uint a = sint a"
    by code_simp
  then show "(0x80 OR (of_nat i + colstart ! y)) AND 0x80 \<noteq> 0"
    "(0x80 OR (of_nat i + colstart ! y)) AND 0x7F = of_nat i + colstart ! y"
    "uint (of_nat i + colstart ! y) = sint (of_nat i + colstart ! y)"
    using assms by (simp_all add: Let_def)
qed

lemma cell_inj:
  assumes "y < 2" "i < 16" "z < 2" "j < 16"
  shows "of_nat i + colstart ! y = of_nat j + colstart ! z \<longleftrightarrow> y = z \<and> i = j"
proof -
  have "\<forall>y\<in>set [0..<2]. \<forall>i\<in>set [0..<16]. \<forall>z\<in>set [0..<2]. \<forall>j\<in>set [0..<16].
      of_nat i + colstart ! y = of_nat j + colstart ! z \<longleftrightarrow> y = z \<and> i = j"
    by code_simp
  then show ?thesis using assms by simp
qed

lemma sint_eqD: "sint x = sint y \<Longrightarrow> x = y" for x y :: u8
  by (rule signed_word_eqI [where 'a = int]) simp

text \<open>Placing the cursor, when it is not there.\<close>

lemma place_cursor:
  assumes "in_sync s" "y < 2" "i < 16" "a = of_nat i + colstart ! y"
    and "t = (if uint a \<noteq> sint (address s)
              then (lcd_write_command (LCD_CMD_WRITE_DATA OR a) s)\<lparr>address := a\<rparr> else s)"
  shows "\<exists>tr b. t = s\<lparr>trace := tr, broken := b, address := a\<rparr> \<and> (broken s \<longrightarrow> b)
    \<and> (\<not> b \<longrightarrow> panel_of t = (panel_of s)\<lparr>cursor := a\<rparr>)"
proof (cases "uint a = sint (address s)")
  case True
  then have "address s = a"
    using cell_address(3) [OF assms(2,3)] assms(4) sint_eqD [of "address s" a] by simp
  then show ?thesis using True assms(1,5)
    by (intro exI [of _ "trace s"] exI [of _ "broken s"]) (auto simp: in_sync_def)
next
  case False
  let ?c = "LCD_CMD_WRITE_DATA OR a"
  obtain tr b where w: "lcd_write_command ?c s = s\<lparr>trace := tr, broken := b\<rparr>" "broken s \<longrightarrow> b"
    "\<not> b \<longrightarrow> panel_of (lcd_write_command ?c s) = panel_command ?c (panel_of s)"
    using write_command_effect by blast
  have "panel_command ?c (panel_of s) = (panel_of s)\<lparr>cursor := a\<rparr>"
    using cell_address(1,2) [OF assms(2,3)] assms(4) by (simp add: panel_command_def)
  then show ?thesis using w False assms(5)
    by (intro exI [of _ tr] exI [of _ b]) (auto simp: panel_of_def)
qed

lemma repaint_cell_effect:
  assumes ok: "lcd_ok s" "scroll_ok s" "in_sync s" and yi: "y < 2" "i < 16"
  shows "\<exists>s'. repaint_cell y (sint (width (lines s ! y))) (line_offset (scrollpos s) (lines s ! y)) i s
      = Some s' \<and> paints s s' \<and> in_sync s'
    \<and> (\<forall>z<2. \<forall>j<16. visible (lines s' ! z) ! j
         = (if z = y \<and> j = i then view s y i else visible (lines s ! z) ! j))"
proof -
  let ?l = "lines s ! y"
  define w where "w = sint (width ?l)"
  define off where "off = line_offset (scrollpos s) ?l"
  define c where "c = view s y i"
  define a where "a = of_nat i + colstart ! y"
  define t where "t = (if uint a \<noteq> sint (address s)
              then (lcd_write_command (LCD_CMD_WRITE_DATA OR a) s)\<lparr>address := a\<rparr> else s)"
  define u where "u = lcd_write_data c t"
  define s' where "s' = upd_line y (\<lambda>l. l\<lparr>visible := (visible l)[i := c]\<rparr>) u"
  have w: "16 \<le> w" "w \<le> 81" using ok(2) yi by (auto simp: scroll_ok_def w_def)
  have j: "(int i + off) mod w < w" using w by (intro pos_mod_bound) simp
  then have "nat ((int i + off) mod w) < 81" using w by linarith
  moreover have c: "data ?l ! nat ((int i + off) mod w) = c"
    by (simp add: c_def view_def Let_def w_def off_def)
  ultimately have r: "repaint_cell y w off i s = (if visible ?l ! i \<noteq> c then Some s' else Some s)"
    using w by (simp add: repaint_cell_def Let_def a_def t_def u_def s'_def c)
  have len: "length (lines s) = 2" "\<forall>l\<in>set (lines s). length (visible l) = 16"
    using ok(1) by (auto simp: lcd_ok_def line_ok_def)
  show ?thesis
  proof (cases "visible ?l ! i = c")
    case True
    then show ?thesis
      using r ok(3) paints_refl [of s] by (intro exI [of _ s]) (auto simp: w_def off_def c_def)
  next
    case False
    obtain tr b where t: "t = s\<lparr>trace := tr, broken := b, address := a\<rparr>" "broken s \<longrightarrow> b"
      "\<not> b \<longrightarrow> panel_of t = (panel_of s)\<lparr>cursor := a\<rparr>"
      using place_cursor [OF ok(3) yi a_def t_def] by blast
    obtain tr' b' a' where u: "u = t\<lparr>trace := tr', broken := b', address := a'\<rparr>" "broken t \<longrightarrow> b'"
      "\<not> b' \<longrightarrow> a' = address t + 1 \<and> panel_of u = panel_data c (panel_of t)"
      using write_data_effect [of c t] unfolding u_def by blast
    have s': "s' = s\<lparr>trace := tr', broken := b', address := a',
        lines := (lines s)[y := ?l\<lparr>visible := (visible ?l)[i := c]\<rparr>]\<rparr>"
      by (simp add: s'_def upd_line_def u t)
    have bb: "broken s \<longrightarrow> b'" using t u by auto
    have "paints s s'" unfolding paints_def
      by (rule exI [of _ tr'], rule exI [of _ b'], rule exI [of _ a'],
          rule exI [of _ "(lines s)[y := ?l\<lparr>visible := (visible ?l)[i := c]\<rparr>]"])
        (use s' bb len yi in \<open>auto intro!: nth_equalityI simp: nth_list_update\<close>)
    moreover have vis: "\<forall>z<2. \<forall>j<16. visible (lines s' ! z) ! j
         = (if z = y \<and> j = i then c else visible (lines s ! z) ! j)"
      using yi len by (auto simp: s' nth_list_update)
    moreover have "in_sync s'"
    proof (cases b')
      case True
      then show ?thesis by (simp add: in_sync_def s')
    next
      case False
      then have nb: "\<not> b" "\<not> broken s" using t u by auto
      have p: "panel_of s' = panel_data c ((panel_of s)\<lparr>cursor := a\<rparr>)" "a' = a + 1"
        using False u t nb by (simp_all add: panel_of_def s')
      show ?thesis unfolding in_sync_def
        using p ok(3) nb vis cell_inj [OF _ _ yi] s'
        by (auto simp: panel_data_def in_sync_def a_def add.commute)
    qed
    ultimately show ?thesis using r False by (auto simp: w_def off_def c_def)
  qed
qed
definition painted :: "'a lcd_scheme \<Rightarrow> nat \<Rightarrow> nat \<Rightarrow> bool" where
  "painted s y n \<longleftrightarrow> (\<forall>i<n. visible (lines s ! y) ! i = view s y i)"

lemma repaint_line_effect:
  assumes "lcd_ok s" "scroll_ok s" "in_sync s" "y < 2"
  shows "\<exists>s'. repaint_line y s = Some s' \<and> paints s s' \<and> in_sync s' \<and> painted s' y 16
    \<and> (\<forall>z<2. z \<noteq> y \<longrightarrow> (\<forall>i<16. visible (lines s' ! z) ! i = visible (lines s ! z) ! i))"
proof -
  let ?I = "\<lambda>n t. paints s t \<and> in_sync t \<and> painted t y n
    \<and> (\<forall>z<2. z \<noteq> y \<longrightarrow> (\<forall>i<16. visible (lines t ! z) ! i = visible (lines s ! z) ! i))"
  have "\<exists>s'. repaint_line y s = Some s' \<and> ?I 16 s'"
    unfolding repaint_line_def Let_def
  proof (rule for_each_upt [where I = ?I])
    show "?I 0 s" using paints_refl assms(3) by (auto simp: painted_def)
  next
    fix i t assume i: "i < (16::nat)" and I: "?I i t"
    then have ok: "lcd_ok t" "scroll_ok t" "in_sync t"
      using paints_ok paints_view(4) assms by blast+
    obtain t' where t': "repaint_cell y (sint (width (lines t ! y)))
        (line_offset (scrollpos t) (lines t ! y)) i t = Some t'" "paints t t'" "in_sync t'"
      "\<forall>z<2. \<forall>j<16. visible (lines t' ! z) ! j
         = (if z = y \<and> j = i then view t y i else visible (lines t ! z) ! j)"
      using repaint_cell_effect [OF ok assms(4) i] by blast
    have "painted t' y (Suc i)"
      using t'(4) I i assms(4) paints_view(1) [OF t'(2) ok(1) assms(4)]
      by (auto simp: painted_def less_Suc_eq)
    moreover have "repaint_cell y (sint (width (lines s ! y)))
        (line_offset (scrollpos s) (lines s ! y)) i t = Some t'"
      using t'(1) I paints_view(2,3) [of s t y] assms(1,4) by simp
    moreover have "paints s t'" using I t'(2) paints_trans by blast
    ultimately show "\<exists>s'. repaint_cell y (sint (width (lines s ! y)))
        (line_offset (scrollpos s) (lines s ! y)) i t = Some s' \<and> ?I (Suc i) s'"
      using t'(3,4) I by (intro exI [of _ t']) auto
  qed
  then show ?thesis by blast
qed

lemma repaint_screen_effect:
  assumes "lcd_ok s" "scroll_ok s" "in_sync s"
  shows "\<exists>s'. lcd_repaint_screen s = Some s' \<and> paints s s' \<and> in_sync s' \<and> (\<forall>y<2. painted s' y 16)"
proof -
  obtain t where t: "repaint_line 0 s = Some t" "paints s t" "in_sync t" "painted t 0 16"
    using repaint_line_effect [OF assms, of 0] by auto
  then have ok: "lcd_ok t" "scroll_ok t" using paints_ok paints_view(4) assms by blast+
  obtain u where u: "repaint_line 1 t = Some u" "paints t u" "in_sync u" "painted u 1 16"
    "\<forall>i<16. visible (lines u ! 0) ! i = visible (lines t ! 0) ! i"
    using repaint_line_effect [OF ok t(3), of 1] by auto
  have "painted u 0 16" using u(5) t(4) paints_view(1) [OF u(2) ok(1)] by (simp add: painted_def)
  then have "\<forall>y<2. painted u y 16" using u(4) by (simp add: All_less_Suc numeral_2_eq_2)
  then show ?thesis
    using t u paints_trans by (auto simp: lcd_repaint_screen_def upt_rec numeral_2_eq_2)
qed

lemma lcd_ticks_active:
  "active s \<Longrightarrow> \<exists>p. lcd_ticks n s = Some (s\<lparr>scrollpos := p\<rparr>)"
proof (induction n arbitrary: s)
  case 0
  then show ?case by (auto intro: exI [of _ "scrollpos s"])
next
  case (Suc n)
  obtain p where "alt_lcd_16207_timeout s = Some (period s, s\<lparr>scrollpos := p\<rparr>)"
    using Suc.prems by (cases "unat (scrollpos s) + 1 \<ge> unat (scrollmax s)")
      (auto simp: alt_lcd_16207_timeout_def Let_def)
  then show ?case using Suc.IH [of "s\<lparr>scrollpos := p\<rparr>"] Suc.prems by auto
qed

lemma scrollpos_frame:
  "lcd_ok (s\<lparr>scrollpos := p\<rparr>) = lcd_ok s" "scroll_ok (s\<lparr>scrollpos := p\<rparr>) = scroll_ok s"
  "in_sync (s\<lparr>scrollpos := p\<rparr>) = in_sync s"
  "lcd_ok (s\<lparr>active := b\<rparr>) = lcd_ok s" "scroll_ok (s\<lparr>active := b\<rparr>) = scroll_ok s"
  "in_sync (s\<lparr>active := b\<rparr>) = in_sync s" "painted (s\<lparr>active := b\<rparr>) y n = painted s y n"
  "panel_of (s\<lparr>scrollpos := p\<rparr>) = panel_of s" "panel_of (s\<lparr>active := b\<rparr>) = panel_of s"
  by (simp_all add: lcd_ok_def scroll_ok_def in_sync_def panel_of_def painted_def view_def Let_def)

lemma paint_loop_effect:
  assumes "lcd_ok s" "scroll_ok s" "in_sync s" "active s"
  shows "\<exists>s' p t. lcd_paint_loop ticks s = Some s' \<and> paints s t \<and> s' = t\<lparr>scrollpos := p, active := False\<rparr>
    \<and> in_sync s' \<and> (\<forall>y<2. painted s' y 16)"
  using assms
proof (induction ticks arbitrary: s)
  case Nil
  obtain t where t: "lcd_repaint_screen s = Some t" "paints s t" "in_sync t" "\<forall>y<2. painted t y 16"
    using repaint_screen_effect Nil by blast
  have "lcd_paint_loop [] s = Some (t\<lparr>active := False\<rparr>)"
    using t paints_fields [OF t(2)] by (simp add: lcd_paint_loop.simps Let_def)
  then show ?case using t
    by (intro exI [of _ "t\<lparr>active := False\<rparr>"] exI [of _ "scrollpos t"] exI [of _ t])
      (simp add: scrollpos_frame)
next
  case (Cons n ticks)
  obtain t where t: "lcd_repaint_screen s = Some t" "paints s t" "in_sync t" "\<forall>y<2. painted t y 16"
    using repaint_screen_effect Cons.prems by blast
  have a: "active t" using paints_fields [OF t(2)] Cons.prems by simp
  obtain p where p: "lcd_ticks n t = Some (t\<lparr>scrollpos := p\<rparr>)" using lcd_ticks_active [OF a] by blast
  show ?case
  proof (cases "p = scrollpos s")
    case True
    then have e: "t\<lparr>scrollpos := p\<rparr> = t" using paints_fields [OF t(2)] by simp
    have "lcd_paint_loop (n # ticks) s = Some (t\<lparr>active := False\<rparr>)"
      using t p True paints_fields [OF t(2)] by (simp add: lcd_paint_loop.simps Let_def e)
    then show ?thesis using t
      by (intro exI [of _ "t\<lparr>active := False\<rparr>"] exI [of _ "scrollpos t"] exI [of _ t])
        (simp add: scrollpos_frame)
  next
    case False
    let ?u = "t\<lparr>scrollpos := p\<rparr>"
    have e: "t\<lparr>scrollpos := p, active := True\<rparr> = t\<lparr>scrollpos := p\<rparr>"
      by (rule lcd.equality) (simp_all add: a)
    have r: "lcd_paint_loop (n # ticks) s = lcd_paint_loop ticks ?u"
      using t p False by (simp add: lcd_paint_loop.simps [of "n # ticks" s] Let_def e)
    have "lcd_ok ?u" "scroll_ok ?u" "in_sync ?u" "active ?u"
      using t a paints_ok paints_view(4) Cons.prems by (auto simp: scrollpos_frame)
    then obtain s' q v where v: "lcd_paint_loop ticks ?u = Some s'" "paints ?u v"
      "s' = v\<lparr>scrollpos := q, active := False\<rparr>" "in_sync s'" "\<forall>y<2. painted s' y 16"
      using Cons.IH by blast
    then obtain tr b ad L where "v = ?u\<lparr>trace := tr, broken := b, address := ad, lines := L\<rparr>"
      "broken ?u \<longrightarrow> b" "map (\<lambda>l. (data l, width l, speed l, length (visible l))) L
         = map (\<lambda>l. (data l, width l, speed l, length (visible l))) (lines t)"
      unfolding paints_def by auto
    then have "paints t (v\<lparr>scrollpos := scrollpos t\<rparr>)" unfolding paints_def
      by (intro exI [of _ tr] exI [of _ b] exI [of _ ad] exI [of _ L]) simp
    then have "paints s (v\<lparr>scrollpos := scrollpos t\<rparr>)" using t(2) paints_trans by blast
    then show ?thesis using r v
      by (intro exI [of _ s'] exI [of _ q] exI [of _ "v\<lparr>scrollpos := scrollpos t\<rparr>"]) simp
  qed
qed
subsection \<open>Characters\<close>

text \<open>The driver's memory is well formed, whatever line the cursor is on.\<close>

definition mem_ok :: "'a lcd_scheme \<Rightarrow> bool" where
  "mem_ok s \<longleftrightarrow> length (lines s) = 2 \<and> (\<forall>l\<in>set (lines s). line_ok l) \<and> length (escape s) = 8
     \<and> - 1 \<le> esccount s \<and> esccount s \<le> 7"

lemma lcd_ok_mem: "lcd_ok s \<longleftrightarrow> mem_ok s \<and> unat (cur_y s) \<le> 2"
  by (auto simp: lcd_ok_def mem_ok_def)

text \<open>A step that keeps the memory well formed and the panel in sync.\<close>

definition keeps :: "'a lcd_scheme \<Rightarrow> 'a lcd_scheme \<Rightarrow> bool" where
  "keeps s s' \<longleftrightarrow> mem_ok s' \<and> (in_sync s \<longrightarrow> in_sync s') \<and> active s' = active s
     \<and> escape s' = escape s \<and> esccount s' = esccount s"

lemma keeps_refl: "mem_ok s \<Longrightarrow> keeps s s"
  by (simp add: keeps_def)

lemma keeps_trans: "keeps s t \<Longrightarrow> keeps t u \<Longrightarrow> keeps s u"
  by (auto simp: keeps_def)

lemma in_sync_text:
  assumes "trace s' = trace s" "broken s' = broken s" "address s' = address s" "lcd_base s' = lcd_base s"
    and "\<forall>y<2. visible (lines s' ! y) = visible (lines s ! y)"
  shows "in_sync s' = in_sync s"
  using assms by (simp add: in_sync_def panel_of_def)

lemma keeps_cursor:
  "mem_ok s \<Longrightarrow> keeps s (s\<lparr>cur_x := a\<rparr>)" "mem_ok s \<Longrightarrow> keeps s (s\<lparr>cur_y := b\<rparr>)"
  using in_sync_text [of "s\<lparr>cur_x := a\<rparr>" s] in_sync_text [of "s\<lparr>cur_y := b\<rparr>" s]
  by (auto simp: keeps_def mem_ok_def)

lemma keeps_text:
  assumes "mem_ok s" "y < 2" "length (f (data (lines s ! y))) = 81" "f (data (lines s ! y)) ! 80 = 32"
  shows "keeps s (upd_line y (\<lambda>l. l\<lparr>data := f (data l)\<rparr>) s)"
proof -
  have "lines s ! y \<in> set (lines s)" using assms(1,2) by (simp add: mem_ok_def)
  then have "length (visible (lines s ! y)) = 16" using assms(1) by (auto simp: mem_ok_def line_ok_def)
  then show ?thesis
    using assms in_sync_text [of "upd_line y (\<lambda>l. l\<lparr>data := f (data l)\<rparr>) s" s]
    by (auto simp: keeps_def mem_ok_def line_ok_def all_set_conv_all_nth nth_list_update)
qed

lemma mem_line: "mem_ok s \<Longrightarrow> y < 2 \<Longrightarrow> length (data (lines s ! y)) = 81 \<and> data (lines s ! y) ! 80 = 32"
  unfolding mem_ok_def line_ok_def by (metis nth_mem)

lemma scroll_up_keeps: "mem_ok s \<Longrightarrow> keeps s (lcd_scroll_up s)"
proof -
  assume m: "mem_ok s"
  let ?t = "upd_line 0 (\<lambda>l. l\<lparr>data := patch (data l) 0 (take 80 (data (lines s ! 1)))\<rparr>) s"
  let ?u = "upd_line 1 (\<lambda>l. l\<lparr>data := patch (data l) 0 (replicate 80 32)\<rparr>) ?t"
  have "keeps s ?t"
    by (rule keeps_text [OF m]) (use mem_line [OF m] in \<open>auto intro: patch_line\<close>)
  moreover from this have t: "mem_ok ?t" by (simp add: keeps_def)
  moreover have "keeps ?t ?u"
    by (rule keeps_text [OF t]) (use mem_line [OF t, of 1] in \<open>auto intro: patch_line\<close>)
  moreover from this have "mem_ok ?u" by (simp add: keeps_def)
  ultimately have "keeps s (?u\<lparr>cur_y := cur_y ?u - 1\<rparr>)"
    using keeps_trans keeps_cursor(2) by blast
  then show ?thesis by (simp add: lcd_scroll_up_def Let_def)
qed

lemma scroll_up_y: "cur_y (lcd_scroll_up s) = cur_y s - 1" "cur_x (lcd_scroll_up s) = cur_x s"
  by (simp_all add: lcd_scroll_up_def Let_def)

lemma scroll_to_keeps: "mem_ok s \<Longrightarrow> keeps s (scroll_to s) \<and> unat (cur_y (scroll_to s)) \<le> 2"
proof (induction s rule: scroll_to.induct)
  case (1 s)
  show ?case
  proof (cases "cur_y s > 2")
    case True
    have k: "keeps s (lcd_scroll_up s)" using scroll_up_keeps 1 by blast
    then have "mem_ok (lcd_scroll_up s)" by (simp add: keeps_def)
    then show ?thesis using 1 True k keeps_trans scroll_to.simps [of s] by (metis (full_types))
  next
    case False
    then show ?thesis using 1 keeps_refl
      by (auto simp: scroll_to.simps [of s] word_less_nat_alt not_less)
  qed
qed

lemma move_to_keeps:
  assumes "lcd_ok s"
  shows "keeps s (lcd_move_to p q s) \<and> unat (cur_y (lcd_move_to p q s)) \<le> 2"
proof -
  define t where "t = (if q > 0 then s\<lparr>cur_x := word_of_int (q - 1)\<rparr> else s)"
  define u where "u = t\<lparr>cur_y := word_of_int (p - 1)\<rparr>"
  define v where "v = (if cur_y u > 4 then u\<lparr>cur_y := 4\<rparr> else u)"
  have t: "keeps s t" "cur_y t = cur_y s"
    using assms keeps_cursor(1) keeps_refl by (auto simp: lcd_ok_mem t_def)
  have "keeps t u" unfolding u_def using t(1) by (intro keeps_cursor(2)) (simp add: keeps_def)
  then have u: "keeps s u" using t(1) keeps_trans by blast
  then have "mem_ok u" by (simp add: keeps_def)
  then have "keeps u v" using keeps_cursor(2) [of u 4] keeps_refl [of u] by (simp add: v_def)
  then have v: "keeps s v" using u keeps_trans by blast
  have r: "lcd_move_to p q s = (if p > 0 then scroll_to v else t)"
    by (simp only: lcd_move_to_def Let_def t_def [symmetric] u_def [symmetric] v_def [symmetric])
  show ?thesis
  proof (cases "p > 0")
    case True
    have "mem_ok v" using v by (simp add: keeps_def)
    then show ?thesis using scroll_to_keeps [of v] v keeps_trans True by (auto simp: r)
  next
    case False
    then show ?thesis using r t assms by (simp add: lcd_ok_mem)
  qed
qed
lemma clear_screen_keeps:
  assumes "lcd_ok s"
  shows "keeps s (lcd_clear_screen s) \<and> cur_y (lcd_clear_screen s) = 0"
proof -
  obtain t b where w: "lcd_write_command LCD_CMD_CLEAR s = s\<lparr>trace := t, broken := b\<rparr>" "broken s \<longrightarrow> b"
    "\<not> b \<longrightarrow> panel_of (s\<lparr>trace := t, broken := b\<rparr>) = panel_command LCD_CMD_CLEAR (panel_of s)"
    using write_command_effect by metis
  obtain l0 l1 where l: "lines s = [l0, l1]"
    using assms by (auto simp: lcd_ok_def numeral_2_eq_2 length_Suc_conv)
  let ?blank = "\<lambda>l. l\<lparr>data := replicate 81 32, visible := replicate 16 32, width := 0\<rparr>"
  have r: "lcd_clear_screen s = s\<lparr>trace := t, broken := b, cur_x := 0, cur_y := 0, address := 0,
      lines := [?blank l0, ?blank l1]\<rparr>"
    by (simp add: lcd_clear_screen_def clear_line_def upd_line_def Let_def w l)
  have "in_sync s \<longrightarrow> in_sync (lcd_clear_screen s)"
    using w(3) by (auto simp: in_sync_def r panel_of_def panel_command_def less_Suc_eq numeral_2_eq_2)
  then show ?thesis using assms by (simp add: keeps_def mem_ok_def lcd_ok_def r line_ok_def)
qed

lemma clear_to_end_keeps:
  assumes "lcd_ok s"
  shows "lcd_clear_to_end s = None \<Longrightarrow> unat (cur_y s) = 2"
    and "lcd_clear_to_end s = Some s' \<Longrightarrow> keeps s s' \<and> cur_y s' = cur_y s"
proof -
  show "lcd_clear_to_end s = None \<Longrightarrow> unat (cur_y s) = 2"
    using assms by (auto simp: lcd_clear_to_end_def lcd_ok_def split: if_splits)
  assume r: "lcd_clear_to_end s = Some s'"
  have m: "mem_ok s" using assms by (simp add: lcd_ok_mem)
  show "keeps s s' \<and> cur_y s' = cur_y s"
  proof (cases "unat (cur_x s) < 80")
    case True
    then have y: "unat (cur_y s) < 2" using r by (auto simp: lcd_clear_to_end_def split: if_splits)
    have "keeps s (upd_line (unat (cur_y s))
        (\<lambda>l. l\<lparr>data := patch (data l) (unat (cur_x s)) (replicate (80 - unat (cur_x s)) 32)\<rparr>) s)"
      by (rule keeps_text [OF m y]) (use True mem_line [OF m y] in \<open>auto intro: patch_line\<close>)
    then show ?thesis using True r y by (auto simp: lcd_clear_to_end_def)
  next
    case False
    then show ?thesis using r keeps_refl [OF m] by (auto simp: lcd_clear_to_end_def)
  qed
qed

lemma parse_num_stops: "0 \<in> set cs \<Longrightarrow> \<exists>v rest. parse_num n cs = Some (v, rest) \<and> 0 \<in> set rest"
proof (induction n cs rule: parse_num.induct)
  case (2 n c cs)
  moreover have "\<not> isdigit 0" by (simp add: isdigit_def)
  ultimately show ?case by (cases "isdigit c") auto
qed simp

lemma escape_params_ok:
  assumes "e ! 0 = 91 \<longrightarrow> 0 \<in> set (drop 1 e)"
  shows "\<exists>p q. escape_params e = Some (p, q)"
proof (cases "e ! 0 = 91")
  case True
  then obtain v rest where v: "parse_num 0 (drop 1 e) = Some (v, rest)" "0 \<in> set rest"
    using parse_num_stops assms by blast
  show ?thesis
  proof (cases "hd rest = 59")
    case h: True
    then have "0 \<in> set (tl rest)" using v(2) by (cases rest) auto
    then show ?thesis using parse_num_stops [of "tl rest" 0] True v h by (auto simp: escape_params_def)
  qed (use True v in \<open>auto simp: escape_params_def\<close>)
qed (simp add: escape_params_def)

lemma handle_escape_keeps:
  assumes "lcd_ok s" "escape s ! 0 = 91 \<longrightarrow> 0 \<in> set (drop 1 (escape s))"
  shows "lcd_handle_escape c s = None \<Longrightarrow> c = 75 \<and> unat (cur_y s) = 2"
    and "lcd_handle_escape c s = Some s' \<Longrightarrow> keeps s s' \<and> unat (cur_y s') \<le> 2"
proof -
  obtain p q where e: "escape_params (escape s) = Some (p, q)" using escape_params_ok assms(2) by blast
  have m: "mem_ok s" "unat (cur_y s) \<le> 2" using assms(1) by (simp_all add: lcd_ok_mem)
  show "lcd_handle_escape c s = None \<Longrightarrow> c = 75 \<and> unat (cur_y s) = 2"
    using e clear_to_end_keeps(1) [OF assms(1)] by (auto simp: lcd_handle_escape_def split: if_splits)
  show "lcd_handle_escape c s = Some s' \<Longrightarrow> keeps s s' \<and> unat (cur_y s') \<le> 2"
    using e m move_to_keeps [OF assms(1), of p q] clear_screen_keeps [OF assms(1)] keeps_refl [OF m(1)]
      clear_to_end_keeps(2) [OF assms(1), of s']
    by (auto simp: lcd_handle_escape_def split: if_splits)
qed

definition put_ok :: "'a lcd_scheme \<Rightarrow> 'a lcd_scheme \<Rightarrow> bool" where
  "put_ok s s' \<longleftrightarrow> lcd_ok s' \<and> (in_sync s \<longrightarrow> in_sync s') \<and> active s' = active s"

lemma keeps_put: "keeps s s' \<Longrightarrow> unat (cur_y s') \<le> 2 \<Longrightarrow> put_ok s s'"
  by (simp add: keeps_def put_ok_def lcd_ok_mem)

lemma escape_frame:
  "in_sync (s\<lparr>esccount := n\<rparr>) = in_sync s" "in_sync (s\<lparr>escape := e\<rparr>) = in_sync s"
  "in_sync (s\<lparr>esccount := n, escape := e\<rparr>) = in_sync s"
  by (simp_all add: in_sync_def panel_of_def)

lemma put_escape_ok:
  assumes "lcd_ok s" "0 \<le> esccount s"
  shows "lcd_put_escape c s = None \<Longrightarrow> c = 75 \<and> unat (cur_y s) = 2"
    and "lcd_put_escape c s = Some s' \<Longrightarrow> put_ok s s'"
proof -
  have n: "nat (esccount s) \<le> 7" "length (escape s) = 8" using assms by (auto simp: lcd_ok_def)
  let ?n = "nat (esccount s)"
  let ?fin = "(esccount s = 0 \<and> c \<noteq> 91) \<or> (esccount s > 0 \<and> \<not> isdigit c \<and> c \<noteq> 59)"
  let ?t = "s\<lparr>escape := patch (escape s) ?n [0]\<rparr>"
  have p: "mem_put (escape s) ?n [x] = Some (patch (escape s) ?n [x])" for x
    using n by (simp add: mem_put_Some)
  have t: "lcd_ok ?t" using assms n by (simp add: lcd_ok_def)
  have z: "escape ?t ! 0 = 91 \<longrightarrow> 0 \<in> set (drop 1 (escape ?t))"
  proof (cases "?n = 0")
    case True
    then show ?thesis using n by (simp add: nth_patch)
  next
    case False
    then have "drop 1 (escape ?t) ! (?n - 1) = 0" "?n - 1 < length (drop 1 (escape ?t))"
      using n by (simp_all add: nth_patch)
    then show ?thesis by (metis nth_mem)
  qed
  show "lcd_put_escape c s = None \<Longrightarrow> c = 75 \<and> unat (cur_y s) = 2"
    using handle_escape_keeps(1) [OF t z, of c] p [of 0] p [of c]
    by (auto simp: lcd_put_escape_def Let_def bind_eq_None_conv split: if_splits)
  assume r: "lcd_put_escape c s = Some s'"
  show "put_ok s s'"
  proof (cases ?fin)
    case True
    then obtain u where u: "lcd_handle_escape c ?t = Some u" "s' = u\<lparr>esccount := -1\<rparr>"
      using r p [of 0] by (auto simp: lcd_put_escape_def Let_def bind_eq_Some_conv)
    then show ?thesis using handle_escape_keeps(2) [OF t z u(1)]
      by (auto simp: put_ok_def keeps_def lcd_ok_def mem_ok_def escape_frame)
  next
    case False
    then show ?thesis using r p [of c] assms n
      by (auto simp: lcd_put_escape_def Let_def put_ok_def lcd_ok_def escape_frame split: if_splits)
  qed
qed
lemma put_printable_ok:
  assumes "lcd_ok s"
  shows "\<exists>s'. lcd_put_printable c s = Some s' \<and> put_ok s s'"
proof -
  define t where "t = (if unat (cur_y s) \<ge> 2 then lcd_scroll_up s else s)"
  have m: "mem_ok s" "unat (cur_y s) \<le> 2" using assms by (simp_all add: lcd_ok_mem)
  have t: "keeps s t" using scroll_up_keeps [OF m(1)] keeps_refl [OF m(1)] by (simp add: t_def)
  have y: "unat (cur_y t) < 2"
  proof (cases "unat (cur_y s) = 2")
    case True
    then have "cur_y s = 2" by (simp add: word_unat_eq_iff)
    then show ?thesis by (simp add: t_def scroll_up_y)
  qed (use m(2) in \<open>auto simp: t_def\<close>)
  have mt: "mem_ok t" using t by (simp add: keeps_def)
  define u where "u = (if unat (cur_x t) < 80
    then upd_line (unat (cur_y t)) (\<lambda>l. l\<lparr>data := (data l)[unat (cur_x t) := c]\<rparr>) t else t)"
  have "keeps t (upd_line (unat (cur_y t)) (\<lambda>l. l\<lparr>data := (data l)[unat (cur_x t) := c]\<rparr>) t)"
    if "unat (cur_x t) < 80"
    by (rule keeps_text [OF mt y]) (use that mem_line [OF mt y] in auto)
  then have u: "keeps t u" "cur_y u = cur_y t" using keeps_refl [OF mt] by (auto simp: u_def)
  have "mem_ok u" using u by (simp add: keeps_def)
  from keeps_cursor(1) [OF this, of "cur_x u + 1"]
  have "keeps s (u\<lparr>cur_x := cur_x u + 1\<rparr>)" using t u keeps_trans by blast
  then have "put_ok s (u\<lparr>cur_x := cur_x u + 1\<rparr>)" using u y by (intro keeps_put) auto
  moreover have "lcd_put_printable c s = Some (u\<lparr>cur_x := cur_x u + 1\<rparr>)"
    unfolding lcd_put_printable_def Let_def t_def [symmetric] using y by (auto simp: u_def)
  ultimately show ?thesis by blast
qed

lemma put_newline_ok:
  assumes "lcd_ok s"
  shows "put_ok s (let t = s\<lparr>cur_x := 0, cur_y := cur_y s + 1\<rparr> in if unat (cur_y t) > 2 then lcd_scroll_up t else t)"
proof -
  let ?t = "s\<lparr>cur_x := 0, cur_y := cur_y s + 1\<rparr>"
  have m: "mem_ok s" "unat (cur_y s) \<le> 2" using assms by (simp_all add: lcd_ok_mem)
  have "unat (cur_y s + 1) = unat (cur_y s) + 1" using m(2) by (simp add: unat_word_ariths)
  have "keeps s (s\<lparr>cur_x := 0\<rparr>)" using keeps_cursor(1) m by blast
  moreover from this have "keeps (s\<lparr>cur_x := 0\<rparr>) ?t"
    using keeps_cursor(2) [of "s\<lparr>cur_x := 0\<rparr>" "cur_y s + 1"] by (simp add: keeps_def)
  ultimately have t: "keeps s ?t" using keeps_trans by blast
  then have "mem_ok ?t" by (simp add: keeps_def)
  then have k: "keeps s (lcd_scroll_up ?t)" using scroll_up_keeps t keeps_trans by blast
  show ?thesis
    using keeps_put [OF t] keeps_put [OF k] m \<open>unat (cur_y s + 1) = unat (cur_y s) + 1\<close>
    by (simp add: Let_def scroll_up_y)
qed

lemma lcd_put_ok:
  assumes "lcd_ok s"
  shows "lcd_put c s = None \<Longrightarrow> c = 75 \<and> unat (cur_y s) = 2 \<and> 0 \<le> esccount s"
    and "lcd_put c s = Some s' \<Longrightarrow> put_ok s s'"
proof -
  have m: "mem_ok s" "unat (cur_y s) \<le> 2" using assms by (simp_all add: lcd_ok_mem)
  show "lcd_put c s = None \<Longrightarrow> c = 75 \<and> unat (cur_y s) = 2 \<and> 0 \<le> esccount s"
    using put_escape_ok(1) [OF assms, of c] put_printable_ok [OF assms, of c]
    by (auto simp: lcd_put_def Let_def split: if_splits)
  assume r: "lcd_put c s = Some s'"
  have e: "put_ok s (s\<lparr>esccount := 0\<rparr>)" using assms by (simp add: put_ok_def lcd_ok_def escape_frame)
  have x: "put_ok s (s\<lparr>cur_x := v\<rparr>)" for v
    using keeps_put [OF keeps_cursor(1) [OF m(1)]] m(2) by simp
  have o: "put_ok s s" using keeps_put [OF keeps_refl [OF m(1)] m(2)] .
  show "put_ok s s'"
    using r put_escape_ok(2) [OF assms, of c s'] put_printable_ok [OF assms, of c]
      put_newline_ok [OF assms] e x o
    by (auto simp: lcd_put_def Let_def split: if_splits)
qed

text \<open>Where \<open>write\<close> leaves the two lines.\<close>

lemma last_used_le: "last_used d n \<le> n"
  by (induction n) auto

lemma line_width_bounds: "16 \<le> line_width d" "line_width d \<le> 81"
  using last_used_le [of d 80] by (auto simp: line_width_def Let_def)

definition speed_of :: "nat \<Rightarrow> lcd_line \<Rightarrow> u8" where
  "speed_of k l = (if sint (width l) > 16 then word_of_int (256 * sint (width l) div int k) else speed l)"

lemma set_speed_alt: "set_speed k y s = upd_line y (\<lambda>l. l\<lparr>speed := speed_of k l\<rparr>) s"
  by (simp add: set_speed_def upd_line_def speed_of_def)

lemma set_scroll_lines:
  assumes "length (lines s) = 2"
  shows "\<exists>m v0 v1. lcd_set_scroll s = s\<lparr>scrollmax := m, lines :=
      [(lines s ! 0)\<lparr>width := of_nat (line_width (data (lines s ! 0))), speed := v0\<rparr>,
       (lines s ! 1)\<lparr>width := of_nat (line_width (data (lines s ! 1))), speed := v1\<rparr>]\<rparr>
     \<and> (line_width (data (lines s ! 0)) = 16 \<longrightarrow> v0 = 0)
     \<and> (line_width (data (lines s ! 1)) = 16 \<longrightarrow> v1 = 0)"
proof -
  obtain l0 l1 where l: "lines s = [l0, l1]"
    using assms by (auto simp: numeral_2_eq_2 length_Suc_conv)
  let ?n0 = "line_width (data l0)" and ?n1 = "line_width (data l1)"
  let ?w = "max (max 16 ?n0) ?n1"
  let ?m0 = "l0\<lparr>width := of_nat ?n0, speed := 0\<rparr>" and ?m1 = "l1\<lparr>width := of_nat ?n1, speed := 0\<rparr>"
  let ?t = "s\<lparr>lines := [?m0, ?m1]\<rparr>"
  have s1: "set_width 1 (set_width 0 (16, s)) = (?w, ?t)"
    by (simp add: set_width_def upd_line_def l Let_def max_def)
  have s2: "lcd_set_scroll s = (if ?w \<le> 16 then ?t\<lparr>scrollmax := 0\<rparr>
      else set_speed (?w * 2) 1 (set_speed (?w * 2) 0 (?t\<lparr>scrollmax := of_nat (?w * 2)\<rparr>)))"
    by (simp only: lcd_set_scroll_def s1 Let_def prod.case)
  show ?thesis
  proof (cases "?w \<le> 16")
    case True
    show ?thesis unfolding s2 if_P [OF True]
      by (intro exI [of _ 0] exI [of _ "0 :: u8"]) (simp add: l)
  next
    case False
    define k where "k = ?w * 2"
    let ?u = "?t\<lparr>scrollmax := of_nat k\<rparr>"
    have "set_speed k 1 (set_speed k 0 ?u) = s\<lparr>scrollmax := of_nat k, lines :=
        [l0\<lparr>width := of_nat ?n0, speed := speed_of k ?m0\<rparr>,
         l1\<lparr>width := of_nat ?n1, speed := speed_of k ?m1\<rparr>]\<rparr>"
      by (simp only: set_speed_alt upd_line_def) simp
    moreover have "?n0 = 16 \<longrightarrow> speed_of k ?m0 = 0" "?n1 = 16 \<longrightarrow> speed_of k ?m1 = 0"
      by (simp_all add: speed_of_def)
    ultimately show ?thesis unfolding s2 if_not_P [OF False] k_def [symmetric] l
      by (simp only: nth_Cons_0 nth_Cons_Suc One_nat_def) blast
  qed
qed

lemma sint_width: "n \<le> 81 \<Longrightarrow> sint (of_nat n :: u8) = int n"
  by (simp add: signed_of_nat signed_take_bit_int_eq_self)

lemma set_scroll_ok:
  assumes "lcd_ok s"
  shows "put_ok s (lcd_set_scroll s)" "scroll_ok (lcd_set_scroll s)"
    "\<forall>y<2. data (lines (lcd_set_scroll s) ! y) = data (lines s ! y)"
    "scrollpos (lcd_set_scroll s) = scrollpos s"
    "y < 2 \<Longrightarrow> width (lines (lcd_set_scroll s) ! y) = of_nat (line_width (data (lines s ! y)))"
    "y < 2 \<Longrightarrow> line_width (data (lines s ! y)) = 16 \<Longrightarrow> speed (lines (lcd_set_scroll s) ! y) = 0"
proof -
  have l: "length (lines s) = 2" using assms by (simp add: lcd_ok_def)
  obtain m v0 v1 where r: "lcd_set_scroll s = s\<lparr>scrollmax := m, lines :=
      [(lines s ! 0)\<lparr>width := of_nat (line_width (data (lines s ! 0))), speed := v0\<rparr>,
       (lines s ! 1)\<lparr>width := of_nat (line_width (data (lines s ! 1))), speed := v1\<rparr>]\<rparr>"
    "line_width (data (lines s ! 0)) = 16 \<longrightarrow> v0 = 0" "line_width (data (lines s ! 1)) = 16 \<longrightarrow> v1 = 0"
    using set_scroll_lines [OF l] by blast
  have "in_sync (lcd_set_scroll s) = in_sync s"
    by (rule in_sync_text) (simp_all add: r less_Suc_eq numeral_2_eq_2)
  then show "put_ok s (lcd_set_scroll s)"
    using assms lcd_ok_line [OF assms] by (simp add: put_ok_def lcd_ok_def r line_ok_def)
  show "scroll_ok (lcd_set_scroll s)"
    using line_width_bounds by (simp add: scroll_ok_def r less_Suc_eq numeral_2_eq_2 sint_width)
  show "\<forall>y<2. data (lines (lcd_set_scroll s) ! y) = data (lines s ! y)"
    "scrollpos (lcd_set_scroll s) = scrollpos s"
    "y < 2 \<Longrightarrow> width (lines (lcd_set_scroll s) ! y) = of_nat (line_width (data (lines s ! y)))"
    "y < 2 \<Longrightarrow> line_width (data (lines s ! y)) = 16 \<Longrightarrow> speed (lines (lcd_set_scroll s) ! y) = 0"
    by (auto simp: r less_Suc_eq numeral_2_eq_2)
qed
subsection \<open>Properties\<close>

definition lcd_inv :: "'a lcd_scheme \<Rightarrow> bool" where
  "lcd_inv s \<longleftrightarrow> lcd_ok s \<and> in_sync s"

definition panel_cell :: "'a lcd_scheme \<Rightarrow> nat \<Rightarrow> nat \<Rightarrow> u8" where
  "panel_cell s y i = ddram (panel_of s) (colstart ! y + of_nat i)"

lemma put_ok_trans: "put_ok s t \<Longrightarrow> put_ok t u \<Longrightarrow> put_ok s u"
  by (auto simp: put_ok_def)

lemma puts_ok:
  assumes "lcd_ok s"
  shows "(\<exists>s'. for_each lcd_put str s = Some s' \<and> put_ok s s')
    \<or> (\<exists>p r t. str = p @ 75 # r \<and> for_each lcd_put p s = Some t \<and> unat (cur_y t) = 2 \<and> 0 \<le> esccount t)"
  using assms
proof (induction str arbitrary: s)
  case Nil
  then show ?case by (auto simp: put_ok_def)
next
  case (Cons c str)
  show ?case
  proof (cases "lcd_put c s")
    case None
    then show ?thesis using lcd_put_ok(1) [OF Cons.prems None]
      by (intro disjI2 exI [of _ "[]"] exI [of _ str] exI [of _ s]) simp
  next
    case (Some t)
    have t: "put_ok s t" using lcd_put_ok(2) [OF Cons.prems Some] .
    then have "lcd_ok t" by (simp add: put_ok_def)
    from Cons.IH [OF this] show ?thesis
    proof (elim disjE exE conjE)
      fix u assume "for_each lcd_put str t = Some u" "put_ok t u"
      then show ?thesis using Some t put_ok_trans by auto
    next
      fix p r u assume "str = p @ 75 # r" "for_each lcd_put p t = Some u" "unat (cur_y u) = 2" "0 \<le> esccount u"
      then show ?thesis using Some
        by (intro disjI2 exI [of _ "c # p"] exI [of _ r] exI [of _ u]) simp
    qed
  qed
qed

lemma puts_put_ok: "lcd_ok s \<Longrightarrow> for_each lcd_put str s = Some s' \<Longrightarrow> put_ok s s'"
proof (induction str arbitrary: s)
  case (Cons c str)
  then obtain t where t: "lcd_put c s = Some t" "for_each lcd_put str t = Some s'"
    by (auto simp: bind_eq_Some_conv)
  have "put_ok s t" using lcd_put_ok(2) [OF Cons.prems(1) t(1)] .
  moreover from this have "lcd_ok t" by (simp add: put_ok_def)
  then have "put_ok t s'" using Cons.IH t(2) by blast
  ultimately show ?case using put_ok_trans by blast
qed (simp add: put_ok_def)

text \<open>The second half of \<open>write\<close>: set the scrolling, repaint.\<close>

lemma paint_text:
  assumes "lcd_ok t" "in_sync t" "active t"
  shows "\<exists>s' u p. lcd_paint_loop ticks (lcd_set_scroll t) = Some s' \<and> lcd_inv s' \<and> \<not> active s'
    \<and> s' = u\<lparr>scrollpos := p, active := False\<rparr> \<and> paints (lcd_set_scroll t) u
    \<and> (broken s' \<or> (\<forall>y<2. \<forall>i<16. panel_cell s' y i = view s' y i))"
proof -
  note sc = set_scroll_ok [OF assms(1)]
  then have ok: "lcd_ok (lcd_set_scroll t)" "in_sync (lcd_set_scroll t)" "active (lcd_set_scroll t)"
    using assms by (auto simp: put_ok_def)
  obtain s' p u where s': "lcd_paint_loop ticks (lcd_set_scroll t) = Some s'"
    "paints (lcd_set_scroll t) u" "s' = u\<lparr>scrollpos := p, active := False\<rparr>" "in_sync s'"
    "\<forall>y<2. painted s' y 16"
    using paint_loop_effect [OF ok(1) sc(2) ok(2,3)] by blast
  have "lcd_ok u" using paints_ok s'(2) ok(1) by blast
  then have "lcd_inv s'" "\<not> active s'" using s'(3,4) by (simp_all add: lcd_inv_def lcd_ok_def)
  moreover have "broken s' \<or> (\<forall>y<2. \<forall>i<16. panel_cell s' y i = view s' y i)"
    using s'(4,5) by (auto simp: in_sync_def painted_def panel_cell_def)
  ultimately show ?thesis using s' by blast
qed

lemma start_write: "lcd_inv s \<Longrightarrow> lcd_ok (s\<lparr>active := True\<rparr>) \<and> in_sync (s\<lparr>active := True\<rparr>)"
  by (simp add: lcd_inv_def scrollpos_frame)

lemma lcd_write_outcome:
  assumes "lcd_inv s"
  shows "case for_each lcd_put str (s\<lparr>active := True\<rparr>) of
      None \<Rightarrow> altera_avalon_lcd_16207_write ticks str s = None
        \<and> (\<exists>p r t. str = p @ 75 # r \<and> for_each lcd_put p (s\<lparr>active := True\<rparr>) = Some t
            \<and> unat (cur_y t) = 2 \<and> 0 \<le> esccount t)
    | Some _ \<Rightarrow> \<exists>s'. altera_avalon_lcd_16207_write ticks str s = Some (length str, s') \<and> lcd_inv s'"
proof (cases "for_each lcd_put str (s\<lparr>active := True\<rparr>)")
  case None
  then show ?thesis using puts_ok [of "s\<lparr>active := True\<rparr>" str] start_write [OF assms]
    by (auto simp: altera_avalon_lcd_16207_write_def)
next
  case (Some t)
  have "put_ok (s\<lparr>active := True\<rparr>) t" using puts_put_ok start_write [OF assms] Some by blast
  then have "lcd_ok t" "in_sync t" "active t" using start_write [OF assms] by (auto simp: put_ok_def)
  from paint_text [OF this, of ticks] show ?thesis
    using Some by (auto simp: altera_avalon_lcd_16207_write_def Let_def)
qed

text \<open>C17: whatever bytes are written, the driver returns with the cursor, the escape parser and
  both lines within their arrays and its picture of the panel right, with one exception: the
  escape sequence that erases to the end of the line, given while the cursor waits below the
  last line.  A panel that does not answer is given up, not waited for.\<close>
theorem lcd_write_safe:
  assumes "lcd_inv s"
  shows "(\<exists>s'. altera_avalon_lcd_16207_write ticks str s = Some (length str, s') \<and> lcd_inv s')
    \<or> (\<exists>p r t. str = p @ 75 # r \<and> for_each lcd_put p (s\<lparr>active := True\<rparr>) = Some t
        \<and> unat (cur_y t) = 2 \<and> 0 \<le> esccount t)"
  using lcd_write_outcome [OF assms, of ticks str] by (fastforce split: option.splits)

subsection \<open>Start-up\<close>

lemma clear_screen_result:
  assumes "length (lines s) = 2"
  shows "\<exists>t b l0 l1. lcd_clear_screen s = s\<lparr>trace := t, broken := b, cur_x := 0, cur_y := 0, address := 0,
      lines := [l0, l1]\<rparr> \<and> line_ok l0 \<and> line_ok l1 \<and> in_sync (lcd_clear_screen s)
      \<and> data l0 = replicate 81 32 \<and> data l1 = replicate 81 32"
proof -
  obtain t b where w: "lcd_write_command LCD_CMD_CLEAR s = s\<lparr>trace := t, broken := b\<rparr>" "broken s \<longrightarrow> b"
    "\<not> b \<longrightarrow> panel_of (s\<lparr>trace := t, broken := b\<rparr>) = panel_command LCD_CMD_CLEAR (panel_of s)"
    using write_command_effect by metis
  obtain l0 l1 where l: "lines s = [l0, l1]"
    using assms by (auto simp: numeral_2_eq_2 length_Suc_conv)
  let ?blank = "\<lambda>l. l\<lparr>data := replicate 81 32, visible := replicate 16 32, width := 0\<rparr>"
  have r: "lcd_clear_screen s = s\<lparr>trace := t, broken := b, cur_x := 0, cur_y := 0, address := 0,
      lines := [?blank l0, ?blank l1]\<rparr>"
    by (simp add: lcd_clear_screen_def clear_line_def upd_line_def Let_def w l)
  have "in_sync (lcd_clear_screen s)"
    using w(3) by (auto simp: in_sync_def r panel_of_def panel_command_def less_Suc_eq numeral_2_eq_2)
  then show ?thesis using r
    by (intro exI [of _ t] exI [of _ b] exI [of _ "?blank l0"] exI [of _ "?blank l1"])
      (simp add: line_ok_def)
qed

lemma command_no_effect:
  assumes "c AND 0x80 = 0" "c \<noteq> 1"
  shows "\<exists>t b. lcd_write_command c s = s\<lparr>trace := t, broken := b\<rparr>
    \<and> (in_sync s \<longrightarrow> in_sync (lcd_write_command c s))"
proof -
  obtain t b where w: "lcd_write_command c s = s\<lparr>trace := t, broken := b\<rparr>" "broken s \<longrightarrow> b"
    "\<not> b \<longrightarrow> panel_of (s\<lparr>trace := t, broken := b\<rparr>) = panel_command c (panel_of s)"
    using write_command_effect by metis
  then show ?thesis using assms
    by (intro exI [of _ t] exI [of _ b]) (auto simp: in_sync_def panel_command_def)
qed

lemma init_hw_ok:
  assumes "length (lines s) = 2"
  shows "\<exists>t b l0 l1. lcd_init_hw s = s\<lparr>trace := t, broken := b, cur_x := 0, cur_y := 0, address := 0,
      lines := [l0, l1]\<rparr> \<and> line_ok l0 \<and> line_ok l1 \<and> in_sync (lcd_init_hw s)
      \<and> data l0 = replicate 81 32 \<and> data l1 = replicate 81 32"
proof -
  let ?b = "lcd_base s"
  let ?c = "ucast (LCD_CMD_FUNCTION_SET OR LCD_CMD_8BIT) :: u32"
  define s1 where "s1 = iowr ?b 0 ?c (usleep 1000 (iowr ?b 0 ?c (usleep 4100 (iowr ?b 0 ?c
      (usleep 15000 (s\<lparr>broken := False\<rparr>))))))"
  have s1: "\<exists>t b. s1 = s\<lparr>trace := t, broken := b\<rparr>"
    unfolding s1_def iowr_def wr32_def usleep_def log_ev_def
    by (intro exI [of _ "Wr32 ?b 48 # Delay 1000 # Wr32 ?b 48 # Delay 4100 # Wr32 ?b 48 # Delay 15000 # trace s"] exI [of _ False]) simp
  define s2 where "s2 = lcd_write_command (LCD_CMD_FUNCTION_SET OR LCD_CMD_8BIT OR LCD_CMD_TWO_LINE) s1"
  define s3 where "s3 = lcd_write_command LCD_CMD_ONOFF s2"
  define s4 where "s4 = lcd_clear_screen s3"
  define s5 where "s5 = lcd_write_command (LCD_CMD_MODES OR LCD_CMD_MODE_INC) s4"
  define s6 where "s6 = lcd_write_command (LCD_CMD_ONOFF OR LCD_CMD_ENABLE_DISP) s5"
  have s2: "\<exists>t b. s2 = s1\<lparr>trace := t, broken := b\<rparr>"
    and s3: "\<exists>t b. s3 = s2\<lparr>trace := t, broken := b\<rparr>"
    unfolding s2_def s3_def using write_command_effect by blast+
  have l3: "length (lines s3) = 2" using s1 s2 s3 assms by auto
  obtain t4 b4 l0 l1 where s4: "s4 = s3\<lparr>trace := t4, broken := b4, cur_x := 0, cur_y := 0, address := 0,
      lines := [l0, l1]\<rparr>" "line_ok l0" "line_ok l1" "in_sync s4"
      "data l0 = replicate 81 32" "data l1 = replicate 81 32"
    using clear_screen_result [OF l3] unfolding s4_def by blast
  have s5: "\<exists>t b. s5 = s4\<lparr>trace := t, broken := b\<rparr>" "in_sync s5"
    using command_no_effect [of "LCD_CMD_MODES OR LCD_CMD_MODE_INC" s4] s4(4) unfolding s5_def by auto
  have s6: "\<exists>t b. s6 = s5\<lparr>trace := t, broken := b\<rparr>" "in_sync s6"
    using command_no_effect [of "LCD_CMD_ONOFF OR LCD_CMD_ENABLE_DISP" s5] s5(2) unfolding s6_def by auto
  have "lcd_base s1 = ?b" using s1 by auto
  then have r: "lcd_init_hw s = s6"
    unfolding lcd_init_hw_def Let_def s6_def s5_def s4_def s3_def s2_def s1_def
    by (simp add: iowr_def wr32_def usleep_def log_ev_def)
  have "s6 = s\<lparr>trace := trace s6, broken := broken s6, cur_x := 0, cur_y := 0, address := 0,
      lines := [l0, l1]\<rparr>"
    using s1 s2 s3 s4(1) s5(1) s6(1) by (intro lcd.equality) auto
  then show ?thesis using r s4 s6(2) by auto
qed

text \<open>After start-up the screen is blank, the panel in sync, and the parser idle.\<close>

lemma lcd_init_inv:
  assumes "length (lines s) = 2"
  shows "lcd_inv (altera_avalon_lcd_16207_init s)"
    and "cur_x (altera_avalon_lcd_16207_init s) = 0" "cur_y (altera_avalon_lcd_16207_init s) = 0"
    and "esccount (altera_avalon_lcd_16207_init s) = -1"
    and "y < 2 \<Longrightarrow> data (lines (altera_avalon_lcd_16207_init s) ! y) = replicate 81 32"
proof -
  obtain t b l0 l1 where h: "lcd_init_hw s = s\<lparr>trace := t, broken := b, cur_x := 0, cur_y := 0,
      address := 0, lines := [l0, l1]\<rparr>" "line_ok l0" "line_ok l1" "in_sync (lcd_init_hw s)"
      "data l0 = replicate 81 32" "data l1 = replicate 81 32"
    using init_hw_ok [OF assms] by blast
  define u where "u = (lcd_init_hw s)\<lparr>esccount := -1, escape := replicate 8 0,
      scrollpos := 0, scrollmax := 0, active := False, period := tick_rate s div 10\<rparr>"
  have i: "altera_avalon_lcd_16207_init s
      = snd (alt_alarm_start (Some (lcd_alarm s)) (period u) (Some Alt_lcd_16207_timeout) 0 u)"
    unfolding altera_avalon_lcd_16207_init_def Let_def u_def
    by (simp add: alt_ticks_per_second_def h(1) split_beta)
  obtain st hp al where f: "altera_avalon_lcd_16207_init s = u\<lparr>cpu_status := st, alarm_heap := hp, alarms := al\<rparr>"
    using alarm_start_frame i by metis
  have "in_sync u" using h(4) by (simp add: u_def in_sync_def panel_of_def)
  then show "lcd_inv (altera_avalon_lcd_16207_init s)"
    using h by (simp add: f lcd_inv_def lcd_ok_def in_sync_def panel_of_def) (simp add: u_def)
  show "cur_x (altera_avalon_lcd_16207_init s) = 0" "cur_y (altera_avalon_lcd_16207_init s) = 0"
    "esccount (altera_avalon_lcd_16207_init s) = -1"
    "y < 2 \<Longrightarrow> data (lines (altera_avalon_lcd_16207_init s) ! y) = replicate 81 32"
    using h by (auto simp: f u_def less_Suc_eq numeral_2_eq_2)
qed

definition blank_line :: lcd_line where
  "blank_line = \<lparr>visible = replicate 16 0, data = replicate 81 0, width = 0, speed = 0\<rparr>"

definition boot_lcd :: lcd where
  "boot_lcd = altera_avalon_lcd_16207_init
    \<lparr>hw = \<lambda>_ _. 0, ipend = \<lambda>_. 0, trace = [], cpu_status = 1, ienable = 0,
     alt_irq_active = 0, alt_priority_mask = 0, alt_irq = [],
     alarm_heap = \<lparr>nxt = \<lambda>_. 0, previous = \<lambda>_. 0, dev_name = \<lambda>_. None\<rparr>,
     alarms = \<lambda>_. \<lparr>time = 0, callback_fn = None, rollover = False, alarm_context = 0\<rparr>,
     alt_alarm_list = 0, tick_rate = 1000, nticks = 0,
     alt_timezone = \<lparr>tz_minuteswest = 0, tz_dsttime = 0\<rparr>, alt_resettime = \<lparr>tv_sec = 0, tv_usec = 0\<rparr>,
     clk_errno = None, alarm_calls = [],
     lcd_base = 0x2124c0, lcd_alarm = 1, period = 0, broken = False, cur_x = 0, cur_y = 0,
     address = 0, esccount = 0, scrollpos = 0, scrollmax = 0, active = False,
     escape = replicate 8 0, lines = [blank_line, blank_line]\<rparr>"

lemma boot_lcd_inv: "lcd_inv boot_lcd" "cur_x boot_lcd = 0" "cur_y boot_lcd = 0" "esccount boot_lcd = -1"
  "y < 2 \<Longrightarrow> data (lines boot_lcd ! y) = replicate 81 32"
  unfolding boot_lcd_def by (rule lcd_init_inv; simp)+
subsection \<open>Plain text\<close>

lemma put_plain:
  assumes "esccount s = -1" "isprint c" "unat (cur_y s) < 2" "unat (cur_x s) < 80"
  shows "lcd_put c s = Some ((upd_line (unat (cur_y s)) (\<lambda>l. l\<lparr>data := (data l)[unat (cur_x s) := c]\<rparr>) s)
    \<lparr>cur_x := cur_x s + 1\<rparr>)"
proof -
  have "\<not> isprint 27" "\<not> isprint 13" "\<not> isprint 10" "\<not> isprint 8" by (simp_all add: isprint_def)
  then have "c \<noteq> 27" "c \<noteq> 13" "c \<noteq> 10" "c \<noteq> 8" using assms(2) by auto
  then show ?thesis using assms by (simp add: lcd_put_def lcd_put_printable_def)
qed

lemma puts_plain:
  assumes "esccount s = -1" "cur_y s = 0" "\<forall>c\<in>set str. isprint c" "unat (cur_x s) + length str \<le> 80"
    "length (lines s) = 2" "length (data (lines s ! 0)) = 81"
  shows "\<exists>s'. for_each lcd_put str s = Some s'
    \<and> data (lines s' ! 0) = patch (data (lines s ! 0)) (unat (cur_x s)) str"
  using assms
proof (induction str arbitrary: s)
  case Nil
  then show ?case by (simp add: patch_def)
next
  case (Cons c str)
  let ?t = "(upd_line 0 (\<lambda>l. l\<lparr>data := (data l)[unat (cur_x s) := c]\<rparr>) s)\<lparr>cur_x := cur_x s + 1\<rparr>"
  have p: "lcd_put c s = Some ?t" using put_plain [of s c] Cons.prems by simp
  have x: "unat (cur_x s + 1) = unat (cur_x s) + 1" using Cons.prems(4) by (simp add: unat_word_ariths)
  obtain s' where s': "for_each lcd_put str ?t = Some s'"
    "data (lines s' ! 0) = patch (data (lines ?t ! 0)) (unat (cur_x ?t)) str"
    using Cons.IH [of ?t] Cons.prems x by auto
  have "patch ((data (lines s ! 0))[unat (cur_x s) := c]) (unat (cur_x s) + 1) str
      = patch (data (lines s ! 0)) (unat (cur_x s)) (c # str)"
    using Cons.prems(4,6)
    by (intro nth_equalityI) (auto simp: nth_patch nth_list_update nth_Cons' split: if_splits)
  then show ?case using p s' x Cons.prems(5) by auto
qed

lemma last_used_blank: "m \<le> n \<Longrightarrow> \<forall>i. m \<le> i \<and> i < n \<longrightarrow> d ! i = 32 \<Longrightarrow> last_used d n = last_used d m"
proof (induction n)
  case (Suc n)
  then show ?case by (cases "m = Suc n") auto
qed simp

lemma short_width:
  assumes "length str \<le> 16"
  shows "line_width (patch (replicate 81 32) 0 str) = 16"
proof -
  have "last_used (patch (replicate 81 32) 0 str) 80 = last_used (patch (replicate 81 32) 0 str) 16"
    by (rule last_used_blank) (use assms in \<open>auto simp: nth_patch\<close>)
  then show ?thesis using last_used_le [of "patch (replicate 81 32) 0 str" 16]
    by (simp add: line_width_def Let_def)
qed

text \<open>A printable text of at most 16 characters written to the blank screen appears on the
  panel from its first cell on, spaces after it, and does not scroll.\<close>
theorem lcd_prints:
  assumes "lcd_inv s" "esccount s = -1" "cur_x s = 0" "cur_y s = 0"
    "data (lines s ! 0) = replicate 81 32" "\<forall>c\<in>set str. isprint c" "length str \<le> 16"
  shows "\<exists>s'. altera_avalon_lcd_16207_write ticks str s = Some (length str, s')
    \<and> (broken s' \<or> (\<forall>i<16. panel_cell s' 0 i = (if i < length str then str ! i else 32)))"
proof -
  let ?s = "s\<lparr>active := True\<rparr>"
  have l: "length (lines s) = 2" using assms(1) by (simp add: lcd_inv_def lcd_ok_def)
  obtain t where t: "for_each lcd_put str ?s = Some t"
    "data (lines t ! 0) = patch (replicate 81 32) 0 str"
    using puts_plain [of ?s str] assms l by auto
  have "put_ok ?s t" using puts_put_ok start_write [OF assms(1)] t(1) by blast
  then have ok: "lcd_ok t" "in_sync t" "active t" using start_write [OF assms(1)] by (auto simp: put_ok_def)
  let ?u = "lcd_set_scroll t"
  have w: "line_width (data (lines t ! 0)) = 16" using t(2) short_width assms(7) by simp
  have u: "width (lines ?u ! 0) = 16" "speed (lines ?u ! 0) = 0" "data (lines ?u ! 0) = data (lines t ! 0)"
    "length (lines ?u) = 2"
    using set_scroll_ok(1,3,5,6) [OF ok(1)] w by (auto simp: put_ok_def lcd_ok_def)
  obtain s' v p where s': "lcd_paint_loop ticks ?u = Some s'" "s' = v\<lparr>scrollpos := p, active := False\<rparr>"
    "paints ?u v" "broken s' \<or> (\<forall>y<2. \<forall>i<16. panel_cell s' y i = view s' y i)"
    using paint_text [OF ok, of ticks] by blast
  note pl = paints_line [OF s'(3), of 0, unfolded u(4), simplified]
  have "view s' 0 i = (if i < length str then str ! i else 32)" if "i < 16" for i
  proof -
    have "view s' 0 i = data (lines t ! 0) ! i"
      using that pl u by (simp add: s'(2) view_def line_offset_def Let_def)
    then show ?thesis using that assms(7) by (simp add: t(2) nth_patch)
  qed
  then have "broken s' \<or> (\<forall>i<16. panel_cell s' 0 i = (if i < length str then str ! i else 32))"
    using s'(4) by auto
  then show ?thesis using t(1) s'(1) by (simp add: altera_avalon_lcd_16207_write_def)
qed

text \<open>The exception is real: two line feeds and an erase, from a fresh screen.\<close>

lemma lcd_erase_below_last_line:
  "altera_avalon_lcd_16207_write [] [10, 10, 27, 91, 75] boot_lcd = None"
proof -
  have l: "length (escape boot_lcd) = 8" using boot_lcd_inv(1) by (simp add: lcd_inv_def lcd_ok_def)
  then obtain a b c r where e: "escape boot_lcd = a # b # c # r" by (auto simp: numeral_eq_Suc length_Suc_conv)
  have "for_each lcd_put [10, 10, 27, 91, 75] (boot_lcd\<lparr>active := True\<rparr>) = None"
    using boot_lcd_inv(2,3,4) l
    by (simp add: lcd_put_def lcd_put_escape_def Let_def mem_put_def e patch_def lcd_handle_escape_def
        escape_params_def isdigit_def lcd_clear_to_end_def isprint_def)
  then show ?thesis by (simp add: altera_avalon_lcd_16207_write_def del: for_each.simps)
qed

lemma lcd_write_safe_witness:
  "\<exists>s'. altera_avalon_lcd_16207_write [1, 0] [72, 105, 10] boot_lcd = Some (3, s') \<and> lcd_inv s'"
  using lcd_write_safe [OF boot_lcd_inv(1), of "[1, 0]" "[72, 105, 10]"]
  by (auto simp: append_eq_Cons_conv Cons_eq_append_conv)

lemma lcd_prints_witness:
  "\<exists>s'. altera_avalon_lcd_16207_write [2] [72, 105] boot_lcd = Some (length [72, 105 :: u8], s')
    \<and> (broken s' \<or> (\<forall>i<16. panel_cell s' 0 i = (if i < length [72, 105 :: u8] then [72, 105] ! i else 32)))"
proof -
  have "\<forall>c\<in>set [72, 105]. isprint c" by (simp add: isprint_def)
  from lcd_prints [OF boot_lcd_inv(1,4,2,3) boot_lcd_inv(5) this, of "[2]"] show ?thesis by fastforce
qed


end
