(* ===== verification/WebApp.thy ===== *)
theory WebApp
  imports TcpServer Lcd
begin

text \<open>
  The application, \<open>tcp_webserver.c\<close>: start-up, the main loop that acts on the request the
  server kept, and the decoding of its commands.  The network half of the state is \<open>web\<close>, the
  display half \<open>lcd\<close>; the two drivers share no register and each half keeps the history of its
  own accesses.  \<open>None\<close> is an access outside \<open>payload\<close> or \<open>lcd_string\<close>, or a driver call that
  does not return.  In \<open>lcd_string[n-4] = data[n++]\<close> C leaves open which \<open>n\<close> the left side
  means; the model follows the compiled program in the repository
  (\<open>tcp_webserver.objdump\<close>), where it is the old one.
\<close>

definition PIO_0_BASE :: u32 where "PIO_0_BASE = 0x2124b0"
definition PIO_1_BASE :: u32 where "PIO_1_BASE = 0x2124a0"
definition LCD_16207_0_BASE :: u32 where "LCD_16207_0_BASE = 0x2124c0"
definition ETH_TSE_0_BASE :: u32 where "ETH_TSE_0_BASE = 0x212000"
definition TIMER_0_IRQ :: u32 where "TIMER_0_IRQ = 2"
definition TIMER_0_IRQ_INTERRUPT_CONTROLLER_ID :: u32 where "TIMER_0_IRQ_INTERRUPT_CONTROLLER_ID = 0"

record web = net +
  inp :: u8
  leds :: u8
  lcd_string :: "u8 list"     \<comment> \<open>64\<close>
  lcd_string_len :: u8
  lcd_string_changed :: bool

definition byte_at :: "u8 list \<Rightarrow> nat \<Rightarrow> u8 option" where
  "byte_at b i = (if i < length b then Some (b ! i) else None)"

subsection \<open>Commands\<close>

text \<open>The loop of the \<open>lcd\<close> command: \<open>data[n]\<close> is read before \<open>n\<close> is compared.\<close>

function copy_text :: "nat \<Rightarrow> nat \<Rightarrow> 'a web_scheme \<Rightarrow> (nat \<times> 'a web_scheme) option" where
  "copy_text off n s = do {
     c \<leftarrow> byte_at (payload (TCP s)) (off + n);
     if c \<noteq> 32 \<and> n < 64 then do {
       b \<leftarrow> mem_put (lcd_string s) (n - 4) [if c = 43 then 32 else c];
       copy_text off (n + 1) (s\<lparr>lcd_string := b\<rparr>)
     } else Some (n, s) }"
  by pat_completeness auto
termination by (relation "measure (\<lambda>(off, n, s). 64 - n)") auto

declare copy_text.simps [simp del]

definition get_command :: "nat \<Rightarrow> 'a web_scheme \<Rightarrow> (u8 \<times> 'a web_scheme) option" where
  "get_command off s = do {
     message \<leftarrow> mem_get (payload (TCP s)) off 3;
     if message = bytes_of ''led'' then do {
       c \<leftarrow> byte_at (payload (TCP s)) (off + 3);
       Some (if c = 49 then 1 else if c = 50 then 2 else if c = 51 then 4 else 0, s)
     } else if message = bytes_of ''lcd'' then do {
       (n, s) \<leftarrow> copy_text off 4 s;
       let s = s\<lparr>lcd_string_len := of_nat (n - 4)\<rparr>;
       s \<leftarrow> (if lcd_string_len s > 0 then do {
               b \<leftarrow> mem_put (lcd_string s) (unat (lcd_string_len s)) [10];
               Some (s\<lparr>lcd_string := b, lcd_string_len := lcd_string_len s + 1\<rparr>)
             } else Some s);
       Some (0, s\<lparr>lcd_string_changed := True\<rparr>)
     } else Some (0, s) }"

subsection \<open>The main loop\<close>

text \<open>\<open>for (i = 0; i < 4; i++)\<close> from \<open>i\<close> on; \<open>k\<close> rounds are left.\<close>

primrec run_commands :: "nat \<Rightarrow> nat \<Rightarrow> 'a web_scheme \<Rightarrow> 'a web_scheme option" where
  "run_commands 0 i s = Some s"
| "run_commands (Suc k) i s = do {
     (c, s) \<leftarrow> get_command (6 + i * 8) s;
     let s = s\<lparr>leds := leds s OR c\<rparr>;
     d \<leftarrow> byte_at (payload (TCP s)) (5 + (i + 1) * 8);
     if d \<noteq> 38 then Some s else run_commands k (i + 1) s }"

definition serve_request :: "'a web_scheme \<Rightarrow> 'a web_scheme option" where
  "serve_request s =
    (if got_html_req (TCP s) then
       let s = s\<lparr>TCP := (TCP s)\<lparr>got_html_req := False\<rparr>\<rparr> in
       do {
         q \<leftarrow> byte_at (payload (TCP s)) 5;
         if q = 63 then run_commands 4 0 (s\<lparr>leds := 0\<rparr>) else Some s }
     else Some s)"

definition main_step :: "nat list \<Rightarrow> 'a web_scheme \<times> 'b lcd_scheme
    \<Rightarrow> ('a web_scheme \<times> 'b lcd_scheme) option" where
  "main_step tks = (\<lambda>(s, lcd). do {
     let (v, s) = iord PIO_0_BASE 0 s;
     let s = s\<lparr>inp := ucast v\<rparr>;
     s \<leftarrow> serve_request s;
     let s = iowr PIO_1_BASE 0 (NOT (ucast (leds s))) s;
     if lcd_string_changed s then do {
       str \<leftarrow> mem_get (lcd_string s) 0 (unat (lcd_string_len s));
       (_, lcd) \<leftarrow> altera_avalon_lcd_16207_write tks str lcd;
       Some (s\<lparr>lcd_string_changed := False\<rparr>, lcd)
     } else Some (s, lcd) })"

subsection \<open>Start-up\<close>

text \<open>\<open>TCP0\<close> and \<open>tmr0\<close> are what the stack holds where \<open>main\<close> puts its two structures.\<close>

definition main_init :: "tcp_conn \<Rightarrow> timer_struct \<Rightarrow> nat list \<Rightarrow> nat list \<Rightarrow> 'a web_scheme \<times> 'b lcd_scheme
    \<Rightarrow> ('a web_scheme \<times> 'b lcd_scheme) option" where
  "main_init TCP0 tmr0 tks1 tks2 = (\<lambda>(s, lcd). do {
     let TCP1 = TCP0\<lparr>state := LISTEN\<rparr>;
     let lcd = lcd\<lparr>lcd_base := LCD_16207_0_BASE\<rparr>;
     let lcd = altera_avalon_lcd_16207_init lcd;
     (_, lcd) \<leftarrow> altera_avalon_lcd_16207_write tks1 (bytes_of ''My IP is: '' @ [10, 0]) lcd;
     (_, lcd) \<leftarrow> altera_avalon_lcd_16207_write tks2 (bytes_of ''169.254.229.14 '' @ [10, 0]) lcd;
     let tmr1 = tmr0\<lparr>tmr_base := TIMER_0_BASE\<rparr>;
     let tmr1 = tmr1\<lparr>tmr_id := TIMER_0_IRQ_INTERRUPT_CONTROLLER_ID\<rparr>;
     let tmr1 = tmr1\<lparr>tmr_irq := TIMER_0_IRQ\<rparr>;
     let tmr1 = tmr1\<lparr>tmr_set_timer_zero := False\<rparr>;
     s \<leftarrow> timer_int_en (s\<lparr>tmr := tmr1\<rparr>);
     s \<leftarrow> tse_init ETH_TSE_0_BASE TCP1 s;
     Some (s, lcd) })"
subsection \<open>Decoding\<close>

text \<open>A plus sign of a query stands for a space.\<close>

definition unplus :: "u8 \<Rightarrow> u8" where "unplus c = (if c = 43 then 32 else c)"

lemma byte_at_drop: "drop i b = c # r \<Longrightarrow> byte_at b i = Some c"
  by (cases "i < length b") (auto simp: byte_at_def Cons_nth_drop_Suc [symmetric])

lemma byte_at_drop_Nil: "drop i b = [] \<Longrightarrow> byte_at b i = None"
  by (simp add: byte_at_def)

lemma drop_Suc_Cons: "drop i b = c # r \<Longrightarrow> drop (Suc i) b = r"
  by (metis drop_Suc list.sel(3) tl_drop)

lemma patch_patch_next:
  "i + 1 + length xs \<le> length b \<Longrightarrow> patch (patch b i [c]) (i + 1) xs = patch b i (c # xs)"
  by (intro nth_equalityI) (auto simp: nth_patch nth_Cons' split: if_splits)

lemma copy_text_some:
  assumes "drop (off + n) (payload (TCP s)) = xs @ 32 # r" "32 \<notin> set xs" "4 \<le> n" "n + length xs \<le> 64"
    "length (lcd_string s) = 64"
  shows "copy_text off n s
    = Some (n + length xs, s\<lparr>lcd_string := patch (lcd_string s) (n - 4) (map unplus xs)\<rparr>)"
  using assms
proof (induction xs arbitrary: n s)
  case Nil
  then show ?case by (simp add: copy_text.simps [of off n s] byte_at_drop patch_def)
next
  case (Cons c xs)
  let ?b = "patch (lcd_string s) (n - 4) [unplus c]"
  have c: "byte_at (payload (TCP s)) (off + n) = Some c" using Cons.prems(1) by (simp add: byte_at_drop)
  have p: "mem_put (lcd_string s) (n - 4) [if c = 43 then 32 else c] = Some ?b"
    using Cons.prems by (simp add: mem_put_Some unplus_def)
  have "copy_text off n s = copy_text off (n + 1) (s\<lparr>lcd_string := ?b\<rparr>)"
    using c p Cons.prems(2,4) by (simp add: copy_text.simps [of off n s])
  also have "\<dots> = Some (n + 1 + length xs,
      s\<lparr>lcd_string := patch ?b (n + 1 - 4) (map unplus xs)\<rparr>)"
    by (rule trans [OF Cons.IH]) (use Cons.prems drop_Suc_Cons [OF Cons.prems(1) [simplified]] in simp_all)
  also have "n + 1 - 4 = n - 4 + 1" using Cons.prems(3) by simp
  also have "patch ?b (n - 4 + 1) (map unplus xs) = patch (lcd_string s) (n - 4) (unplus c # map unplus xs)"
    using Cons.prems(3-5) by (intro patch_patch_next) simp
  finally show ?case by simp
qed

lemma copy_text_none:
  assumes "32 \<notin> set (drop (off + n) (payload (TCP s)))" "off + 64 \<ge> length (payload (TCP s))"
  shows "copy_text off n s = None"
  using assms
proof (induction off n s rule: copy_text.induct)
  case (1 off n s)
  show ?case
  proof (cases "drop (off + n) (payload (TCP s))")
    case Nil
    then show ?thesis by (simp add: copy_text.simps [of off n s] byte_at_drop_Nil)
  next
    case (Cons c r)
    then have c: "byte_at (payload (TCP s)) (off + n) = Some c" by (rule byte_at_drop)
    have "off + n < length (payload (TCP s))" using Cons by (metis drop_eq_Nil list.distinct(1) not_less)
    then have n: "n < 64" "c \<noteq> 32" using 1(2,3) Cons by auto
    show ?thesis
    proof (cases "mem_put (lcd_string s) (n - 4) [if c = 43 then 32 else c]")
      case None
      then show ?thesis using c n by (simp add: copy_text.simps [of off n s])
    next
      case (Some b)
      have "copy_text off (n + 1) (s\<lparr>lcd_string := b\<rparr>) = None"
        using 1(1) [OF c _ Some] n 1(2,3) Cons drop_Suc_Cons [OF Cons] by auto
      then show ?thesis using c n Some by (simp add: copy_text.simps [of off n s])
    qed
  qed
qed

definition web_ok :: "'a web_scheme \<Rightarrow> bool" where
  "web_ok s \<longleftrightarrow> length (payload (TCP s)) = 64 \<and> length (lcd_string s) = 64"

lemma led_ne_lcd: "bytes_of ''led'' \<noteq> bytes_of ''lcd''"
  by (simp add: bytes_of_def)

lemma get_command_lcd:
  assumes "web_ok s" "off + 4 \<le> 64" "bytes_at (payload (TCP s)) off 3 = bytes_of ''lcd''"
    "drop (off + 4) (payload (TCP s)) = xs @ 32 # r" "32 \<notin> set xs"
  shows "\<exists>b. get_command off s = Some (0, s\<lparr>lcd_string := b,
        lcd_string_len := of_nat (length xs + of_bool (xs \<noteq> [])), lcd_string_changed := True\<rparr>)
    \<and> length b = 64 \<and> take (length xs + of_bool (xs \<noteq> [])) b
        = map unplus xs @ (if xs = [] then [] else [10])"
proof -
  let ?b = "patch (lcd_string s) 0 (map unplus xs)"
  have len: "length xs \<le> 59"
    using arg_cong [OF assms(4), of length] assms(1) by (simp add: web_ok_def)
  have m: "mem_get (payload (TCP s)) off 3 = Some (bytes_of ''lcd'')"
    using assms(1-3) by (simp add: mem_get_def web_ok_def)
  have c: "copy_text off 4 s = Some (4 + length xs, s\<lparr>lcd_string := ?b\<rparr>)"
    using copy_text_some [OF assms(4,5)] len assms(1) by (simp add: web_ok_def)
  have u: "unat (of_nat (length xs) :: u8) = length xs" using len by (simp add: unat_of_nat)
  have lb: "length ?b = 64" using len assms(1) by (simp add: web_ok_def)
  show ?thesis
  proof (cases "xs = []")
    case True
    then show ?thesis using m c led_ne_lcd lb
      by (intro exI [of _ ?b]) (simp add: get_command_def eq_commute)
  next
    case False
    then have pos: "(of_nat (length xs) :: u8) > 0" using u by (simp add: word_less_nat_alt)
    have p: "mem_put ?b (length xs) [10] = Some (patch ?b (length xs) [10])"
      using lb len by (simp add: mem_put_Some)
    have t: "take (Suc (length xs)) (patch ?b (length xs) [10]) = map unplus xs @ [10]"
      using len lb assms(1) by (intro nth_equalityI) (auto simp: nth_patch nth_append web_ok_def split: if_splits)
    show ?thesis using m c led_ne_lcd lb False pos p t u len
      by (intro exI [of _ "patch ?b (length xs) [10]"]) (simp add: get_command_def eq_commute)
  qed
qed

text \<open>A display command whose text is followed by a space inside the kept request puts
  exactly that text, plus signs read as spaces, into the display string, ends it with a line
  feed and raises the flag; nothing else changes.\<close>
theorem lcd_command_decodes:
  assumes "web_ok s" "off + 4 \<le> 64" "bytes_at (payload (TCP s)) off 3 = bytes_of ''lcd''"
    "drop (off + 4) (payload (TCP s)) = xs @ 32 # r" "32 \<notin> set xs" "xs \<noteq> []"
  shows "\<exists>b. get_command off s = Some (0, s\<lparr>lcd_string := b, lcd_string_len := of_nat (length xs + 1),
        lcd_string_changed := True\<rparr>)
    \<and> take (length xs + 1) b = map unplus xs @ [10]"
  using get_command_lcd [OF assms(1-5)] assms(6) by auto

text \<open>Decoding a command of the kept request leaves the 64 bytes exactly when the command is
  for the display and no space follows in the buffer: the loop reads the byte before it looks at
  its index.\<close>
theorem get_command_overreads:
  assumes "web_ok s" "off + 4 \<le> 64"
  shows "get_command off s = None \<longleftrightarrow>
    bytes_at (payload (TCP s)) off 3 = bytes_of ''lcd'' \<and> 32 \<notin> set (drop (off + 4) (payload (TCP s)))"
proof (cases "bytes_at (payload (TCP s)) off 3 = bytes_of ''lcd''")
  case False
  have "mem_get (payload (TCP s)) off 3 = Some (bytes_at (payload (TCP s)) off 3)"
    "byte_at (payload (TCP s)) (off + 3) \<noteq> None"
    using assms by (simp_all add: mem_get_def web_ok_def byte_at_def)
  then show ?thesis using False by (auto simp: get_command_def)
next
  case True
  have m: "mem_get (payload (TCP s)) off 3 = Some (bytes_of ''lcd'')"
    using assms True by (simp add: mem_get_def web_ok_def)
  show ?thesis
  proof (cases "32 \<in> set (drop (off + 4) (payload (TCP s)))")
    case s: True
    then obtain xs r where "drop (off + 4) (payload (TCP s)) = xs @ 32 # r" "32 \<notin> set xs"
      by (meson split_list_first)
    then show ?thesis using get_command_lcd [OF assms True] s by fastforce
  next
    case s: False
    then have "copy_text off 4 s = None" using assms(1) by (intro copy_text_none) (auto simp: web_ok_def)
    then show ?thesis using True s m led_ne_lcd by (simp add: get_command_def eq_commute)
  qed
qed
subsection \<open>Requests for the lights\<close>

definition led_bit :: "u8 \<Rightarrow> u8" where
  "led_bit c = (if c = 49 then 1 else if c = 50 then 2 else if c = 51 then 4 else 0)"

text \<open>A query of light commands: \<open>led\<close> and a digit at every eighth byte, an ampersand between
  two of them and none after the last, unless that is the fourth.\<close>

definition led_query :: "u8 list \<Rightarrow> u8 list \<Rightarrow> bool" where
  "led_query p cs \<longleftrightarrow> p ! 5 = 63 \<and> 0 < length cs \<and> length cs \<le> 4
    \<and> (\<forall>i<length cs. bytes_at p (6 + i * 8) 4 = bytes_of ''led'' @ [cs ! i])
    \<and> (\<forall>i<length cs. 0 < i \<longrightarrow> p ! (5 + i * 8) = 38)
    \<and> (length cs = 4 \<or> p ! (5 + length cs * 8) \<noteq> 38)"

lemma get_command_led:
  assumes "length (payload (TCP s)) = 64" "off + 4 \<le> 64"
    "bytes_at (payload (TCP s)) off 4 = bytes_of ''led'' @ [c]"
  shows "get_command off s = Some (led_bit c, s)"
proof -
  have l: "length (bytes_of ''led'') = 3" by (simp add: bytes_of_def)
  have "take 3 (bytes_at (payload (TCP s)) off 4) = bytes_of ''led''"
    "bytes_at (payload (TCP s)) off 4 ! 3 = c" using assms(3) l by (simp_all add: nth_append)
  then have "bytes_at (payload (TCP s)) off 3 = bytes_of ''led''" "payload (TCP s) ! (off + 3) = c"
    using assms(1,2) by (simp_all add: bytes_at_def)
  then show ?thesis using assms(1,2)
    by (simp add: get_command_def mem_get_def byte_at_def led_bit_def)
qed

lemma run_commands_leds:
  assumes "length (payload (TCP s)) = 64" "led_query (payload (TCP s)) cs"
    "i < length cs" "i + k = 4"
  shows "run_commands k i s = Some (s\<lparr>leds := fold (\<lambda>c a. a OR led_bit c) (drop i cs) (leds s)\<rparr>)"
  using assms
proof (induction k arbitrary: i s)
  case 0
  then show ?case by (simp add: led_query_def)
next
  case (Suc k)
  let ?p = "payload (TCP s)"
  have i: "i < 4" using Suc.prems(4) by simp
  have g: "get_command (6 + i * 8) s = Some (led_bit (cs ! i), s)"
    using Suc.prems i by (intro get_command_led) (auto simp: led_query_def)
  have b: "byte_at ?p (5 + (i + 1) * 8) = Some (?p ! (5 + (i + 1) * 8))"
    using Suc.prems(1) i by (simp add: byte_at_def)
  let ?s = "s\<lparr>leds := leds s OR led_bit (cs ! i)\<rparr>"
  have r: "run_commands (Suc k) i s
      = (if ?p ! (5 + (i + 1) * 8) \<noteq> 38 then Some ?s else run_commands k (i + 1) ?s)"
    using g b by simp
  have d: "drop i cs = cs ! i # drop (i + 1) cs" using Suc.prems(3) by (simp add: Cons_nth_drop_Suc)
  show ?case
  proof (cases "i + 1 < length cs")
    case True
    have "\<forall>j<length cs. 0 < j \<longrightarrow> ?p ! (5 + j * 8) = 38" using Suc.prems(2) by (simp add: led_query_def)
    from this [rule_format, of "i + 1"] True have "?p ! (5 + (i + 1) * 8) = 38" by simp
    moreover have "run_commands k (i + 1) ?s
        = Some (?s\<lparr>leds := fold (\<lambda>c a. a OR led_bit c) (drop (i + 1) cs) (leds ?s)\<rparr>)"
      using Suc.IH [of ?s "i + 1"] Suc.prems True by simp
    ultimately show ?thesis using r d by simp
  next
    case False
    then have e: "length cs = i + 1" using Suc.prems(3) by simp
    then have last: "drop (i + 1) cs = []" by simp
    show ?thesis
    proof (cases "?p ! (5 + (i + 1) * 8) = 38")
      case True
      then have "i = 3" using Suc.prems(2) e by (simp add: led_query_def)
      then show ?thesis using Suc.prems(4) r d last by simp
    next
      case False
      then show ?thesis using r d last by simp
    qed
  qed
qed

lemma led_pass:
  assumes "web_ok s" "got_html_req (TCP s)" "led_query (payload (TCP s)) cs" "\<not> lcd_string_changed s"
    and r: "r = fold (\<lambda>c a. a OR led_bit c) cs 0"
  shows "\<exists>v. main_step tks (s, l) = Some (s\<lparr>inp := ucast v, TCP := (TCP s)\<lparr>got_html_req := False\<rparr>, leds := r,
    trace := Wr32 PIO_1_BASE (NOT (ucast r)) # Rd32 PIO_0_BASE v # trace s\<rparr>, l)"
proof -
  obtain v t where v: "iord PIO_0_BASE 0 s = (v, t)" "t = s\<lparr>trace := Rd32 PIO_0_BASE v # trace s\<rparr>"
    by (simp add: iord_def rd32_def log_ev_def Let_def)
  let ?p = "payload (TCP s)"
  let ?t = "t\<lparr>inp := ucast v, TCP := (TCP s)\<lparr>got_html_req := False\<rparr>, leds := 0\<rparr>"
  have p: "length ?p = 64" "?p ! 5 = 63" "0 < length cs"
    using assms(1,3) by (simp_all add: web_ok_def led_query_def)
  then have q: "byte_at ?p 5 = Some 63" by (simp add: byte_at_def)
  have c: "run_commands 4 0 ?t = Some (?t\<lparr>leds := r\<rparr>)"
    using run_commands_leds [of ?t cs 0 4] p assms(3) r by simp
  have "serve_request (t\<lparr>inp := ucast v\<rparr>) = run_commands 4 0 ?t"
    using assms(2) q by (simp add: serve_request_def v(2))
  then show ?thesis using v c assms(4)
    by (intro exI [of _ v]) (simp add: main_step_def iowr_def wr32_def log_ev_def)
qed

text \<open>C20: a kept request with one to four light commands sets the lights to the union of the
  named ones, once: the pass of the main loop drives the port with their complement, clears the
  request, and leaves the rest of the connection, the display string and the display alone.\<close>
theorem leds_follow_request:
  assumes "web_ok s" "got_html_req (TCP s)" "led_query (payload (TCP s)) cs" "\<not> lcd_string_changed s"
  shows "\<exists>s'. main_step tks (s, l) = Some (s', l)
    \<and> leds s' = fold (\<lambda>c a. a OR led_bit c) cs 0
    \<and> hd (trace s') = Wr32 PIO_1_BASE (NOT (ucast (leds s')))
    \<and> TCP s' = (TCP s)\<lparr>got_html_req := False\<rparr> \<and> lcd_string s' = lcd_string s
    \<and> \<not> lcd_string_changed s'"
  using led_pass [OF assms refl, of tks l] assms(4) by auto

text \<open>A request for lights 1 and 3, and one for the display.\<close>

definition web_with :: "string \<Rightarrow> web" where
  "web_with req = net.extend ((boot_net LISTEN [])\<lparr>TCP := (boot_conn LISTEN)
      \<lparr>got_html_req := True, payload := bytes_of req @ replicate (64 - length req) 0\<rparr>\<rparr>)
    (web.fields 0 0 (replicate 64 0) 0 False)"

lemma web_with_fields:
  "payload (TCP (web_with req)) = bytes_of req @ replicate (64 - length req) 0"
  "got_html_req (TCP (web_with req))" "lcd_string (web_with req) = replicate 64 0"
  "\<not> lcd_string_changed (web_with req)"
  by (simp_all add: web_with_def net.defs web.defs)

lemma leds_follow_request_witness:
  "\<exists>s'. main_step [] (web_with ''GET /?led1=on&led3=on HTTP'', boot_lcd) = Some (s', boot_lcd) \<and> leds s' = 5"
proof -
  let ?s = "web_with ''GET /?led1=on&led3=on HTTP''"
  have p: "payload (TCP ?s) = [71, 69, 84, 32, 47, 63, 108, 101, 100, 49, 61, 111, 110, 38,
      108, 101, 100, 51, 61, 111, 110, 32, 72, 84, 84, 80] @ replicate 38 0"
    unfolding web_with_fields by (simp add: bytes_of_def)
  have q: "led_query (payload (TCP ?s)) [49, 51]" "length (payload (TCP ?s)) = 64"
    unfolding p by code_simp+
  then have "web_ok ?s" by (simp add: web_ok_def web_with_fields)
  moreover have "fold (\<lambda>c a. a OR led_bit c) [49, 51] 0 = (5 :: u8)" by (simp add: led_bit_def)
  ultimately show ?thesis
    using leds_follow_request [OF _ web_with_fields(2) q(1) web_with_fields(4), of "[]" boot_lcd] by auto
qed
definition lcd_request :: web where
  "lcd_request = web_with ''GET /?lcd=Hi+you HTTP''"

lemma lcd_request_facts:
  "web_ok lcd_request" "bytes_at (payload (TCP lcd_request)) 6 3 = bytes_of ''lcd''"
  "drop (6 + 4) (payload (TCP lcd_request)) = bytes_of ''Hi+you'' @ 32 # bytes_of ''HTTP'' @ replicate 43 0"
proof -
  have p: "payload (TCP lcd_request) = [71, 69, 84, 32, 47, 63, 108, 99, 100, 61, 72, 105, 43,
      121, 111, 117, 32, 72, 84, 84, 80] @ replicate 43 0"
    unfolding lcd_request_def web_with_fields by (simp add: bytes_of_def)
  have "length (payload (TCP lcd_request)) = 64" unfolding p by simp
  then show "web_ok lcd_request" by (simp add: web_ok_def lcd_request_def web_with_fields)
  show "bytes_at (payload (TCP lcd_request)) 6 3 = bytes_of ''lcd''"
    unfolding p by (simp add: bytes_at_def bytes_of_def)
  show "drop (6 + 4) (payload (TCP lcd_request)) = bytes_of ''Hi+you'' @ 32 # bytes_of ''HTTP'' @ replicate 43 0"
    unfolding p by (simp add: bytes_of_def)
qed

lemma lcd_command_decodes_witness:
  "\<exists>b. get_command 6 lcd_request = Some (0, lcd_request\<lparr>lcd_string := b, lcd_string_len := 7,
      lcd_string_changed := True\<rparr>) \<and> take 7 b = bytes_of ''Hi you'' @ [10]"
proof -
  have x: "bytes_of ''Hi+you'' = [72, 105, 43, 121, 111, 117]" "bytes_of ''Hi you'' = [72, 105, 32, 121, 111, 117]"
    by (simp_all add: bytes_of_def)
  have seven: "Suc (Suc (Suc (Suc (Suc (Suc (Suc 0)))))) = 7" by simp
  from lcd_command_decodes [OF lcd_request_facts(1) _ lcd_request_facts(2,3)] show ?thesis
    unfolding x by (simp add: unplus_def seven)
qed

lemma get_command_overreads_witness:
  "get_command 56 (web_with ''GET /?led1&lcd=abc'') \<noteq> None
    \<and> (\<exists>s :: web. web_ok s \<and> get_command 6 s = None)"
proof -
  have len: "web_ok (web_with ''GET /?led1&lcd=abc'')" "web_ok (web_with ''GET /?lcd=abc'')"
    by (simp_all add: web_ok_def web_with_fields bytes_of_def)
  have p: "payload (TCP (web_with ''GET /?lcd=abc'')) = [71, 69, 84, 32, 47, 63, 108, 99, 100, 61, 97, 98, 99]
      @ replicate 51 0" unfolding web_with_fields by (simp add: bytes_of_def)
  have q: "payload (TCP (web_with ''GET /?led1&lcd=abc'')) = [71, 69, 84, 32, 47, 63, 108, 101, 100, 49, 38,
      108, 99, 100, 61, 97, 98, 99] @ replicate 46 0" unfolding web_with_fields by (simp add: bytes_of_def)
  have "bytes_at (payload (TCP (web_with ''GET /?lcd=abc''))) 6 3 = bytes_of ''lcd''"
    "32 \<notin> set (drop (6 + 4) (payload (TCP (web_with ''GET /?lcd=abc''))))"
    unfolding p by (simp_all add: bytes_at_def bytes_of_def)
  then have "get_command 6 (web_with ''GET /?lcd=abc'') = None"
    using get_command_overreads [OF len(2), of 6] by simp
  moreover have "bytes_at (payload (TCP (web_with ''GET /?led1&lcd=abc''))) 56 3 \<noteq> bytes_of ''lcd''"
    unfolding q by code_simp
  then have "get_command 56 (web_with ''GET /?led1&lcd=abc'') \<noteq> None"
    using get_command_overreads [OF len(1), of 56] by simp
  ultimately show ?thesis using len(2) by blast
qed

end
