(* ===== verification/Handover.thy ===== *)
theory Handover
  imports WebApp
begin

text \<open>
  The interrupt handlers of \<open>tcp_socket.c\<close> and the main loop of \<open>tcp_webserver.c\<close> together, with
  received frames, timer interrupts and passes of the main loop in any order.  The connection
  structure is all they share: the handlers leave the fields of the application alone, and a
  pass of the main loop changes nothing of the connection but the mark of a kept request.
\<close>

subsection \<open>What the handlers leave alone\<close>

text \<open>The fields of the application are what \<open>web\<close> adds to \<open>net\<close>.\<close>

abbreviation app_kept :: "('a net_scheme \<Rightarrow> 'a net_scheme option) \<Rightarrow> 'a net_scheme \<Rightarrow> bool" where
  "app_kept f s \<equiv> (\<forall>t. f s = Some t \<longrightarrow> net.more t = net.more s)"

lemma upd_more [simp]: "net.more (upd_conn f s) = net.more s"
  by (simp add: upd_conn_def)

lemma ack_check_more [simp]: "net.more (ack_check s) = net.more s"
  using ack_check_eq [of s] by auto

lemma timer_more [simp]: "net.more (timer_control b v s) = net.more s" "net.more (iowr b n v s) = net.more s"
  for s :: "'a net_scheme"
  by (simp_all add: timer_control_def iowr_def wr32_def log_ev_def)

lemma send_more: "app_kept (send_packet a n) s"
  by (auto simp: sends_def dest!: send_packet_sends)

lemma rearm_more: "app_kept rearm_rx s"
  by (auto simp: bus_only_net dest!: rearm_rx_bus_only)

lemma create_more: "app_kept (create_tcp_pkt fl d h n) s"
  by (auto simp: create_tcp_pkt_def Let_def split: bind_splits)

lemma copy_more: "app_kept (copy_payload n) s"
  by (auto simp: copy_payload_def split: bind_splits)

lemmas more_kept = send_more [rule_format] rearm_more [rule_format] create_more [rule_format]
  copy_more [rule_format]

lemma arp_more: "app_kept rx_arp s"
  by (auto simp: rx_arp_def arp_reply_def split: bind_splits if_splits dest!: more_kept)

lemma listen_more: "app_kept on_listen s"
  by (auto simp: on_listen_def Let_def split: bind_splits if_splits dest!: more_kept)

lemma page_more: "app_kept send_page s" and close_more: "app_kept close_or_ack s"
  by (auto simp: send_page_def close_or_ack_def Let_def split: bind_splits if_splits dest!: more_kept)

lemma syn_more: "app_kept on_syn_received s" and last_more: "app_kept on_last_ack s"
  by (auto simp: on_syn_received_def on_last_ack_def Let_def split: if_splits)

lemma fin_more: "app_kept on_fin_wait s"
  by (auto simp: on_fin_wait_def Let_def split: bind_splits if_splits dest!: more_kept)

lemma est_more: "app_kept on_established s"
  by (auto simp: on_established_def Let_def split: bind_splits if_splits
      dest!: page_more [rule_format] close_more [rule_format])

lemma tcp_more: "app_kept rx_tcp s"
  using listen_more syn_more est_more fin_more last_more
  by (fastforce simp: rx_tcp_def tcp_switch_def Let_def split: if_splits tcp_state.splits)

lemma rx_isr_more: "rx_ethernet_isr s = Some t \<Longrightarrow> net.more t = net.more s"
  by (auto simp: rx_ethernet_isr_def split: bind_splits
      dest!: arp_more [rule_format] tcp_more [rule_format] rearm_more [rule_format])

lemma timeout_isr_more: "timeout_isr s = Some t \<Longrightarrow> net.more t = net.more s"
  by (auto simp: timeout_isr_def timeout_listen_def timeout_established_def inc_secs_def Let_def
      split: bind_splits if_splits tcp_state.splits dest!: more_kept)

subsection \<open>What a pass of the main loop leaves alone\<close>

text \<open>The display text of a request is at most 61 bytes long and stays inside its array.\<close>

definition text_ok :: "'a web_scheme \<Rightarrow> bool" where
  "text_ok s \<longleftrightarrow> length (lcd_string s) = 64 \<and> unat (lcd_string_len s) \<le> 61"

lemma copy_text_keeps:
  "copy_text off n s = Some (m, t) \<Longrightarrow> n \<le> 64 \<Longrightarrow>
    m \<le> 64 \<and> (\<exists>b. t = s\<lparr>lcd_string := b\<rparr> \<and> length b = length (lcd_string s))"
proof (induction off n s arbitrary: m t rule: copy_text.induct)
  case (1 off n s)
  obtain c where c: "byte_at (payload (TCP s)) (off + n) = Some c"
    using 1(2) by (auto simp: copy_text.simps [of off n s] split: bind_splits)
  show ?case
  proof (cases "c \<noteq> 32 \<and> n < 64")
    case True
    obtain b where b: "mem_put (lcd_string s) (n - 4) [if c = 43 then 32 else c] = Some b"
      using 1(2) c True by (auto simp: copy_text.simps [of off n s] split: bind_splits)
    have "copy_text off (n + 1) (s\<lparr>lcd_string := b\<rparr>) = Some (m, t)"
      using 1(2) c b True by (simp add: copy_text.simps [of off n s])
    from 1(1) [OF c True b this] True have "m \<le> 64"
      "\<exists>b'. t = (s\<lparr>lcd_string := b\<rparr>)\<lparr>lcd_string := b'\<rparr> \<and> length b' = length b" by auto
    moreover have "length b = length (lcd_string s)"
      using b by (auto simp: mem_put_def patch_def split: if_splits)
    ultimately show ?thesis by (auto intro: exI)
  next
    case False
    then have "m = n" "t = s" using 1(2) c by (auto simp: copy_text.simps [of off n s])
    then show ?thesis using 1(3) by (auto intro!: exI [of _ "lcd_string s"])
  qed
qed

lemma text_len: "unat (of_nat (m - 4) :: u8) = m - 4" if "m \<le> 64"
  using that by (simp add: unat_of_nat)

lemma get_command_keeps:
  assumes "get_command off s = Some (c, t)" "text_ok s"
  shows "net.truncate t = net.truncate s \<and> text_ok t \<and> leds t = leds s \<and> inp t = inp s"
proof (cases "mem_get (payload (TCP s)) off 3 = Some (bytes_of ''lcd'')")
  case False
  then have "t = s" using assms(1) by (auto simp: get_command_def split: bind_splits if_splits)
  then show ?thesis using assms(2) by simp
next
  case True
  obtain m u where m: "copy_text off 4 s = Some (m, u)"
    using assms(1) True led_ne_lcd by (auto simp: get_command_def eq_commute split: bind_splits)
  then obtain b where b: "m \<le> 64" "u = s\<lparr>lcd_string := b\<rparr>" "length b = 64"
    using copy_text_keeps [OF m] assms(2) by (auto simp: text_ok_def)
  let ?n = "of_nat (m - 4) :: u8"
  have eq: "get_command off s = (if ?n > 0 then do {
      b' \<leftarrow> mem_put b (unat ?n) [10];
      Some (0, s\<lparr>lcd_string := b', lcd_string_len := ?n + 1, lcd_string_changed := True\<rparr>)
    } else Some (0, s\<lparr>lcd_string := b, lcd_string_len := ?n, lcd_string_changed := True\<rparr>))"
    using True m b(2) led_ne_lcd [symmetric] by (simp add: get_command_def Let_def)
  have len: "unat ?n \<le> 60" "unat (?n + 1) \<le> 61"
    using b(1) text_len [OF b(1)] by (simp_all add: unat_word_ariths)
  show ?thesis
  proof (cases "?n > 0")
    case pos: True
    obtain b' where b': "mem_put b (unat ?n) [10] = Some b'"
      "t = s\<lparr>lcd_string := b', lcd_string_len := ?n + 1, lcd_string_changed := True\<rparr>"
      using assms(1) eq pos by (auto split: bind_splits)
    then have "length b' = 64" using b(3) mem_put_length by metis
    then show ?thesis using b' len by (simp add: text_ok_def net.defs)
  next
    case False
    then have "t = s\<lparr>lcd_string := b, lcd_string_len := ?n, lcd_string_changed := True\<rparr>"
      using assms(1) eq by simp
    then show ?thesis using b(3) len by (simp add: text_ok_def net.defs)
  qed
qed

lemma truncate_TCP: "net.truncate t = net.truncate s \<Longrightarrow> TCP t = TCP s"
  by (simp add: net.defs)

lemma run_commands_keeps:
  "run_commands k i s = Some t \<Longrightarrow> text_ok s \<Longrightarrow> net.truncate t = net.truncate s \<and> text_ok t"
proof (induction k arbitrary: i s)
  case 0
  then show ?case by simp
next
  case (Suc k)
  obtain c u where u: "get_command (6 + i * 8) s = Some (c, u)"
    using Suc.prems(1) by (auto split: bind_splits)
  let ?u = "u\<lparr>leds := leds u OR c\<rparr>"
  have k: "net.truncate ?u = net.truncate s" "text_ok ?u"
    using get_command_keeps [OF u Suc.prems(2)] by (simp_all add: net.defs text_ok_def)
  have "t = ?u \<or> run_commands k (i + 1) ?u = Some t"
    using Suc.prems(1) u by (auto simp: Let_def split: bind_splits if_splits)
  then show ?case using Suc.IH [of "i + 1" ?u] k by auto
qed

text \<open>A command of the display with no space after it, at one of the four places.\<close>

definition overread :: "u8 list \<Rightarrow> bool" where
  "overread p \<longleftrightarrow> (\<exists>j<4. bytes_at p (6 + j * 8) 3 = bytes_of ''lcd'' \<and> 32 \<notin> set (drop (10 + j * 8) p))"

lemma run_commands_none:
  "run_commands k i s = None \<Longrightarrow> i + k = 4 \<Longrightarrow> text_ok s \<Longrightarrow> length (payload (TCP s)) = 64
    \<Longrightarrow> overread (payload (TCP s))"
proof (induction k arbitrary: i s)
  case 0
  then show ?case by simp
next
  case (Suc k)
  have i: "i < 4" using Suc.prems(2) by simp
  show ?case
  proof (cases "get_command (6 + i * 8) s")
    case None
    moreover have "web_ok s" "6 + i * 8 + 4 \<le> 64" using Suc.prems(3,4) i by (simp_all add: web_ok_def text_ok_def)
    ultimately have "bytes_at (payload (TCP s)) (6 + i * 8) 3 = bytes_of ''lcd''
      \<and> 32 \<notin> set (drop (6 + i * 8 + 4) (payload (TCP s)))" using get_command_overreads by blast
    then show ?thesis using i unfolding overread_def by (intro exI [of _ i]) (simp add: add.commute)
  next
    case (Some cu)
    obtain c u where u: "get_command (6 + i * 8) s = Some (c, u)" using Some by (cases cu) auto
    let ?u = "u\<lparr>leds := leds u OR c\<rparr>"
    have p: "TCP ?u = TCP s" "text_ok ?u"
      using get_command_keeps [OF u Suc.prems(3)] truncate_TCP [of u s] by (simp_all add: text_ok_def)
    have "byte_at (payload (TCP s)) (5 + (i + 1) * 8) \<noteq> None"
      using Suc.prems(4) i by (simp add: byte_at_def)
    then have "run_commands k (i + 1) ?u = None"
      using Suc.prems(1) u p by (auto simp: Let_def split: bind_splits if_splits)
    then show ?thesis using Suc.IH [of "i + 1" ?u] Suc.prems p i by simp
  qed
qed

text \<open>The request is consumed and nothing else of the network half is touched.\<close>

definition consumed :: "'a net_scheme \<Rightarrow> 'b net_scheme \<Rightarrow> bool" where
  "consumed s t \<longleftrightarrow> (\<exists>tr. net.truncate t
     = (net.truncate s)\<lparr>trace := tr, TCP := (TCP s)\<lparr>got_html_req := False\<rparr>\<rparr>)"

lemma serve_request_keeps:
  assumes "serve_request s = Some t" "text_ok s"
  shows "consumed s t \<and> text_ok t"
proof (cases "got_html_req (TCP s)")
  case False
  then have "(TCP s)\<lparr>got_html_req := False\<rparr> = TCP s" by (cases "TCP s") simp
  then show ?thesis using assms False
    by (auto simp: serve_request_def consumed_def net.defs intro!: exI [of _ "trace s"])
next
  case True
  let ?s = "s\<lparr>TCP := (TCP s)\<lparr>got_html_req := False\<rparr>\<rparr>"
  have "t = ?s \<or> run_commands 4 0 (?s\<lparr>leds := 0\<rparr>) = Some t"
    using assms(1) True by (auto simp: serve_request_def Let_def split: bind_splits if_splits)
  then have "net.truncate t = net.truncate ?s \<and> text_ok t"
    using run_commands_keeps [of 4 0 "?s\<lparr>leds := 0\<rparr>" t] assms(2) by (auto simp: text_ok_def net.defs)
  then show ?thesis by (auto simp: consumed_def net.defs intro!: exI [of _ "trace s"])
qed

lemma serve_request_none:
  assumes "serve_request s = None" "text_ok s" "length (payload (TCP s)) = 64"
  shows "got_html_req (TCP s) \<and> overread (payload (TCP s))"
proof -
  let ?s = "s\<lparr>TCP := (TCP s)\<lparr>got_html_req := False\<rparr>, leds := 0\<rparr>"
  have "byte_at (payload (TCP s)) 5 \<noteq> None" using assms(3) by (simp add: byte_at_def)
  then have "got_html_req (TCP s)" "run_commands 4 0 ?s = None"
    using assms(1) by (auto simp: serve_request_def Let_def split: bind_splits if_splits)
  then show ?thesis using run_commands_none [of 4 0 ?s] assms(2,3) by (simp add: text_ok_def)
qed

lemma consumed_inv: "consumed s t \<Longrightarrow> srv_inv s \<Longrightarrow> srv_inv t"
  for s :: "'a net_scheme" and t :: "'b net_scheme"
  unfolding consumed_def net.defs
  by (auto simp: srv_inv_def srv_ok_def bufs_ok_def dma_live_def)

text \<open>One pass: the input is read and the request served, the port driven, the text shown.\<close>

definition polled :: "'a web_scheme \<Rightarrow> 'a web_scheme" where
  "polled s = (snd (iord PIO_0_BASE 0 s))\<lparr>inp := ucast (fst (iord PIO_0_BASE 0 s))\<rparr>"

definition shown_text :: "'a web_scheme \<Rightarrow> u8 list" where
  "shown_text t = take (unat (lcd_string_len t)) (lcd_string t)"

lemma main_step_cases:
  fixes s :: "'a web_scheme" and l :: "'b lcd_scheme"
  defines "s1 \<equiv> polled s"
  assumes "text_ok s"
  obtains (stuck) "main_step tks (s, l) = None" "serve_request s1 = None"
  | (dark) t where "serve_request s1 = Some t" "\<not> lcd_string_changed t"
      "main_step tks (s, l) = Some (iowr PIO_1_BASE 0 (NOT (ucast (leds t))) t, l)"
  | (shown) t where "serve_request s1 = Some t" "lcd_string_changed t"
      "main_step tks (s, l) = do {
         (_, l') \<leftarrow> altera_avalon_lcd_16207_write tks (shown_text t) l;
         Some ((iowr PIO_1_BASE 0 (NOT (ucast (leds t))) t)\<lparr>lcd_string_changed := False\<rparr>, l') }"
proof (cases "serve_request s1")
  case None
  then show ?thesis using stuck by (simp add: main_step_def s1_def polled_def case_prod_unfold Let_def)
next
  case (Some t)
  have "text_ok s1" using assms(2) by (simp add: s1_def polled_def text_ok_def iord_def rd32_def log_ev_def Let_def)
  then have "text_ok t" using serve_request_keeps Some by blast
  then have "mem_get (lcd_string t) 0 (unat (lcd_string_len t)) = Some (shown_text t)"
    by (simp add: shown_text_def text_ok_def mem_get_def bytes_at_def)
  then show ?thesis using dark shown Some
    by (cases "lcd_string_changed t")
      (simp_all add: main_step_def s1_def polled_def case_prod_unfold Let_def iowr_def wr32_def log_ev_def)
qed

lemma bus_consumed:
  fixes s :: "'a web_scheme" and t :: "'b web_scheme"
  shows "consumed (polled s) t = consumed s t"
    "consumed s (iowr p n w t) = consumed s t" "consumed s (t\<lparr>lcd_string_changed := ch\<rparr>) = consumed s t"
    "text_ok (polled s) = text_ok s" "text_ok (iowr p n w t) = text_ok t"
    "text_ok (t\<lparr>lcd_string_changed := ch\<rparr>) = text_ok t"
    "lcd_string_changed (iowr p n w t) = lcd_string_changed t"
  by (simp_all add: polled_def consumed_def net.defs text_ok_def iord_def rd32_def iowr_def wr32_def log_ev_def Let_def)

subsection \<open>The system\<close>

text \<open>A frame and its interrupt, a timer interrupt, or a pass of the main loop, during whose
  display output the display's own timer ticks at \<open>tks\<close>.\<close>

inductive sys_reach :: "'a web_scheme \<times> 'b lcd_scheme \<Rightarrow> 'a web_scheme \<times> 'b lcd_scheme \<Rightarrow> bool" for x0 where
  start: "sys_reach x0 x0"
| frame: "sys_reach x0 (s, l) \<Longrightarrow> length f = 1518 \<Longrightarrow> rx_ethernet_isr (deliver f s) = Some t
    \<Longrightarrow> sys_reach x0 (t, l)"
| tick: "sys_reach x0 (s, l) \<Longrightarrow> timeout_isr s = Some t \<Longrightarrow> sys_reach x0 (t, l)"
| pass: "sys_reach x0 (s, l) \<Longrightarrow> main_step tks (s, l) = Some (t, k) \<Longrightarrow> sys_reach x0 (t, k)"

definition sys_inv :: "'a web_scheme \<times> 'b lcd_scheme \<Rightarrow> bool" where
  "sys_inv = (\<lambda>(s, l). srv_inv s \<and> text_ok s \<and> \<not> lcd_string_changed s \<and> lcd_inv l)"

lemma text_ok_more: "net.more t = net.more s \<Longrightarrow> text_ok t = text_ok s"
  and changed_more: "net.more t = net.more s \<Longrightarrow> lcd_string_changed t = lcd_string_changed s"
  by (cases s; cases t; simp add: text_ok_def)+

lemma deliver_more [simp]: "net.more (deliver f s) = net.more s"
  by (simp add: deliver_def)

lemma pass_keeps:
  assumes "main_step tks (s, l) = Some (t, k)" "text_ok s" "lcd_inv l"
  shows "consumed s t \<and> text_ok t \<and> \<not> lcd_string_changed t \<and> lcd_inv k"
proof (rule main_step_cases [OF assms(2), of tks l])
  fix u
  assume u: "serve_request (polled s) = Some u"
  have k: "consumed s u" "text_ok u"
    using serve_request_keeps [OF u] assms(2) by (simp_all add: bus_consumed)
  show ?thesis if "\<not> lcd_string_changed u" "main_step tks (s, l) = Some (iowr PIO_1_BASE 0 (NOT (ucast (leds u))) u, l)"
    using that k assms(1,3) by (auto simp: bus_consumed)
  show ?thesis if m: "main_step tks (s, l) = do {
         (_, l') \<leftarrow> altera_avalon_lcd_16207_write tks (shown_text u) l;
         Some ((iowr PIO_1_BASE 0 (NOT (ucast (leds u))) u)\<lparr>lcd_string_changed := False\<rparr>, l') }"
  proof -
    obtain n where "altera_avalon_lcd_16207_write tks (shown_text u) l = Some (n, k)"
      and t: "t = (iowr PIO_1_BASE 0 (NOT (ucast (leds u))) u)\<lparr>lcd_string_changed := False\<rparr>"
      using m assms(1) by (auto split: bind_splits)
    then have "lcd_inv k"
      using lcd_write_outcome [OF assms(3), of tks "shown_text u"]
      by (auto split: option.splits)
    then show ?thesis using t k by (auto simp: bus_consumed)
  qed
qed (use assms(1) in simp)

lemma sys_reach_inv: "sys_reach x0 x \<Longrightarrow> sys_inv x0 \<Longrightarrow> sys_inv x"
proof (induction rule: sys_reach.induct)
  case (frame s l f t)
  then show ?case using rx_isr_inv [of s f t] text_ok_more [OF rx_isr_more, of "deliver f s" t]
      text_ok_more [of "deliver f s" s] changed_more [OF rx_isr_more, of "deliver f s" t]
      changed_more [of "deliver f s" s] by (simp add: sys_inv_def)
next
  case (tick s l t)
  then show ?case using timeout_isr_inv(1) [of s t] text_ok_more [OF timeout_isr_more, of s t]
      changed_more [OF timeout_isr_more, of s t] by (simp add: sys_inv_def)
next
  case (pass s l tks t k)
  then show ?case using pass_keeps [OF pass(2)] consumed_inv [of s t] by (simp add: sys_inv_def)
qed simp

lemma serve_changes:
  "serve_request s = Some t \<Longrightarrow> \<not> lcd_string_changed s \<Longrightarrow> lcd_string_changed t \<Longrightarrow> got_html_req (TCP s)"
  by (auto simp: serve_request_def split: if_splits)

lemma polled_fields: "TCP (polled s) = TCP s" "lcd_string_changed (polled s) = lcd_string_changed s"
  by (simp_all add: polled_def iord_def rd32_def log_ev_def Let_def)

lemma pass_fails:
  assumes "sys_inv (s, l)" "main_step tks (s, l) = None"
  shows "got_html_req (TCP s) \<and> (overread (payload (TCP s))
    \<or> (\<exists>u p r v. serve_request (polled s) = Some u \<and> shown_text u = p @ 75 # r
        \<and> for_each lcd_put p (l\<lparr>active := True\<rparr>) = Some v \<and> unat (cur_y v) = 2 \<and> 0 \<le> esccount v))"
proof -
  have i: "text_ok s" "\<not> lcd_string_changed s" "lcd_inv l" "length (payload (TCP s)) = 64"
    using assms(1) srv_conn [of s] by (simp_all add: sys_inv_def srv_inv_def conn_ok_def)
  show ?thesis
  proof (rule main_step_cases [OF i(1), of tks l])
    assume "serve_request (polled s) = None"
    then show ?thesis using serve_request_none [of "polled s"] i by (simp add: polled_fields bus_consumed)
  next
    fix u
    assume u: "serve_request (polled s) = Some u" "lcd_string_changed u"
      "main_step tks (s, l) = do {
         (_, l') \<leftarrow> altera_avalon_lcd_16207_write tks (shown_text u) l;
         Some ((iowr PIO_1_BASE 0 (NOT (ucast (leds u))) u)\<lparr>lcd_string_changed := False\<rparr>, l') }"
    then have "altera_avalon_lcd_16207_write tks (shown_text u) l = None"
      using assms(2) by (auto split: bind_splits)
    then show ?thesis using lcd_write_outcome [OF i(3), of tks "shown_text u"] u(1)
        serve_changes [OF u(1) _ u(2)] i(2) by (auto simp: polled_fields split: option.splits)
  qed (use assms(2) in simp)
qed

subsection \<open>A request on its way to the lights\<close>







lemma ack_check_request [simp]: "got_html_req (TCP (ack_check s)) = got_html_req (TCP s)"
  "payload (TCP (ack_check s)) = payload (TCP s)" "state (TCP (ack_check s)) = state (TCP s)"
  using ack_check_eq [of s] by auto

lemma advance_request [simp]: "got_html_req (ack_advance c) = got_html_req c"
  "payload (ack_advance c) = payload c" "state (ack_advance c) = state c"
  by (simp_all add: ack_advance_def)





subsection \<open>Properties\<close>

text \<open>In whatever order frames arrive, the timer interrupts and the main loop makes its
  passes, every frame handed to the hardware is an ARP packet or has good checksums, the next
  frame, whatever it contains, is handled without leaving a buffer, and the display text stays
  in its array.  A pass of the main loop returns, with two exceptions, both caused by a kept
  request: a display command without a space after it, whose copy leaves the request's 64
  bytes, and a display text that erases to the end of the line below the last line.\<close>
theorem system_safe:
  fixes s :: "'a web_scheme" and l :: "'b lcd_scheme"
  assumes "sys_inv x0" "sys_reach x0 (s, l)" "length f = 1518"
  shows "(\<forall>fr\<in>set (sent s). good_frame fr) \<and> used_state (state (TCP s))
    \<and> (\<exists>t. rx_ethernet_isr (deliver f s) = Some t)
    \<and> length (lcd_string s) = 64 \<and> unat (lcd_string_len s) \<le> 61
    \<and> ((\<exists>y. main_step tks (s, l) = Some y) \<or> got_html_req (TCP s) \<and> (overread (payload (TCP s))
      \<or> (\<exists>u p r v. serve_request (polled s) = Some u \<and> shown_text u = p @ 75 # r
          \<and> for_each lcd_put p (l\<lparr>active := True\<rparr>) = Some v \<and> unat (cur_y v) = 2 \<and> 0 \<le> esccount v)))"
proof -
  have i: "sys_inv (s, l)" using sys_reach_inv assms(1,2) by blast
  then have v: "srv_inv s" "text_ok s" by (simp_all add: sys_inv_def)
  then have "srv_ok (deliver f s)" using assms(3) by (simp add: deliver_ok srv_inv_def)
  then have "\<exists>t. rx_ethernet_isr (deliver f s) = Some t" using rx_isr_effect by blast
  then show ?thesis using v pass_fails [OF i, of tks]
    by (cases "main_step tks (s, l)") (simp_all add: srv_inv_def srv_ok_def text_ok_def)
qed


text \<open>Both at work: the established connection of the samples, and a request for lights 1 and 3.\<close>

definition boot_web :: "u8 list \<Rightarrow> web" where
  "boot_web f = net.extend (boot_net ESTABLISHED f) (web.fields 0 0 (replicate 64 0) 0 False)"

definition led_frame :: "u8 list" where
  "led_frame = client_frame [0x13, 0x37, 0, 1] 66 0x18 (bytes_of ''GET /?led1=on&led3=on HTTP'')"

lemma led_frame_length [simp]: "length led_frame = 1518"
  by (simp add: led_frame_def client_frame_def bytes_of_def my_mac_def my_ip_def)


lemma boot_web_fields [simp]:
  "rx_frame (boot_web f) = f" "TCP (boot_web f) = boot_conn ESTABLISHED" "\<not> lcd_string_changed (boot_web f)"
  "hw (boot_web f) = (\<lambda>_ _. 0)" "sent (boot_web f) = []"
  by (simp_all add: boot_web_def net.defs web.defs)

lemma boot_web_ok: "length f = 1518 \<Longrightarrow> srv_inv (boot_web f)" "text_ok (boot_web f)"
proof -
  show "srv_inv (boot_web f)" if "length f = 1518"
    using boot_inv [OF that, of ESTABLISHED]
    by (simp add: boot_web_def net.defs srv_inv_def srv_ok_def bufs_ok_def dma_live_def used_state_def)
  show "text_ok (boot_web f)" by (simp add: boot_web_def net.defs web.defs text_ok_def)
qed


lemma system_safe_witness:
  "\<exists>t. rx_ethernet_isr (deliver syn_frame (boot_web led_frame)) = Some t"
proof -
  have "sys_inv (boot_web led_frame, boot_lcd)"
    using boot_web_ok boot_lcd_inv(1) by (simp add: sys_inv_def)
  from system_safe [OF this sys_reach.start, of syn_frame] show ?thesis by simp
qed


end
