(* ===== verification/Ring.thy ===== *)
theory Ring
  imports Prelude
begin

text \<open>
  Ring buffers: an array of bytes with an index that reads (\<open>r\<close>) and one that writes
  (\<open>w\<close>), both below its length, equal when the ring is empty.  \<open>ring b r w\<close> is the queue such
  an array holds.  The JTAG UART driver has two of them.
\<close>

definition ring :: "u8 list \<Rightarrow> nat \<Rightarrow> nat \<Rightarrow> u8 list" where
  "ring b r w = (if r \<le> w then bytes_at b r (w - r) else drop r b @ take w b)"

definition ring_free :: "nat \<Rightarrow> nat \<Rightarrow> nat \<Rightarrow> nat" where
  "ring_free n r w = (if w < r then r - 1 - w else n - 1 - w + r)"

lemma ring_empty [simp]: "ring b r r = []"
  by (simp add: ring_def bytes_at_def)

lemma ring_length:
  "r < length b \<Longrightarrow> w < length b \<Longrightarrow>
    length (ring b r w) = (if r \<le> w then w - r else length b - r + w)"
  by (auto simp: ring_def bytes_at_def)

lemma ring_length_free:
  "r < length b \<Longrightarrow> w < length b \<Longrightarrow> length (ring b r w) + ring_free (length b) r w = length b - 1"
  by (auto simp: ring_length ring_free_def)

lemma ring_Nil_iff: "r < length b \<Longrightarrow> w < length b \<Longrightarrow> ring b r w = [] \<longleftrightarrow> r = w"
  by (subst length_0_conv [symmetric]) (auto simp: ring_length)

text \<open>Taking from the front, up to the end of the array.\<close>

lemma ring_get:
  assumes "r < length b" "w < length b" "n \<le> (if r \<le> w then w - r else length b - r)"
  shows "ring b r w = bytes_at b r n @ ring b ((r + n) mod length b) w"
proof (cases "r \<le> w")
  case True
  then have "(r + n) mod length b = r + n" "r + n \<le> w" using assms by auto
  moreover have "take (w - r) (drop r b) = take n (drop r b) @ take (w - r - n) (drop (r + n) b)"
    using calculation(2) take_add [of n "w - r - n" "drop r b"] by (simp add: add.commute)
  ultimately show ?thesis using True by (simp add: ring_def bytes_at_def)
next
  case False
  have d: "drop r b = take n (drop r b) @ drop (r + n) b"
    using append_take_drop_id [of n "drop r b"] by (simp add: add.commute)
  show ?thesis
  proof (cases "r + n = length b")
    case True
    then show ?thesis using False assms by (auto simp: ring_def bytes_at_def)
  next
    case F: False
    then have "(r + n) mod length b = r + n" using assms False by auto
    then show ?thesis using False assms d by (auto simp: ring_def bytes_at_def)
  qed
qed

lemma ring_get1:
  assumes "r < length b" "w < length b" "r \<noteq> w"
  shows "ring b r w = b ! r # ring b ((r + 1) mod length b) w"
proof -
  have "bytes_at b r 1 = [b ! r]"
    using assms by (simp add: bytes_at_def take_Suc_conv_app_nth)
  moreover have "1 \<le> (if r \<le> w then w - r else length b - r)" using assms by auto
  ultimately show ?thesis using ring_get [of r b w 1] assms by simp
qed

text \<open>Putting at the end, up to the end of the array.\<close>

lemma ring_put:
  assumes "r < length b" "w < length b" "w + length xs \<le> length b"
    "length xs \<le> ring_free (length b) r w"
  shows "ring (patch b w xs) r ((w + length xs) mod length b) = ring b r w @ xs"
proof (cases "r \<le> w")
  case True
  show ?thesis
  proof (cases "w + length xs = length b")
    case T: True
    then show ?thesis using True assms
      by (auto simp: ring_def patch_def bytes_at_def ring_free_def drop_take)
  next
    case F: False
    have "drop r (take w b) @ xs = take (w + length xs - r) (drop r (take w b) @ xs @ drop (w + length xs) b)"
      using True assms by simp
    then show ?thesis using True assms F
      by (auto simp: ring_def patch_def bytes_at_def drop_take)
  qed
next
  case False
  then have "w + length xs < r" using assms by (auto simp: ring_free_def)
  then show ?thesis using False assms
    by (auto simp: ring_def patch_def)
qed

lemma ring_put1:
  assumes "r < length b" "w < length b" "(w + 1) mod length b \<noteq> r"
  shows "ring (b[w := x]) r ((w + 1) mod length b) = ring b r w @ [x]"
proof -
  have "patch b w [x] = b[w := x]" using assms by (simp add: patch_def upd_conv_take_nth_drop)
  moreover have "1 \<le> ring_free (length b) r w"
    using assms by (cases "w + 1 = length b") (auto simp: ring_free_def)
  ultimately show ?thesis using ring_put [of r b w "[x]"] assms by simp
qed

text \<open>A write beyond the end of the queue does not change the queue.\<close>

lemma ring_patch_free:
  assumes "r < length b" "w < length b" "w + length xs \<le> length b"
    "length xs \<le> ring_free (length b) r w"
  shows "ring (patch b w xs) r w = ring b r w"
proof (cases "r \<le> w")
  case False
  then have "w + length xs < r" using assms by (auto simp: ring_free_def)
  then show ?thesis using False assms by (auto simp: ring_def patch_def)
qed (use assms in \<open>auto simp: ring_def patch_def bytes_at_def drop_take\<close>)

end
