(* ===== verification/FileDesc.thy ===== *)
theory FileDesc
  imports DevList
begin

text \<open>
  File descriptors: the pool of \<open>alt_dev.c\<close>, \<open>alt_get_fd.c\<close>, \<open>alt_release_fd.c\<close>,
  \<open>alt_fd_lock.c\<close> and \<open>alt_fd_unlock.c\<close>, and the system calls of \<open>alt_open.c\<close>,
  \<open>alt_close.c\<close>, \<open>alt_read.c\<close>, \<open>alt_write.c\<close>, \<open>alt_lseek.c\<close>, \<open>alt_ioctl.c\<close>,
  \<open>alt_fcntl.c\<close>, \<open>alt_fstat.c\<close>, \<open>alt_isatty.c\<close> and \<open>alt_io_redirect.c\<close>.  The functions
  of the drivers are the parameter \<open>ops\<close>: the device structure at an address holds, for each
  entry, no function or one that runs on the whole state, whose \<open>world\<close> is what the drivers
  own.  A C result that is negative is \<open>Inl\<close> of the error number.  \<open>None\<close> is an index outside
  the pool, a null device, or a driver that does not return.
\<close>

abbreviation (input) "ALT_FD_EXCL \<equiv> (0x80000000 :: u32)"
abbreviation (input) "ALT_FD_DEV \<equiv> (0x40000000 :: u32)"
abbreviation (input) "O_ACCMODE \<equiv> (3 :: u32)"
abbreviation (input) "O_RDONLY \<equiv> (0 :: u32)"
abbreviation (input) "O_WRONLY \<equiv> (1 :: u32)"
abbreviation (input) "O_APPEND \<equiv> (8 :: u32)"
abbreviation (input) "O_NONBLOCK \<equiv> (0x4000 :: u32)"
abbreviation (input) "IFCHR \<equiv> (0x2000 :: u32)"
abbreviation (input) "TIOCEXCL \<equiv> (0x740D :: u32)"
abbreviation (input) "TIOCNXCL \<equiv> (0x740E :: u32)"
abbreviation (input) "F_GETFL \<equiv> (3 :: int)"
abbreviation (input) "F_SETFL \<equiv> (4 :: int)"

definition ALT_MAX_FD :: nat where "ALT_MAX_FD = 32"
definition ALT_FD_FLAGS_MASK :: u32 where "ALT_FD_FLAGS_MASK = ALT_FD_EXCL OR ALT_FD_DEV"
definition ALT_FCNTL_FLAGS_MASK :: u32 where "ALT_FCNTL_FLAGS_MASK = O_APPEND OR O_NONBLOCK"

record alt_fd =
  fd_dev :: "u32 option"
  priv :: u32
  fd_flags :: u32

record 'x fdsys =
  dev_lists :: "u32 heap"
  alt_dev_list :: u32
  alt_fs_list :: u32
  alt_fd_list :: "alt_fd list"
  alt_max_fd :: int
  fd_errno :: "errno option"
  world :: 'x

type_synonym 'a fres = "errno + 'a"

record 'x dev_ops =
  dev_open :: "(nat \<Rightarrow> string \<Rightarrow> u32 \<Rightarrow> u32 \<Rightarrow> 'x fdsys \<Rightarrow> (nat fres \<times> 'x fdsys) option) option"
  dev_close :: "(nat \<Rightarrow> 'x fdsys \<Rightarrow> (nat fres \<times> 'x fdsys) option) option"
  dev_read :: "(nat \<Rightarrow> nat \<Rightarrow> 'x fdsys \<Rightarrow> (u8 list fres \<times> 'x fdsys) option) option"
  dev_write :: "(nat \<Rightarrow> u8 list \<Rightarrow> 'x fdsys \<Rightarrow> (nat fres \<times> 'x fdsys) option) option"
  dev_lseek :: "(nat \<Rightarrow> int \<Rightarrow> int \<Rightarrow> 'x fdsys \<Rightarrow> (nat fres \<times> 'x fdsys) option) option"
  dev_fstat :: "(nat \<Rightarrow> 'x fdsys \<Rightarrow> (int \<times> u32 \<times> 'x fdsys) option) option"
  dev_ioctl :: "(nat \<Rightarrow> u32 \<Rightarrow> u32 \<Rightarrow> 'x fdsys \<Rightarrow> (nat fres \<times> 'x fdsys) option) option"

definition upd_fd :: "nat \<Rightarrow> (alt_fd \<Rightarrow> alt_fd) \<Rightarrow> 'x fdsys \<Rightarrow> 'x fdsys" where
  "upd_fd i f s = s\<lparr>alt_fd_list := (alt_fd_list s)[i := f (alt_fd_list s ! i)]\<rparr>"

subsection \<open>The pool\<close>

definition alt_get_fd :: "u32 \<Rightarrow> 'x fdsys \<Rightarrow> nat fres \<times> 'x fdsys" where
  "alt_get_fd dev s =
    (case find (\<lambda>i. fd_dev (alt_fd_list s ! i) = None) [0..<ALT_MAX_FD] of
       None \<Rightarrow> (Inl EMFILE, s)
     | Some i \<Rightarrow>
         let s = upd_fd i (\<lambda>f. f\<lparr>fd_dev := Some dev\<rparr>) s;
             s = (if int i > alt_max_fd s then s\<lparr>alt_max_fd := int i\<rparr> else s)
         in (Inr i, s))"

definition alt_release_fd :: "int \<Rightarrow> 'x fdsys \<Rightarrow> 'x fdsys" where
  "alt_release_fd fd s =
    (if fd > 2 then
       let s = upd_fd (nat fd) (\<lambda>f. f\<lparr>fd_flags := 0\<rparr>) s
       in upd_fd (nat fd) (\<lambda>f. f\<lparr>fd_dev := None\<rparr>) s
     else s)"

definition alt_fd_lock :: "nat \<Rightarrow> 'x fdsys \<Rightarrow> nat fres \<times> 'x fdsys" where
  "alt_fd_lock fd s =
    (if \<exists>i\<in>set [0..<nat (alt_max_fd s)].
          i \<noteq> fd \<and> fd_dev (alt_fd_list s ! i) = fd_dev (alt_fd_list s ! fd)
     then (Inl EACCES, s)
     else (Inr 0, upd_fd fd (\<lambda>f. f\<lparr>fd_flags := fd_flags f OR ALT_FD_EXCL\<rparr>) s))"

definition alt_fd_unlock :: "nat \<Rightarrow> 'x fdsys \<Rightarrow> nat fres \<times> 'x fdsys" where
  "alt_fd_unlock fd s = (Inr 0, upd_fd fd (\<lambda>f. f\<lparr>fd_flags := fd_flags f AND NOT ALT_FD_EXCL\<rparr>) s)"

text \<open>\<open>fd = (file < 0) ? NULL : &alt_fd_list[file]\<close>.\<close>

definition fd_ref :: "int \<Rightarrow> 'x fdsys \<Rightarrow> nat option option" where
  "fd_ref file s =
    (if file < 0 then Some None
     else if nat file < length (alt_fd_list s) then Some (Some (nat file)) else None)"

text \<open>\<open>ALT_ERRNO = e; return -1;\<close>\<close>

definition fails :: "errno \<Rightarrow> 'x fdsys \<Rightarrow> int \<times> 'x fdsys" where
  "fails e s = (-1, s\<lparr>fd_errno := Some e\<rparr>)"

definition returns :: "nat fres \<Rightarrow> 'x fdsys \<Rightarrow> int \<times> 'x fdsys" where
  "returns r s = (case r of Inl e \<Rightarrow> fails e s | Inr n \<Rightarrow> (int n, s))"

subsection \<open>Opening and closing\<close>

definition alt_file_locked :: "nat \<Rightarrow> 'x fdsys \<Rightarrow> nat fres \<times> 'x fdsys" where
  "alt_file_locked fd s =
    (let s = upd_fd fd (\<lambda>f. f\<lparr>fd_flags := fd_flags f OR ALT_FD_DEV\<rparr>) s in
     if \<exists>i\<in>set [0..<nat (alt_max_fd s + 1)].
          fd_dev (alt_fd_list s ! i) = fd_dev (alt_fd_list s ! fd)
          \<and> fd_flags (alt_fd_list s ! i) AND ALT_FD_EXCL \<noteq> 0 \<and> i \<noteq> fd
     then (Inl EACCES, s) else (Inr 0, s))"

definition open_with :: "(u32 \<Rightarrow> 'x dev_ops) \<Rightarrow> bool \<Rightarrow> u32 \<Rightarrow> nat \<Rightarrow> string \<Rightarrow> u32 \<Rightarrow> u32
    \<Rightarrow> 'x fdsys \<Rightarrow> (nat fres \<times> 'x fdsys) option" where
  "open_with ops isafs dev fd file flags mode s =
    (let s = upd_fd fd (\<lambda>f. f\<lparr>fd_flags := flags AND NOT ALT_FD_FLAGS_MASK\<rparr>) s;
         (status, s) = (if isafs then (Inr 0, s) else alt_file_locked fd s)
     in case status of
          Inl e \<Rightarrow> Some (Inl e, s)
        | Inr _ \<Rightarrow> (case dev_open (ops dev) of
                     None \<Rightarrow> Some (Inr 0, s)
                   | Some f \<Rightarrow> f fd file flags mode s))"

definition alt_open :: "(u32 \<Rightarrow> 'x dev_ops) \<Rightarrow> string \<Rightarrow> u32 \<Rightarrow> u32 \<Rightarrow> 'x fdsys
    \<Rightarrow> (int \<times> 'x fdsys) option" where
  "alt_open ops file flags mode s = do {
     d \<leftarrow> alt_find_dev file (alt_dev_list s) (dev_lists s);
     (dev, isafs) \<leftarrow> (case d of
         Some dev \<Rightarrow> Some (Some dev, False)
       | None \<Rightarrow> do { d \<leftarrow> alt_find_file (alt_fs_list s) file (dev_lists s); Some (d, True) });
     (case dev of
        None \<Rightarrow> Some (fails ENODEV (alt_release_fd (-1) s))
      | Some dev \<Rightarrow>
          (case alt_get_fd dev s of
             (Inl e, s) \<Rightarrow> Some (fails e (alt_release_fd (-1) s))
           | (Inr fd, s) \<Rightarrow> do {
               (status, s) \<leftarrow> open_with ops isafs dev fd file flags mode s;
               (case status of
                  Inl e \<Rightarrow> Some (fails e (alt_release_fd (int fd) s))
                | Inr _ \<Rightarrow> Some (int fd, s)) })) }"

definition alt_close :: "(u32 \<Rightarrow> 'x dev_ops) \<Rightarrow> int \<Rightarrow> 'x fdsys \<Rightarrow> (int \<times> 'x fdsys) option" where
  "alt_close ops fildes s = do {
     fd \<leftarrow> fd_ref fildes s;
     (case fd of
        None \<Rightarrow> Some (fails EBADFD s)
      | Some fd \<Rightarrow> do {
          dev \<leftarrow> fd_dev (alt_fd_list s ! fd);
          (rval, s) \<leftarrow> (case dev_close (ops dev) of None \<Rightarrow> Some (Inr 0, s) | Some f \<Rightarrow> f fd s);
          let s = alt_release_fd fildes s;
          Some (case rval of Inl e \<Rightarrow> fails e s | Inr _ \<Rightarrow> (0, s)) }) }"

subsection \<open>Reading, writing, control\<close>

definition alt_read :: "(u32 \<Rightarrow> 'x dev_ops) \<Rightarrow> int \<Rightarrow> nat \<Rightarrow> 'x fdsys
    \<Rightarrow> (int \<times> u8 list \<times> 'x fdsys) option" where
  "alt_read ops file len s = do {
     fd \<leftarrow> fd_ref file s;
     (case fd of
        None \<Rightarrow> (case fails EBADFD s of (r, s) \<Rightarrow> Some (r, [], s))
      | Some fd \<Rightarrow>
          if fd_flags (alt_fd_list s ! fd) AND O_ACCMODE \<noteq> O_WRONLY then do {
            dev \<leftarrow> fd_dev (alt_fd_list s ! fd);
            (case dev_read (ops dev) of
               None \<Rightarrow> (case fails EACCES s of (r, s) \<Rightarrow> Some (r, [], s))
             | Some f \<Rightarrow> do {
                 (rval, s) \<leftarrow> f fd len s;
                 (case rval of
                    Inl e \<Rightarrow> (case fails e s of (r, s) \<Rightarrow> Some (r, [], s))
                  | Inr xs \<Rightarrow> Some (int (length xs), xs, s)) })
          } else (case fails EACCES s of (r, s) \<Rightarrow> Some (r, [], s))) }"

definition alt_write :: "(u32 \<Rightarrow> 'x dev_ops) \<Rightarrow> int \<Rightarrow> u8 list \<Rightarrow> 'x fdsys
    \<Rightarrow> (int \<times> 'x fdsys) option" where
  "alt_write ops file ptr s = do {
     fd \<leftarrow> fd_ref file s;
     (case fd of
        None \<Rightarrow> Some (fails EBADFD s)
      | Some fd \<Rightarrow>
          if fd_flags (alt_fd_list s ! fd) AND O_ACCMODE \<noteq> O_RDONLY then do {
            dev \<leftarrow> fd_dev (alt_fd_list s ! fd);
            (case dev_write (ops dev) of
               None \<Rightarrow> Some (fails EACCES s)
             | Some f \<Rightarrow> do { (rval, s) \<leftarrow> f fd ptr s; Some (returns rval s) })
          } else Some (fails EACCES s)) }"

definition alt_lseek :: "(u32 \<Rightarrow> 'x dev_ops) \<Rightarrow> int \<Rightarrow> int \<Rightarrow> int \<Rightarrow> 'x fdsys
    \<Rightarrow> (int \<times> 'x fdsys) option" where
  "alt_lseek ops file ptr dir s = do {
     fd \<leftarrow> fd_ref file s;
     (case fd of
        None \<Rightarrow> Some (fails EBADFD s)
      | Some fd \<Rightarrow> do {
          dev \<leftarrow> fd_dev (alt_fd_list s ! fd);
          (case dev_lseek (ops dev) of
             None \<Rightarrow> Some (fails ENOTSUP s)
           | Some f \<Rightarrow> do { (rc, s) \<leftarrow> f fd ptr dir s; Some (returns rc s) }) }) }"

text \<open>The only call whose error result is the negated number itself.\<close>

definition alt_ioctl :: "(u32 \<Rightarrow> 'x dev_ops) \<Rightarrow> int \<Rightarrow> u32 \<Rightarrow> u32 \<Rightarrow> 'x fdsys
    \<Rightarrow> (nat fres \<times> 'x fdsys) option" where
  "alt_ioctl ops file req arg s = do {
     fd \<leftarrow> fd_ref file s;
     (rc, s) \<leftarrow> (case fd of
        None \<Rightarrow> Some (Inl EBADFD, s)
      | Some fd \<Rightarrow>
          if fd_flags (alt_fd_list s ! fd) AND ALT_FD_DEV \<noteq> 0 \<and> req = TIOCEXCL
          then Some (alt_fd_lock fd s)
          else if fd_flags (alt_fd_list s ! fd) AND ALT_FD_DEV \<noteq> 0 \<and> req = TIOCNXCL
          then Some (alt_fd_unlock fd s)
          else do {
            dev \<leftarrow> fd_dev (alt_fd_list s ! fd);
            (case dev_ioctl (ops dev) of
               None \<Rightarrow> Some (Inl ENOTTY, s)
             | Some f \<Rightarrow> f fd req arg s) });
     Some (case rc of Inl e \<Rightarrow> (rc, s\<lparr>fd_errno := Some e\<rparr>) | Inr _ \<Rightarrow> (rc, s)) }"

definition alt_fcntl :: "int \<Rightarrow> int \<Rightarrow> u32 \<Rightarrow> 'x fdsys \<Rightarrow> (u32 \<times> 'x fdsys) option" where
  "alt_fcntl file cmd flags s = do {
     fd \<leftarrow> fd_ref file s;
     Some (case fd of
        None \<Rightarrow> (-1, s\<lparr>fd_errno := Some EBADFD\<rparr>)
      | Some fd \<Rightarrow>
          if cmd = F_GETFL then (fd_flags (alt_fd_list s ! fd) AND NOT ALT_FD_FLAGS_MASK, s)
          else if cmd = F_SETFL then
            let s = upd_fd fd (\<lambda>f. f\<lparr>fd_flags := fd_flags f AND NOT ALT_FCNTL_FLAGS_MASK\<rparr>) s;
                s = upd_fd fd (\<lambda>f. f\<lparr>fd_flags := fd_flags f OR (flags AND ALT_FCNTL_FLAGS_MASK)\<rparr>) s
            in (0, s)
          else (-1, s\<lparr>fd_errno := Some EINVAL\<rparr>)) }"

text \<open>The result, the mode stored in the caller's structure, and the state.\<close>

definition alt_fstat :: "(u32 \<Rightarrow> 'x dev_ops) \<Rightarrow> int \<Rightarrow> 'x fdsys
    \<Rightarrow> (int \<times> u32 option \<times> 'x fdsys) option" where
  "alt_fstat ops file s = do {
     fd \<leftarrow> fd_ref file s;
     (case fd of
        None \<Rightarrow> Some (-1, None, s\<lparr>fd_errno := Some EBADFD\<rparr>)
      | Some fd \<Rightarrow> do {
          dev \<leftarrow> fd_dev (alt_fd_list s ! fd);
          (case dev_fstat (ops dev) of
             Some f \<Rightarrow> do { (r, mode, s) \<leftarrow> f fd s; Some (r, Some mode, s) }
           | None \<Rightarrow> Some (0, Some IFCHR, s)) }) }"

definition alt_isatty :: "(u32 \<Rightarrow> 'x dev_ops) \<Rightarrow> int \<Rightarrow> 'x fdsys \<Rightarrow> (int \<times> 'x fdsys) option" where
  "alt_isatty ops file s = do {
     fd \<leftarrow> fd_ref file s;
     (case fd of
        None \<Rightarrow> Some (0, s\<lparr>fd_errno := Some EBADFD\<rparr>)
      | Some fd \<Rightarrow> do {
          dev \<leftarrow> fd_dev (alt_fd_list s ! fd);
          if dev_fstat (ops dev) = None then Some (1, s)
          else do {
            (_, mode, s) \<leftarrow> alt_fstat ops file s;
            Some (if mode = Some IFCHR then 1 else 0, s) } }) }"

subsection \<open>Start-up\<close>

definition alt_open_fd :: "(u32 \<Rightarrow> 'x dev_ops) \<Rightarrow> nat \<Rightarrow> string \<Rightarrow> u32 \<Rightarrow> u32 \<Rightarrow> 'x fdsys
    \<Rightarrow> 'x fdsys option" where
  "alt_open_fd ops fd name flags mode s = do {
     (old, s) \<leftarrow> alt_open ops name flags mode s;
     Some (if old \<ge> 0 then
             let o' = alt_fd_list s ! nat old;
                 s = upd_fd fd (\<lambda>f. f\<lparr>fd_dev := fd_dev o'\<rparr>) s;
                 s = upd_fd fd (\<lambda>f. f\<lparr>priv := priv o'\<rparr>) s;
                 s = upd_fd fd (\<lambda>f. f\<lparr>fd_flags := fd_flags o'\<rparr>) s
             in alt_release_fd old s
           else s) }"

definition alt_io_redirect :: "(u32 \<Rightarrow> 'x dev_ops) \<Rightarrow> string \<Rightarrow> string \<Rightarrow> string \<Rightarrow> 'x fdsys
    \<Rightarrow> 'x fdsys option" where
  "alt_io_redirect ops stdout_dev stdin_dev stderr_dev s = do {
     s \<leftarrow> alt_open_fd ops 1 stdout_dev O_WRONLY 0x1FF s;
     s \<leftarrow> alt_open_fd ops 0 stdin_dev O_RDONLY 0x1FF s;
     alt_open_fd ops 2 stderr_dev O_WRONLY 0x1FF s }"

text \<open>The null device, and the pool before start-up: the three standard streams on it.\<close>

definition alt_dev_null_write :: "nat \<Rightarrow> u8 list \<Rightarrow> 'x fdsys \<Rightarrow> (nat fres \<times> 'x fdsys) option" where
  "alt_dev_null_write fd ptr s = Some (Inr (length ptr), s)"

definition alt_dev_null :: "'x dev_ops" where
  "alt_dev_null = \<lparr>dev_open = None, dev_close = None, dev_read = None,
     dev_write = Some alt_dev_null_write, dev_lseek = None, dev_fstat = None, dev_ioctl = None\<rparr>"

definition initial_pool :: "u32 \<Rightarrow> alt_fd list" where
  "initial_pool null_dev = replicate 3 \<lparr>fd_dev = Some null_dev, priv = 0, fd_flags = 0\<rparr>
     @ replicate (ALT_MAX_FD - 3) \<lparr>fd_dev = None, priv = 0, fd_flags = 0\<rparr>"
subsection \<open>Invariant of the pool\<close>

text \<open>The three standard streams are always in use, a free descriptor has no flags, and the
  high water mark is above every descriptor that was allocated.\<close>

definition pool_ok :: "'x fdsys \<Rightarrow> bool" where
  "pool_ok s \<longleftrightarrow> length (alt_fd_list s) = ALT_MAX_FD \<and> -1 \<le> alt_max_fd s \<and> alt_max_fd s < int ALT_MAX_FD
    \<and> (\<forall>i<3. fd_dev (alt_fd_list s ! i) \<noteq> None)
    \<and> (\<forall>i<ALT_MAX_FD. 3 \<le> i \<longrightarrow>
         (if fd_dev (alt_fd_list s ! i) = None then fd_flags (alt_fd_list s ! i) = 0 else int i \<le> alt_max_fd s))"

lemma upd_fd_sel [simp]:
  "alt_fd_list (upd_fd i f s) = (alt_fd_list s)[i := f (alt_fd_list s ! i)]"
  "alt_max_fd (upd_fd i f s) = alt_max_fd s" "dev_lists (upd_fd i f s) = dev_lists s"
  "alt_dev_list (upd_fd i f s) = alt_dev_list s" "alt_fs_list (upd_fd i f s) = alt_fs_list s"
  "fd_errno (upd_fd i f s) = fd_errno s" "world (upd_fd i f s) = world s"
  by (simp_all add: upd_fd_def)

lemma get_fd_cases:
  assumes "pool_ok s"
  obtains (full) "alt_get_fd dev s = (Inl EMFILE, s)" "\<forall>i<ALT_MAX_FD. fd_dev (alt_fd_list s ! i) \<noteq> None"
  | (free) i where "3 \<le> i" "i < ALT_MAX_FD" "fd_dev (alt_fd_list s ! i) = None"
      "fd_flags (alt_fd_list s ! i) = 0" "\<forall>j<i. fd_dev (alt_fd_list s ! j) \<noteq> None"
      "alt_get_fd dev s = (Inr i, s\<lparr>alt_fd_list := (alt_fd_list s)[i := (alt_fd_list s ! i)\<lparr>fd_dev := Some dev\<rparr>],
          alt_max_fd := max (alt_max_fd s) (int i)\<rparr>)"
proof (cases "find (\<lambda>i. fd_dev (alt_fd_list s ! i) = None) [0..<ALT_MAX_FD]")
  case None
  then have "alt_get_fd dev s = (Inl EMFILE, s)" by (simp add: alt_get_fd_def)
  then show ?thesis using None full by (auto simp: find_None_iff)
next
  case (Some i)
  then have i: "i < ALT_MAX_FD" "fd_dev (alt_fd_list s ! i) = None"
    "\<forall>j<i. fd_dev (alt_fd_list s ! j) \<noteq> None"
    by (auto simp: find_Some_iff)
  moreover have "3 \<le> i" using assms i by (auto simp: pool_ok_def not_less [symmetric])
  moreover have "fd_flags (alt_fd_list s ! i) = 0" using assms i \<open>3 \<le> i\<close> by (auto simp: pool_ok_def)
  moreover have "alt_get_fd dev s = (Inr i, s\<lparr>alt_fd_list := (alt_fd_list s)[i := (alt_fd_list s ! i)\<lparr>fd_dev := Some dev\<rparr>],
          alt_max_fd := max (alt_max_fd s) (int i)\<rparr>)"
    using Some by (auto simp: alt_get_fd_def upd_fd_def max_def Let_def intro!: fdsys.equality)
  ultimately show ?thesis using free by blast
qed

text \<open>A device some other descriptor holds exclusively.\<close>

definition held :: "'x fdsys \<Rightarrow> u32 \<Rightarrow> bool" where
  "held s dev \<longleftrightarrow> (\<exists>i<ALT_MAX_FD. fd_dev (alt_fd_list s ! i) = Some dev
     \<and> fd_flags (alt_fd_list s ! i) AND ALT_FD_EXCL \<noteq> 0)"

text \<open>The outcome of opening a registered device that has no open function of its own.\<close>

lemma open_device:
  assumes "pool_ok s" "alt_find_dev file (alt_dev_list s) (dev_lists s) = Some (Some dev)"
    and "dev_open (ops dev) = None"
  obtains (full) "\<forall>i<ALT_MAX_FD. fd_dev (alt_fd_list s ! i) \<noteq> None"
      "alt_open ops file flags mode s = Some (fails EMFILE s)"
  | (locked) i m where "held s dev" "3 \<le> i" "i < ALT_MAX_FD" "fd_dev (alt_fd_list s ! i) = None"
      "m = max (alt_max_fd s) (int i)"
      "alt_open ops file flags mode s = Some (fails EACCES (s\<lparr>alt_max_fd := m\<rparr>))"
  | (opened) i m where "\<not> held s dev" "3 \<le> i" "i < ALT_MAX_FD" "fd_dev (alt_fd_list s ! i) = None"
      "\<forall>j<i. fd_dev (alt_fd_list s ! j) \<noteq> None" "m = max (alt_max_fd s) (int i)"
      "alt_open ops file flags mode s = Some (int i, s\<lparr>alt_fd_list := (alt_fd_list s)[i := (alt_fd_list s ! i)
          \<lparr>fd_dev := Some dev, fd_flags := (flags AND NOT ALT_FD_FLAGS_MASK) OR ALT_FD_DEV\<rparr>],
          alt_max_fd := m\<rparr>)"
  using assms(1)
proof (cases rule: get_fd_cases [where dev = dev])
  case full
  then show ?thesis using that(1) assms(2) by (simp add: alt_open_def alt_release_fd_def)
next
  case (free i)
  define m where "m = max (alt_max_fd s) (int i)"
  define nf where "nf = (flags AND NOT ALT_FD_FLAGS_MASK) OR ALT_FD_DEV"
  let ?f = "(alt_fd_list s ! i)\<lparr>fd_dev := Some dev, fd_flags := nf\<rparr>"
  let ?t = "s\<lparr>alt_fd_list := (alt_fd_list s)[i := ?f], alt_max_fd := m\<rparr>"
  have len: "length (alt_fd_list s) = ALT_MAX_FD" using assms(1) by (simp add: pool_ok_def)
  have lk: "alt_file_locked i (upd_fd i (\<lambda>f. f\<lparr>fd_flags := flags AND NOT ALT_FD_FLAGS_MASK\<rparr>)
        (s\<lparr>alt_fd_list := (alt_fd_list s)[i := (alt_fd_list s ! i)\<lparr>fd_dev := Some dev\<rparr>], alt_max_fd := m\<rparr>))
      = (if held s dev then Inl EACCES else Inr 0, ?t)"
  proof -
    have "(\<exists>j\<in>set [0..<nat (m + 1)]. fd_dev ((alt_fd_list s)[i := ?f] ! j) = Some dev
          \<and> fd_flags ((alt_fd_list s)[i := ?f] ! j) AND ALT_FD_EXCL \<noteq> 0 \<and> j \<noteq> i) \<longleftrightarrow> held s dev"
    proof
      assume "held s dev"
      then obtain j where j: "j < ALT_MAX_FD" "fd_dev (alt_fd_list s ! j) = Some dev"
        "fd_flags (alt_fd_list s ! j) AND ALT_FD_EXCL \<noteq> 0" by (auto simp: held_def)
      then have "j \<noteq> i" using free(3) by auto
      moreover have "int j \<le> m"
        using j(1,2) free(1) assms(1) by (cases "3 \<le> j") (auto simp: m_def pool_ok_def)
      ultimately show "\<exists>j\<in>set [0..<nat (m + 1)]. fd_dev ((alt_fd_list s)[i := ?f] ! j) = Some dev
          \<and> fd_flags ((alt_fd_list s)[i := ?f] ! j) AND ALT_FD_EXCL \<noteq> 0 \<and> j \<noteq> i"
        using j by (intro bexI [of _ j]) auto
    next
      assume "\<exists>j\<in>set [0..<nat (m + 1)]. fd_dev ((alt_fd_list s)[i := ?f] ! j) = Some dev
          \<and> fd_flags ((alt_fd_list s)[i := ?f] ! j) AND ALT_FD_EXCL \<noteq> 0 \<and> j \<noteq> i"
      then obtain j where j: "int j \<le> m" "fd_dev (alt_fd_list s ! j) = Some dev"
        "fd_flags (alt_fd_list s ! j) AND ALT_FD_EXCL \<noteq> 0" by (auto simp: zless_nat_eq_int_zless)
      have "j < ALT_MAX_FD" using j(1) assms(1) free(2) by (auto simp: m_def pool_ok_def)
      then show "held s dev" using j by (auto simp: held_def)
    qed
    then show ?thesis using free(2) len
      by (simp add: alt_file_locked_def upd_fd_def nf_def Let_def)
  qed
  have o: "open_with ops False dev i file flags mode
      (s\<lparr>alt_fd_list := (alt_fd_list s)[i := (alt_fd_list s ! i)\<lparr>fd_dev := Some dev\<rparr>], alt_max_fd := m\<rparr>)
      = Some (if held s dev then Inl EACCES else Inr 0, ?t)"
    using assms(3) lk by (simp add: open_with_def Let_def)
  have e: "(alt_fd_list s ! i)\<lparr>fd_flags := 0, fd_dev := None\<rparr> = alt_fd_list s ! i"
    using free(3,4) by (intro alt_fd.equality) simp_all
  have r: "alt_release_fd (int i) ?t = s\<lparr>alt_max_fd := m\<rparr>"
    using free(1,2) len e by (auto simp: alt_release_fd_def upd_fd_def intro!: fdsys.equality)
  show ?thesis
  proof (cases "held s dev")
    case True
    have "alt_open ops file flags mode s = Some (fails EACCES (s\<lparr>alt_max_fd := m\<rparr>))"
      using assms(2) free(6) o r True by (simp add: alt_open_def m_def [symmetric])
    then show ?thesis using that(2) True free m_def by blast
  next
    case False
    have "alt_open ops file flags mode s = Some (int i, ?t)"
      using assms(2) free(6) o False by (simp add: alt_open_def m_def [symmetric])
    then show ?thesis using that(3) False free m_def nf_def by blast
  qed
qed
subsection \<open>Properties\<close>

lemma lock_result:
  assumes "pool_ok s" "fd < ALT_MAX_FD" "fd_dev (alt_fd_list s ! fd) = Some dev"
    and "alt_fd_lock fd s = (Inr n, s1)"
  shows "pool_ok s1" "held s1 dev" "alt_dev_list s1 = alt_dev_list s" "dev_lists s1 = dev_lists s"
proof -
  have s1: "s1 = upd_fd fd (\<lambda>f. f\<lparr>fd_flags := fd_flags f OR ALT_FD_EXCL\<rparr>) s"
    using assms(4) by (auto simp: alt_fd_lock_def split: if_splits)
  have len: "length (alt_fd_list s) = ALT_MAX_FD" using assms(1) by (simp add: pool_ok_def)
  have "bit ((fd_flags (alt_fd_list s ! fd) OR ALT_FD_EXCL) AND ALT_FD_EXCL) 31" by (simp add: bit_simps)
  then have "(fd_flags (alt_fd_list s ! fd) OR ALT_FD_EXCL) AND ALT_FD_EXCL \<noteq> 0" by (metis bit_0_eq bot_apply bot_bool_def)
  then show "held s1 dev" using assms(2,3) len by (auto simp: held_def s1 intro!: exI [of _ fd])
  show "pool_ok s1" using assms(1-3) len by (auto simp: pool_ok_def s1 nth_list_update)
  show "alt_dev_list s1 = alt_dev_list s" "dev_lists s1 = dev_lists s" by (simp_all add: s1)
qed

text \<open>C21: once a descriptor holds a device exclusively every attempt to open that device fails,
  with EACCES or, when the pool is exhausted, EMFILE, and changes no descriptor.\<close>
theorem lock_excludes_open:
  assumes "pool_ok s" "fd < ALT_MAX_FD" "fd_dev (alt_fd_list s ! fd) = Some dev"
    and "alt_fd_lock fd s = (Inr 0, s1)"
    and "alt_find_dev file (alt_dev_list s) (dev_lists s) = Some (Some dev)" "dev_open (ops dev) = None"
  shows "\<exists>s2. alt_open ops file flags mode s1 = Some (-1, s2) \<and> alt_fd_list s2 = alt_fd_list s1
    \<and> fd_errno s2 = (if \<forall>i<ALT_MAX_FD. fd_dev (alt_fd_list s1 ! i) \<noteq> None then Some EMFILE else Some EACCES)"
proof -
  note l = lock_result [OF assms(1-4)]
  have "alt_find_dev file (alt_dev_list s1) (dev_lists s1) = Some (Some dev)" using assms(5) l by simp
  from l(1) this assms(6) show ?thesis
  proof (cases rule: open_device [where flags = flags and mode = mode])
    case full
    then show ?thesis by (auto simp: fails_def)
  next
    case (locked i m)
    then show ?thesis by (auto simp: fails_def)
  next
    case (opened i m)
    then show ?thesis using l(2) by simp
  qed
qed

text \<open>C22: opening a device gives the lowest free descriptor above the standard streams,
  referring to that device with the caller's flags; closing it puts the whole pool back as it
  was, and the pool's invariant holds throughout.\<close>
theorem open_close_restores:
  assumes "pool_ok s" "alt_find_dev file (alt_dev_list s) (dev_lists s) = Some (Some dev)"
    and "dev_open (ops dev) = None" "dev_close (ops dev) = None"
    and "alt_open ops file flags mode s = Some (fd, s1)" "0 \<le> fd"
  shows "3 \<le> fd \<and> fd_dev (alt_fd_list s1 ! nat fd) = Some dev
    \<and> fd_flags (alt_fd_list s1 ! nat fd) = (flags AND NOT ALT_FD_FLAGS_MASK) OR ALT_FD_DEV
    \<and> (\<forall>j<nat fd. fd_dev (alt_fd_list s ! j) \<noteq> None) \<and> pool_ok s1
    \<and> (\<exists>s2. alt_close ops fd s1 = Some (0, s2) \<and> alt_fd_list s2 = alt_fd_list s \<and> pool_ok s2)"
  using assms(1-3)
proof (cases rule: open_device [where flags = flags and mode = mode])
  case full
  then show ?thesis using assms(5,6) by (simp add: fails_def)
next
  case (locked i m)
  then show ?thesis using assms(5,6) by (simp add: fails_def)
next
  case (opened i m)
  let ?nf = "(flags AND NOT ALT_FD_FLAGS_MASK) OR ALT_FD_DEV"
  let ?f = "(alt_fd_list s ! i)\<lparr>fd_dev := Some dev, fd_flags := ?nf\<rparr>"
  have fd: "fd = int i" "s1 = s\<lparr>alt_fd_list := (alt_fd_list s)[i := ?f], alt_max_fd := m\<rparr>"
    using opened assms(5) by auto
  have len: "length (alt_fd_list s) = ALT_MAX_FD" using assms(1) by (simp add: pool_ok_def)
  have "fd_flags (alt_fd_list s ! i) = 0" using assms(1) opened(2-4) by (simp add: pool_ok_def)
  then have e: "(alt_fd_list s ! i)\<lparr>fd_flags := 0, fd_dev := None\<rparr> = alt_fd_list s ! i"
    using opened(4) by (intro alt_fd.equality) simp_all
  have c: "alt_close ops fd s1 = Some (0, alt_release_fd fd s1)"
    using opened assms(4) len by (simp add: alt_close_def fd_ref_def fd)
  have r: "alt_fd_list (alt_release_fd fd s1) = alt_fd_list s" "alt_max_fd (alt_release_fd fd s1) = m"
    using opened(2,3) len e by (auto simp: alt_release_fd_def fd)
  have "pool_ok s1" using assms(1) opened len by (auto simp: pool_ok_def fd nth_list_update)
  moreover have "pool_ok (alt_release_fd fd s1)"
    using assms(1) opened(3,6) r by (auto simp: pool_ok_def)
  ultimately show ?thesis using opened c r len by (auto simp: fd)
qed

text \<open>A pool in use: the null device at 2 on the standard streams, a terminal at 5.\<close>

definition demo_fds :: "unit fdsys" where
  "demo_fds = \<lparr>dev_lists = \<lparr>nxt = (\<lambda>_. 0)(1 := 5, 5 := 2, 2 := 1),
       previous = (\<lambda>_. 0)(1 := 2, 5 := 1, 2 := 5),
       dev_name = (\<lambda>_. None)(2 := Some ''/dev/null'', 5 := Some ''/dev/jtag_uart_0'')\<rparr>,
     alt_dev_list = 1, alt_fs_list = 9, alt_fd_list = initial_pool 2, alt_max_fd = -1,
     fd_errno = None, world = ()\<rparr>"

lemma demo_pool_ok: "pool_ok demo_fds"
  by (auto simp: pool_ok_def demo_fds_def initial_pool_def ALT_MAX_FD_def nth_append)

lemma demo_nth: "i < 32 \<Longrightarrow> alt_fd_list demo_fds ! i
    = \<lparr>fd_dev = if i < 3 then Some 2 else None, priv = 0, fd_flags = 0\<rparr>"
  by (simp add: demo_fds_def initial_pool_def ALT_MAX_FD_def nth_append)

definition uart_ops :: "u32 \<Rightarrow> unit dev_ops" where
  "uart_ops dev = alt_dev_null"

lemma uart_hooks: "dev_open (uart_ops dev) = None" "dev_close (uart_ops dev) = None"
  by (simp_all add: uart_ops_def alt_dev_null_def)

lemma demo_find: "alt_find_dev ''/dev/jtag_uart_0'' (alt_dev_list demo_fds) (dev_lists demo_fds) = Some (Some 5)"
  by (simp add: demo_fds_def alt_find_dev_def find_dev_from.simps)

definition uart_open :: "unit fdsys \<Rightarrow> (int \<times> unit fdsys) option" where
  "uart_open = alt_open uart_ops ''/dev/jtag_uart_0'' 2 0"

definition demo_opened :: "unit fdsys" where
  "demo_opened = demo_fds\<lparr>alt_fd_list := (alt_fd_list demo_fds)[3 := (alt_fd_list demo_fds ! 3)
     \<lparr>fd_dev := Some 5, fd_flags := (2 AND NOT ALT_FD_FLAGS_MASK) OR ALT_FD_DEV\<rparr>], alt_max_fd := 3\<rparr>"

lemma demo_alt_open: "alt_open uart_ops ''/dev/jtag_uart_0'' 2 0 demo_fds = Some (3, demo_opened)"
  using demo_pool_ok demo_find uart_hooks(1) [of 5]
proof (cases rule: open_device [where ops = uart_ops and flags = 2 and mode = 0])
  case full
  then have "fd_dev (alt_fd_list demo_fds ! 3) \<noteq> None" by (simp add: ALT_MAX_FD_def)
  then show ?thesis by (simp add: demo_nth)
next
  case (locked i m)
  then show ?thesis by (auto simp: held_def demo_nth ALT_MAX_FD_def split: if_splits)
next
  case (opened i m)
  have "\<not> 3 < i" using opened(5) demo_nth [of 3] by auto
  then have "i = 3" using opened(2) by simp
  moreover have "alt_max_fd demo_fds = -1" by (simp add: demo_fds_def)
  ultimately show ?thesis using opened(6,7) by (simp add: demo_opened_def)
qed

lemma demo_open: "uart_open demo_fds = Some (3, demo_opened)"
  by (simp add: uart_open_def demo_alt_open)

lemma open_close_restores_witness:
  "\<exists>s2. alt_close uart_ops 3 demo_opened = Some (0, s2) \<and> alt_fd_list s2 = initial_pool 2"
  using open_close_restores [OF demo_pool_ok demo_find, of uart_ops 2 0 3 demo_opened]
    uart_hooks demo_open by (auto simp: uart_open_def demo_fds_def)

lemma demo_opened_ok:
  "pool_ok demo_opened" "3 < ALT_MAX_FD" "fd_dev (alt_fd_list demo_opened ! 3) = Some 5"
  "alt_fd_lock 3 demo_opened = (Inr 0, snd (alt_fd_lock 3 demo_opened))"
proof -
  have len: "length (alt_fd_list demo_fds) = 32" using demo_pool_ok by (simp add: pool_ok_def ALT_MAX_FD_def)
  have n: "alt_fd_list demo_opened ! i = (if i = 3 then (alt_fd_list demo_fds ! 3)
     \<lparr>fd_dev := Some 5, fd_flags := (2 AND NOT ALT_FD_FLAGS_MASK) OR ALT_FD_DEV\<rparr> else alt_fd_list demo_fds ! i)" for i
    using len by (auto simp: demo_opened_def nth_list_update)
  show "pool_ok demo_opened"
    using demo_pool_ok n by (auto simp: pool_ok_def) (auto simp: demo_opened_def demo_fds_def ALT_MAX_FD_def split: if_splits)
  show "3 < ALT_MAX_FD" by (simp add: ALT_MAX_FD_def)
  show "fd_dev (alt_fd_list demo_opened ! 3) = Some 5" by (simp add: n)
  have m: "alt_max_fd demo_opened = 3" by (simp add: demo_opened_def)
  have "\<not> (\<exists>i\<in>set [0..<nat (alt_max_fd demo_opened)].
      i \<noteq> 3 \<and> fd_dev (alt_fd_list demo_opened ! i) = fd_dev (alt_fd_list demo_opened ! 3))"
    by (simp add: m n demo_nth)
  then show "alt_fd_lock 3 demo_opened = (Inr 0, snd (alt_fd_lock 3 demo_opened))"
    by (simp add: alt_fd_lock_def)
qed

lemma lock_excludes_open_witness:
  "\<exists>s3. uart_open (snd (alt_fd_lock 3 demo_opened)) = Some (-1, s3)"
proof -
  have "alt_find_dev ''/dev/jtag_uart_0'' (alt_dev_list demo_opened) (dev_lists demo_opened) = Some (Some 5)"
    using demo_find by (simp add: demo_opened_def)
  from lock_excludes_open [OF demo_opened_ok this, of uart_ops 2 0] uart_hooks(1)
  show ?thesis by (auto simp: uart_open_def)
qed

text \<open>The lock does not look at the highest descriptor: with the terminal open twice, as 3 and as
  4, descriptor 3 gets it exclusively although 4 refers to it too.\<close>

lemma lock_misses_highest:
  "let s = demo_opened\<lparr>alt_fd_list := (alt_fd_list demo_opened)[4 := alt_fd_list demo_opened ! 3], alt_max_fd := 4\<rparr>
   in pool_ok s \<and> fd_dev (alt_fd_list s ! 4) = fd_dev (alt_fd_list s ! 3) \<and> fst (alt_fd_lock 3 s) = Inr 0"
proof -
  let ?s = "demo_opened\<lparr>alt_fd_list := (alt_fd_list demo_opened)[4 := alt_fd_list demo_opened ! 3], alt_max_fd := 4\<rparr>"
  have len: "length (alt_fd_list demo_opened) = 32"
    using demo_opened_ok(1) by (simp add: pool_ok_def ALT_MAX_FD_def)
  have d: "fd_dev (alt_fd_list demo_opened ! i) = Some 2" if "i < 3" for i
    using that by (simp add: demo_opened_def demo_nth)
  have "pool_ok ?s"
    using demo_opened_ok(1,3) by (auto simp: pool_ok_def nth_list_update ALT_MAX_FD_def demo_opened_def)
  moreover have "\<not> (\<exists>i\<in>set [0..<4]. i \<noteq> 3 \<and> fd_dev (alt_fd_list ?s ! i) = fd_dev (alt_fd_list ?s ! 3))"
  proof -
    have "fd_dev (alt_fd_list ?s ! i) \<noteq> fd_dev (alt_fd_list ?s ! 3)" if "i \<in> set [0..<4]" "i \<noteq> 3" for i
      using that d [of i] demo_opened_ok(3) by simp
    then show ?thesis by blast
  qed
  ultimately show ?thesis using len by (simp add: alt_fd_lock_def Let_def)
qed

end
