(* ===== verification/JtagCore.thy ===== *)
theory JtagCore
  imports Ring Clock FileDesc
begin

text \<open>
  The console: \<open>altera_avalon_jtag_uart_init.c\<close>, \<open>_read.c\<close>, \<open>_write.c\<close>, \<open>_ioctl.c\<close>, \<open>_fd.c\<close>
  (the interrupt-driven driver and the small polled one) and the core they drive, seen from its
  bus: \<open>synthesis/submodules/ethernet_sys_jtag_uart_0.v\<close>, with its two FIFOs of 64 bytes as
  lists.  The flags the core registers a clock after the FIFO level are taken as settled, a bus
  access being longer than that.

  The rest of the world is \<open>env\<close>: \<open>env s n\<close> are the events between the \<open>n\<close>-th and
  the next time the driver looks at a variable the interrupt handler changes, or is about to
  change one the handler looks at: the host takes a byte, sends one or stops sending, or a second has
  passed and the alarm runs.  After each event the interrupt handler runs if the core asks for
  it, without further events inside.  \<open>host_got\<close> and \<open>host_sent\<close> record what
  the host has received and what the core accepted from it.  Semaphores and event flags are
  empty in this build, which has no operating system.
\<close>

subsection \<open>The core\<close>

datatype jtag_ev = HostTake | HostPut u8 | HostPause | Second

record uart = clk +
  wfifo :: "u8 list"
  rfifo :: "u8 list"
  ien_AF :: bool
  ien_AE :: bool
  pause_irq :: bool
  ac_flag :: bool
  rvalid :: bool
  woverflow :: bool
  host_got :: "u8 list"
  host_sent :: "u8 list"
  env :: "nat \<Rightarrow> jtag_ev list"
  inst :: nat
  timeout :: u32
  uart_alarm :: u32
  irq_enable :: u32
  host_inactive :: u32
  rx_in :: u32
  rx_out :: u32
  tx_in :: u32
  tx_out :: u32
  rx_buf :: "u8 list"
  tx_buf :: "u8 list"

definition READ_DEPTH :: nat where "READ_DEPTH = 64"
definition WRITE_DEPTH :: nat where "WRITE_DEPTH = 64"
definition ALTERA_AVALON_JTAG_UART_BUF_LEN :: u32 where "ALTERA_AVALON_JTAG_UART_BUF_LEN = 2048"
definition INT_MAX :: u32 where "INT_MAX = 0x7FFFFFFF"

abbreviation (input) "BUF_LEN \<equiv> ALTERA_AVALON_JTAG_UART_BUF_LEN"
abbreviation (input) "RE_MSK \<equiv> (1 :: u32)"
abbreviation (input) "WE_MSK \<equiv> (2 :: u32)"
abbreviation (input) "RI_MSK \<equiv> (0x100 :: u32)"
abbreviation (input) "WI_MSK \<equiv> (0x200 :: u32)"
abbreviation (input) "AC_MSK \<equiv> (0x400 :: u32)"
abbreviation (input) "WSPACE_MSK \<equiv> (0xFFFF0000 :: u32)"
abbreviation (input) "RVALID_MSK \<equiv> (0x8000 :: u32)"
abbreviation (input) "RAVAIL_MSK \<equiv> (0xFFFF0000 :: u32)"

definition ipen_AE :: "uart \<Rightarrow> bool" where
  "ipen_AE s \<longleftrightarrow> ien_AE s \<and> length (wfifo s) \<le> 8"

definition ipen_AF :: "uart \<Rightarrow> bool" where
  "ipen_AF s \<longleftrightarrow> ien_AF s \<and> (pause_irq s \<or> READ_DEPTH - length (rfifo s) \<le> 8)"

definition av_irq :: "uart \<Rightarrow> bool" where
  "av_irq s \<longleftrightarrow> ipen_AE s \<or> ipen_AF s"

definition flag_at :: "nat \<Rightarrow> bool \<Rightarrow> u32" where
  "flag_at n b = push_bit n (of_bool b)"

text \<open>The middle bits that both registers share, and the two registers.\<close>

definition status_bits :: "uart \<Rightarrow> u32" where
  "status_bits s = flag_at 15 (rvalid s) OR flag_at 14 (woverflow s)
     OR flag_at 13 (length (wfifo s) < WRITE_DEPTH) OR flag_at 12 (rfifo s \<noteq> [])
     OR flag_at 10 (ac_flag s) OR flag_at 9 (ipen_AE s) OR flag_at 8 (ipen_AF s)"

definition jtag_control :: "uart \<Rightarrow> u32" where
  "jtag_control s = push_bit 16 (of_nat (WRITE_DEPTH - length (wfifo s))) OR status_bits s
     OR flag_at 1 (ien_AE s) OR flag_at 0 (ien_AF s)"

definition jtag_read_data :: "uart \<Rightarrow> u32 \<times> uart" where
  "jtag_read_data s =
    (let s' = s\<lparr>rfifo := drop 1 (rfifo s), rvalid := (rfifo s \<noteq> [])\<rparr>
     in (push_bit 16 (of_nat (min READ_DEPTH (length (rfifo s')))) OR status_bits s'
           OR (case rfifo s of [] \<Rightarrow> 0 | x # xs \<Rightarrow> ucast x),
         s'\<lparr>pause_irq := False\<rparr>))"

definition jtag_write_data :: "u32 \<Rightarrow> uart \<Rightarrow> uart" where
  "jtag_write_data v s =
    (if length (wfifo s) < WRITE_DEPTH
     then s\<lparr>wfifo := wfifo s @ [ucast v], woverflow := False\<rparr>
     else s\<lparr>woverflow := True\<rparr>)"

definition jtag_write_control :: "u32 \<Rightarrow> uart \<Rightarrow> uart" where
  "jtag_write_control v s =
    s\<lparr>ien_AF := bit v 0, ien_AE := bit v 1, ac_flag := (ac_flag s \<and> \<not> bit v 10)\<rparr>"

definition host_event :: "jtag_ev \<Rightarrow> uart \<Rightarrow> uart" where
  "host_event e s = (case e of
     HostTake \<Rightarrow> (case wfifo s of [] \<Rightarrow> s
                  | x # xs \<Rightarrow> s\<lparr>wfifo := xs, host_got := host_got s @ [x]\<rparr>)
   | HostPut x \<Rightarrow> (if length (rfifo s) < READ_DEPTH
                  then s\<lparr>rfifo := rfifo s @ [x], host_sent := host_sent s @ [x], ac_flag := True\<rparr>
                  else s\<lparr>ac_flag := True\<rparr>)
   | HostPause \<Rightarrow> (if rfifo s \<noteq> [] then s\<lparr>pause_irq := True, ac_flag := True\<rparr> else s\<lparr>ac_flag := True\<rparr>)
   | Second \<Rightarrow> s)"

subsection \<open>The interrupt handler and the alarm\<close>

text \<open>Masks and single bits.\<close>

lemma mask_bits [simp]:
  "x AND 0x100 = 0 \<longleftrightarrow> \<not> bit x 8" "x AND 0x200 = 0 \<longleftrightarrow> \<not> bit x 9" "x AND 0x400 = 0 \<longleftrightarrow> \<not> bit x 10"
  "x AND 0x8000 = 0 \<longleftrightarrow> \<not> bit x 15" for x :: u32
  using and_exp_eq_0_iff_not_bit [of x 8] and_exp_eq_0_iff_not_bit [of x 9]
    and_exp_eq_0_iff_not_bit [of x 10] and_exp_eq_0_iff_not_bit [of x 15] by simp_all

lemma high_half: "x AND 0xFFFF0000 = push_bit 16 (drop_bit 16 x)" for x :: u32
proof -
  have m: "(0xFFFF0000 :: u32) = push_bit 16 (mask 16)" by (simp add: push_bit_eq_mult mask_eq_exp_minus_1)
  show ?thesis unfolding m by (rule bit_word_eqI) (auto simp: bit_simps)
qed

lemma high_half_0: "x AND 0xFFFF0000 = 0 \<longleftrightarrow> drop_bit 16 x = 0" for x :: u32
proof
  assume "x AND 0xFFFF0000 = 0"
  then have "push_bit 16 (drop_bit 16 x) = 0" by (simp add: high_half)
  then have "drop_bit 16 (push_bit 16 (drop_bit 16 x)) = 0" by simp
  moreover have "drop_bit 16 (push_bit 16 (drop_bit 16 x)) = drop_bit 16 x"
    by (rule bit_word_eqI) (auto simp: bit_simps dest: bit_imp_le_length)
  ultimately show "drop_bit 16 x = 0" by simp
qed (simp add: high_half)

lemma bit_flag_at: "n < 32 \<Longrightarrow> bit (flag_at n b) i \<longleftrightarrow> b \<and> i = n"
  by (auto simp: flag_at_def bit_simps)

lemma bit_small: "k < 128 \<Longrightarrow> bit (of_nat k :: u32) i \<Longrightarrow> i < 7"
proof (rule ccontr)
  assume k: "k < 128" "bit (of_nat k :: u32) i" and i: "\<not> i < 7"
  then have "bit k i" by (simp add: bit_simps)
  moreover have "k < 2 ^ i" using k(1) i power_increasing [of 7 i "2 :: nat"] by simp
  ultimately show False by (simp add: bit_iff_odd)
qed

lemma status_bit:
  "bit (status_bits s) i \<longleftrightarrow> rvalid s \<and> i = 15 \<or> woverflow s \<and> i = 14
     \<or> length (wfifo s) < WRITE_DEPTH \<and> i = 13 \<or> rfifo s \<noteq> [] \<and> i = 12
     \<or> ac_flag s \<and> i = 10 \<or> ipen_AE s \<and> i = 9 \<or> ipen_AF s \<and> i = 8"
  by (simp add: status_bits_def bit_or_iff bit_flag_at)

lemma control_bits:
  "bit (jtag_control s) 8 \<longleftrightarrow> ipen_AF s" "bit (jtag_control s) 9 \<longleftrightarrow> ipen_AE s"
  "bit (jtag_control s) 10 \<longleftrightarrow> ac_flag s"
  by (simp_all add: jtag_control_def bit_or_iff bit_flag_at status_bit bit_push_bit_iff)

lemma control_space: "drop_bit 16 (jtag_control s) = of_nat (WRITE_DEPTH - length (wfifo s))"
  (is "_ = (of_nat ?k :: u32)")
proof (rule bit_word_eqI)
  fix i assume "i < LENGTH(32)"
  have "bit (of_nat ?k :: u32) i \<Longrightarrow> i < 7" by (rule bit_small) (auto simp: WRITE_DEPTH_def)
  moreover have "bit (of_nat ?k :: u32) i \<Longrightarrow> i + 16 < 32" using calculation by simp
  ultimately show "bit (drop_bit 16 (jtag_control s)) i \<longleftrightarrow> bit (of_nat ?k :: u32) i"
    by (auto simp: bit_drop_bit_eq jtag_control_def bit_or_iff bit_flag_at status_bit bit_push_bit_iff add.commute)
qed

lemma read_data_avail:
  "drop_bit 16 (fst (jtag_read_data s)) = of_nat (min READ_DEPTH (length (rfifo s) - 1))" (is "_ = (of_nat ?k :: u32)")
proof (rule bit_word_eqI)
  fix i assume "i < LENGTH(32)"
  have "bit (of_nat ?k :: u32) i \<Longrightarrow> i < 7" by (erule bit_small [rotated]) (simp add: READ_DEPTH_def)
  moreover have "\<not> bit (case rfifo s of [] \<Rightarrow> (0 :: u32) | x # xs \<Rightarrow> ucast x) (16 + i)"
    by (auto simp: bit_simps split: list.splits dest: bit_imp_le_length)
  ultimately show "bit (drop_bit 16 (fst (jtag_read_data s))) i \<longleftrightarrow> bit (of_nat ?k :: u32) i"
    by (auto simp: bit_drop_bit_eq jtag_read_data_def Let_def bit_or_iff bit_flag_at status_bit
        bit_push_bit_iff add.commute)
qed

lemma read_data_valid: "bit (fst (jtag_read_data s)) 15 \<longleftrightarrow> rfifo s \<noteq> []"
  by (auto simp: jtag_read_data_def Let_def bit_or_iff status_bit bit_push_bit_iff bit_ucast_iff
      split: list.splits dest: bit_imp_le_length)

lemma read_data_byte:
  assumes "rfifo s \<noteq> []"
  shows "ucast (fst (jtag_read_data s) AND 0xFF) = (hd (rfifo s) :: u8)"
proof (rule bit_word_eqI)
  fix i assume i: "i < LENGTH(8)"
  obtain x xs where r: "rfifo s = x # xs" using assms by (cases "rfifo s") auto
  have "(0xFF :: u32) = mask 8" by (simp add: mask_eq_exp_minus_1)
  moreover have "bit (mask 8 :: u32) i" using i by (simp only: bit_mask_iff) simp
  ultimately have "bit (0xFF :: u32) i" by metis
  then show "bit (ucast (fst (jtag_read_data s) AND 0xFF) :: u8) i \<longleftrightarrow> bit (hd (rfifo s)) i"
    using i by (auto simp: r jtag_read_data_def Let_def bit_simps status_bit)
qed

text \<open>Emptying the receive FIFO into the ring, and filling the transmit FIFO from it.\<close>

function jtag_rx_loop :: "u32 \<Rightarrow> uart \<Rightarrow> u32 \<times> uart" where
  "jtag_rx_loop data s =
    (if (rx_in s + 1) mod BUF_LEN = rx_out s then (data, s)
     else let (data, s) = jtag_read_data s in
       if data AND RVALID_MSK = 0 then (data, s)
       else jtag_rx_loop data
         (s\<lparr>rx_buf := (rx_buf s)[unat (rx_in s) := ucast (data AND 0xFF)],
            rx_in := (rx_in s + 1) mod BUF_LEN\<rparr>))"
  by pat_completeness auto
termination
proof (relation "measure (\<lambda>(data, s). length (rfifo s))", goal_cases)
  case (2 data s p d s')
  then have v: "bit (fst (jtag_read_data s)) 15" by (metis fst_conv mask_bits(4))
  then have "rfifo s \<noteq> []" by (simp add: read_data_valid)
  moreover have "rfifo s' = drop 1 (rfifo s)"
    using 2 by (auto simp: jtag_read_data_def Let_def split: prod.splits)
  ultimately show ?case by (cases "rfifo s") auto
qed simp

definition jtag_rx_irq :: "uart \<Rightarrow> uart" where
  "jtag_rx_irq s =
    (let (data, s) = jtag_rx_loop (push_bit 16 1) s in
     if data AND RAVAIL_MSK \<noteq> 0 then
       let s = s\<lparr>irq_enable := irq_enable s AND NOT RE_MSK\<rparr>
       in jtag_write_control (irq_enable s) s
     else s)"

function jtag_tx_loop :: "u32 \<Rightarrow> uart \<Rightarrow> u32 \<times> uart" where
  "jtag_tx_loop space s =
    (if space > 0 \<and> tx_out s \<noteq> tx_in s then
       let s = jtag_write_data (ucast (tx_buf s ! unat (tx_out s))) s;
           s = s\<lparr>tx_out := (tx_out s + 1) mod BUF_LEN\<rparr>
       in jtag_tx_loop (space - 1) s
     else (space, s))"
  by pat_completeness auto
termination
  by (relation "measure (\<lambda>(space, s). unat space)") (auto simp: unat_minus_one word_gt_0 unat_gt_0)

definition jtag_tx_irq :: "u32 \<Rightarrow> uart \<Rightarrow> uart" where
  "jtag_tx_irq control s =
    (let (space, s) = jtag_tx_loop (drop_bit 16 (control AND WSPACE_MSK)) s in
     if space > 0 then
       let s = s\<lparr>irq_enable := irq_enable s AND NOT WE_MSK\<rparr>
       in jtag_write_control (irq_enable s) s
     else s)"

text \<open>One pass of the handler's outer loop, for the value of the control register it read.\<close>

definition jtag_irq_pass :: "u32 \<Rightarrow> uart \<Rightarrow> uart" where
  "jtag_irq_pass control s =
    (let s = (if control AND RI_MSK \<noteq> 0 then jtag_rx_irq s else s)
     in if control AND WI_MSK \<noteq> 0 then jtag_tx_irq control s else s)"

declare jtag_rx_loop.simps [simp del] jtag_tx_loop.simps [simp del]

subsection \<open>The rings\<close>

definition rx_queue :: "uart \<Rightarrow> u8 list" where
  "rx_queue s = ring (rx_buf s) (unat (rx_out s)) (unat (rx_in s))"

definition tx_queue :: "uart \<Rightarrow> u8 list" where
  "tx_queue s = ring (tx_buf s) (unat (tx_out s)) (unat (tx_in s))"

definition rings_ok :: "uart \<Rightarrow> bool" where
  "rings_ok s \<longleftrightarrow> length (rx_buf s) = 2048 \<and> length (tx_buf s) = 2048
     \<and> unat (rx_in s) < 2048 \<and> unat (rx_out s) < 2048
     \<and> unat (tx_in s) < 2048 \<and> unat (tx_out s) < 2048"

definition fifos_ok :: "uart \<Rightarrow> bool" where
  "fifos_ok s \<longleftrightarrow> length (wfifo s) \<le> WRITE_DEPTH \<and> length (rfifo s) \<le> READ_DEPTH \<and> \<not> woverflow s"

lemma unat_ring: "unat x < 2048 \<Longrightarrow> unat y \<le> 2048 \<Longrightarrow> unat ((x + y) mod BUF_LEN) = (unat x + unat y) mod 2048"
  for x y :: u32
proof -
  assume "unat x < 2048" "unat y \<le> 2048"
  then have "unat (x + y) = unat x + unat y" by (subst unat_add) simp
  then show ?thesis by (simp add: ALTERA_AVALON_JTAG_UART_BUF_LEN_def unat_mod)
qed

lemma unat_ring1: "unat x < 2048 \<Longrightarrow> unat ((x + 1) mod BUF_LEN) = (unat x + 1) mod 2048" for x :: u32
  using unat_ring [of x 1] by simp

text \<open>What the two halves of the handler leave alone.\<close>

definition rx_side :: "uart \<Rightarrow> uart \<Rightarrow> bool" where
  "rx_side s t \<longleftrightarrow> (\<exists>a b c d e. t = s\<lparr>rfifo := a, rvalid := b, pause_irq := c, rx_buf := d, rx_in := e\<rparr>)"

definition tx_side :: "uart \<Rightarrow> uart \<Rightarrow> bool" where
  "tx_side s t \<longleftrightarrow> (\<exists>a b c. t = s\<lparr>wfifo := a, woverflow := b, tx_out := c\<rparr>)"

lemma rx_side_refl [intro, simp]: "rx_side s s"
  unfolding rx_side_def by (intro exI) (rule uart.equality; simp)

lemma tx_side_refl [intro, simp]: "tx_side s s"
  unfolding tx_side_def by (intro exI) (rule uart.equality; simp)

lemma rx_side_trans [trans]: "rx_side s t \<Longrightarrow> rx_side t u \<Longrightarrow> rx_side s u"
  unfolding rx_side_def by (elim exE, simp, intro exI, rule refl)

lemma tx_side_trans [trans]: "tx_side s t \<Longrightarrow> tx_side t u \<Longrightarrow> tx_side s u"
  unfolding tx_side_def by (elim exE, simp, intro exI, rule refl)

text \<open>The receive loop moves bytes from the front of the FIFO to the end of the ring, until one is
  empty or the other full; only in the second case may the last data word say that more is
  there.\<close>

lemma rx_loop_step:
  assumes "rings_ok s" "fifos_ok s" "(rx_in s + 1) mod BUF_LEN \<noteq> rx_out s" "rfifo s = x # xs"
  defines "t \<equiv> s\<lparr>rfifo := xs, rvalid := True, pause_irq := False,
      rx_buf := (rx_buf s)[unat (rx_in s) := x], rx_in := (rx_in s + 1) mod BUF_LEN\<rparr>"
  shows "jtag_rx_loop d s = jtag_rx_loop (fst (jtag_read_data s)) t"
    "rings_ok t" "fifos_ok t" "rx_queue t = rx_queue s @ [x]" "rx_side s t"
proof -
  obtain v u where vu: "jtag_read_data s = (v, u)" by fastforce
  have b: "bit v 15" "ucast (v AND 0xFF) = x"
    using read_data_valid [of s] read_data_byte [of s] assms(4) vu by simp_all
  have u: "u = s\<lparr>rfifo := xs, rvalid := True, pause_irq := False\<rparr>"
    using vu assms(4) by (auto simp: jtag_read_data_def Let_def)
  show "jtag_rx_loop d s = jtag_rx_loop (fst (jtag_read_data s)) t"
    by (subst jtag_rx_loop.simps) (simp add: assms(3) vu b u t_def)
  have n: "unat ((rx_in s + 1) mod BUF_LEN) = (unat (rx_in s) + 1) mod 2048"
    using assms(1) by (simp add: unat_ring1 rings_ok_def)
  then have ne: "(unat (rx_in s) + 1) mod 2048 \<noteq> unat (rx_out s)"
    using assms(3) by (metis word_unat_eq_iff)
  show "rings_ok t" using assms(1) n by (simp add: rings_ok_def t_def)
  show "fifos_ok t" using assms(2,4) by (simp add: fifos_ok_def t_def)
  show "rx_queue t = rx_queue s @ [x]"
    using ring_put1 [of "unat (rx_out s)" "rx_buf s" "unat (rx_in s)" x] assms(1) n ne
    by (simp add: rx_queue_def t_def rings_ok_def)
  show "rx_side s t" unfolding rx_side_def t_def by blast
qed

lemma of_nat_u32_0: "k \<le> 64 \<Longrightarrow> (of_nat k :: u32) = 0 \<longleftrightarrow> k = 0"
  by (simp add: word_unat_eq_iff unsigned_of_nat take_bit_nat_eq_self)

lemma ring_full:
  assumes "rings_ok s"
  shows "(rx_in s + 1) mod BUF_LEN = rx_out s \<longleftrightarrow> length (rx_queue s) = 2047"
proof -
  have b: "unat (rx_in s) < 2048" "unat (rx_out s) < 2048" "length (rx_buf s) = 2048"
    using assms by (simp_all add: rings_ok_def)
  then have "(rx_in s + 1) mod BUF_LEN = rx_out s \<longleftrightarrow> (unat (rx_in s) + 1) mod 2048 = unat (rx_out s)"
    by (simp add: word_unat_eq_iff unat_ring1)
  also have "\<dots> \<longleftrightarrow> length (rx_queue s) = 2047"
    using b by (auto simp: rx_queue_def ring_length mod_if)
  finally show ?thesis .
qed

lemma rx_loop:
  assumes "rings_ok s" "fifos_ok s" "jtag_rx_loop d s = (d', t)"
    "drop_bit 16 d = 0 \<Longrightarrow> rfifo s = [] \<and> \<not> pause_irq s"
  shows "rings_ok t \<and> fifos_ok t \<and> rx_side s t
    \<and> rx_queue t @ rfifo t = rx_queue s @ rfifo s \<and> length (rx_queue s) \<le> length (rx_queue t)
    \<and> (if drop_bit 16 d' = 0 then rfifo t = [] \<and> \<not> pause_irq t else length (rx_queue t) = 2047)"
  using assms
proof (induction "rfifo s" arbitrary: d s)
  case Nil
  show ?case
  proof (cases "(rx_in s + 1) mod BUF_LEN = rx_out s")
    case True
    then show ?thesis using Nil by (subst (asm) jtag_rx_loop.simps) (simp add: ring_full)
  next
    case False
    obtain v u where vu: "jtag_read_data s = (v, u)" by fastforce
    have "\<not> bit v 15" "drop_bit 16 v = 0"
      using read_data_valid [of s] read_data_avail [of s] Nil(1,3) vu by (simp_all add: fifos_ok_def)
    moreover have "u = s\<lparr>rfifo := [], rvalid := False, pause_irq := False\<rparr>"
      using vu Nil(1) by (auto simp: jtag_read_data_def Let_def)
    moreover have "d' = v" "t = u"
      using Nil(4) False vu calculation by (subst (asm) jtag_rx_loop.simps; simp)+
    moreover have "rx_side s u"
      unfolding rx_side_def calculation(3)
      by (intro exI [of _ "[]"] exI [of _ False] exI [of _ "rx_buf s"] exI [of _ "rx_in s"] uart.equality) simp_all
    ultimately show ?thesis using Nil(1-3) by (simp add: rings_ok_def fifos_ok_def rx_queue_def)
  qed
next
  case (Cons x xs)
  show ?case
  proof (cases "(rx_in s + 1) mod BUF_LEN = rx_out s")
    case True
    then show ?thesis using Cons by (subst (asm) jtag_rx_loop.simps) (simp add: ring_full split: if_splits)
  next
    case False
    let ?t = "s\<lparr>rfifo := xs, rvalid := True, pause_irq := False,
      rx_buf := (rx_buf s)[unat (rx_in s) := x], rx_in := (rx_in s + 1) mod BUF_LEN\<rparr>"
    let ?d = "fst (jtag_read_data s)"
    note st = rx_loop_step [OF Cons(3,4) False Cons(2) [symmetric]]
    have "length xs \<le> 64" using st(3) by (simp add: fifos_ok_def READ_DEPTH_def)
    moreover have "length (rfifo s) - 1 = length xs" by (metis Cons(2) length_Cons diff_Suc_1)
    then have "drop_bit 16 ?d = of_nat (length xs)"
      using read_data_avail [of s] \<open>length xs \<le> 64\<close> by (simp add: READ_DEPTH_def min_def)
    ultimately have "drop_bit 16 ?d = 0 \<Longrightarrow> rfifo ?t = [] \<and> \<not> pause_irq ?t"
      by (simp add: of_nat_u32_0)
    then have "rings_ok t \<and> fifos_ok t \<and> rx_side ?t t
        \<and> rx_queue t @ rfifo t = rx_queue ?t @ rfifo ?t \<and> length (rx_queue ?t) \<le> length (rx_queue t)
        \<and> (if drop_bit 16 d' = 0 then rfifo t = [] \<and> \<not> pause_irq t else length (rx_queue t) = 2047)"
      using Cons.hyps(1) [of ?t ?d] st(1-3) Cons.prems(3) by simp
    then show ?thesis using st(4,5) by (auto simp: Cons(2) [symmetric] intro: rx_side_trans)
  qed
qed

text \<open>The transmit loop moves bytes from the front of the ring to the end of the FIFO, as many as
  the FIFO has room for or until the ring is empty.\<close>

lemma ucast_back [simp]: "ucast (ucast x :: u32) = (x :: u8)"
  by (rule bit_word_eqI) (simp add: bit_simps)

lemma tx_loop_step:
  assumes "rings_ok s" "fifos_ok s" "tx_out s \<noteq> tx_in s" "length (wfifo s) < WRITE_DEPTH"
  defines "x \<equiv> tx_buf s ! unat (tx_out s)"
  defines "t \<equiv> s\<lparr>wfifo := wfifo s @ [x], woverflow := False, tx_out := (tx_out s + 1) mod BUF_LEN\<rparr>"
  shows "0 < n \<Longrightarrow> jtag_tx_loop n s = jtag_tx_loop (n - 1) t"
    "rings_ok t" "fifos_ok t" "tx_queue s = x # tx_queue t" "tx_side s t"
proof -
  show "0 < n \<Longrightarrow> jtag_tx_loop n s = jtag_tx_loop (n - 1) t"
    by (subst jtag_tx_loop.simps) (use assms(3,4) in \<open>simp add: t_def x_def jtag_write_data_def\<close>)
  have n: "unat ((tx_out s + 1) mod BUF_LEN) = (unat (tx_out s) + 1) mod 2048"
    using assms(1) by (simp add: unat_ring1 rings_ok_def)
  show "rings_ok t" using assms(1) n by (simp add: rings_ok_def t_def)
  show "fifos_ok t" using assms(2,4) by (simp add: fifos_ok_def t_def)
  have "unat (tx_out s) \<noteq> unat (tx_in s)" using assms(3) by (metis word_unat_eq_iff)
  then show "tx_queue s = x # tx_queue t"
    using ring_get1 [of "unat (tx_out s)" "tx_buf s" "unat (tx_in s)"] assms(1) n
    by (simp add: tx_queue_def t_def x_def rings_ok_def)
  show "tx_side s t" unfolding tx_side_def t_def by blast
qed

lemma tx_queue_Nil: "rings_ok s \<Longrightarrow> tx_queue s = [] \<longleftrightarrow> tx_out s = tx_in s"
  by (simp add: tx_queue_def ring_Nil_iff rings_ok_def word_unat_eq_iff)

lemma tx_loop:
  assumes "rings_ok s" "fifos_ok s" "jtag_tx_loop n s = (m, t)" "length (wfifo s) + unat n \<le> WRITE_DEPTH"
  shows "rings_ok t \<and> fifos_ok t \<and> tx_side s t
    \<and> wfifo t @ tx_queue t = wfifo s @ tx_queue s \<and> length (wfifo s) \<le> length (wfifo t)
    \<and> (if m = 0 then length (wfifo t) = length (wfifo s) + unat n else tx_queue t = [])"
  using assms
proof (induction "unat n" arbitrary: n s)
  case 0
  then show ?case by (subst (asm) jtag_tx_loop.simps) (auto simp: unat_eq_0)
next
  case (Suc k)
  have n: "0 < n" using Suc(2) by (metis unat_gt_0 zero_less_Suc word_neq_0_conv)
  show ?case
  proof (cases "tx_out s = tx_in s")
    case True
    then show ?thesis using Suc.prems n by (subst (asm) jtag_tx_loop.simps) (auto simp: tx_queue_Nil)
  next
    case False
    let ?x = "tx_buf s ! unat (tx_out s)"
    let ?t = "s\<lparr>wfifo := wfifo s @ [?x], woverflow := False, tx_out := (tx_out s + 1) mod BUF_LEN\<rparr>"
    have "length (wfifo s) < WRITE_DEPTH" using Suc.prems(4) Suc.hyps(2) by simp
    note st = tx_loop_step [OF Suc.prems(1,2) False this]
    have k: "k = unat (n - 1)" using Suc.hyps(2) n by (simp add: unat_minus_one word_gt_0)
    have "rings_ok t \<and> fifos_ok t \<and> tx_side ?t t
      \<and> wfifo t @ tx_queue t = wfifo ?t @ tx_queue ?t \<and> length (wfifo ?t) \<le> length (wfifo t)
      \<and> (if m = 0 then length (wfifo t) = length (wfifo ?t) + unat (n - 1) else tx_queue t = [])"
      using Suc.hyps(1) [OF k st(2,3)] st(1) [OF n] Suc.prems(3,4) Suc.hyps(2) k by simp
    then show ?thesis using st(4,5) Suc.hyps(2) k by (auto intro: tx_side_trans split: if_splits)
  qed
qed

text \<open>The interrupt enables the core has are those the driver last asked for.\<close>

definition ctl_ok :: "uart \<Rightarrow> bool" where
  "ctl_ok s \<longleftrightarrow> ien_AF s = bit (irq_enable s) 0 \<and> ien_AE s = bit (irq_enable s) 1"

definition uart_ok :: "uart \<Rightarrow> bool" where
  "uart_ok s \<longleftrightarrow> rings_ok s \<and> fifos_ok s \<and> ctl_ok s"

abbreviation "want_rx s \<equiv> bit (irq_enable s) 0"
abbreviation "want_tx s \<equiv> bit (irq_enable s) 1"

text \<open>Everything on its way to the host, and what the driver has to give to the program.\<close>

definition tx_stream :: "uart \<Rightarrow> u8 list" where
  "tx_stream s = host_got s @ wfifo s @ tx_queue s"

definition rx_stream :: "uart \<Rightarrow> u8 list" where
  "rx_stream s = rx_queue s @ rfifo s"

text \<open>What interrupts, the alarm and the host may do between two steps of the driver.\<close>

definition interferes :: "uart \<Rightarrow> uart \<Rightarrow> bool" where
  "interferes s t \<longleftrightarrow> (uart_ok s \<longrightarrow> uart_ok t
     \<and> tx_stream t = tx_stream s
     \<and> (\<exists>new. host_sent t = host_sent s @ new \<and> rx_stream t = rx_stream s @ new)
     \<and> (\<exists>new. rx_queue t = rx_queue s @ new) \<and> (\<exists>sent. tx_queue s = sent @ tx_queue t)
     \<and> tx_in t = tx_in s \<and> rx_out t = rx_out s \<and> tx_buf t = tx_buf s \<and> timeout t = timeout s
     \<and> env t = env s \<and> inst s \<le> inst t
     \<and> (want_tx t \<longrightarrow> want_tx s) \<and> (want_tx s \<longrightarrow> want_tx t \<or> tx_queue t = [])
     \<and> (want_rx t \<longrightarrow> want_rx s) \<and> (want_rx s \<longrightarrow> want_rx t \<or> length (rx_queue t) = 2047))"

lemma rx_queue_le: "rings_ok s \<Longrightarrow> length (rx_queue s) \<le> 2047"
  by (auto simp: rx_queue_def ring_length rings_ok_def)

lemma interferes_refl [simp, intro]: "interferes s s"
  by (auto simp: interferes_def)

lemma interferes_trans [trans]: "interferes s t \<Longrightarrow> interferes t u \<Longrightarrow> interferes s u"
proof -
  assume st: "interferes s t" and tu: "interferes t u"
  show "interferes s u"
  proof (cases "uart_ok s")
    case ok: True
    then have t: "uart_ok t" using st by (simp add: interferes_def)
    then have "uart_ok u" using tu by (simp add: interferes_def)
    then have "length (rx_queue u) \<le> 2047" by (simp add: uart_ok_def rx_queue_le)
    moreover obtain n1 r1 s1 where 1: "host_sent t = host_sent s @ n1" "rx_stream t = rx_stream s @ n1"
      "rx_queue t = rx_queue s @ r1" "tx_queue s = s1 @ tx_queue t"
      using st ok by (auto simp: interferes_def)
    moreover obtain n2 r2 s2 where 2: "host_sent u = host_sent t @ n2" "rx_stream u = rx_stream t @ n2"
      "rx_queue u = rx_queue t @ r2" "tx_queue t = s2 @ tx_queue u"
      using tu t by (auto simp: interferes_def)
    ultimately have lists: "\<exists>new. host_sent u = host_sent s @ new \<and> rx_stream u = rx_stream s @ new"
      "\<exists>new. rx_queue u = rx_queue s @ new" "\<exists>sent. tx_queue s = sent @ tx_queue u"
      and full: "length (rx_queue t) = 2047 \<Longrightarrow> length (rx_queue u) = 2047" "tx_queue t = [] \<Longrightarrow> tx_queue u = []"
      by auto
    have "want_tx s \<Longrightarrow> want_tx u \<or> tx_queue u = []" "want_rx s \<Longrightarrow> want_rx u \<or> length (rx_queue u) = 2047"
      using st tu ok t full unfolding interferes_def by blast+
    then show ?thesis using st tu ok t lists unfolding interferes_def by simp
  qed (simp add: interferes_def)
qed

text \<open>The same of any state, as far as the handler's termination needs it.\<close>

lemma rx_side_step: "rx_side s (s\<lparr>rfifo := a, rvalid := b, pause_irq := c\<rparr>)"
  unfolding rx_side_def
  by (intro exI [of _ a] exI [of _ b] exI [of _ c] exI [of _ "rx_buf s"] exI [of _ "rx_in s"] uart.equality) simp_all

lemma rx_loop_frame:
  "jtag_rx_loop d s = (d', t) \<Longrightarrow> (drop_bit 16 d = 0 \<Longrightarrow> rfifo s = [] \<and> \<not> pause_irq s)
    \<Longrightarrow> rx_side s t \<and> (drop_bit 16 d' = 0 \<longrightarrow> rfifo t = [] \<and> \<not> pause_irq t)"
proof (induction d s arbitrary: d' t rule: jtag_rx_loop.induct)
  case (1 d s)
  show ?case
  proof (cases "(rx_in s + 1) mod BUF_LEN = rx_out s")
    case True
    then show ?thesis using 1(2,3) by (subst (asm) jtag_rx_loop.simps) auto
  next
    case F: False
    obtain v u where vu: "jtag_read_data s = (v, u)" by fastforce
    have u: "u = s\<lparr>rfifo := drop 1 (rfifo s), rvalid := (rfifo s \<noteq> []), pause_irq := False\<rparr>"
      using vu by (auto simp: jtag_read_data_def Let_def)
    have v: "bit v 15 \<longleftrightarrow> rfifo s \<noteq> []" "drop_bit 16 v = of_nat (min 64 (length (rfifo s) - 1))"
      using read_data_valid [of s] read_data_avail [of s] vu by (simp_all add: READ_DEPTH_def)
    then have e: "drop_bit 16 v = 0 \<Longrightarrow> rfifo u = []"
      by (simp add: u of_nat_u32_0 min_def split: if_splits)
    have fr: "rx_side s u" unfolding u by (rule rx_side_step)
    show ?thesis
    proof (cases "rfifo s = []")
      case True
      then have "d' = v" "t = u" using 1(2) F vu v(1) by (subst (asm) jtag_rx_loop.simps; simp)+
      then show ?thesis using fr True by (simp add: u)
    next
      case False
      let ?w = "u\<lparr>rx_buf := (rx_buf u)[unat (rx_in u) := ucast (v AND 0xFF)], rx_in := (rx_in u + 1) mod BUF_LEN\<rparr>"
      have "jtag_rx_loop v ?w = (d', t)" using 1(2) F vu v(1) False by (subst (asm) jtag_rx_loop.simps) simp
      then have "rx_side ?w t \<and> (drop_bit 16 d' = 0 \<longrightarrow> rfifo t = [] \<and> \<not> pause_irq t)"
        using 1(1) [OF F vu [symmetric] refl, of d' t] v(1) False e by (simp add: u)
      moreover have "rx_side u ?w"
        unfolding rx_side_def
        by (intro exI [of _ "rfifo u"] exI [of _ "rvalid u"] exI [of _ "pause_irq u"]
            exI [of _ "(rx_buf u)[unat (rx_in u) := ucast (v AND 0xFF)]"] exI [of _ "(rx_in u + 1) mod BUF_LEN"]
            uart.equality) simp_all
      ultimately show ?thesis using fr rx_side_trans by blast
    qed
  qed
qed

lemma tx_loop_frame:
  "jtag_tx_loop n s = (m, t) \<Longrightarrow> length (wfifo s) + unat n \<le> WRITE_DEPTH
    \<Longrightarrow> tx_side s t \<and> (m = 0 \<longrightarrow> length (wfifo t) = length (wfifo s) + unat n)"
proof (induction n s arbitrary: m t rule: jtag_tx_loop.induct)
  case (1 n s)
  show ?case
  proof (cases "n > 0 \<and> tx_out s \<noteq> tx_in s")
    case False
    then show ?thesis using 1(2) by (subst (asm) jtag_tx_loop.simps) (auto simp: word_gt_0)
  next
    case True
    let ?w = "s\<lparr>wfifo := wfifo s @ [tx_buf s ! unat (tx_out s)], woverflow := False, tx_out := (tx_out s + 1) mod BUF_LEN\<rparr>"
    have "unat n \<noteq> 0" using True by (simp add: unat_eq_0 word_gt_0)
    then have n: "unat n = Suc (unat (n - 1))" using True by (simp add: unat_minus_one word_gt_0)
    then have l: "length (wfifo s) < WRITE_DEPTH" using 1(3) by simp
    have "jtag_tx_loop (n - 1) ?w = (m, t)"
      using 1(2) True l by (subst (asm) jtag_tx_loop.simps) (simp add: jtag_write_data_def)
    then have "tx_side ?w t \<and> (m = 0 \<longrightarrow> length (wfifo t) = length (wfifo ?w) + unat (n - 1))"
      using 1(1) [OF True refl refl, of m t] 1(3) l n by (simp add: jtag_write_data_def)
    moreover have "tx_side s ?w" unfolding tx_side_def by blast
    ultimately show ?thesis using n tx_side_trans by auto
  qed
qed

definition rx_cause :: "uart \<Rightarrow> bool" where
  "rx_cause s \<longleftrightarrow> pause_irq s \<or> READ_DEPTH - length (rfifo s) \<le> 8"

definition tx_cause :: "uart \<Rightarrow> bool" where
  "tx_cause s \<longleftrightarrow> length (wfifo s) \<le> 8"

text \<open>How many of the two causes could still interrupt.\<close>

definition causes :: "uart \<Rightarrow> nat" where
  "causes s = of_bool (rx_cause s \<and> (ien_AF s \<or> want_rx s)) + of_bool (tx_cause s \<and> (ien_AE s \<or> want_tx s))"

lemma write_control_bits:
  "jtag_write_control (v AND NOT RE_MSK) s
    = s\<lparr>ien_AF := False, ien_AE := bit v 1, ac_flag := (ac_flag s \<and> \<not> bit v 10)\<rparr>"
  "jtag_write_control (v AND NOT WE_MSK) s
    = s\<lparr>ien_AF := bit v 0, ien_AE := False, ac_flag := (ac_flag s \<and> \<not> bit v 10)\<rparr>"
  by (simp_all add: jtag_write_control_def bit_and_iff bit_not_iff bit_1_iff bit_2_iff)

lemma and_not_bits [simp]:
  "bit (x AND - 2) i \<longleftrightarrow> bit x i \<and> i \<noteq> 0" "bit (x AND - 3) i \<longleftrightarrow> bit x i \<and> i \<noteq> 1" for x :: u32
proof -
  have "bit (x AND NOT 1) i \<longleftrightarrow> bit x i \<and> i \<noteq> 0" "bit (x AND NOT 2) i \<longleftrightarrow> bit x i \<and> i \<noteq> 1"
    by (simp only: bit_and_iff bit_not_iff bit_1_iff bit_2_iff possible_bit_def; auto dest: bit_imp_le_length)+
  then show "bit (x AND - 2) i \<longleftrightarrow> bit x i \<and> i \<noteq> 0" "bit (x AND - 3) i \<longleftrightarrow> bit x i \<and> i \<noteq> 1"
    by simp_all
qed

lemma irq_mask: "x AND 0x300 = 0 \<longleftrightarrow> \<not> bit x 8 \<and> \<not> bit x 9" for x :: u32
proof -
  have "x AND 0x300 = (x AND 0x100) OR (x AND 0x200)" by (simp flip: bit.conj_disj_distrib)
  then show ?thesis by (simp add: or_eq_0_iff)
qed

lemma first_data: "drop_bit 16 (push_bit 16 1 :: u32) = 1"
  by (simp add: drop_bit_push_bit)

lemma rx_irq_cases:
  assumes "jtag_rx_loop (push_bit 16 1) s = (d, t)"
  shows "if drop_bit 16 d = 0 then jtag_rx_irq s = t
    else jtag_rx_irq s = t\<lparr>irq_enable := irq_enable t AND NOT RE_MSK,
      ien_AF := False, ien_AE := want_tx t, ac_flag := (ac_flag t \<and> \<not> bit (irq_enable t) 10)\<rparr>"
  using assms by (simp add: jtag_rx_irq_def high_half_0 write_control_bits [simplified])

lemma tx_irq_cases:
  assumes "jtag_tx_loop (drop_bit 16 c) s = (m, t)"
  shows "if m = 0 then jtag_tx_irq c s = t
    else jtag_tx_irq c s = t\<lparr>irq_enable := irq_enable t AND NOT WE_MSK,
      ien_AF := want_rx t, ien_AE := False, ac_flag := (ac_flag t \<and> \<not> bit (irq_enable t) 10)\<rparr>"
proof -
  have "drop_bit 16 (push_bit 16 (drop_bit 16 c)) = drop_bit 16 c"
    by (rule bit_word_eqI) (auto simp: bit_simps dest: bit_imp_le_length)
  then show ?thesis using assms by (simp add: jtag_tx_irq_def high_half write_control_bits [simplified] word_gt_0)
qed

lemma rx_irq_causes:
  "causes (jtag_rx_irq s) \<le> causes s \<and> wfifo (jtag_rx_irq s) = wfifo s
    \<and> (rx_cause s \<and> ien_AF s \<longrightarrow> causes (jtag_rx_irq s) < causes s)"
proof -
  obtain d t where dt: "jtag_rx_loop (push_bit 16 1) s = (d, t)" by fastforce
  have f: "rx_side s t" and e: "drop_bit 16 d = 0 \<Longrightarrow> \<not> rx_cause t"
    using rx_loop_frame [OF dt] by (auto simp: first_data rx_cause_def READ_DEPTH_def)
  then have eq: "wfifo t = wfifo s" "ien_AF t = ien_AF s" "ien_AE t = ien_AE s" "irq_enable t = irq_enable s"
    by (auto simp: rx_side_def)
  show ?thesis using rx_irq_cases [OF dt] e
    by (auto simp: causes_def tx_cause_def eq rx_cause_def split: if_splits)
qed

lemma tx_irq_causes:
  assumes "length (wfifo s) + unat (drop_bit 16 c) = WRITE_DEPTH"
  shows "causes (jtag_tx_irq c s) \<le> causes s
    \<and> (tx_cause s \<and> ien_AE s \<longrightarrow> causes (jtag_tx_irq c s) < causes s)"
proof -
  obtain m t where mt: "jtag_tx_loop (drop_bit 16 c) s = (m, t)" by fastforce
  have f: "tx_side s t" and e: "m = 0 \<Longrightarrow> \<not> tx_cause t"
    using tx_loop_frame [OF mt] assms by (auto simp: tx_cause_def WRITE_DEPTH_def)
  then have eq: "rfifo t = rfifo s" "pause_irq t = pause_irq s"
    "ien_AF t = ien_AF s" "ien_AE t = ien_AE s" "irq_enable t = irq_enable s"
    by (auto simp: tx_side_def)
  show ?thesis using tx_irq_cases [OF mt] e
    by (auto simp: causes_def rx_cause_def eq tx_cause_def split: if_splits)
qed

lemma pending_cause:
  "ipen_AF s \<longleftrightarrow> ien_AF s \<and> rx_cause s" "ipen_AE s \<longleftrightarrow> ien_AE s \<and> tx_cause s"
  by (auto simp: ipen_AF_def ipen_AE_def rx_cause_def tx_cause_def)

lemma control_room:
  assumes "length (wfifo s) \<le> WRITE_DEPTH"
  shows "length (wfifo s) + unat (drop_bit 16 (jtag_control s)) = WRITE_DEPTH"
proof -
  have "unat (of_nat (WRITE_DEPTH - length (wfifo s)) :: u32) = WRITE_DEPTH - length (wfifo s)"
    by (subst unsigned_of_nat) (simp add: take_bit_nat_eq_self WRITE_DEPTH_def)
  then show ?thesis using assms by (simp only: control_space le_add_diff_inverse)
qed

lemma irq_pass_causes:
  assumes "av_irq s"
  shows "causes (jtag_irq_pass (jtag_control s) s) < causes s"
proof -
  define u where "u = (if jtag_control s AND RI_MSK \<noteq> 0 then jtag_rx_irq s else s)"
  have u: "causes u \<le> causes s" "wfifo u = wfifo s" "ien_AF s \<and> rx_cause s \<Longrightarrow> causes u < causes s"
    using rx_irq_causes [of s] by (auto simp: u_def control_bits pending_cause)
  have p: "jtag_irq_pass (jtag_control s) s
      = (if ien_AE s \<and> tx_cause s then jtag_tx_irq (jtag_control s) u else u)"
    by (simp add: jtag_irq_pass_def u_def control_bits pending_cause Let_def)
  show ?thesis
  proof (cases "ien_AE s \<and> tx_cause s")
    case True
    then have "length (wfifo u) + unat (drop_bit 16 (jtag_control s)) = WRITE_DEPTH"
      using control_room [of s] u(2) by (simp add: tx_cause_def WRITE_DEPTH_def)
    note t = tx_irq_causes [OF this]
    show ?thesis
    proof (cases "ien_AF s \<and> rx_cause s")
      case True
      then show ?thesis using p t u(3) by (auto intro: order_le_less_trans)
    next
      case False
      then have "u = s" by (simp add: u_def control_bits pending_cause)
      then show ?thesis using p t True by simp
    qed
  next
    case False
    then show ?thesis using assms p u(3) by (auto simp: av_irq_def pending_cause)
  qed
qed

function jtag_irq :: "uart \<Rightarrow> uart" where
  "jtag_irq s =
    (let control = jtag_control s in
     if control AND (RI_MSK OR WI_MSK) = 0 then s else jtag_irq (jtag_irq_pass control s))"
  by pat_completeness auto
termination
  by (relation "measure causes") (auto simp: irq_mask control_bits av_irq_def intro: irq_pass_causes)

declare jtag_irq.simps [simp del]

subsection \<open>The handler interferes as promised\<close>

lemma interferesI:
  assumes "uart_ok s \<Longrightarrow> uart_ok t"
    "uart_ok s \<Longrightarrow> tx_stream t = tx_stream s"
    "uart_ok s \<Longrightarrow> host_sent t = host_sent s @ new \<and> rx_stream t = rx_stream s @ new"
    "uart_ok s \<Longrightarrow> length (rx_queue s) \<le> length (rx_queue t)"
    "uart_ok s \<Longrightarrow> \<exists>sent. tx_queue s = sent @ tx_queue t"
    "tx_in t = tx_in s \<and> rx_out t = rx_out s \<and> tx_buf t = tx_buf s \<and> timeout t = timeout s
      \<and> env t = env s \<and> inst s \<le> inst t"
    "uart_ok s \<Longrightarrow> (want_tx t \<longrightarrow> want_tx s) \<and> (want_tx s \<longrightarrow> want_tx t \<or> tx_queue t = [])"
    "uart_ok s \<Longrightarrow> (want_rx t \<longrightarrow> want_rx s) \<and> (want_rx s \<longrightarrow> want_rx t \<or> length (rx_queue t) = 2047)"
  shows "interferes s t"
proof (cases "uart_ok s")
  case ok: True
  have "rx_queue t = take (length (rx_queue t)) (rx_stream t)" by (simp add: rx_stream_def)
  also have "\<dots> = take (length (rx_queue t)) (rx_queue s @ rfifo s @ new)"
    using assms(3) ok by (simp add: rx_stream_def)
  finally have "rx_queue t = rx_queue s @ take (length (rx_queue t) - length (rx_queue s)) (rfifo s @ new)"
    using assms(4) ok by simp
  then show ?thesis using assms ok unfolding interferes_def by blast
qed (simp add: interferes_def)

lemma ctl_update [simp]:
  "tx_queue (t\<lparr>irq_enable := a, ien_AF := b, ien_AE := c, ac_flag := d\<rparr>) = tx_queue t"
  "rx_queue (t\<lparr>irq_enable := a, ien_AF := b, ien_AE := c, ac_flag := d\<rparr>) = rx_queue t"
  "tx_stream (t\<lparr>irq_enable := a, ien_AF := b, ien_AE := c, ac_flag := d\<rparr>) = tx_stream t"
  by (simp_all add: tx_queue_def rx_queue_def tx_stream_def)

lemma rx_irq_interferes: "interferes s (jtag_rx_irq s)"
proof -
  obtain d t where dt: "jtag_rx_loop (push_bit 16 1) s = (d, t)" by fastforce
  note cs = rx_irq_cases [OF dt] and fr = rx_loop_frame [OF dt]
  have f: "rx_side s t" using fr by (simp add: first_data)
  have L: "rings_ok t \<and> fifos_ok t \<and> rx_queue t @ rfifo t = rx_queue s @ rfifo s
      \<and> length (rx_queue s) \<le> length (rx_queue t)
      \<and> (drop_bit 16 d \<noteq> 0 \<longrightarrow> length (rx_queue t) = 2047)" if "uart_ok s"
    using rx_loop [of s "push_bit 16 1" d t] that dt by (simp add: uart_ok_def first_data split: if_splits)
  have eq: "tx_in t = tx_in s" "tx_out t = tx_out s" "rx_out t = rx_out s" "tx_buf t = tx_buf s"
    "timeout t = timeout s" "env t = env s" "inst t = inst s" "irq_enable t = irq_enable s"
    "ien_AE t = ien_AE s" "ien_AF t = ien_AF s" "host_got t = host_got s" "wfifo t = wfifo s"
    "host_sent t = host_sent s"
    using f by (auto simp: rx_side_def)
  show ?thesis
    by (rule interferesI [where new = "[]"]; use cs L in \<open>cases "drop_bit 16 d = 0"\<close>)
      (simp_all add: uart_ok_def ctl_ok_def rings_ok_def fifos_ok_def rx_stream_def tx_stream_def
        tx_queue_def rx_queue_def eq)
qed

lemma tx_irq_interferes:
  assumes "uart_ok s \<Longrightarrow> length (wfifo s) + unat (drop_bit 16 c) = WRITE_DEPTH"
  shows "interferes s (jtag_tx_irq c s)"
proof (cases "uart_ok s")
  case ok: True
  obtain m t where mt: "jtag_tx_loop (drop_bit 16 c) s = (m, t)" by fastforce
  note cs = tx_irq_cases [OF mt]
  have L: "rings_ok t \<and> fifos_ok t \<and> tx_side s t \<and> wfifo t @ tx_queue t = wfifo s @ tx_queue s
      \<and> length (wfifo s) \<le> length (wfifo t) \<and> (m \<noteq> 0 \<longrightarrow> tx_queue t = [])"
    using tx_loop [of s "drop_bit 16 c" m t] assms ok mt by (simp add: uart_ok_def split: if_splits)
  then have eq: "tx_in t = tx_in s" "rx_in t = rx_in s" "rx_out t = rx_out s" "tx_buf t = tx_buf s"
    "rx_buf t = rx_buf s" "timeout t = timeout s" "env t = env s" "inst t = inst s" "irq_enable t = irq_enable s"
    "ien_AE t = ien_AE s" "ien_AF t = ien_AF s" "host_got t = host_got s" "rfifo t = rfifo s"
    "host_sent t = host_sent s"
    by (auto simp: tx_side_def)
  have "drop (length (wfifo t)) (wfifo s @ tx_queue s) = tx_queue t"
    using L by (metis append_eq_conv_conj)
  then have "tx_queue t = drop (length (wfifo t) - length (wfifo s)) (tx_queue s)" using L by simp
  then have suf: "\<exists>sent. tx_queue s = sent @ tx_queue t" by (metis append_take_drop_id)
  have r: "rx_queue t = rx_queue s" by (simp add: rx_queue_def eq)
  have q: "tx_queue (jtag_tx_irq c s) = tx_queue t" "rx_queue (jtag_tx_irq c s) = rx_queue s"
    "wfifo (jtag_tx_irq c s) = wfifo t" "host_got (jtag_tx_irq c s) = host_got s"
    using cs eq by (cases "m = 0"; simp add: tx_queue_def rx_queue_def)+
  have "tx_stream (jtag_tx_irq c s) = tx_stream s" using L by (simp add: tx_stream_def q)
  then show ?thesis
    by (intro interferesI [where new = "[]"]; use cs L suf in \<open>cases "m = 0"\<close>)
      (simp_all add: uart_ok_def ctl_ok_def rings_ok_def fifos_ok_def rx_stream_def q r eq)
qed (simp add: interferes_def)

lemma irq_pass_interferes: "interferes s (jtag_irq_pass (jtag_control s) s)"
proof -
  define u where "u = (if jtag_control s AND RI_MSK \<noteq> 0 then jtag_rx_irq s else s)"
  have su: "interferes s u" by (simp add: u_def rx_irq_interferes)
  have w: "wfifo u = wfifo s" by (simp add: u_def rx_irq_causes)
  have "interferes u (jtag_tx_irq (jtag_control s) u)"
  proof (rule tx_irq_interferes)
    assume "uart_ok u"
    then have "length (wfifo s) \<le> WRITE_DEPTH" using w by (simp add: uart_ok_def fifos_ok_def)
    then show "length (wfifo u) + unat (drop_bit 16 (jtag_control s)) = WRITE_DEPTH"
      using control_room w by metis
  qed
  then show ?thesis
    using su interferes_trans by (auto simp: jtag_irq_pass_def Let_def u_def [symmetric] simp del: mask_bits)
qed

lemma irq_interferes: "interferes s (jtag_irq s)" and irq_quiet: "\<not> av_irq (jtag_irq s)"
proof -
  have "interferes s (jtag_irq s) \<and> \<not> av_irq (jtag_irq s)"
  proof (induction s rule: jtag_irq.induct)
    case (1 s)
    show ?case
    proof (cases "av_irq s")
      case True
      then have c: "jtag_control s AND (RI_MSK OR WI_MSK) \<noteq> 0"
        by (auto simp: irq_mask control_bits av_irq_def)
      then have "jtag_irq s = jtag_irq (jtag_irq_pass (jtag_control s) s)"
        by (subst jtag_irq.simps) (simp add: Let_def)
      then show ?thesis using 1 c irq_pass_interferes [of s] interferes_trans by auto
    next
      case False
      then have "jtag_control s AND (RI_MSK OR WI_MSK) = 0"
        by (auto simp: irq_mask control_bits av_irq_def)
      then show ?thesis using False by (subst (1 2) jtag_irq.simps) (simp add: Let_def)
    qed
  qed
  then show "interferes s (jtag_irq s)" "\<not> av_irq (jtag_irq s)" by simp_all
qed

text \<open>What the handler never touches, in any state.\<close>

abbreviation "untouched s t \<equiv> inst t = inst s \<and> host_inactive t = host_inactive s
  \<and> host_got t = host_got s \<and> host_sent t = host_sent s \<and> clk.truncate t = clk.truncate s"

lemma clk_part [simp]:
  "clk.truncate (s\<lparr>wfifo := x0\<rparr>) = clk.truncate s"
  "clk.truncate (s\<lparr>rfifo := x1\<rparr>) = clk.truncate s"
  "clk.truncate (s\<lparr>ien_AF := x2\<rparr>) = clk.truncate s"
  "clk.truncate (s\<lparr>ien_AE := x3\<rparr>) = clk.truncate s"
  "clk.truncate (s\<lparr>pause_irq := x4\<rparr>) = clk.truncate s"
  "clk.truncate (s\<lparr>ac_flag := x5\<rparr>) = clk.truncate s"
  "clk.truncate (s\<lparr>rvalid := x6\<rparr>) = clk.truncate s"
  "clk.truncate (s\<lparr>woverflow := x7\<rparr>) = clk.truncate s"
  "clk.truncate (s\<lparr>host_got := x8\<rparr>) = clk.truncate s"
  "clk.truncate (s\<lparr>host_sent := x9\<rparr>) = clk.truncate s"
  "clk.truncate (s\<lparr>inst := x10\<rparr>) = clk.truncate s"
  "clk.truncate (s\<lparr>irq_enable := x11\<rparr>) = clk.truncate s"
  "clk.truncate (s\<lparr>host_inactive := x12\<rparr>) = clk.truncate s"
  "clk.truncate (s\<lparr>rx_in := x13\<rparr>) = clk.truncate s"
  "clk.truncate (s\<lparr>rx_out := x14\<rparr>) = clk.truncate s"
  "clk.truncate (s\<lparr>tx_in := x15\<rparr>) = clk.truncate s"
  "clk.truncate (s\<lparr>tx_out := x16\<rparr>) = clk.truncate s"
  "clk.truncate (s\<lparr>rx_buf := x17\<rparr>) = clk.truncate s"
  "clk.truncate (s\<lparr>tx_buf := x18\<rparr>) = clk.truncate s"
  by (simp_all add: clk.truncate_def)

lemma write_data_fixed [simp]:
  "inst (jtag_write_data v s) = inst s" "host_inactive (jtag_write_data v s) = host_inactive s"
  "inst (jtag_write_control v s) = inst s" "host_inactive (jtag_write_control v s) = host_inactive s"
  "host_got (jtag_write_data v s) = host_got s" "host_got (jtag_write_control v s) = host_got s"
  "host_sent (jtag_write_data v s) = host_sent s" "host_sent (jtag_write_control v s) = host_sent s"
  "clk.truncate (jtag_write_data v s) = clk.truncate s" "clk.truncate (jtag_write_control v s) = clk.truncate s"
  by (simp_all add: jtag_write_data_def jtag_write_control_def)

lemma rx_loop_fixed:
  "untouched s (snd (jtag_rx_loop d s))"
proof (induction d s rule: jtag_rx_loop.induct)
  case (1 d s)
  obtain v u where vu: "jtag_read_data s = (v, u)" by fastforce
  then have "inst u = inst s" "host_inactive u = host_inactive s" "host_got u = host_got s" "host_sent u = host_sent s"
    "clk.truncate u = clk.truncate s" by (auto simp: jtag_read_data_def Let_def)
  then show ?case using 1 vu by (subst (1 2 3 4 5) jtag_rx_loop.simps) (auto)
qed

lemma tx_loop_fixed:
  "untouched s (snd (jtag_tx_loop n s))"
  by (induction n s rule: jtag_tx_loop.induct) (subst (1 2 3 4 5) jtag_tx_loop.simps, auto simp: Let_def)

lemma irq_halves_fixed:
  "untouched s (jtag_rx_irq s)"
  "untouched s (jtag_tx_irq c s)"
proof -
  obtain d t where "jtag_rx_loop (push_bit 16 1) s = (d, t)" by fastforce
  then show "untouched s (jtag_rx_irq s)"
    using rx_loop_fixed [of "push_bit 16 1" s] rx_irq_cases [of s d t] by (auto simp: split: if_splits)
  obtain m t where "jtag_tx_loop (drop_bit 16 c) s = (m, t)" by fastforce
  then show "untouched s (jtag_tx_irq c s)"
    using tx_loop_fixed [of "drop_bit 16 c" s] tx_irq_cases [of c s m t] by (auto simp: split: if_splits)
qed

lemma irq_fixed: "untouched s (jtag_irq s)"
proof (induction s rule: jtag_irq.induct)
  case (1 s)
  have "untouched s (jtag_irq_pass c s)" for c
    by (simp add: jtag_irq_pass_def irq_halves_fixed Let_def)
  then show ?case using 1 by (subst (1 2 3 4 5) jtag_irq.simps) (simp add: Let_def)
qed

subsection \<open>The alarm, and what happens between two steps\<close>

definition altera_avalon_jtag_uart_timeout :: "uart \<Rightarrow> u32 \<times> uart" where
  "altera_avalon_jtag_uart_timeout s =
    (let control = jtag_control s;
         s = (if control AND AC_MSK \<noteq> 0 then
                let s = jtag_write_control (irq_enable s OR AC_MSK) s
                in s\<lparr>host_inactive := 0\<rparr>
              else if host_inactive s < INT_MAX - 2 then s\<lparr>host_inactive := host_inactive s + 1\<rparr>
              else s)
     in (alt_ticks_per_second s, s))"

definition service :: "uart \<Rightarrow> uart" where
  "service s = (if av_irq s then jtag_irq s else s)"

definition happens :: "jtag_ev \<Rightarrow> uart \<Rightarrow> uart" where
  "happens e s = service (if e = Second then snd (altera_avalon_jtag_uart_timeout s) else host_event e s)"

definition observe :: "uart \<Rightarrow> uart" where
  "observe s = fold happens (env s (inst s)) (s\<lparr>inst := inst s + 1\<rparr>)"

lemma timeout_cases:
  "snd (altera_avalon_jtag_uart_timeout s)
    = (if ac_flag s then s\<lparr>ien_AF := want_rx s, ien_AE := want_tx s, ac_flag := False, host_inactive := 0\<rparr>
       else if host_inactive s < INT_MAX - 2 then s\<lparr>host_inactive := host_inactive s + 1\<rparr> else s)"
  by (auto simp: altera_avalon_jtag_uart_timeout_def Let_def control_bits jtag_write_control_def bit_or_iff
      bit_numeral_rec)

lemma service_interferes: "interferes s (service s)" and service_quiet: "\<not> av_irq (service s)"
  and service_fixed [simp]: "inst (service s) = inst s" "host_inactive (service s) = host_inactive s"
    "host_got (service s) = host_got s" "host_sent (service s) = host_sent s" "clk.truncate (service s) = clk.truncate s"
  using irq_interferes irq_quiet irq_fixed by (auto simp: service_def)

lemma timeout_interferes: "interferes s (snd (altera_avalon_jtag_uart_timeout s))"
  by (rule interferesI [where new = "[]"])
    (simp_all add: timeout_cases uart_ok_def ctl_ok_def rings_ok_def fifos_ok_def rx_stream_def
      tx_stream_def tx_queue_def rx_queue_def)

lemma host_event_interferes: "interferes s (host_event e s)"
  by (cases e)
    (auto intro!: interferesI [where new = "case e of HostPut x \<Rightarrow> if length (rfifo s) < READ_DEPTH then [x] else [] | _ \<Rightarrow> []"]
      simp: host_event_def uart_ok_def ctl_ok_def rings_ok_def fifos_ok_def rx_stream_def
      tx_stream_def tx_queue_def rx_queue_def split: list.splits)

lemma happens_interferes: "interferes s (happens e s)"
  unfolding happens_def
  by (rule interferes_trans [OF _ service_interferes]) (simp add: timeout_interferes host_event_interferes)

lemma fold_happens_interferes: "interferes s (fold happens es s)"
  by (induction es arbitrary: s) (auto intro: interferes_trans [OF happens_interferes])

lemma observe_interferes: "interferes s (observe s)"
proof -
  have "interferes s (s\<lparr>inst := inst s + 1\<rparr>)"
    by (rule interferesI [where new = "[]"])
      (simp_all add: uart_ok_def ctl_ok_def rings_ok_def fifos_ok_def rx_stream_def
        tx_stream_def tx_queue_def rx_queue_def)
  then show ?thesis unfolding observe_def by (rule interferes_trans) (rule fold_happens_interferes)
qed

lemma host_event_inst [simp]: "inst (host_event e s) = inst s"
  "host_inactive (host_event e s) = host_inactive s"
  by (auto simp: host_event_def split: jtag_ev.splits list.splits)

lemma happens_inst [simp]: "inst (happens e s) = inst s"
  by (simp add: happens_def timeout_cases)

lemma fold_happens_inst [simp]: "inst (fold happens es s) = inst s"
  by (induction es arbitrary: s) simp_all

lemma observe_inst [simp]: "inst (observe s) = inst s + 1"
  by (simp add: observe_def)

lemma fold_happens_quiet: "\<not> av_irq s \<Longrightarrow> \<not> av_irq (fold happens es s)"
  by (induction es arbitrary: s) (simp_all add: happens_def service_quiet)

lemma observe_quiet: "\<not> av_irq s \<Longrightarrow> \<not> av_irq (observe s)"
  unfolding observe_def by (rule fold_happens_quiet) (simp add: av_irq_def ipen_AE_def ipen_AF_def)

text \<open>C25: the interrupt handler always returns, with no cause left, every ring index inside its array and
  both FIFOs within their depth; it moves bytes between FIFOs and rings in order and drops
  none, and it gives up an interrupt only when its ring is empty (transmit) or full (receive).\<close>

theorem uart_irq_sound:
  assumes "uart_ok s"
  shows "uart_ok (jtag_irq s) \<and> \<not> av_irq (jtag_irq s) \<and> host_got (jtag_irq s) = host_got s
    \<and> wfifo (jtag_irq s) @ tx_queue (jtag_irq s) = wfifo s @ tx_queue s
    \<and> rx_queue (jtag_irq s) @ rfifo (jtag_irq s) = rx_queue s @ rfifo s
    \<and> (want_tx s \<longrightarrow> want_tx (jtag_irq s) \<or> tx_queue (jtag_irq s) = [])
    \<and> (want_rx s \<longrightarrow> want_rx (jtag_irq s) \<or> length (rx_queue (jtag_irq s)) = 2047)"
proof -
  let ?t = "jtag_irq s"
  have i: "interferes s ?t" and u: "host_got ?t = host_got s" "host_sent ?t = host_sent s"
    using irq_interferes irq_fixed by auto
  obtain new where "host_sent ?t = host_sent s @ new" "rx_stream ?t = rx_stream s @ new"
    using i assms by (auto simp: interferes_def)
  then have "rx_stream ?t = rx_stream s" using u(2) by simp
  moreover have "wfifo ?t @ tx_queue ?t = wfifo s @ tx_queue s"
    using i assms u(1) by (simp add: interferes_def tx_stream_def)
  ultimately show ?thesis using i assms u(1) irq_quiet by (auto simp: interferes_def rx_stream_def)
qed

end
