(* ===== verification/JtagUart.thy ===== *)
theory JtagUart
  imports JtagCore
begin

text \<open>
  The functions of the console driver that the program calls: start-up, read, write, close and
  control of the interrupt-driven driver, their file descriptor wrappers, and read and write of
  the small polled driver.  A buffer of the caller is the list of its bytes.  Where a function
  looks at a variable the interrupt handler changes, or is about to change one the handler looks
  at, the world evolve (\<open>observe\<close>).  \<open>None\<close> is an access outside an array or
  a wait that never ends.
\<close>

unbundle bit_operations_syntax

subsection \<open>Start-up\<close>

definition jtag_uart_instance :: "uart \<Rightarrow> uart" where
  "jtag_uart_instance s = s\<lparr>timeout := 10, irq_enable := 0, host_inactive := 0,
     rx_in := 0, rx_out := 0, tx_in := 0, tx_out := 0,
     rx_buf := replicate 2048 0, tx_buf := replicate 2048 0\<rparr>"

definition altera_avalon_jtag_uart_init :: "u32 \<Rightarrow> u32 \<Rightarrow> uart \<Rightarrow> uart option" where
  "altera_avalon_jtag_uart_init irq_controller_id irq s = do {
     let s = s\<lparr>irq_enable := RE_MSK\<rparr>;
     let s = jtag_write_control (irq_enable s) s;
     (_, s) \<leftarrow> alt_ic_isr_register irq_controller_id irq (Some Altera_avalon_jtag_uart_irq) 0 s;
     let s = service s;
     let s = s\<lparr>host_inactive := 0\<rparr>;
     let (rc, s) = alt_alarm_start (Some (uart_alarm s)) (alt_ticks_per_second s)
                     (Some Altera_avalon_jtag_uart_timeout) 0 s;
     Some (if rc \<noteq> None then s\<lparr>timeout := INT_MAX\<rparr> else s) }"

text \<open>Asking the core for an interrupt, with interrupts disabled around it; a pending one is taken
  when they are enabled again.\<close>

definition jtag_kick :: "u32 \<Rightarrow> uart \<Rightarrow> uart" where
  "jtag_kick m s =
    (let (context, s) = alt_irq_disable_all s;
         s = s\<lparr>irq_enable := irq_enable s OR m\<rparr>;
         s = jtag_write_control (irq_enable s) s
     in service (alt_irq_enable_all context s))"

subsection \<open>Writing\<close>

text \<open>The free bytes up to the end of the array, and \<open>if (n > count) n = count;\<close>, which
  compares unsigned.\<close>

definition tx_room :: "u32 \<Rightarrow> u32 \<Rightarrow> u32" where
  "tx_room i out =
    (if i < out then out - 1 - i else if out > 0 then BUF_LEN - i else BUF_LEN - 1 - i)"

definition rx_avail :: "u32 \<Rightarrow> u32 \<Rightarrow> u32" where
  "rx_avail i out = (if i \<ge> out then i - out else BUF_LEN - out)"

definition piece :: "u32 \<Rightarrow> int \<Rightarrow> u32" where
  "piece n count = (if uint n > count then word_of_int count else n)"

text \<open>A piece is never empty, so the loop ends.\<close>

lemma uint_pos: "n \<noteq> 0 \<Longrightarrow> 0 < uint n" for n :: u32
  by (metis uint_0_iff uint_ge_0 less_le)

lemma uint_piece: "0 < count \<Longrightarrow> uint (piece n count) = min (uint n) count"
proof -
  assume c: "0 < count"
  show ?thesis
  proof (cases "uint n > count")
    case True
    then have "count < 2 ^ 32" using uint_lt2p [of n] by simp
    then show ?thesis using True c by (simp add: piece_def uint_word_of_int)
  qed (simp add: piece_def)
qed

text \<open>The inner loop: as much as fits into the ring, in one or two pieces.  It answers what is left
  of the buffer, its length, and the last value seen of \<open>tx_out\<close>.\<close>

function jtag_fill :: "u8 list \<Rightarrow> int \<Rightarrow> u32 \<Rightarrow> uart \<Rightarrow> (u8 list \<times> int \<times> u32 \<times> uart) option" where
  "jtag_fill ptr count out s =
    (if count > 0 then
       let s = observe s; i = tx_in s; out = tx_out s; n = tx_room i out
       in if n = 0 then Some (ptr, count, out, s)
          else
            let n = piece n count; s = observe s
            in do {
              buf \<leftarrow> mem_put (tx_buf s) (unat i) (take (unat n) ptr);
              let s = observe (s\<lparr>tx_buf := buf\<rparr>);
              let s = s\<lparr>tx_in := (i + n) mod BUF_LEN\<rparr>;
              jtag_fill (drop (unat n) ptr) (count - uint n) out s }
     else Some (ptr, count, out, s))"
  by pat_completeness auto

termination
  by (relation "measure (\<lambda>(ptr, count, out, s). nat count)") (auto simp: uint_piece uint_pos)

declare jtag_fill.simps [simp del]

definition tx_wait :: "u32 \<Rightarrow> uart \<Rightarrow> bool \<times> uart" where
  "tx_wait out s = (let s = observe s in (out = tx_out s \<and> host_inactive s < timeout s, s))"

partial_function (option) jtag_write_loop ::
  "u32 \<Rightarrow> u8 list \<Rightarrow> int \<Rightarrow> u32 \<Rightarrow> uart \<Rightarrow> (u8 list \<times> uart) option" where
  "jtag_write_loop flags ptr count out s = do {
     (ptr, count, out, s) \<leftarrow> jtag_fill ptr count out s;
     let s = jtag_kick WE_MSK s;
     if count > 0 then
       if flags AND O_NONBLOCK \<noteq> 0 then Some (ptr, s)
       else do {
         s \<leftarrow> spin (tx_wait out) s;
         if host_inactive s \<noteq> 0 then Some (ptr, s) else jtag_write_loop flags ptr count out s }
     else Some (ptr, s) }"

definition altera_avalon_jtag_uart_write ::
  "u8 list \<Rightarrow> int \<Rightarrow> u32 \<Rightarrow> uart \<Rightarrow> (nat fres \<times> uart) option" where
  "altera_avalon_jtag_uart_write start count flags s = do {
     (ptr, s) \<leftarrow> jtag_write_loop flags start count 0 s;
     Some (if length ptr \<noteq> length start then Inr (length start - length ptr)
           else if flags AND O_NONBLOCK \<noteq> 0 then Inl EWOULDBLOCK else Inl EIO, s) }"

subsection \<open>Reading\<close>

function jtag_drain :: "int \<Rightarrow> uart \<Rightarrow> (u8 list \<times> int \<times> u32 \<times> uart) option" where
  "jtag_drain space s =
    (let s = observe s; i = rx_in s; out = rx_out s; n = rx_avail i out
     in if n = 0 then Some ([], space, i, s)
        else
          let n = piece n space; s = observe s
          in do {
            xs \<leftarrow> mem_get (rx_buf s) (unat out) (unat n);
            let s = observe s;
            let s = s\<lparr>rx_out := (out + n) mod BUF_LEN\<rparr>;
            if space - uint n > 0 then do {
              (ys, space, i, s) \<leftarrow> jtag_drain (space - uint n) s;
              Some (xs @ ys, space, i, s) }
            else Some (xs, space - uint n, i, s) })"
  by pat_completeness auto

termination
proof (relation "measure (\<lambda>(space, s). nat space)", goal_cases)
  case (2 space s s1 i out n n' s2 xs s3 s4)
  then have "0 < space" "n \<noteq> 0" using uint_ge_0 [of n'] by (linarith, simp)
  then show ?case using 2 by (auto simp: uint_piece uint_pos)
qed simp

declare jtag_drain.simps [simp del]

definition rx_wait :: "u32 \<Rightarrow> uart \<Rightarrow> bool \<times> uart" where
  "rx_wait i s = (let s = observe s in (i = rx_in s \<and> host_inactive s < timeout s, s))"

partial_function (option) jtag_read_loop :: "u32 \<Rightarrow> int \<Rightarrow> uart \<Rightarrow> (u8 list \<times> uart) option" where
  "jtag_read_loop flags space s =
    (if space > 0 then do {
       (xs, space, i, s) \<leftarrow> jtag_drain space s;
       if xs \<noteq> [] \<or> flags AND O_NONBLOCK \<noteq> 0 then Some (xs, s)
       else do {
         s \<leftarrow> spin (rx_wait i) s;
         let s = observe s;
         if i = rx_in s then Some ([], s) else jtag_read_loop flags space s } }
     else Some ([], s))"

definition altera_avalon_jtag_uart_read :: "int \<Rightarrow> u32 \<Rightarrow> uart \<Rightarrow> (u8 list fres \<times> uart) option" where
  "altera_avalon_jtag_uart_read space flags s = do {
     (xs, s) \<leftarrow> jtag_read_loop flags space s;
     let s = (if xs \<noteq> [] then jtag_kick RE_MSK s else s);
     Some (if xs \<noteq> [] then Inr xs
           else if flags AND O_NONBLOCK \<noteq> 0 then Inl EWOULDBLOCK else Inl EIO, s) }"

subsection \<open>Closing and control\<close>

partial_function (option) altera_avalon_jtag_uart_close ::
  "u32 \<Rightarrow> uart \<Rightarrow> (nat fres \<times> uart) option" where
  "altera_avalon_jtag_uart_close flags s =
    (let s = observe s in
     if tx_out s \<noteq> tx_in s \<and> host_inactive s < timeout s then
       if flags AND O_NONBLOCK \<noteq> 0 then Some (Inl EWOULDBLOCK, s)
       else altera_avalon_jtag_uart_close flags s
     else Some (Inr 0, s))"

definition TIOCSTIMEOUT :: u32 where "TIOCSTIMEOUT = 0x6a01"
definition TIOCGCONNECTED :: u32 where "TIOCGCONNECTED = 0x6a02"

text \<open>The integer \<open>arg\<close> points to is passed in and out.\<close>

definition altera_avalon_jtag_uart_ioctl :: "u32 \<Rightarrow> u32 \<Rightarrow> uart \<Rightarrow> nat fres \<times> u32 \<times> uart" where
  "altera_avalon_jtag_uart_ioctl req arg s =
    (if req = TIOCSTIMEOUT then
       if timeout s \<noteq> INT_MAX then
         (Inr 0, arg, s\<lparr>timeout := (if 2 \<le> sint arg \<and> sint arg < sint INT_MAX then arg else INT_MAX - 1)\<rparr>)
       else (Inl ENOTTY, arg, s)
     else if req = TIOCGCONNECTED then
       if timeout s \<noteq> INT_MAX then (Inr 0, if host_inactive s < timeout s then 1 else 0, s)
       else (Inl ENOTTY, arg, s)
     else (Inl ENOTTY, arg, s))"

subsection \<open>The rings as queues\<close>

lemma unat_sub_le: "y \<le> x \<Longrightarrow> unat (x - y) = unat x - unat y" for x y :: u32
  by (simp add: unat_sub)

lemma word_less_unat: "x < y \<longleftrightarrow> unat x < unat y" "x \<le> y \<longleftrightarrow> unat x \<le> unat y" for x y :: u32
  by (simp_all add: word_less_nat_alt word_le_nat_alt)

lemma tx_room_free:
  assumes "unat i < 2048" "unat out < 2048"
  shows "unat (tx_room i out) \<le> ring_free 2048 (unat out) (unat i)"
    "unat i + unat (tx_room i out) \<le> 2048"
    "tx_room i out = 0 \<longleftrightarrow> ring_free 2048 (unat out) (unat i) = 0"
proof -
  have B: "unat BUF_LEN = 2048" by (simp add: ALTERA_AVALON_JTAG_UART_BUF_LEN_def)
  consider (below) "unat i < unat out" | (above) "\<not> unat i < unat out" "unat out > 0"
    | (zero) "unat out = 0" by linarith
  then have r: "unat (tx_room i out)
      = (if unat i < unat out then unat out - 1 - unat i else if unat out > 0 then 2048 - unat i else 2047 - unat i)"
  proof cases
    case below
    then have "unat (out - 1) = unat out - 1" by (simp add: unat_sub_le word_less_unat)
    moreover have "unat (out - 1 - i) = unat (out - 1) - unat i"
      by (rule unat_sub_le) (use below calculation in \<open>simp add: word_less_unat\<close>)
    ultimately show ?thesis using below by (simp add: tx_room_def word_less_unat)
  next
    case above
    then show ?thesis using assms B by (simp add: tx_room_def word_less_unat unat_sub_le)
  next
    case zero
    have "unat (BUF_LEN - 1) = 2047" by (simp add: ALTERA_AVALON_JTAG_UART_BUF_LEN_def)
    moreover have "unat (BUF_LEN - 1 - i) = unat (BUF_LEN - 1) - unat i"
      by (rule unat_sub_le) (use assms calculation in \<open>simp add: word_less_unat\<close>)
    ultimately show ?thesis using zero by (simp add: tx_room_def word_less_unat)
  qed
  show "unat (tx_room i out) \<le> ring_free 2048 (unat out) (unat i)" "unat i + unat (tx_room i out) \<le> 2048"
    using assms by (auto simp: r ring_free_def)
  have "unat (tx_room i out) = 0 \<longleftrightarrow> ring_free 2048 (unat out) (unat i) = 0"
    using assms by (auto simp: r ring_free_def)
  then show "tx_room i out = 0 \<longleftrightarrow> ring_free 2048 (unat out) (unat i) = 0" by (simp add: unat_eq_0)
qed

lemma rx_avail_get:
  assumes "unat i < 2048" "unat out < 2048"
  shows "unat (rx_avail i out) = (if unat out \<le> unat i then unat i - unat out else 2048 - unat out)"
    "rx_avail i out = 0 \<longleftrightarrow> i = out"
proof -
  have B: "unat BUF_LEN = 2048" by (simp add: ALTERA_AVALON_JTAG_UART_BUF_LEN_def)
  show r: "unat (rx_avail i out) = (if unat out \<le> unat i then unat i - unat out else 2048 - unat out)"
    using assms B by (auto simp: rx_avail_def word_less_unat unat_sub_le)
  have "unat (rx_avail i out) = 0 \<longleftrightarrow> unat i = unat out" using assms by (auto simp: r)
  then show "rx_avail i out = 0 \<longleftrightarrow> i = out" by (metis unat_eq_0 word_unat_eq_iff)
qed

lemma unat_piece: "0 < count \<Longrightarrow> unat (piece n count) = min (unat n) (nat count)"
  using uint_piece [of count n] by (simp flip: nat_uint_eq add: min_def)

text \<open>A step that has sent \<open>xs\<close>, whatever interfered with it.\<close>

definition ships :: "u8 list \<Rightarrow> uart \<Rightarrow> uart \<Rightarrow> bool" where
  "ships xs s t \<longleftrightarrow> uart_ok t \<and> tx_stream t = tx_stream s @ xs
     \<and> (\<exists>new. host_sent t = host_sent s @ new \<and> rx_stream t = rx_stream s @ new)
     \<and> (\<exists>sent. tx_queue s @ xs = sent @ tx_queue t)
     \<and> timeout t = timeout s \<and> env t = env s \<and> inst s \<le> inst t
     \<and> (want_rx s \<or> length (rx_queue s) = 2047 \<longrightarrow> want_rx t \<or> length (rx_queue t) = 2047)"

lemma ships_ok [dest]: "ships xs s t \<Longrightarrow> uart_ok t"
  by (simp add: ships_def)

lemma ships_interferes: "uart_ok s \<Longrightarrow> interferes s t \<Longrightarrow> ships [] s t"
proof -
  assume s: "uart_ok s" and i: "interferes s t"
  then obtain more where m: "rx_queue t = rx_queue s @ more" by (auto simp: interferes_def)
  have "length (rx_queue t) \<le> 2047" using s i rx_queue_le by (auto simp: interferes_def uart_ok_def)
  then show ?thesis using s i m by (auto simp: interferes_def ships_def)
qed

lemma ships_trans: "ships xs s t \<Longrightarrow> ships ys t u \<Longrightarrow> ships (xs @ ys) s u"
proof -
  assume a: "ships xs s t" and b: "ships ys t u"
  obtain n1 m1 where 1: "host_sent t = host_sent s @ n1" "rx_stream t = rx_stream s @ n1"
    "tx_queue s @ xs = m1 @ tx_queue t" using a by (auto simp: ships_def)
  obtain n2 m2 where 2: "host_sent u = host_sent t @ n2" "rx_stream u = rx_stream t @ n2"
    "tx_queue t @ ys = m2 @ tx_queue u" using b by (auto simp: ships_def)
  have "tx_queue s @ (xs @ ys) = (m1 @ m2) @ tx_queue u" using 1(3) 2(3) by (metis append_assoc)
  moreover have "host_sent u = host_sent s @ n1 @ n2 \<and> rx_stream u = rx_stream s @ n1 @ n2"
    using 1 2 by simp
  ultimately show ?thesis using a b unfolding ships_def by (intro conjI) (auto, blast?)
qed

lemma ships_then: "ships xs s t \<Longrightarrow> interferes t u \<Longrightarrow> ships xs s u"
  using ships_trans [of xs s t "[]" u] ships_interferes [of t u] by auto

lemma uart_okD:
  assumes "uart_ok s"
  shows "length (rx_buf s) = 2048" "length (tx_buf s) = 2048" "unat (rx_in s) < 2048"
    "unat (rx_out s) < 2048" "unat (tx_in s) < 2048" "unat (tx_out s) < 2048"
  using assms by (simp_all add: uart_ok_def rings_ok_def)

lemma tx_queue_free:
  "uart_ok s \<Longrightarrow> length (tx_queue s) + ring_free 2048 (unat (tx_out s)) (unat (tx_in s)) = 2047"
  using ring_length_free [of "unat (tx_out s)" "tx_buf s" "unat (tx_in s)"] uart_okD [of s]
  by (simp add: tx_queue_def)

lemma interferes_ok: "uart_ok s \<Longrightarrow> interferes s t \<Longrightarrow> uart_ok t"
  and interferes_tx: "uart_ok s \<Longrightarrow> interferes s t \<Longrightarrow>
    tx_in t = tx_in s \<and> tx_buf t = tx_buf s \<and> length (tx_queue t) \<le> length (tx_queue s)"
  by (auto simp: interferes_def)

text \<open>One piece: the bytes go in behind the queue, the index follows, and the handler may run
  before either step.\<close>

lemma fill_piece:
  assumes ok: "uart_ok s" and len: "length xs \<le> unat (tx_room (tx_in s) (tx_out s))" "unat m = length xs"
  shows "\<exists>buf. mem_put (tx_buf (observe s)) (unat (tx_in s)) xs = Some buf
    \<and> ships xs s ((observe ((observe s)\<lparr>tx_buf := buf\<rparr>))\<lparr>tx_in := (tx_in s + m) mod BUF_LEN\<rparr>)"
proof -
  let ?i = "unat (tx_in s)" and ?b = "tx_buf s" and ?t = "observe s"
  note B = uart_okD [OF ok]
  have fit: "?i + length xs \<le> 2048" "length xs \<le> ring_free 2048 (unat (tx_out s)) ?i"
    using tx_room_free [OF B(5,6)] len(1) by linarith+
  have t: "uart_ok ?t" "tx_in ?t = tx_in s" "tx_buf ?t = ?b" "length (tx_queue ?t) \<le> length (tx_queue s)"
    using interferes_ok [OF ok observe_interferes] interferes_tx [OF ok observe_interferes] by simp_all
  have put: "mem_put (tx_buf ?t) ?i xs = Some (patch ?b ?i xs)"
    using fit(1) B by (simp add: t mem_put_Some)
  have ft: "length xs \<le> ring_free 2048 (unat (tx_out ?t)) ?i"
  proof -
    have "length (tx_queue ?t) + ring_free 2048 (unat (tx_out ?t)) ?i = 2047"
      using tx_queue_free [OF t(1)] by (simp only: t(2))
    then show ?thesis using fit(2) tx_queue_free [OF ok] t(4) by linarith
  qed
  define u where "u = ?t\<lparr>tx_buf := patch ?b ?i xs\<rparr>"
  have qu: "tx_queue u = tx_queue ?t"
    using ring_patch_free [of "unat (tx_out ?t)" ?b ?i xs] fit(1) ft B uart_okD(6) [OF t(1)]
    by (simp add: u_def tx_queue_def t)
  have u: "uart_ok u" using t(1) fit(1) B
    by (simp add: u_def uart_ok_def rings_ok_def fifos_ok_def ctl_ok_def)
  have "ships [] s ?t" using ok observe_interferes by (rule ships_interferes)
  then have su: "ships [] s u" using u qu
    by (simp add: u_def ships_def tx_stream_def rx_stream_def rx_queue_def)
  let ?v = "observe u"
  have v: "uart_ok ?v" "tx_in ?v = tx_in s" "tx_buf ?v = patch ?b ?i xs" "length (tx_queue ?v) \<le> length (tx_queue u)"
    using interferes_ok [OF u observe_interferes] interferes_tx [OF u observe_interferes] t(2) by (simp_all add: u_def)
  have fv: "length xs \<le> ring_free 2048 (unat (tx_out ?v)) ?i"
    using ft tx_queue_free [OF t(1)] tx_queue_free [OF v(1)] t(2) v(2,4) qu by simp
  define w where "w = ?v\<lparr>tx_in := (tx_in s + m) mod BUF_LEN\<rparr>"
  have iw: "unat (tx_in w) = (?i + length xs) mod 2048"
    using B len fit(1) by (simp add: w_def unat_ring)
  have "tx_queue w = ring (patch ?b ?i xs) (unat (tx_out ?v)) ((?i + length xs) mod 2048)"
    by (simp add: tx_queue_def iw) (simp add: w_def v)
  also have "\<dots> = ring ?b (unat (tx_out ?v)) ?i @ xs"
    using ring_put [of "unat (tx_out ?v)" ?b ?i xs] B fit(1) fv uart_okD(6) [OF v(1)] by simp
  also have "ring ?b (unat (tx_out ?v)) ?i = tx_queue ?v"
    using ring_patch_free [of "unat (tx_out ?v)" ?b ?i xs] B fit(1) fv uart_okD(6) [OF v(1)]
    by (simp add: tx_queue_def v)
  finally have qw: "tx_queue w = tx_queue ?v @ xs" .
  have w: "uart_ok w" using v(1) iw by (simp add: w_def uart_ok_def rings_ok_def fifos_ok_def ctl_ok_def)
  have "ships [] s ?v" using su observe_interferes by (rule ships_then)
  moreover have "ships xs ?v w"
    using w qw by (simp add: w_def ships_def tx_stream_def rx_stream_def rx_queue_def)
  ultimately have "ships xs s w" using ships_trans [of "[]" s ?v xs w] by simp
  then show ?thesis using put by (simp add: w_def u_def t)
qed
lemma fill_result:
  assumes "uart_ok s" "nat count \<le> length ptr"
  shows "\<exists>k out' t. jtag_fill ptr count out s = Some (drop k ptr, count - int k, out', t)
    \<and> k \<le> nat count \<and> ships (take k ptr) s t
    \<and> (int k < count \<longrightarrow> out' = tx_out t \<and> length (tx_queue t) = 2047
         \<and> length (tx_queue t) \<le> length (tx_queue s) + k)"
  using assms
proof (induction ptr count out s rule: jtag_fill.induct)
  case (1 ptr count out s)
  show ?case
  proof (cases "0 < count")
    case False
    then show ?thesis using 1 by (subst jtag_fill.simps)
      (intro exI [of _ "0 :: nat"] exI [of _ out] exI [of _ s], auto simp: ships_interferes)
  next
    case c: True
    define s1 where "s1 = observe s"
    define n where "n = tx_room (tx_in s1) (tx_out s1)"
    have s1: "uart_ok s1" "ships [] s s1"
      using interferes_ok [OF 1(2) observe_interferes] ships_interferes [OF 1(2) observe_interferes]
      by (simp_all add: s1_def)
    show ?thesis
    proof (cases "n = 0")
      case True
      have "length (tx_queue s1) = 2047"
        using tx_queue_free [OF s1(1)] tx_room_free(3) [of "tx_in s1" "tx_out s1"] uart_okD [OF s1(1)] True
        by (simp add: n_def)
      moreover have "length (tx_queue s1) \<le> length (tx_queue s)"
        using interferes_tx [OF 1(2) observe_interferes] by (simp add: s1_def)
      ultimately show ?thesis using c True s1 uart_okD [OF s1(1)]
        by (subst jtag_fill.simps) (intro exI [of _ "0 :: nat"] exI [of _ "tx_out s1"] exI [of _ s1], simp add: s1_def [symmetric] n_def)
    next
      case n0: False
      define m where "m = piece n count"
      have m: "unat m = min (unat n) (nat count)" "uint m = int (unat m)"
        using c unat_piece [of count n] by (simp add: m_def, simp)
      have "unat n \<noteq> 0" using n0 by (simp add: unat_eq_0)
      let ?xs = "take (unat m) ptr"
      have xs: "length ?xs = unat m" using m 1(3) by simp
      obtain buf where put: "mem_put (tx_buf (observe s1)) (unat (tx_in s1)) ?xs = Some buf"
        and sn: "ships ?xs s1 ((observe ((observe s1)\<lparr>tx_buf := buf\<rparr>))\<lparr>tx_in := (tx_in s1 + m) mod BUF_LEN\<rparr>)"
        using fill_piece [OF s1(1), of ?xs m] xs m by (auto simp: n_def)
      define w where "w = (observe ((observe s1)\<lparr>tx_buf := buf\<rparr>))\<lparr>tx_in := (tx_in s1 + m) mod BUF_LEN\<rparr>"
      have sw: "ships ?xs s w" using ships_trans [OF s1(2) sn] by (simp add: w_def)
      then have wok: "uart_ok w" by (rule ships_ok)
      have wlen: "nat (count - uint m) \<le> length (drop (unat m) ptr)"
        using 1(3) by (simp only: m(2) length_drop)
      obtain k out' t where
        k: "jtag_fill (drop (unat m) ptr) (count - uint m) (tx_out s1) w
            = Some (drop k (drop (unat m) ptr), count - uint m - int k, out', t)"
          "k \<le> nat (count - uint m)" "ships (take k (drop (unat m) ptr)) w t"
          "int k < count - uint m \<longrightarrow> out' = tx_out t \<and> length (tx_queue t) = 2047
            \<and> length (tx_queue t) \<le> length (tx_queue w) + k"
        using 1(1) [OF c s1_def refl refl n_def n0 m_def refl put refl w_def wok wlen] by metis
      have eq: "jtag_fill ptr count out s = jtag_fill (drop (unat m) ptr) (count - uint m) (tx_out s1) w"
        using c n0 put by (subst jtag_fill.simps) (simp add: s1_def [symmetric] n_def [symmetric] m_def [symmetric] w_def Let_def)
      obtain sent where "tx_queue s @ ?xs = sent @ tx_queue w" using sw by (auto simp: ships_def)
      then have "length (tx_queue w) \<le> length (tx_queue s) + unat m"
        using xs by (metis le_add2 length_append)
      then have ql: "length (tx_queue w) + k \<le> length (tx_queue s) + (unat m + k)" by simp
      have snd: "ships (take (unat m + k) ptr) s t"
        using ships_trans [OF sw k(3)] by (simp only: take_add)
      have res: "jtag_fill ptr count out s = Some (drop (unat m + k) ptr, count - int (unat m + k), out', t)"
        using k(1) by (simp add: eq algebra_simps)
      have mc: "unat m \<le> nat count" by (simp only: m(1) min.cobounded2)
      then have kc: "unat m + k \<le> nat count" using k(2) unfolding m(2) by linarith
      have "int k < count - uint m" if "int (unat m + k) < count" using that unfolding m(2) by simp
      then have tail: "int (unat m + k) < count \<longrightarrow> out' = tx_out t \<and> length (tx_queue t) = 2047
          \<and> length (tx_queue t) \<le> length (tx_queue s) + (unat m + k)"
        using k(4) ql by (meson le_trans)
      show ?thesis using res kc snd tail by blast
    qed
  qed
qed

subsection \<open>The host drains what it is owed\<close>

definition pending :: "uart \<Rightarrow> u8 list" where
  "pending s = wfifo s @ tx_queue s"

text \<open>Between two calls of the driver nothing waits for the handler, and it is asked for as long as
  the ring is not empty.\<close>

definition tx_ready :: "uart \<Rightarrow> bool" where
  "tx_ready s \<longleftrightarrow> uart_ok s \<and> \<not> av_irq s \<and> (tx_queue s \<noteq> [] \<longrightarrow> want_tx s)"

lemma tx_ready_interferes: "tx_ready s \<Longrightarrow> interferes s t \<Longrightarrow> \<not> av_irq t \<Longrightarrow> tx_ready t"
  by (fastforce simp: tx_ready_def interferes_def)

lemma stream_pending: "tx_stream s = host_got s @ pending s"
  by (simp add: tx_stream_def pending_def)

lemma interferes_pending:
  "uart_ok s \<Longrightarrow> interferes s t \<Longrightarrow> length (host_got t) + length (pending t) = length (host_got s) + length (pending s)"
proof -
  assume "uart_ok s" "interferes s t"
  then have "tx_stream t = tx_stream s" by (simp add: interferes_def)
  then have "length (tx_stream t) = length (tx_stream s)" by simp
  then show ?thesis by (simp add: stream_pending)
qed

lemma timeout_got [simp]: "host_got (snd (altera_avalon_jtag_uart_timeout s)) = host_got s"
  by (simp add: timeout_cases)

lemma happens_got: "length (host_got s) \<le> length (host_got (happens e s))"
  by (cases e) (auto simp: happens_def host_event_def split: list.splits)

lemma fold_happens_got: "length (host_got s) \<le> length (host_got (fold happens es s))"
  by (induction es arbitrary: s) (auto intro: order_trans [OF happens_got])

text \<open>A byte the host asks for is there while anything is pending.\<close>

lemma tx_ready_fifo: "tx_ready s \<Longrightarrow> pending s \<noteq> [] \<Longrightarrow> wfifo s \<noteq> []"
  by (auto simp: tx_ready_def pending_def av_irq_def ipen_AE_def uart_ok_def ctl_ok_def)

lemma take_got: "tx_ready s \<Longrightarrow> pending s \<noteq> [] \<Longrightarrow> length (host_got (happens HostTake s)) = length (host_got s) + 1"
  using tx_ready_fifo [of s] by (auto simp: happens_def host_event_def neq_Nil_conv)

lemma happens_ready: "tx_ready s \<Longrightarrow> tx_ready (happens e s)"
  by (rule tx_ready_interferes [OF _ happens_interferes]) (simp_all add: happens_def service_quiet)

lemma observe_ready: "tx_ready s \<Longrightarrow> tx_ready (observe s)"
  by (rule tx_ready_interferes [OF _ observe_interferes]) (simp_all add: tx_ready_def observe_quiet)

text \<open>\<open>n\<close> moves of the world.\<close>

definition evolve :: "nat \<Rightarrow> uart \<Rightarrow> uart" where
  "evolve n s = (observe ^^ n) s"

lemma evolve_simps [simp]: "evolve 0 s = s" "evolve (Suc n) s = evolve n (observe s)"
  by (simp_all add: evolve_def funpow_Suc_right del: funpow.simps)

lemma evolve_Suc: "evolve (Suc n) s = observe (evolve n s)"
  by (simp add: evolve_def)

lemma evolve_add: "evolve (m + n) s = evolve m (evolve n s)"
  by (simp add: evolve_def funpow_add)

lemma evolve_inst [simp]: "inst (evolve n s) = inst s + n"
  by (induction n arbitrary: s) auto

lemma evolve_interferes: "interferes s (evolve n s)"
  by (induction n arbitrary: s) (auto intro: interferes_trans [OF observe_interferes])

lemma evolve_ready: "tx_ready s \<Longrightarrow> tx_ready (evolve n s)"
  by (induction n arbitrary: s) (auto intro: observe_ready)

lemma evolve_got: "length (host_got s) \<le> length (host_got (evolve n s))"
proof (induction n arbitrary: s)
  case (Suc n)
  have "length (host_got s) \<le> length (host_got (observe s))"
    using fold_happens_got [of "s\<lparr>inst := inst s + 1\<rparr>" "env s (inst s)"] by (simp add: observe_def)
  then show ?case using Suc [of "observe s"] by simp
qed simp

lemma evolve_env: "uart_ok s \<Longrightarrow> env (evolve n s) = env s"
  using evolve_interferes [of s n] by (simp add: interferes_def)

text \<open>A host that goes on taking bytes.\<close>

definition host_drains :: "uart \<Rightarrow> bool" where
  "host_drains s \<longleftrightarrow> (\<forall>n. \<exists>m\<ge>n. HostTake \<in> set (env s m))"

lemma host_drains_env: "env t = env s \<Longrightarrow> host_drains t = host_drains s"
  by (simp add: host_drains_def)

text \<open>Progress: an event that comes again and again lowers a measure that no event raises.\<close>

locale fair =
  fixes good :: "uart \<Rightarrow> bool" and allowed :: "jtag_ev \<Rightarrow> bool"
    and step :: jtag_ev and left :: "uart \<Rightarrow> nat"
  assumes good_ok: "good s \<Longrightarrow> uart_ok s"
    and good_inst: "good s \<Longrightarrow> good (s\<lparr>inst := n\<rparr>)"
    and left_inst: "left (s\<lparr>inst := n\<rparr>) = left s"
    and good_happens: "good s \<Longrightarrow> allowed e \<Longrightarrow> good (happens e s)"
    and left_happens: "good s \<Longrightarrow> allowed e \<Longrightarrow> left (happens e s) \<le> left s"
    and left_step: "good s \<Longrightarrow> allowed step \<Longrightarrow> 0 < left s \<Longrightarrow> left (happens step s) < left s"
begin

lemma fold_good: "good s \<Longrightarrow> \<forall>e\<in>set es. allowed e \<Longrightarrow> good (fold happens es s) \<and> left (fold happens es s) \<le> left s"
  by (induction es arbitrary: s) (auto intro: good_happens order_trans [OF _ left_happens])

lemma fold_step:
  "good s \<Longrightarrow> \<forall>e\<in>set es. allowed e \<Longrightarrow> step \<in> set es \<Longrightarrow> 0 < left s \<Longrightarrow> left (fold happens es s) < left s"
proof (induction es arbitrary: s)
  case (Cons e es)
  have g: "good (happens e s)" using Cons.prems by (simp add: good_happens)
  show ?case
  proof (cases "e = step")
    case True
    have "left (happens e s) < left s" using Cons.prems left_step [of s] True by simp
    then show ?thesis using fold_good [OF g, of es] Cons.prems(2) by simp
  next
    case False
    have le: "left (happens e s) \<le> left s" using Cons.prems by (simp add: left_happens)
    show ?thesis
    proof (cases "left (happens e s)")
      case 0
      then have "left (fold happens es (happens e s)) \<le> 0"
        using fold_good [OF g, of es] Cons.prems(2) by simp
      then show ?thesis using Cons.prems(4) by simp
    next
      case (Suc n)
      then show ?thesis using Cons.IH [OF g] Cons.prems False le by simp
    qed
  qed
qed simp

lemma observe_good:
  "good s \<Longrightarrow> \<forall>e\<in>set (env s (inst s)). allowed e \<Longrightarrow> good (observe s) \<and> left (observe s) \<le> left s
    \<and> (step \<in> set (env s (inst s)) \<longrightarrow> 0 < left s \<longrightarrow> left (observe s) < left s)"
  using fold_good [OF good_inst, of s "env s (inst s)" "inst s + 1"]
    fold_step [OF good_inst, of s "env s (inst s)" "inst s + 1"]
  by (simp add: observe_def left_inst)

lemma evolve_good:
  "good s \<Longrightarrow> \<forall>n. \<forall>e\<in>set (env s n). allowed e \<Longrightarrow> good (evolve n s) \<and> left (evolve n s) \<le> left s"
proof (induction n arbitrary: s)
  case (Suc n)
  have "env (observe s) = env s"
    using observe_interferes [of s] good_ok [OF Suc.prems(1)] by (simp add: interferes_def)
  then show ?case using Suc.IH [of "observe s"] Suc.prems observe_good [of s] by fastforce
qed simp

lemma eventually:
  assumes "good s" "\<forall>n. \<forall>e\<in>set (env s n). allowed e" "\<forall>n. \<exists>m\<ge>n. step \<in> set (env s m)"
  shows "\<exists>n. good (evolve n s) \<and> left (evolve n s) = 0"
  using assms
proof (induction "left s" arbitrary: s rule: less_induct)
  case less
  show ?case
  proof (cases "left s = 0")
    case False
    obtain m where m: "inst s \<le> m" "step \<in> set (env s m)" using less.prems(3) by auto
    let ?u = "evolve (m - inst s) s"
    have u: "good ?u" "left ?u \<le> left s" "inst ?u = m" "env ?u = env s"
      using evolve_good [OF less.prems(1,2)] m(1) evolve_env good_ok [OF less.prems(1)] by simp_all
    show ?thesis
    proof (cases "left ?u = 0")
      case False
      then have "left (observe ?u) < left s" "good (observe ?u)"
        using observe_good [OF u(1)] less.prems(2) m(2) u(2-4) by fastforce+
      moreover have "env (observe ?u) = env s"
        using observe_interferes [of ?u] good_ok [OF u(1)] u(4) by (simp add: interferes_def)
      ultimately obtain n where "good (evolve n (observe ?u))" "left (evolve n (observe ?u)) = 0"
        using less.hyps [of "observe ?u"] less.prems(2,3) by auto
      moreover have "evolve n (observe ?u) = evolve (Suc n + (m - inst s)) s"
        by (simp only: evolve_add evolve_simps)
      ultimately show ?thesis by metis
    qed (use u in blast)
  qed (use less.prems in \<open>auto intro: exI [of _ 0]\<close>)
qed

end

lemma ready_inst: "tx_ready s \<Longrightarrow> tx_ready (s\<lparr>inst := n\<rparr>)" "pending (s\<lparr>inst := n\<rparr>) = pending s"
  by (simp_all add: tx_ready_def uart_ok_def rings_ok_def fifos_ok_def ctl_ok_def
      av_irq_def ipen_AE_def ipen_AF_def tx_queue_def pending_def)

lemma ready_ok: "tx_ready s \<Longrightarrow> uart_ok s"
  by (simp add: tx_ready_def)

lemma pending_happens: "tx_ready s \<Longrightarrow> length (host_got s) + length (pending s)
    = length (host_got (happens e s)) + length (pending (happens e s))"
  using interferes_pending [OF _ happens_interferes, of s e] by (simp add: tx_ready_def)

interpretation draining: fair tx_ready "\<lambda>_. True" HostTake "\<lambda>s. length (pending s)"
proof (unfold_locales, goal_cases)
  case (5 s e)
  then show ?case using pending_happens [of s e] happens_got [of s e] by linarith
next
  case (6 s)
  then show ?case using pending_happens [of s HostTake] take_got [of s] by auto
qed (simp_all add: ready_inst happens_ready ready_ok)

lemma drained: "tx_ready s \<Longrightarrow> host_drains s \<Longrightarrow> \<exists>n. pending (evolve n s) = []"
  using draining.eventually [of s] by (auto simp: host_drains_def)

subsection \<open>A host that is gone\<close>

text \<open>The handler never sets the activity flag.\<close>

lemma rx_loop_ac: "ac_flag (snd (jtag_rx_loop d s)) = ac_flag s"
proof (induction d s rule: jtag_rx_loop.induct)
  case (1 d s)
  obtain v u where vu: "jtag_read_data s = (v, u)" by fastforce
  then have "ac_flag u = ac_flag s" by (auto simp: jtag_read_data_def Let_def)
  then show ?case using 1 vu by (subst jtag_rx_loop.simps) auto
qed

lemma tx_loop_ac: "ac_flag (snd (jtag_tx_loop n s)) = ac_flag s"
  by (induction n s rule: jtag_tx_loop.induct)
    (subst jtag_tx_loop.simps, auto simp: Let_def jtag_write_data_def)

lemma irq_ac: "ac_flag (jtag_irq s) \<Longrightarrow> ac_flag s"
proof (induction s rule: jtag_irq.induct)
  case (1 s)
  have rx: "ac_flag (jtag_rx_irq u) \<Longrightarrow> ac_flag u" for u
  proof -
    obtain d t where "jtag_rx_loop (push_bit 16 1) u = (d, t)" by fastforce
    then show "ac_flag (jtag_rx_irq u) \<Longrightarrow> ac_flag u"
      using rx_loop_ac [of "push_bit 16 1" u] rx_irq_cases [of u d t] by (simp split: if_splits)
  qed
  have tx: "ac_flag (jtag_tx_irq c u) \<Longrightarrow> ac_flag u" for c u
  proof -
    obtain m t where "jtag_tx_loop (drop_bit 16 c) u = (m, t)" by fastforce
    then show "ac_flag (jtag_tx_irq c u) \<Longrightarrow> ac_flag u"
      using tx_loop_ac [of "drop_bit 16 c" u] tx_irq_cases [of c u m t] by (simp split: if_splits)
  qed
  have pass: "ac_flag s" if "ac_flag (jtag_irq_pass c s)" for c
  proof -
    let ?u = "if c AND RI_MSK \<noteq> 0 then jtag_rx_irq s else s"
    have "ac_flag (if c AND WI_MSK \<noteq> 0 then jtag_tx_irq c ?u else ?u)"
      using that by (simp only: jtag_irq_pass_def Let_def)
    then have "ac_flag ?u" using tx [of c ?u] by presburger
    then show ?thesis using rx [of s] by presburger
  qed
  show ?case
  proof (cases "jtag_control s AND (RI_MSK OR WI_MSK) = 0")
    case True
    then have "jtag_irq s = s" by (subst jtag_irq.simps) (simp only: Let_def simp_thms if_True)
    then show ?thesis using 1(2) by simp
  next
    case False
    then have "jtag_irq s = jtag_irq (jtag_irq_pass (jtag_control s) s)"
      by (subst jtag_irq.simps) (simp only: Let_def simp_thms if_False)
    then show ?thesis using 1(1) [OF refl False] 1(2) pass by metis
  qed
qed

lemma service_ac: "ac_flag (service s) \<Longrightarrow> ac_flag s"
  by (auto simp: service_def dest: irq_ac split: if_splits)

text \<open>No byte and no pause from the host, and time goes by: the seconds until the host counts as
  gone, one more while its last activity has not been noticed.\<close>

definition silent_ev :: "jtag_ev \<Rightarrow> bool" where
  "silent_ev e \<longleftrightarrow> e = HostTake \<or> e = Second"

definition host_silent :: "uart \<Rightarrow> bool" where
  "host_silent s \<longleftrightarrow> (\<forall>n. \<forall>e\<in>set (env s n). silent_ev e) \<and> (\<forall>n. \<exists>m\<ge>n. Second \<in> set (env s m))"

definition until_gone :: "u32 \<Rightarrow> uart \<Rightarrow> nat" where
  "until_gone T s = (if ac_flag s then Suc (unat T) else unat T - unat (host_inactive s))"

lemma until_service: "until_gone T (service s) \<le> until_gone T s"
  using service_ac [of s] by (auto simp: until_gone_def)

lemma until_take: "until_gone T (host_event HostTake s) = until_gone T s"
  by (auto simp: until_gone_def host_event_def split: list.splits)

lemma until_second:
  assumes "T \<le> INT_MAX - 2"
  shows "until_gone T (snd (altera_avalon_jtag_uart_timeout s)) \<le> until_gone T s - 1"
proof -
  have m: "unat (INT_MAX - 2) = 2147483645" by (simp add: INT_MAX_def)
  have "unat (host_inactive s + 1) = unat (host_inactive s) + 1" if "host_inactive s < INT_MAX - 2"
    using that m by (simp add: unat_add word_less_unat)
  moreover have "unat T \<le> unat (host_inactive s)" if "\<not> host_inactive s < INT_MAX - 2"
    using that assms by (simp add: word_less_unat)
  ultimately show ?thesis by (auto simp: until_gone_def timeout_cases)
qed

lemma ok_inst: "uart_ok s \<Longrightarrow> uart_ok (s\<lparr>inst := n\<rparr>)"
  by (simp add: uart_ok_def rings_ok_def fifos_ok_def ctl_ok_def)

interpretation gone: fair "\<lambda>s. uart_ok s \<and> T \<le> INT_MAX - 2" silent_ev Second "until_gone T" for T
proof (unfold_locales, goal_cases)
  case (5 s e)
  then show ?case using until_take [of T s] until_second [of T s] until_service
    by (auto simp: happens_def silent_ev_def intro: order_trans [OF until_service])
next
  case (6 s)
  then have "until_gone T (snd (altera_avalon_jtag_uart_timeout s)) < until_gone T s"
    using until_second [of T s] by linarith
  then show ?case using order_le_less_trans [OF until_service] by (auto simp: happens_def)
qed (auto simp: until_gone_def ok_inst intro: interferes_ok [OF _ happens_interferes])

lemma goes_silent:
  assumes "uart_ok s" "host_silent s" "timeout s \<le> INT_MAX - 2"
  shows "\<exists>n. timeout s \<le> host_inactive (evolve n s)"
proof -
  obtain n where "until_gone (timeout s) (evolve n s) = 0"
    using gone.eventually [of s "timeout s"] assms by (auto simp: host_silent_def)
  then have "timeout s \<le> host_inactive (evolve n s)"
    by (auto simp: until_gone_def word_less_unat split: if_splits)
  then show ?thesis by blast
qed

text \<open>A host that either goes on taking bytes or is gone for good: no wait for it is endless.  The
  second needs a time-out that the count of seconds can reach.\<close>

definition host_settles :: "uart \<Rightarrow> bool" where
  "host_settles s \<longleftrightarrow> host_drains s \<or> host_silent s \<and> timeout s \<le> INT_MAX - 2"

subsection \<open>Waiting\<close>

interpretation tx_poll: polling "tx_wait out" interferes for out
  by unfold_locales (auto simp: tx_wait_def Let_def intro: interferes_trans [OF _ observe_interferes])

interpretation rx_poll: polling "rx_wait i" interferes for i
  by unfold_locales (auto simp: rx_wait_def Let_def intro: interferes_trans [OF _ observe_interferes])

lemma snd_wait [simp]: "snd (tx_wait out s) = observe s" "snd (rx_wait i s) = observe s"
  by (simp_all add: tx_wait_def rx_wait_def Let_def)

lemma wait_evolve: "poll_state (tx_wait out) n s = evolve n s" "poll_state (rx_wait i) n s = evolve n s"
  by (induction n arbitrary: s) (simp_all add: tx_wait_def rx_wait_def Let_def)

lemma tx_wait_ends:
  assumes "spin (tx_wait out) s = Some t"
  shows "interferes s t" "\<exists>n. t = evolve (Suc n) s" "out \<noteq> tx_out t \<or> timeout t \<le> host_inactive t"
proof -
  show "interferes s t" using assms by (rule tx_poll.spin_inv)
  obtain n where n: "\<not> fst (tx_wait out (evolve n s))" "t = evolve (Suc n) s"
    using spin_Some_polls [OF assms] by (auto simp: wait_evolve)
  then show "\<exists>n. t = evolve (Suc n) s" by blast
  show "out \<noteq> tx_out t \<or> timeout t \<le> host_inactive t"
    using n by (auto simp: tx_wait_def Let_def evolve_Suc simp del: evolve_simps)
qed

lemma tx_wait_drains:
  assumes "tx_ready s" "host_drains s" "out \<noteq> tx_in s"
  shows "\<exists>t. spin (tx_wait out) s = Some t"
proof -
  have ok: "uart_ok s" using assms(1) by (simp add: tx_ready_def)
  obtain n where n: "pending (evolve n s) = []" using drained assms by blast
  let ?t = "evolve (Suc n) s"
  have t: "uart_ok ?t" "tx_in ?t = tx_in s" and nt: "uart_ok (evolve n s)"
    using ok evolve_interferes [of s "Suc n"] evolve_interferes [of s n] by (auto simp: interferes_def simp del: evolve_simps)
  have "interferes (evolve n s) ?t" by (simp add: evolve_Suc observe_interferes del: evolve_simps)
  then have "tx_queue ?t = []"
    using n nt by (auto simp: interferes_def pending_def)
  then have "tx_out ?t = tx_in s" using t by (simp add: tx_queue_Nil uart_ok_def)
  then have "\<not> fst (tx_wait out (evolve n s))"
    using assms(3) by (simp add: tx_wait_def Let_def evolve_Suc [symmetric] del: evolve_simps)
  then show ?thesis using spin_returns [of "tx_wait out" n s] by (simp add: wait_evolve)
qed

lemma tx_wait_silent:
  assumes "uart_ok s" "host_silent s" "timeout s \<le> INT_MAX - 2"
  shows "\<exists>t. spin (tx_wait out) s = Some t"
proof -
  obtain n where n: "timeout s \<le> host_inactive (evolve n (observe s))"
  proof -
    have o: "uart_ok (observe s)" "env (observe s) = env s" "timeout (observe s) = timeout s"
      using assms(1) observe_interferes [of s] by (auto simp: interferes_def)
    then have "host_silent (observe s)" using assms(2) by (simp add: host_silent_def)
    then show ?thesis using goes_silent [of "observe s"] o assms(3) that by auto
  qed
  have "timeout (evolve (Suc n) s) = timeout s"
    using assms(1) evolve_interferes [of s "Suc n"] by (simp add: interferes_def)
  then have "\<not> fst (tx_wait out (evolve n s))"
    using n evolve_Suc [of n s] by (simp add: tx_wait_def Let_def not_less)
  then show ?thesis using spin_returns [of "tx_wait out" n s] by (simp add: wait_evolve)
qed

lemma tx_wait_returns:
  "tx_ready s \<Longrightarrow> host_settles s \<Longrightarrow> out \<noteq> tx_in s \<Longrightarrow> \<exists>t. spin (tx_wait out) s = Some t"
  using tx_wait_drains tx_wait_silent by (auto simp: host_settles_def tx_ready_def)

text \<open>Asking for the transmit interrupt leaves nothing waiting.\<close>

lemma kick_frame:
  "jtag_kick m s = service (s\<lparr>irq_enable := irq_enable s OR m, ien_AF := bit (irq_enable s OR m) 0,
     ien_AE := bit (irq_enable s OR m) 1, ac_flag := (ac_flag s \<and> \<not> bit (irq_enable s OR m) 10)\<rparr>)"
proof -
  have "alt_irq_enable_all c (jtag_write_control v ((snd (alt_irq_disable_all s))\<lparr>irq_enable := v\<rparr>))
      = s\<lparr>irq_enable := v, ien_AF := bit v 0, ien_AE := bit v 1, ac_flag := (ac_flag s \<and> \<not> bit v 10)\<rparr>"
    if "c = cpu_status s" for c v
    by (rule uart.equality) (simp_all add: that jtag_write_control_def alt_irq_enable_all_def
        alt_irq_disable_all_def Let_def)
  then show ?thesis by (simp add: jtag_kick_def alt_irq_disable_all_def Let_def)
qed

lemma kick_interferes:
  fixes m :: u32
  assumes "uart_ok s"
  defines "u \<equiv> s\<lparr>irq_enable := irq_enable s OR m, ien_AF := bit (irq_enable s OR m) 0,
     ien_AE := bit (irq_enable s OR m) 1, ac_flag := (ac_flag s \<and> \<not> bit (irq_enable s OR m) 10)\<rparr>"
  shows "uart_ok u" "interferes u (jtag_kick m s)" "ships [] s (jtag_kick m s)"
    "\<not> av_irq (jtag_kick m s)"
proof -
  show u: "uart_ok u" using assms(1) by (simp add: u_def uart_ok_def rings_ok_def fifos_ok_def ctl_ok_def)
  show i: "interferes u (jtag_kick m s)" by (simp add: u_def kick_frame service_interferes)
  have "ships [] s u"
    using assms(1) u by (auto simp: u_def ships_def rx_stream_def bit_or_iff)
  then show "ships [] s (jtag_kick m s)" using i by (rule ships_then)
  show "\<not> av_irq (jtag_kick m s)" by (simp add: kick_frame service_quiet)
qed

lemma kick_tx_ready: "uart_ok s \<Longrightarrow> tx_ready (jtag_kick WE_MSK s)"
proof -
  assume s: "uart_ok s"
  let ?u = "s\<lparr>irq_enable := irq_enable s OR WE_MSK, ien_AF := bit (irq_enable s OR WE_MSK) 0,
     ien_AE := bit (irq_enable s OR WE_MSK) 1, ac_flag := (ac_flag s \<and> \<not> bit (irq_enable s OR WE_MSK) 10)\<rparr>"
  have "want_tx ?u" by (simp add: bit_or_iff bit_2_iff)
  then show ?thesis using kick_interferes [OF s, of WE_MSK] by (auto simp: tx_ready_def interferes_def)
qed

lemma kick_inst [simp]: "inst (jtag_kick m s) = inst s" "host_inactive (jtag_kick m s) = host_inactive s"
  by (simp_all add: kick_frame)

subsection \<open>What a write does\<close>

lemma write_loop_correct:
  assumes "jtag_write_loop flags ptr count out s = Some (ptr', t)" "uart_ok s" "nat count \<le> length ptr"
  shows "\<exists>k \<le> nat count. ptr' = drop k ptr \<and> ships (take k ptr) s t \<and> tx_ready t
    \<and> (int k < count \<longrightarrow> flags AND O_NONBLOCK \<noteq> 0 \<or> host_inactive t \<noteq> 0)"
proof -
  have "\<exists>k \<le> nat count. fst r = drop k ptr \<and> ships (take k ptr) s (snd r) \<and> tx_ready (snd r)
      \<and> (int k < count \<longrightarrow> flags AND O_NONBLOCK \<noteq> 0 \<or> host_inactive (snd r) \<noteq> 0)"
    if "jtag_write_loop flags ptr count out s = Some r" "uart_ok s" "nat count \<le> length ptr" for r
    using that
  proof (induction rule: jtag_write_loop.raw_induct [rotated, consumes 1, case_names step])
    case (step loop flags ptr count out s r)
    obtain k out' u where f: "jtag_fill ptr count out s = Some (drop k ptr, count - int k, out', u)"
      "k \<le> nat count" "ships (take k ptr) s u"
      using fill_result [OF step(3,4), of out] by blast
    let ?v = "jtag_kick WE_MSK u"
    have u: "uart_ok u" using f(3) by (rule ships_ok)
    have v: "tx_ready ?v" "ships (take k ptr) s ?v"
      using kick_tx_ready [OF u] ships_trans [OF f(3) kick_interferes(3) [OF u]] by simp_all
    show ?case
    proof (cases "int k < count")
      case False
      then have "r = (drop k ptr, ?v)" using step(2) f(1) by (simp add: Let_def)
      then show ?thesis using f(2) v False by auto
    next
      case more: True
      show ?thesis
      proof (cases "flags AND O_NONBLOCK = 0")
        case False
        then have "r = (drop k ptr, ?v)" using step(2) f(1) more by (simp add: Let_def)
        then show ?thesis using f(2) v False by auto
      next
        case block: True
        obtain w where w: "spin (tx_wait out') ?v = Some w"
          and r: "(if host_inactive w \<noteq> 0 then Some (drop k ptr, w)
            else loop flags (drop k ptr) (count - int k) out' w) = Some r"
          using step(2) f(1) more block by (auto simp: Let_def bind_eq_Some_conv)
        note iw = tx_wait_ends(1) [OF w]
        have wr: "tx_ready w"
          using v(1) iw tx_wait_ends(2) [OF w] evolve_ready by blast
        have ws: "ships (take k ptr) s w" using v(2) iw by (rule ships_then)
        show ?thesis
        proof (cases "host_inactive w = 0")
          case False
          then show ?thesis using r f(2) wr ws by auto
        next
          case True
          then have l: "loop flags (drop k ptr) (count - int k) out' w = Some r" using r by simp
          have "nat (count - int k) \<le> length (drop k ptr)" using step(4) by simp
          then obtain j where j: "j \<le> nat (count - int k)" "fst r = drop j (drop k ptr)"
            "ships (take j (drop k ptr)) w (snd r)" "tx_ready (snd r)"
            "int j < count - int k \<longrightarrow> flags AND O_NONBLOCK \<noteq> 0 \<or> host_inactive (snd r) \<noteq> 0"
            using step(1) [OF l] wr by (auto simp: tx_ready_def)
          have "ships (take (k + j) ptr) s (snd r)"
            using ships_trans [OF ws j(3)] by (simp add: take_add)
          moreover have "k + j \<le> nat count" using j(1) more f(2) by linarith
          ultimately show ?thesis using j by (intro exI [of _ "k + j"]) (auto simp: add.commute)
        qed
      qed
    qed
  qed
  then show ?thesis using assms by fastforce
qed

text \<open>A buffer that fits never waits.\<close>

lemma write_loop_fits:
  assumes "uart_ok s" "nat count \<le> length ptr" "length (tx_queue s) + nat count \<le> 2047"
  shows "\<exists>t. jtag_write_loop flags ptr count out s = Some (drop (nat count) ptr, t)"
proof -
  obtain k out' u where f: "jtag_fill ptr count out s = Some (drop k ptr, count - int k, out', u)"
    "k \<le> nat count" "int k < count \<longrightarrow> length (tx_queue u) = 2047 \<and> length (tx_queue u) \<le> length (tx_queue s) + k"
    using fill_result [OF assms(1,2), of out] by blast
  then have "k = nat count" using assms(3) by auto
  then show ?thesis using f(1) by (subst jtag_write_loop.simps) (simp add: Let_def)
qed

lemma write_loop_nonblock:
  assumes "uart_ok s" "nat count \<le> length ptr" "flags AND O_NONBLOCK \<noteq> 0"
  shows "\<exists>r. jtag_write_loop flags ptr count out s = Some r"
proof -
  obtain k out' u where "jtag_fill ptr count out s = Some (drop k ptr, count - int k, out', u)"
    using fill_result [OF assms(1,2), of out] by blast
  then show ?thesis using assms(3) by (subst jtag_write_loop.simps) (auto simp: Let_def)
qed

text \<open>With a host that settles, every write returns: each wait ends, and after the first every
  round puts a byte into the ring, as long as the host is not seen inactive.\<close>

lemma ships_settles: "ships xs s t \<Longrightarrow> host_settles s \<Longrightarrow> host_settles t"
  by (simp add: ships_def host_settles_def host_drains_def host_silent_def)

lemma tx_full_out: "uart_ok s \<Longrightarrow> length (tx_queue s) = 2047 \<Longrightarrow> tx_out s \<noteq> tx_in s"
  by (metis list.size(3) tx_queue_Nil uart_ok_def zero_neq_numeral)

lemma tx_moved_room:
  assumes "uart_ok u" "interferes u w" "length (tx_queue u) = 2047" "tx_out w \<noteq> tx_out u"
  shows "length (tx_queue w) < 2047"
proof -
  have w: "uart_ok w" "tx_in w = tx_in u" using assms(1,2) interferes_ok interferes_tx by blast+
  have "length (tx_queue w) \<noteq> 2047"
    using assms(3,4) uart_okD [OF w(1)] uart_okD [OF assms(1)] w(2)
    by (auto simp: tx_queue_def ring_length word_unat_eq_iff split: if_splits)
  moreover have "length (tx_queue w) \<le> 2047" using tx_queue_free [OF w(1)] by linarith
  ultimately show ?thesis by linarith
qed

lemma kick_ships: "uart_ok u \<Longrightarrow> length (tx_queue (jtag_kick m u)) \<le> length (tx_queue u) \<and> tx_in (jtag_kick m u) = tx_in u"
  using kick_interferes [of u m] by (auto simp: interferes_def)

lemma write_round:
  assumes s: "uart_ok s" "nat count \<le> length ptr" "host_settles s" "0 < timeout s"
  shows "(\<exists>r. jtag_write_loop flags ptr count out s = Some r)
    \<or> (\<exists>k out' w. jtag_write_loop flags ptr count out s = jtag_write_loop flags (drop k ptr) (count - int k) out' w
        \<and> int k < count \<and> ships (take k ptr) s w \<and> length (tx_queue w) < 2047
        \<and> (length (tx_queue s) < 2047 \<longrightarrow> 0 < k))"
proof -
  obtain k out' u where f: "jtag_fill ptr count out s = Some (drop k ptr, count - int k, out', u)"
    "k \<le> nat count" "ships (take k ptr) s u"
    "int k < count \<longrightarrow> out' = tx_out u \<and> length (tx_queue u) = 2047 \<and> length (tx_queue u) \<le> length (tx_queue s) + k"
    using fill_result [OF s(1,2), of out] by blast
  let ?v = "jtag_kick WE_MSK u"
  have u: "uart_ok u" using f(3) by (rule ships_ok)
  have v: "tx_ready ?v" "ships (take k ptr) s ?v"
    using kick_tx_ready [OF u] ships_trans [OF f(3) kick_interferes(3) [OF u]] by simp_all
  show ?thesis
  proof (cases "int k < count \<and> flags AND O_NONBLOCK = 0")
    case False
    then show ?thesis using f(1) by (subst (1) jtag_write_loop.simps) (auto simp: Let_def)
  next
    case True
    then have full: "out' = tx_out u" "length (tx_queue u) = 2047" "length (tx_queue u) \<le> length (tx_queue s) + k"
      using f(4) by auto
    have "out' \<noteq> tx_in ?v" using tx_full_out [OF u full(2)] full(1) kick_ships [OF u] by simp
    then obtain w where w: "spin (tx_wait out') ?v = Some w"
      using tx_wait_returns [OF v(1) ships_settles [OF v(2) s(3)]] by blast
    note iw = tx_wait_ends(1) [OF w]
    have sw: "ships (take k ptr) s w" using v(2) iw by (rule ships_then)
    have eq: "jtag_write_loop flags ptr count out s = (if host_inactive w \<noteq> 0 then Some (drop k ptr, w)
        else jtag_write_loop flags (drop k ptr) (count - int k) out' w)"
      using True f(1) w by (subst (1) jtag_write_loop.simps) (simp add: Let_def)
    show ?thesis
    proof (cases "host_inactive w = 0")
      case inactive: True
      have "timeout w = timeout s" using sw by (simp add: ships_def)
      then have "out' \<noteq> tx_out w" using tx_wait_ends(3) [OF w] inactive s(4) by (auto simp: not_le)
      moreover obtain g where g: "uart_ok g" "interferes g w" "length (tx_queue g) = 2047" "tx_out g = tx_out u"
      proof -
        let ?g = "u\<lparr>irq_enable := irq_enable u OR WE_MSK, ien_AF := bit (irq_enable u OR WE_MSK) 0,
          ien_AE := bit (irq_enable u OR WE_MSK) 1, ac_flag := (ac_flag u \<and> \<not> bit (irq_enable u OR WE_MSK) 10)\<rparr>"
        show ?thesis
          using that [of ?g] kick_interferes(1,2) [OF u, of WE_MSK] iw interferes_trans full(2) by auto
      qed
      ultimately have "length (tx_queue w) < 2047" using tx_moved_room [OF g(1-3)] full(1) by simp
      moreover have "jtag_write_loop flags ptr count out s
          = jtag_write_loop flags (drop k ptr) (count - int k) out' w" using eq inactive by simp
      moreover have "length (tx_queue s) < 2047 \<longrightarrow> 0 < k" using full by auto
      ultimately show ?thesis using True sw by blast
    qed (use eq in auto)
  qed
qed

lemma write_loop_returns:
  assumes "uart_ok s" "nat count \<le> length ptr" "host_settles s" "0 < timeout s"
  shows "\<exists>r. jtag_write_loop flags ptr count out s = Some r"
proof -
  have room: "\<exists>r. jtag_write_loop flags ptr count out s = Some r"
    if "uart_ok s" "nat count \<le> length ptr" "host_settles s" "0 < timeout s" "length (tx_queue s) < 2047"
    for ptr count out s
    using that
  proof (induction "nat count" arbitrary: ptr count out s rule: less_induct)
    case less
    consider r where "jtag_write_loop flags ptr count out s = Some r"
      | k out' w where "jtag_write_loop flags ptr count out s = jtag_write_loop flags (drop k ptr) (count - int k) out' w"
        "int k < count" "ships (take k ptr) s w" "length (tx_queue w) < 2047" "0 < k"
      using write_round [OF less.prems(1-4), of flags out] less.prems(5) by blast
    then show ?case
    proof cases
      case 2
      have "nat (count - int k) < nat count" using 2(2,5) by simp
      then show ?thesis
        using less.hyps [of "count - int k" w "drop k ptr" out'] less.prems 2 ships_settles [OF 2(3)]
        by (auto simp: ships_def)
    qed blast
  qed
  show ?thesis
    using write_round [OF assms, of flags out]
  proof (elim disjE exE conjE)
    fix k out' w
    assume w: "jtag_write_loop flags ptr count out s = jtag_write_loop flags (drop k ptr) (count - int k) out' w"
      "int k < count" "ships (take k ptr) s w" "length (tx_queue w) < 2047"
    have "nat (count - int k) \<le> length (drop k ptr)" using assms(2) by simp
    then show ?thesis using room [of w "count - int k" "drop k ptr" out'] w assms ships_settles [OF w(3)]
      by (auto simp: ships_def)
  qed blast
qed

text \<open>C23: a write puts a prefix of the buffer behind everything that was on its way to the host, in
  order and without loss, whatever the host and the handler do meanwhile, and answers the length of
  that prefix (or an error for none); it stops short only in non-blocking mode or when the
  host has been inactive for a second.  It returns if the mode is non-blocking, or the
  buffer fits into the ring, or the host goes on
  taking bytes, or is gone for good.\<close>

theorem uart_write_stream:
  assumes "uart_ok s" "nat count \<le> length buf"
    "flags AND 0x4000 \<noteq> 0 \<or> length (tx_queue s) + nat count \<le> 2047 \<or> host_settles s \<and> 0 < timeout s"
  shows "\<exists>k t. altera_avalon_jtag_uart_write buf count flags s
      = Some (if k = 0 then Inl (if flags AND 0x4000 \<noteq> 0 then EWOULDBLOCK else EIO) else Inr k, t)
    \<and> k \<le> nat count \<and> tx_stream t = tx_stream s @ take k buf \<and> tx_ready t
    \<and> (k < nat count \<longrightarrow> flags AND 0x4000 \<noteq> 0 \<or> host_inactive t \<noteq> 0)
    \<and> (length (tx_queue s) + nat count \<le> 2047 \<longrightarrow> k = nat count)"
proof -
  obtain rest t where r: "jtag_write_loop flags buf count 0 s = Some (rest, t)"
    and fits: "length (tx_queue s) + nat count \<le> 2047 \<longrightarrow> rest = drop (nat count) buf"
    using write_loop_fits [OF assms(1,2), of flags 0] write_loop_nonblock [OF assms(1,2), of flags 0]
      write_loop_returns [OF assms(1,2), of flags 0] assms(3)
    by (metis (no_types, lifting) old.prod.exhaust option.inject prod.inject)
  obtain k where k: "k \<le> nat count" "rest = drop k buf" "ships (take k buf) s t" "tx_ready t"
    "int k < count \<longrightarrow> flags AND O_NONBLOCK \<noteq> 0 \<or> host_inactive t \<noteq> 0"
    using write_loop_correct [OF r assms(1,2)] by blast
  have l: "k \<le> length buf" using k(1) assms(2) by simp
  then have len: "length rest = length buf - k" using k(2) by simp
  then have "altera_avalon_jtag_uart_write buf count flags s
      = Some (if k = 0 then Inl (if flags AND 0x4000 \<noteq> 0 then EWOULDBLOCK else EIO) else Inr k, t)"
    using r l by (auto simp: altera_avalon_jtag_uart_write_def)
  moreover have "length (tx_queue s) + nat count \<le> 2047 \<longrightarrow> k = nat count"
    using fits len l assms(2) by auto
  moreover have "k < nat count \<longrightarrow> flags AND 0x4000 \<noteq> 0 \<or> host_inactive t \<noteq> 0" using k(5) by auto
  ultimately show ?thesis using k by (auto simp: ships_def)
qed

text \<open>C26: what a write accepted reaches the host, complete and in order, once the host takes bytes
  again and again; nothing has to be written or closed for it.\<close>

theorem uart_output_arrives:
  assumes "uart_ok s" "nat count \<le> length buf" "host_drains s"
    "altera_avalon_jtag_uart_write buf count flags s = Some (r, t)"
  shows "\<exists>n k. r = (if k = 0 then Inl (if flags AND 0x4000 \<noteq> 0 then EWOULDBLOCK else EIO) else Inr k)
    \<and> host_got (evolve n t) = tx_stream s @ take k buf"
proof -
  obtain rest where l: "jtag_write_loop flags buf count 0 s = Some (rest, t)"
    and r: "r = (if length rest \<noteq> length buf then Inr (length buf - length rest)
           else if flags AND O_NONBLOCK \<noteq> 0 then Inl EWOULDBLOCK else Inl EIO)"
    using assms(4) by (auto simp: altera_avalon_jtag_uart_write_def bind_eq_Some_conv)
  obtain k where k: "k \<le> nat count" "rest = drop k buf" "ships (take k buf) s t" "tx_ready t"
    using write_loop_correct [OF l assms(1,2)] by blast
  have "host_drains t" using k(3) assms(3) by (simp add: ships_def host_drains_def)
  then obtain n where n: "pending (evolve n t) = []" using drained k(4) by blast
  have "tx_stream (evolve n t) = tx_stream t"
    using evolve_interferes [of t n] k(4) by (simp add: interferes_def tx_ready_def)
  then have "host_got (evolve n t) = tx_stream s @ take k buf"
    using n k(3) by (simp add: stream_pending ships_def)
  moreover have "length rest = length buf - k" "k \<le> length buf" using k(1,2) assms(2) by simp_all
  then have "r = (if k = 0 then Inl (if flags AND 0x4000 \<noteq> 0 then EWOULDBLOCK else EIO) else Inr k)"
    using r by auto
  ultimately show ?thesis by blast
qed

end
