(* ===== verification/JtagRead.thy ===== *)
theory JtagRead
  imports JtagUart
begin

text \<open>
  The console read (\<open>altera_avalon_jtag_uart_read.c\<close>) and close: what they hand to the
  program and when they return.  The console as a device behind the file descriptors
  (\<open>altera_avalon_jtag_uart_fd.c\<close>), and the small polled driver.
\<close>

unbundle bit_operations_syntax

subsection \<open>What a read does\<close>

definition gives :: "u8 list \<Rightarrow> uart \<Rightarrow> uart \<Rightarrow> bool" where
  "gives xs s t \<longleftrightarrow> uart_ok t \<and> tx_stream t = tx_stream s
     \<and> (\<exists>new. host_sent t = host_sent s @ new \<and> rx_stream s @ new = xs @ rx_stream t)
     \<and> (\<exists>rest. rx_queue s @ rest = xs @ rx_queue t)
     \<and> timeout t = timeout s \<and> env t = env s \<and> (tx_ready s \<longrightarrow> tx_ready t)"

lemma gives_interferes: "uart_ok s \<Longrightarrow> interferes s t \<Longrightarrow> (\<not> av_irq s \<Longrightarrow> \<not> av_irq t) \<Longrightarrow> gives [] s t"
  using tx_ready_interferes [of s t] by (auto simp: interferes_def gives_def tx_ready_def)

lemma gives_observe: "uart_ok s \<Longrightarrow> gives [] s (observe s)"
  by (rule gives_interferes) (simp_all add: observe_interferes observe_quiet)

lemma gives_trans:
  assumes "gives xs s t" "gives ys t u"
  shows "gives (xs @ ys) s u"
proof -
  obtain n1 m1 where 1: "host_sent t = host_sent s @ n1" "rx_stream s @ n1 = xs @ rx_stream t"
    "rx_queue s @ m1 = xs @ rx_queue t" using assms(1) by (auto simp: gives_def)
  obtain n2 m2 where 2: "host_sent u = host_sent t @ n2" "rx_stream t @ n2 = ys @ rx_stream u"
    "rx_queue t @ m2 = ys @ rx_queue u" using assms(2) by (auto simp: gives_def)
  have "host_sent u = host_sent s @ (n1 @ n2)" "rx_stream s @ (n1 @ n2) = (xs @ ys) @ rx_stream u"
    "rx_queue s @ (m1 @ m2) = (xs @ ys) @ rx_queue u"
    using 1 2 by (metis append_assoc)+
  then show ?thesis using assms unfolding gives_def by auto
qed

lemma avail_grows:
  assumes s: "uart_ok s" and t: "uart_ok t" "rx_out t = rx_out s" "rx_queue t = rx_queue s @ rest"
    and n: "n \<le> unat (rx_avail (rx_in s) (rx_out s))"
  shows "n \<le> (if unat (rx_out t) \<le> unat (rx_in t) then unat (rx_in t) - unat (rx_out t) else 2048 - unat (rx_out t))"
    "unat (rx_out s) + n \<le> 2048"
proof -
  note B = uart_okD [OF s] uart_okD [OF t(1)]
  have "length (rx_queue s) \<le> length (rx_queue t)" using t(3) by simp
  then show "n \<le> (if unat (rx_out t) \<le> unat (rx_in t) then unat (rx_in t) - unat (rx_out t) else 2048 - unat (rx_out t))"
    "unat (rx_out s) + n \<le> 2048"
    using n B t(2) by (auto simp: rx_avail_get rx_queue_def ring_length split: if_splits)
qed

lemma drain_piece:
  assumes ok: "uart_ok s" and n: "unat m \<le> unat (rx_avail (rx_in s) (rx_out s))"
  shows "\<exists>xs. mem_get (rx_buf (observe s)) (unat (rx_out s)) (unat m) = Some xs \<and> length xs = unat m
    \<and> gives xs s ((observe (observe s))\<lparr>rx_out := (rx_out s + m) mod BUF_LEN\<rparr>)"
proof -
  let ?o = "unat (rx_out s)" and ?t = "observe s"
  have t: "uart_ok ?t" "rx_out ?t = rx_out s" and tm: "\<exists>rest. rx_queue ?t = rx_queue s @ rest"
    using observe_interferes [of s] ok by (auto simp: interferes_def)
  let ?u = "observe ?t"
  have u: "uart_ok ?u" "rx_out ?u = rx_out s" and um: "\<exists>rest. rx_queue ?u = rx_queue ?t @ rest"
    using observe_interferes [of ?t] t by (auto simp: interferes_def)
  note Bt = uart_okD [OF t(1)] and Bu = uart_okD [OF u(1)]
  have su: "\<exists>rest. rx_queue ?u = rx_queue s @ rest" using tm um by auto
  define w where "w = ?u\<lparr>rx_out := (rx_out s + m) mod BUF_LEN\<rparr>"
  obtain r1 r2 where r: "rx_queue ?t = rx_queue s @ r1" "rx_queue ?u = rx_queue s @ r2" using tm su by blast
  have fit: "?o + unat m \<le> 2048" using avail_grows(2) [OF ok t r(1) n] .
  note at = avail_grows(1) [OF ok t r(1) n, unfolded t(2)] and au = avail_grows(1) [OF ok u r(2) n, unfolded u(2)]
  let ?xs = "bytes_at (rx_buf ?t) ?o (unat m)"
  have get: "mem_get (rx_buf ?t) ?o (unat m) = Some ?xs" using fit Bt by (simp add: mem_get_def)
  have len: "length ?xs = unat m" using fit Bt by simp
  have ow: "unat (rx_out w) = (?o + unat m) mod 2048"
    using Bu fit u(2) by (simp add: w_def unat_ring)
  have "rx_queue ?t = ?xs @ ring (rx_buf ?t) ((?o + unat m) mod 2048) (unat (rx_in ?t))"
  proof -
    have "ring (rx_buf ?t) ?o (unat (rx_in ?t)) = ?xs @ ring (rx_buf ?t) ((?o + unat m) mod length (rx_buf ?t)) (unat (rx_in ?t))"
      by (rule ring_get) (use Bt at in \<open>simp_all add: t(2) split: if_splits\<close>)
    then show ?thesis by (simp add: rx_queue_def t(2) Bt(1))
  qed
  moreover have "rx_queue ?u = bytes_at (rx_buf ?u) ?o (unat m) @ rx_queue w"
  proof -
    have "ring (rx_buf ?u) ?o (unat (rx_in ?u))
        = bytes_at (rx_buf ?u) ?o (unat m) @ ring (rx_buf ?u) ((?o + unat m) mod length (rx_buf ?u)) (unat (rx_in ?u))"
      by (rule ring_get) (use Bu au in \<open>simp_all add: u(2) split: if_splits\<close>)
    moreover have "rx_queue w = ring (rx_buf ?u) ((?o + unat m) mod 2048) (unat (rx_in ?u))"
      unfolding rx_queue_def ow by (simp add: w_def)
    ultimately show ?thesis by (simp add: rx_queue_def u(2) Bu(1))
  qed
  moreover have "length (bytes_at (rx_buf ?u) ?o (unat m)) = unat m" using fit Bu by simp
  ultimately have q: "rx_queue ?u = ?xs @ rx_queue w" using um len by (auto simp: append_eq_append_conv)
  have "gives [] s ?u" using gives_trans [OF gives_observe [OF ok] gives_observe [OF t(1)]] by simp
  moreover have "gives ?xs ?u w"
  proof -
    have "uart_ok w" using u(1) ow by (simp add: w_def uart_ok_def rings_ok_def fifos_ok_def ctl_ok_def)
    moreover have "tx_ready ?u \<longrightarrow> tx_ready w"
      using calculation by (simp add: tx_ready_def w_def av_irq_def ipen_AE_def ipen_AF_def tx_queue_def)
    ultimately show ?thesis using q
      by (simp add: gives_def rx_stream_def) (simp add: w_def tx_stream_def tx_queue_def)
  qed
  ultimately have "gives ?xs s w" using gives_trans [of "[]" s ?u ?xs w] by simp
  then show ?thesis using get len by (simp add: w_def)
qed

lemma rx_queue_Nil: "uart_ok s \<Longrightarrow> rx_queue s = [] \<longleftrightarrow> rx_in s = rx_out s"
  using uart_okD [of s] by (auto simp: rx_queue_def ring_Nil_iff word_unat_eq_iff)

lemma drain_result:
  assumes "uart_ok s" "0 < space"
  shows "\<exists>xs i t. jtag_drain space s = Some (xs, space - int (length xs), i, t)
    \<and> int (length xs) \<le> space \<and> gives xs s t
    \<and> (int (length xs) < space \<longrightarrow> rx_queue t = [] \<and> i = rx_in t) \<and> (xs = [] \<longrightarrow> t = observe s)"
  using assms
proof (induction space s rule: jtag_drain.induct)
  case (1 space s)
  define s1 where "s1 = observe s"
  define n where "n = rx_avail (rx_in s1) (rx_out s1)"
  have g1: "gives [] s s1" using gives_observe [OF 1(2)] by (simp add: s1_def)
  then have s1: "uart_ok s1" by (simp add: gives_def)
  show ?case
  proof (cases "n = 0")
    case True
    then have "rx_queue s1 = []" using rx_avail_get(2) [of "rx_in s1" "rx_out s1"] uart_okD [OF s1]
      by (simp add: n_def rx_queue_Nil [OF s1])
    moreover have "jtag_drain space s = Some ([], space, rx_in s1, s1)"
      using True by (subst jtag_drain.simps) (simp add: s1_def [symmetric] n_def Let_def)
    ultimately show ?thesis using g1 1(3) by (auto simp: s1_def)
  next
    case n0: False
    define m where "m = piece n space"
    have m: "unat m = min (unat n) (nat space)" using 1(3) unat_piece [of space n] by (simp add: m_def)
    have "unat n \<noteq> 0" using n0 by (simp add: unat_eq_0)
    then have mpos: "0 < unat m" "int (unat m) \<le> space" using m 1(3) by linarith+
    obtain xs where xs: "mem_get (rx_buf (observe s1)) (unat (rx_out s1)) (unat m) = Some xs" "length xs = unat m"
      "gives xs s1 ((observe (observe s1))\<lparr>rx_out := (rx_out s1 + m) mod BUF_LEN\<rparr>)"
      using drain_piece [OF s1, of m] m by (auto simp: n_def)
    define w where "w = (observe (observe s1))\<lparr>rx_out := (rx_out s1 + m) mod BUF_LEN\<rparr>"
    have gw: "gives xs s w" using gives_trans [OF g1 xs(3)] by (simp add: w_def)
    then have wok: "uart_ok w" by (simp add: gives_def)
    have eq: "jtag_drain space s = (if space - uint m > 0 then do {
              (ys, space, i, s) \<leftarrow> jtag_drain (space - uint m) w;
              Some (xs @ ys, space, i, s) }
            else Some (xs, space - uint m, rx_in s1, w))"
      using n0 xs(1) by (subst jtag_drain.simps)
        (simp add: s1_def [symmetric] n_def [symmetric] m_def [symmetric] w_def Let_def cong: if_cong)
    have um: "uint m = int (unat m)" by simp
    show ?thesis
    proof (cases "space - uint m > 0")
      case False
      then have "int (length xs) = space" using mpos xs(2) um by linarith
      have "jtag_drain space s = Some (xs, space - uint m, rx_in s1, w)"
        using False by (subst eq) (simp only: if_False)
      moreover have "uint m = int (length xs)" using xs(2) um by metis
      ultimately have "jtag_drain space s = Some (xs, space - int (length xs), rx_in s1, w)" by metis
      then show ?thesis using \<open>int (length xs) = space\<close> gw 1(3) by fastforce
    next
      case True
      obtain ys i t where y: "jtag_drain (space - uint m) w = Some (ys, space - uint m - int (length ys), i, t)"
        "int (length ys) \<le> space - uint m" "gives ys w t"
        "int (length ys) < space - uint m \<longrightarrow> rx_queue t = [] \<and> i = rx_in t"
        using 1(1) [OF s1_def refl refl n_def n0 m_def refl xs(1) refl w_def True wok True] by blast
      have ul: "uint m = int (length xs)" using xs(2) um by metis
      have "jtag_drain space s = Some (xs @ ys, space - uint m - int (length ys), i, t)"
        using True by (subst eq) (simp add: y(1))
      then have "jtag_drain space s = Some (xs @ ys, space - int (length (xs @ ys)), i, t)"
        unfolding ul by (simp add: algebra_simps)
      moreover have "int (length (xs @ ys)) \<le> space" "gives (xs @ ys) s t"
        "int (length (xs @ ys)) < space \<longrightarrow> rx_queue t = [] \<and> i = rx_in t"
        using y(2,4) gives_trans [OF gw y(3)] unfolding ul by simp_all
      moreover have "xs @ ys \<noteq> []" using mpos(1) xs(2) by auto
      ultimately show ?thesis by blast
    qed
  qed
qed

lemma rx_wait_ends:
  assumes "spin (rx_wait i) s = Some t"
  shows "interferes s t" "\<exists>n. t = evolve n s" "i \<noteq> rx_in t \<or> timeout t \<le> host_inactive t"
proof -
  show "interferes s t" using assms by (rule rx_poll.spin_inv)
  obtain n where n: "\<not> fst (rx_wait i (evolve n s))" "t = evolve (Suc n) s"
    using spin_Some_polls [OF assms] by (auto simp: wait_evolve)
  then show "\<exists>n. t = evolve n s" by blast
  show "i \<noteq> rx_in t \<or> timeout t \<le> host_inactive t"
    using n by (auto simp: rx_wait_def Let_def evolve_Suc simp del: evolve_simps)
qed

lemma gives_evolve: "uart_ok s \<Longrightarrow> gives [] s (evolve n s)"
proof (induction n arbitrary: s)
  case (Suc n)
  have g: "gives [] s (observe s)" using Suc.prems by (rule gives_observe)
  then have "uart_ok (observe s)" by (simp add: gives_def)
  then show ?case using Suc.IH gives_trans [OF g] by fastforce
qed (simp add: gives_def)

lemma read_loop_correct:
  assumes "jtag_read_loop flags space s = Some (xs, t)" "uart_ok s" "0 < space"
  shows "int (length xs) \<le> space \<and> gives xs s t \<and> (int (length xs) < space \<longrightarrow> rx_queue t = [])
    \<and> (xs = [] \<and> flags AND O_NONBLOCK = 0 \<longrightarrow> (\<exists>n. timeout s \<le> host_inactive (evolve n s)))"
proof -
  have "int (length (fst r)) \<le> space \<and> gives (fst r) s (snd r) \<and> (int (length (fst r)) < space \<longrightarrow> rx_queue (snd r) = [])
    \<and> (fst r = [] \<and> flags AND O_NONBLOCK = 0 \<longrightarrow> (\<exists>n. timeout s \<le> host_inactive (evolve n s)))"
    if "jtag_read_loop flags space s = Some r" "uart_ok s" "0 < space" for r
    using that
  proof (induction rule: jtag_read_loop.raw_induct [rotated, consumes 1, case_names step])
    case (step loop flags space s r)
    obtain xs i u where d: "jtag_drain space s = Some (xs, space - int (length xs), i, u)"
      "int (length xs) \<le> space" "gives xs s u" "int (length xs) < space \<longrightarrow> rx_queue u = [] \<and> i = rx_in u"
      "xs = [] \<longrightarrow> u = observe s"
      using drain_result [OF step(3,4)] by blast
    have u: "uart_ok u" using d(3) by (simp add: gives_def)
    show ?case
    proof (cases "xs \<noteq> [] \<or> flags AND O_NONBLOCK \<noteq> 0")
      case True
      then have "r = (xs, u)" using step(2,4) d(1) by simp
      then show ?thesis using d True by auto
    next
      case False
      then have i: "i = rx_in u" "rx_queue u = []" "gives [] s u" "u = observe s" using d step(4) by auto
      obtain w where w: "spin (rx_wait i) u = Some w"
        and r: "(let s = observe w in if i = rx_in s then Some ([], s) else loop flags space s) = Some r"
        using step(2,4) d(1) False by (auto simp: bind_eq_Some_conv Let_def cong: if_cong)
      obtain n where n: "w = evolve n u" using rx_wait_ends(2) [OF w] by blast
      define v where "v = observe w"
      have vn: "v = evolve (Suc n) u" by (simp add: v_def n evolve_Suc del: evolve_simps)
      have gv: "gives [] s v" using gives_trans [OF i(3) gives_evolve [OF u, of "Suc n"]] by (simp add: vn)
      then have v: "uart_ok v" by (simp add: gives_def)
      have vs: "v = evolve (Suc (Suc n)) s" using vn i(4) by simp
      have tv: "timeout v = timeout s" using gv by (simp add: gives_def)
      show ?thesis
      proof (cases "i = rx_in v")
        case True
        have "timeout s \<le> host_inactive (evolve (Suc n) s)"
        proof -
          have "i = rx_in w"
          proof (rule ccontr)
            assume "i \<noteq> rx_in w"
            have ok: "uart_ok w" "rx_out w = rx_out u" using u evolve_interferes [of u n] by (simp_all add: interferes_def n)
            then have "rx_queue w \<noteq> []" using \<open>i \<noteq> rx_in w\<close> i(1,2) rx_queue_Nil [OF u] rx_queue_Nil by auto
            moreover have "\<exists>new. rx_queue v = rx_queue w @ new" "rx_out v = rx_out w"
              using ok(1) observe_interferes [of w] by (simp_all add: v_def interferes_def)
            ultimately show False using True i(1,2) ok(2) rx_queue_Nil [OF v] rx_queue_Nil [OF u] by auto
          qed
          then have "timeout w \<le> host_inactive w" using rx_wait_ends(3) [OF w] by simp
          moreover have "timeout w = timeout s" using rx_wait_ends(1) [OF w] u i(3)
            by (simp add: interferes_def gives_def)
          ultimately show ?thesis using n i(4) by simp
        qed
        then have gone: "\<exists>k. timeout s \<le> host_inactive (evolve k s)" by blast
        have rv: "r = ([], v)" using r True by (simp add: v_def Let_def)
        have "rx_out v = rx_out u" using u evolve_interferes [of u "Suc n"] by (simp add: interferes_def vn)
        then have "rx_queue v = []" using True i(1,2) rx_queue_Nil [OF v] rx_queue_Nil [OF u] by simp
        then show ?thesis using rv gv step(4) gone by (simp del: evolve_simps)
      next
        case False
        then have l: "loop flags space v = Some r" using r by (simp add: v_def Let_def)
        have "\<exists>k. timeout s \<le> host_inactive (evolve k s)" if "timeout v \<le> host_inactive (evolve k v)" for k
          using that tv evolve_add [of k "Suc (Suc n)" s] by (metis vs)
        then show ?thesis using step(1) [OF l v step(4)] gives_trans [OF gv, of "fst r" "snd r"] by auto
      qed
    qed
  qed
  then show ?thesis using assms by fastforce
qed

lemma rx_stays:
  assumes "uart_ok s" "rx_queue (evolve m s) \<noteq> []" "m \<le> k"
  shows "rx_queue (evolve k s) \<noteq> []"
proof -
  have "uart_ok (evolve m s)" using assms(1) evolve_interferes [of s m] by (simp add: interferes_def)
  then have "\<exists>new. rx_queue (evolve (k - m) (evolve m s)) = rx_queue (evolve m s) @ new"
    using evolve_interferes [of "evolve m s" "k - m"] by (simp add: interferes_def)
  then show ?thesis using assms(2,3) by (auto simp flip: evolve_add)
qed

text \<open>The first round, and the second if something came in during the wait.\<close>

lemma read_loop_returns:
  assumes "uart_ok s" "0 < space"
    "flags AND O_NONBLOCK \<noteq> 0 \<or> (\<exists>n. rx_queue (evolve n s) \<noteq> []) \<or> (\<exists>n>1. timeout s \<le> host_inactive (evolve n s))"
  shows "\<exists>r. jtag_read_loop flags space s = Some r"
proof -
  have first: "\<exists>r. jtag_read_loop flags space s = Some r"
    if ok: "uart_ok s" and fl: "flags AND O_NONBLOCK \<noteq> 0 \<or> rx_queue s \<noteq> []" for s
  proof -
    obtain xs i u where d: "jtag_drain space s = Some (xs, space - int (length xs), i, u)"
      "gives xs s u" "int (length xs) < space \<longrightarrow> rx_queue u = []"
      using drain_result [OF ok assms(2)] by blast
    have "xs \<noteq> [] \<or> flags AND O_NONBLOCK \<noteq> 0"
      using fl d(2,3) assms(2) by (auto simp: gives_def)
    then show ?thesis using assms(2) d(1) by (subst jtag_read_loop.simps) simp
  qed
  obtain xs i u where d: "jtag_drain space s = Some (xs, space - int (length xs), i, u)"
    "gives xs s u" "int (length xs) < space \<longrightarrow> rx_queue u = [] \<and> i = rx_in u" "xs = [] \<longrightarrow> u = observe s"
    using drain_result [OF assms(1,2)] by blast
  show ?thesis
  proof (cases "xs \<noteq> [] \<or> flags AND O_NONBLOCK \<noteq> 0")
    case True
    then show ?thesis using assms(2) d(1) by (subst jtag_read_loop.simps) simp
  next
    case False
    then have i: "rx_queue u = []" "i = rx_in u" "i = rx_out u" "u = observe s" and u: "uart_ok u" "timeout u = timeout s"
      using d assms(2) rx_queue_Nil [of u] by (auto simp: gives_def)
    have moved: "i \<noteq> rx_in v" if "rx_queue v \<noteq> []" "uart_ok v" "rx_out v = rx_out u" for v
      using that i rx_queue_Nil [of v] by simp
    have ev: "uart_ok (evolve m u)" "rx_out (evolve m u) = rx_out u" "timeout (evolve m u) = timeout s" for m
      using u evolve_interferes [of u m] by (simp_all add: interferes_def)
    have "\<exists>m. \<not> fst (rx_wait i (evolve m u))"
    proof (cases "\<exists>n. rx_queue (evolve n s) \<noteq> []")
      case True
      then obtain n where "rx_queue (evolve n s) \<noteq> []" by blast
      then have "rx_queue (evolve (Suc (Suc n)) s) \<noteq> []" using rx_stays [OF assms(1), of n "Suc (Suc n)"] by (simp del: evolve_simps)
      then have "rx_queue (evolve (Suc n) u) \<noteq> []" by (simp add: i(4))
      then have "i \<noteq> rx_in (evolve (Suc n) u)" by (rule moved [OF _ ev(1,2)])
      then show ?thesis by (intro exI [of _ n]) (simp add: rx_wait_def Let_def evolve_Suc [symmetric] del: evolve_simps)
    next
      case False
      then obtain n where n: "1 < n" "timeout s \<le> host_inactive (evolve n s)"
        using assms(3) \<open>\<not> (xs \<noteq> [] \<or> flags AND O_NONBLOCK \<noteq> 0)\<close> by blast
      then obtain m where "n = Suc (Suc m)" by (metis less_imp_Suc_add plus_1_eq_Suc)
      then have "timeout s \<le> host_inactive (evolve (Suc m) u)" using n(2) i(4) by simp
      then show ?thesis using ev(3) [of "Suc m"]
        by (intro exI [of _ m]) (simp add: rx_wait_def Let_def not_less evolve_Suc [symmetric] del: evolve_simps)
    qed
    then obtain w where w: "spin (rx_wait i) u = Some w"
      using spin_returns [of "rx_wait i" _ u] by (auto simp: wait_evolve)
    obtain n where "w = evolve n u" using rx_wait_ends(2) [OF w] by blast
    then have v: "uart_ok (observe w)" "rx_out (observe w) = rx_out u"
      using ev [of "Suc n"] by (simp_all add: evolve_Suc del: evolve_simps)
    have eq: "jtag_read_loop flags space s = (if i = rx_in (observe w) then Some ([], observe w)
        else jtag_read_loop flags space (observe w))"
      using d(1) False assms(2) w by (subst (1) jtag_read_loop.simps) (simp add: Let_def)
    show ?thesis
    proof (cases "i = rx_in (observe w)")
      case False
      then have "rx_queue (observe w) \<noteq> []" using rx_queue_Nil [OF v(1)] v(2) i(3) by simp
      then show ?thesis using first [OF v(1)] eq False by simp
    qed (use eq in simp)
  qed
qed

text \<open>C24: a read that returns hands over a prefix of what the host has sent and the program has not
  yet had, in order and without loss, never more than asked for and never less than was waiting in
  the ring; after a read that took something the receive interrupt is wanted again or the ring is
  full.  It answers an error only with the ring empty, and in blocking mode, where it waits for the
  host to send, only after the host has counted as gone.  It does not return only in blocking mode,
  if nothing ever comes into the ring and the host never counts as gone.\<close>

theorem uart_read_stream:
  assumes "uart_ok s" "0 < space"
  shows "case altera_avalon_jtag_uart_read space flags s of
      None \<Rightarrow> flags AND 0x4000 = 0 \<and> (\<forall>n. rx_queue (evolve n s) = [])
        \<and> (\<forall>n>1. host_inactive (evolve n s) < timeout s)
    | Some (r, t) \<Rightarrow> \<exists>xs new.
        r = (if xs = [] then Inl (if flags AND 0x4000 \<noteq> 0 then EWOULDBLOCK else EIO) else Inr xs)
        \<and> host_sent t = host_sent s @ new \<and> rx_stream s @ new = xs @ rx_stream t
        \<and> length xs \<le> nat space \<and> min (nat space) (length (rx_queue s)) \<le> length xs
        \<and> tx_stream t = tx_stream s \<and> uart_ok t
        \<and> (xs \<noteq> [] \<longrightarrow> want_rx t \<or> length (rx_queue t) = 2047)
        \<and> (xs = [] \<longrightarrow> rx_queue t = []
            \<and> (flags AND 0x4000 = 0 \<longrightarrow> (\<exists>n. timeout s \<le> host_inactive (evolve n s))))"
proof (cases "jtag_read_loop flags space s")
  case None
  then have "\<not> (flags AND O_NONBLOCK \<noteq> 0 \<or> (\<exists>n. rx_queue (evolve n s) \<noteq> [])
      \<or> (\<exists>n>1. timeout s \<le> host_inactive (evolve n s)))"
    using read_loop_returns [OF assms] by (metis option.distinct(1))
  then have "flags AND 0x4000 = 0" "\<forall>n. rx_queue (evolve n s) = []"
    "\<forall>n>1. host_inactive (evolve n s) < timeout s" by (simp, blast, meson not_less)
  then show ?thesis using None by (simp add: altera_avalon_jtag_uart_read_def)
next
  case (Some p)
  then obtain xs u where l: "jtag_read_loop flags space s = Some (xs, u)" by (cases p) auto
  have c: "int (length xs) \<le> space" "gives xs s u" "int (length xs) < space \<longrightarrow> rx_queue u = []"
    "xs = [] \<and> flags AND O_NONBLOCK = 0 \<longrightarrow> (\<exists>n. timeout s \<le> host_inactive (evolve n s))"
    using read_loop_correct [OF l assms] by blast+
  have u: "uart_ok u" using c(2) by (simp add: gives_def)
  obtain rest where "rx_queue s @ rest = xs @ rx_queue u" using c(2) by (auto simp: gives_def)
  then have low: "min (nat space) (length (rx_queue s)) \<le> length xs"
    using c(1,3) by (cases "int (length xs) < space") (auto simp flip: length_append, metis le_add1 length_append min.coboundedI2)
  define t where "t = (if xs \<noteq> [] then jtag_kick RE_MSK u else u)"
  have r: "altera_avalon_jtag_uart_read space flags s
      = Some (if xs = [] then Inl (if flags AND 0x4000 \<noteq> 0 then EWOULDBLOCK else EIO) else Inr xs, t)"
    using l by (simp add: altera_avalon_jtag_uart_read_def t_def Let_def)
  have "ships [] u t" using kick_interferes(3) [OF u] u by (auto simp: t_def ships_def)
  then obtain n2 where n2: "host_sent t = host_sent u @ n2" "rx_stream t = rx_stream u @ n2"
    "tx_stream t = tx_stream u" "uart_ok t" by (auto simp: ships_def)
  obtain n1 where n1: "host_sent u = host_sent s @ n1" "rx_stream s @ n1 = xs @ rx_stream u"
    using c(2) by (auto simp: gives_def)
  have "host_sent t = host_sent s @ (n1 @ n2)" "rx_stream s @ (n1 @ n2) = xs @ rx_stream t"
    using n1 n2(1,2) by (metis append_assoc)+
  moreover have "want_rx t \<or> length (rx_queue t) = 2047" if "xs \<noteq> []"
  proof -
    let ?u = "u\<lparr>irq_enable := irq_enable u OR RE_MSK, ien_AF := bit (irq_enable u OR RE_MSK) 0,
     ien_AE := bit (irq_enable u OR RE_MSK) 1, ac_flag := (ac_flag u \<and> \<not> bit (irq_enable u OR RE_MSK) 10)\<rparr>"
    have "want_rx ?u" by (simp add: bit_or_iff)
    then show ?thesis using kick_interferes(1,2) [OF u, of RE_MSK] that by (auto simp: t_def interferes_def)
  qed
  moreover have "length xs \<le> nat space" using c(1) by linarith
  moreover have "tx_stream t = tx_stream s" using n2(3) c(2) by (simp add: gives_def)
  moreover have "rx_queue t = []" if "xs = []" using that c(3) assms(2) by (simp add: t_def)
  ultimately show ?thesis unfolding r using low n2(4) c(4)
    by (simp only: option.case prod.case) (intro exI [of _ xs] exI [of _ "n1 @ n2"], simp)
qed

subsection \<open>Closing\<close>

definition draining :: "uart \<Rightarrow> bool" where
  "draining s \<longleftrightarrow> tx_out s \<noteq> tx_in s \<and> host_inactive s < timeout s"

lemma close_result:
  assumes "altera_avalon_jtag_uart_close flags s = Some (r, t)"
  shows "(\<exists>n. t = evolve n s)
    \<and> (if r = Inr 0 then \<not> draining t else r = Inl EWOULDBLOCK \<and> draining t \<and> flags AND O_NONBLOCK \<noteq> 0)"
proof -
  have "(\<exists>n. snd p = evolve n s) \<and> (if fst p = Inr 0 then \<not> draining (snd p)
      else fst p = Inl EWOULDBLOCK \<and> draining (snd p) \<and> flags AND O_NONBLOCK \<noteq> 0)"
    if "altera_avalon_jtag_uart_close flags s = Some p" for p
    using that
  proof (induction rule: altera_avalon_jtag_uart_close.raw_induct [rotated, consumes 1, case_names step])
    case (step close flags s p)
    let ?t = "observe s"
    have one: "\<exists>n. ?t = evolve n s" by (rule exI [of _ 1]) (simp add: One_nat_def)
    show ?case
    proof (cases "draining ?t \<and> flags AND O_NONBLOCK = 0")
      case True
      then have "close flags ?t = Some p" using step(2) by (simp add: draining_def Let_def)
      from step(1) [OF this] obtain n where n: "snd p = evolve n ?t" and
        c: "if fst p = Inr 0 then \<not> draining (snd p)
          else fst p = Inl EWOULDBLOCK \<and> draining (snd p) \<and> flags AND O_NONBLOCK \<noteq> 0" by blast
      have "snd p = evolve (Suc n) s" using n by simp
      then show ?thesis using c by blast
    next
      case False
      then have "p = (if draining ?t then Inl EWOULDBLOCK else Inr 0, ?t)"
        using step(2) by (auto simp: draining_def Let_def split: if_splits)
      then show ?thesis using one False by auto
    qed
  qed
  from this [OF assms, unfolded fst_conv snd_conv] show ?thesis .
qed

lemma close_returns:
  "\<not> draining (evolve (Suc n) s) \<Longrightarrow> \<exists>p. altera_avalon_jtag_uart_close flags s = Some p"
proof (induction n arbitrary: s)
  case 0
  then show ?case by (subst altera_avalon_jtag_uart_close.simps) (auto simp: draining_def Let_def)
next
  case (Suc n)
  then have "\<exists>p. altera_avalon_jtag_uart_close flags (observe s) = Some p" by simp
  then show ?case by (subst altera_avalon_jtag_uart_close.simps) (auto simp: Let_def)
qed

lemma settles_idle:
  assumes "tx_ready s" "host_settles s"
  shows "\<exists>n. \<not> draining (evolve n s)"
proof (cases "host_drains s")
  case True
  then obtain n where n: "pending (evolve n s) = []" using drained assms(1) by blast
  have "uart_ok (evolve n s)" using evolve_ready [OF assms(1), of n] by (simp add: tx_ready_def)
  then have "\<not> draining (evolve n s)" using n by (simp add: pending_def draining_def tx_queue_Nil uart_ok_def)
  then show ?thesis by blast
next
  case False
  then have s: "host_silent s" "timeout s \<le> INT_MAX - 2" "uart_ok s"
    using assms by (auto simp: host_settles_def tx_ready_def)
  then obtain n where "timeout s \<le> host_inactive (evolve n s)" using goes_silent by blast
  moreover have "timeout (evolve n s) = timeout s" using s(3) evolve_interferes [of s n] by (simp add: interferes_def)
  ultimately have "\<not> draining (evolve n s)" by (simp add: draining_def not_less)
  then show ?thesis by blast
qed

text \<open>C27: closing the console waits until the ring is empty or the host counts as gone, and loses
  nothing; in non-blocking mode it answers EWOULDBLOCK instead of waiting.  It returns if the host
  settles.\<close>

theorem uart_close_drains:
  assumes "tx_ready s" "host_settles s \<or> flags AND 0x4000 \<noteq> 0"
  shows "\<exists>r t. altera_avalon_jtag_uart_close flags s = Some (r, t) \<and> tx_stream t = tx_stream s \<and> tx_ready t
    \<and> (if r = Inr 0 then tx_queue t = [] \<or> timeout t \<le> host_inactive t
       else r = Inl EWOULDBLOCK \<and> tx_queue t \<noteq> [] \<and> flags AND 0x4000 \<noteq> 0)"
proof -
  have "\<exists>p. altera_avalon_jtag_uart_close flags s = Some p"
  proof (cases "host_settles s")
    case True
    have o: "tx_ready (observe s)" using assms(1) by (rule observe_ready)
    have "timeout (observe s) = timeout s" "env (observe s) = env s"
      using observe_interferes [of s] assms(1) by (auto simp: interferes_def tx_ready_def)
    then have "host_settles (observe s)" using True
      by (simp add: host_settles_def host_drains_def host_silent_def)
    then obtain n where "\<not> draining (evolve n (observe s))" using settles_idle [OF o] by blast
    then show ?thesis using close_returns [of n s flags] by simp
  next
    case False
    then have "flags AND O_NONBLOCK \<noteq> 0" using assms(2) by simp
    then show ?thesis by (subst altera_avalon_jtag_uart_close.simps) (simp add: Let_def)
  qed
  then obtain r t where c: "altera_avalon_jtag_uart_close flags s = Some (r, t)" by fastforce
  obtain n where n: "t = evolve n s" using close_result [OF c] by blast
  have t: "tx_ready t" using evolve_ready [OF assms(1)] by (simp add: n)
  have st: "tx_stream t = tx_stream s"
    using evolve_interferes [of s n] assms(1) by (simp add: n interferes_def tx_ready_def)
  have "draining t \<longleftrightarrow> \<not> (tx_queue t = [] \<or> timeout t \<le> host_inactive t)"
    using t by (auto simp: draining_def tx_queue_Nil tx_ready_def uart_ok_def)
  then show ?thesis using c t st close_result [OF c] by auto
qed

subsection \<open>The console as a device\<close>

text \<open>What the drivers own is the console and the integers in the caller's memory that the control
  call reads and writes.\<close>

type_synonym console = "(uart \<times> (u32 \<Rightarrow> u32)) fdsys"

definition altera_avalon_jtag_uart_read_fd :: "nat \<Rightarrow> nat \<Rightarrow> console \<Rightarrow> (u8 list fres \<times> console) option" where
  "altera_avalon_jtag_uart_read_fd fd space s = do {
     (r, dev) \<leftarrow> altera_avalon_jtag_uart_read (int space) (fd_flags (alt_fd_list s ! fd)) (fst (world s));
     Some (r, s\<lparr>world := (dev, snd (world s))\<rparr>) }"

definition altera_avalon_jtag_uart_write_fd :: "nat \<Rightarrow> u8 list \<Rightarrow> console \<Rightarrow> (nat fres \<times> console) option" where
  "altera_avalon_jtag_uart_write_fd fd buffer s = do {
     (r, dev) \<leftarrow> altera_avalon_jtag_uart_write buffer (int (length buffer))
                  (fd_flags (alt_fd_list s ! fd)) (fst (world s));
     Some (r, s\<lparr>world := (dev, snd (world s))\<rparr>) }"

definition altera_avalon_jtag_uart_close_fd :: "nat \<Rightarrow> console \<Rightarrow> (nat fres \<times> console) option" where
  "altera_avalon_jtag_uart_close_fd fd s = do {
     (r, dev) \<leftarrow> altera_avalon_jtag_uart_close (fd_flags (alt_fd_list s ! fd)) (fst (world s));
     Some (r, s\<lparr>world := (dev, snd (world s))\<rparr>) }"

definition altera_avalon_jtag_uart_ioctl_fd :: "nat \<Rightarrow> u32 \<Rightarrow> u32 \<Rightarrow> console \<Rightarrow> (nat fres \<times> console) option" where
  "altera_avalon_jtag_uart_ioctl_fd fd req arg s =
    (let (dev, mem) = world s;
         (r, v, dev) = altera_avalon_jtag_uart_ioctl req (mem arg) dev
     in Some (r, s\<lparr>world := (dev, mem(arg := v))\<rparr>))"

definition jtag_uart_dev :: "(uart \<times> (u32 \<Rightarrow> u32)) dev_ops" where
  "jtag_uart_dev = \<lparr>dev_open = None, dev_close = Some altera_avalon_jtag_uart_close_fd,
     dev_read = Some altera_avalon_jtag_uart_read_fd, dev_write = Some altera_avalon_jtag_uart_write_fd,
     dev_lseek = None, dev_fstat = None, dev_ioctl = Some altera_avalon_jtag_uart_ioctl_fd\<rparr>"

text \<open>C28: a write system call on a descriptor of the console whose text fits into the ring returns its
  length and puts the text behind what was on its way to the host; no descriptor changes.  The
  same call with no bytes fails with EIO (or EWOULDBLOCK), although there was nothing to do.\<close>

theorem console_write:
  assumes "0 \<le> fd" "nat fd < length (alt_fd_list s)" "fd_dev (alt_fd_list s ! nat fd) = Some dev"
    "fd_flags (alt_fd_list s ! nat fd) AND 3 \<noteq> 0" "ops dev = jtag_uart_dev"
    "uart_ok (fst (world s))" "length (tx_queue (fst (world s))) + length msg \<le> 2047"
  shows "\<exists>t e. alt_write ops fd msg s
      = Some (if msg = [] then -1 else int (length msg),
          s\<lparr>fd_errno := e, world := (t, snd (world s))\<rparr>)
    \<and> (msg \<noteq> [] \<longrightarrow> e = fd_errno s) \<and> (msg = [] \<longrightarrow> e = Some EIO \<or> e = Some EWOULDBLOCK)
    \<and> tx_stream t = tx_stream (fst (world s)) @ msg \<and> tx_ready t"
proof -
  let ?u = "fst (world s)" and ?f = "fd_flags (alt_fd_list s ! nat fd)"
  obtain t where l: "jtag_write_loop ?f msg (int (length msg)) 0 ?u = Some (drop (length msg) msg, t)"
    using write_loop_fits [of ?u "int (length msg)" msg ?f 0] assms(6,7) by auto
  have c: "ships msg ?u t" "tx_ready t"
    using write_loop_correct [OF l assms(6)] by auto
  have w: "altera_avalon_jtag_uart_write_fd (nat fd) msg s
      = Some (if msg = [] then Inl (if ?f AND O_NONBLOCK \<noteq> 0 then EWOULDBLOCK else EIO)
              else Inr (length msg), s\<lparr>world := (t, snd (world s))\<rparr>)"
    using l by (simp add: altera_avalon_jtag_uart_write_fd_def altera_avalon_jtag_uart_write_def)
  have "alt_write ops fd msg s = Some (returns (if msg = [] then Inl (if ?f AND O_NONBLOCK \<noteq> 0 then EWOULDBLOCK else EIO)
              else Inr (length msg)) (s\<lparr>world := (t, snd (world s))\<rparr>))"
    using assms(1-5) w by (simp add: alt_write_def fd_ref_def jtag_uart_dev_def)
  also have "returns (if msg = [] then Inl (if ?f AND O_NONBLOCK \<noteq> 0 then EWOULDBLOCK else EIO)
              else Inr (length msg)) (s\<lparr>world := (t, snd (world s))\<rparr>)
      = (if msg = [] then -1 else int (length msg),
          s\<lparr>fd_errno := (if msg = [] then Some (if ?f AND O_NONBLOCK \<noteq> 0 then EWOULDBLOCK else EIO) else fd_errno s),
            world := (t, snd (world s))\<rparr>)"
    by (auto simp: returns_def fails_def)
  finally show ?thesis using c
    by (intro exI [of _ t] exI [of _ "if msg = [] then Some (if ?f AND O_NONBLOCK \<noteq> 0 then EWOULDBLOCK else EIO) else fd_errno s"])
      (simp add: ships_def)
qed

subsection \<open>The small driver\<close>

text \<open>Without interrupts and without the alarm; only the host moves.\<close>

definition small_observe :: "uart \<Rightarrow> uart" where
  "small_observe s = fold host_event (env s (inst s)) (s\<lparr>inst := inst s + 1\<rparr>)"

partial_function (option) small_put :: "u8 list \<Rightarrow> uart \<Rightarrow> uart option" where
  "small_put ptr s =
    (case ptr of [] \<Rightarrow> Some s
     | x # xs \<Rightarrow>
         let s = small_observe s in
         if jtag_control s AND WSPACE_MSK \<noteq> 0 then small_put xs (jtag_write_data (ucast x) s)
         else small_put ptr s)"

definition small_uart_write :: "u8 list \<Rightarrow> int \<Rightarrow> u32 \<Rightarrow> uart \<Rightarrow> (int \<times> uart) option" where
  "small_uart_write ptr count flags s = do { s \<leftarrow> small_put (take (nat count) ptr) s; Some (count, s) }"

partial_function (option) small_get :: "u32 \<Rightarrow> int \<Rightarrow> u8 list \<Rightarrow> uart \<Rightarrow> (u8 list \<times> uart) option" where
  "small_get flags space got s =
    (if int (length got) < space then
       let s = small_observe s; (data, s) = jtag_read_data s in
       if data AND RVALID_MSK \<noteq> 0 then small_get flags space (got @ [ucast (data AND 0xFF)]) s
       else if got \<noteq> [] then Some (got, s)
       else if flags AND O_NONBLOCK \<noteq> 0 then Some (got, s)
       else small_get flags space got s
     else Some (got, s))"

definition small_uart_read :: "int \<Rightarrow> u32 \<Rightarrow> uart \<Rightarrow> (u8 list fres \<times> uart) option" where
  "small_uart_read space flags s = do {
     (got, s) \<leftarrow> small_get flags space [] s;
     Some (if got \<noteq> [] then Inr got
           else if flags AND O_NONBLOCK \<noteq> 0 then Inl EWOULDBLOCK else Inl EIO, s) }"

lemma host_event_core:
  "length (wfifo (host_event e s)) \<le> length (wfifo s)
    \<and> host_got (host_event e s) @ wfifo (host_event e s) = host_got s @ wfifo s
    \<and> env (host_event e s) = env s \<and> tx_queue (host_event e s) = tx_queue s"
  by (auto simp: host_event_def tx_queue_def split: jtag_ev.splits list.splits)

lemma fold_host_core:
  "length (wfifo (fold host_event es s)) \<le> length (wfifo s)
    \<and> host_got (fold host_event es s) @ wfifo (fold host_event es s) = host_got s @ wfifo s
    \<and> env (fold host_event es s) = env s \<and> inst (fold host_event es s) = inst s
    \<and> tx_queue (fold host_event es s) = tx_queue s"
  using host_event_core by (induction es arbitrary: s) (auto intro: order_trans)

lemma small_observe_core:
  "length (wfifo (small_observe s)) \<le> length (wfifo s)
    \<and> host_got (small_observe s) @ wfifo (small_observe s) = host_got s @ wfifo s
    \<and> env (small_observe s) = env s \<and> inst (small_observe s) = inst s + 1
    \<and> tx_queue (small_observe s) = tx_queue s"
  using fold_host_core [of "env s (inst s)" "s\<lparr>inst := inst s + 1\<rparr>"]
  by (simp add: small_observe_def tx_queue_def)

lemma fold_take_room:
  "HostTake \<in> set es \<Longrightarrow> length (wfifo s) \<le> 64 \<Longrightarrow> length (wfifo (fold host_event es s)) < 64"
proof (induction es arbitrary: s)
  case (Cons e es)
  have le: "length (wfifo (host_event e s)) \<le> 64" using host_event_core [of e s] Cons.prems(2) by linarith
  show ?case
  proof (cases "e = HostTake")
    case True
    have "length (wfifo (host_event HostTake s)) < 64"
      using Cons.prems(2) by (auto simp: host_event_def split: list.splits)
    then show ?thesis using fold_host_core [of es "host_event e s"] True by (simp add: le_less_trans)
  next
    case False
    then show ?thesis using Cons.IH [OF _ le] Cons.prems(1) by simp
  qed
qed simp

lemma control_full: "jtag_control s AND WSPACE_MSK \<noteq> 0 \<longleftrightarrow> length (wfifo s) < 64"
proof -
  have "(of_nat (64 - length (wfifo s)) :: u32) = 0 \<longleftrightarrow> 64 - length (wfifo s) = 0"
    by (rule of_nat_u32_0) simp
  then show ?thesis unfolding high_half_0 control_space WRITE_DEPTH_def by linarith
qed

lemma small_put_drains:
  assumes "host_drains s" "length (wfifo s) \<le> 64"
  shows "\<exists>t. small_put xs s = Some t \<and> host_got t @ wfifo t = host_got s @ wfifo s @ xs
    \<and> tx_queue t = tx_queue s \<and> length (wfifo t) \<le> 64 \<and> env t = env s"
  using assms
proof (induction xs arbitrary: s)
  case Nil
  then show ?case by (subst small_put.simps) simp
next
  case (Cons x xs)
  obtain m where "inst s \<le> m" "HostTake \<in> set (env s m)" using Cons.prems(1) by (auto simp: host_drains_def)
  then show ?case using Cons.prems
  proof (induction "m - inst s" arbitrary: s rule: less_induct)
    case (less s)
    let ?u = "small_observe s"
    note u = small_observe_core [of s]
    have ul: "length (wfifo ?u) \<le> 64" using u less.prems(4) by linarith
    show ?case
    proof (cases "length (wfifo ?u) < 64")
      case True
      let ?v = "jtag_write_data (ucast x) ?u"
      have v: "host_drains ?v" "length (wfifo ?v) \<le> 64" "wfifo ?v = wfifo ?u @ [x]"
        "host_got ?v = host_got ?u" "tx_queue ?v = tx_queue s" "env ?v = env s"
        using True u less.prems(3) by (simp_all add: jtag_write_data_def host_drains_def tx_queue_def WRITE_DEPTH_def)
      obtain t where t: "small_put xs ?v = Some t" "host_got t @ wfifo t = host_got ?v @ wfifo ?v @ xs"
        "tx_queue t = tx_queue ?v" "length (wfifo t) \<le> 64" "env t = env ?v"
        using Cons.IH [OF v(1,2)] by blast
      have "small_put (x # xs) s = Some t"
        using True t(1) by (subst small_put.simps) (simp add: Let_def control_full)
      moreover have "host_got t @ wfifo t = host_got s @ wfifo s @ x # xs"
        using t(2) u v(3,4) by (metis append.assoc append_Cons append_Nil)
      ultimately show ?thesis using t v by auto
    next
      case False
      have "HostTake \<notin> set (env s (inst s))"
        using False fold_take_room [of "env s (inst s)" "s\<lparr>inst := inst s + 1\<rparr>"] less.prems(4)
        by (auto simp: small_observe_def)
      then have ne: "inst s \<noteq> m" using less.prems(2) by auto
      have drains: "host_drains ?u" using less.prems(3) u by (simp add: host_drains_def)
      obtain t where t: "small_put (x # xs) ?u = Some t" "host_got t @ wfifo t = host_got ?u @ wfifo ?u @ x # xs"
        "tx_queue t = tx_queue ?u" "length (wfifo t) \<le> 64" "env t = env ?u"
      proof -
        have "m - inst ?u < m - inst s" "inst ?u \<le> m" "HostTake \<in> set (env ?u m)"
          using ne less.prems(1,2) u by auto
        then show ?thesis using less.hyps [of ?u] drains ul that by blast
      qed
      have "small_put (x # xs) s = Some t"
        using False t(1) by (subst small_put.simps) (simp add: Let_def control_full)
      moreover have "host_got t @ wfifo t = host_got s @ wfifo s @ x # xs"
        using t(2) u by (metis append.assoc)
      ultimately show ?thesis using t u by auto
    qed
  qed
qed

lemma small_write_stream:
  assumes "uart_ok s" "tx_queue s = []" "host_drains s"
  shows "\<exists>u. small_uart_write buf count flags s = Some (count, u)
    \<and> tx_stream u = tx_stream s @ take (nat count) buf \<and> tx_queue u = []"
proof -
  have "length (wfifo s) \<le> 64" using assms(1) by (simp add: uart_ok_def fifos_ok_def WRITE_DEPTH_def)
  then obtain u where "small_put (take (nat count) buf) s = Some u" "tx_queue u = tx_queue s"
    "host_got u @ wfifo u = host_got s @ wfifo s @ take (nat count) buf"
    using small_put_drains [OF assms(3)] by blast
  then show ?thesis using assms(2) by (simp add: small_uart_write_def tx_stream_def)
qed

text \<open>C29: from a state with nothing in the ring and a host that goes on taking bytes, both drivers
  return, and the fast one puts a prefix of the buffer on its way to the host: the small driver,
  asked to write that prefix, answers the same length and leaves the same bytes on their way.
  They differ only in how much they write and in the answer for nothing: the small driver always
  writes and answers all it was asked for, also if that is nothing; the fast one stops short, for
  more than 2047 bytes, in non-blocking mode or if the host was not active for a second,
  and answers an error if it has written nothing.\<close>

theorem small_equals_fast:
  assumes "uart_ok s" "tx_queue s = []" "host_drains s" "0 < timeout s" "nat count \<le> length buf"
  shows "\<exists>k t u v. altera_avalon_jtag_uart_write buf count flags s
      = Some (if k = 0 then Inl (if flags AND 0x4000 \<noteq> 0 then EWOULDBLOCK else EIO) else Inr k, t)
    \<and> small_uart_write buf (int k) flags s = Some (int k, u) \<and> tx_stream t = tx_stream u
    \<and> small_uart_write buf count flags s = Some (count, v)
    \<and> tx_stream v = tx_stream s @ take (nat count) buf
    \<and> k \<le> nat count \<and> (nat count \<le> 2047 \<longrightarrow> k = nat count)
    \<and> (k < nat count \<longrightarrow> flags AND 0x4000 \<noteq> 0 \<or> host_inactive t \<noteq> 0)"
proof -
  obtain rest t where r: "jtag_write_loop flags buf count 0 s = Some (rest, t)"
    and fits: "nat count \<le> 2047 \<longrightarrow> rest = drop (nat count) buf"
    using write_loop_fits [OF assms(1,5), of flags 0] write_loop_returns [OF assms(1,5) _ assms(4), of flags 0]
      assms(2,3) by (metis (no_types, lifting) add_0 host_settles_def list.size(3) option.inject prod.exhaust prod.inject)
  obtain k where k: "k \<le> nat count" "rest = drop k buf" "ships (take k buf) s t"
    "int k < count \<longrightarrow> flags AND O_NONBLOCK \<noteq> 0 \<or> host_inactive t \<noteq> 0"
    using write_loop_correct [OF r assms(1,5)] by blast
  have l: "k \<le> length buf" using k(1) assms(5) by simp
  then have "length rest = length buf - k" using k(2) by simp
  then have w: "altera_avalon_jtag_uart_write buf count flags s
      = Some (if k = 0 then Inl (if flags AND 0x4000 \<noteq> 0 then EWOULDBLOCK else EIO) else Inr k, t)"
    using r l by (auto simp: altera_avalon_jtag_uart_write_def)
  have full: "nat count \<le> 2047 \<longrightarrow> k = nat count" using fits k(1,2) assms(5) l by (auto dest: arg_cong [of _ _ length])
  have short: "k < nat count \<longrightarrow> flags AND 0x4000 \<noteq> 0 \<or> host_inactive t \<noteq> 0" using k(4) by auto
  obtain u where u: "small_uart_write buf (int k) flags s = Some (int k, u)" "tx_stream u = tx_stream s @ take k buf"
    using small_write_stream [OF assms(1-3), of buf "int k" flags] by auto
  obtain v where v: "small_uart_write buf count flags s = Some (count, v)"
    "tx_stream v = tx_stream s @ take (nat count) buf"
    using small_write_stream [OF assms(1-3)] by blast
  have "tx_stream t = tx_stream u" using k(3) u(2) by (simp add: ships_def)
  then show ?thesis using w u(1) v k(1) full short by blast
qed

subsection \<open>Start-up\<close>

lemma alarm_start_rc: "fst (alt_alarm_start (Some a) n f c s) = (if tick_rate s = 0 then Some ENOTSUP else None)"
  by (auto simp: alt_alarm_start_def alt_ticks_per_second_def Let_def alt_irq_disable_all_def)

lemma clk_update_ready:
  assumes "tx_ready s"
  shows "tx_ready (s\<lparr>cpu_status := a, alarm_heap := h, alarms := l, host_inactive := i, timeout := n\<rparr>)"
  using assms by (simp add: tx_ready_def uart_ok_def rings_ok_def fifos_ok_def ctl_ok_def av_irq_def
      ipen_AE_def ipen_AF_def tx_queue_def)

text \<open>After start-up the rings are empty but for what the host had already sent, the receive
  interrupt is on or the ring full, nothing waits for the handler and the console counts as connected.
  Without a running clock the time-out is switched off.\<close>

theorem uart_init_ready:
  assumes "fifos_ok s" "unat irq < 32" "length (alt_irq s) = 32"
  shows "\<exists>t. altera_avalon_jtag_uart_init ic irq (jtag_uart_instance s) = Some t
    \<and> tx_ready t \<and> tx_stream t = host_got s @ wfifo s \<and> rx_stream t = rfifo s \<and> tx_queue t = []
    \<and> (want_rx t \<or> length (rx_queue t) = 2047) \<and> host_inactive t = 0
    \<and> timeout t = (if tick_rate s = 0 then INT_MAX else 10)
    \<and> alt_irq t ! unat irq = (Some Altera_avalon_jtag_uart_irq, 0)"
proof -
  define a where "a = jtag_write_control 1 ((jtag_uart_instance s)\<lparr>irq_enable := 1\<rparr>)"
  have len: "length (alt_irq a) = 32" using assms(3) by (simp add: a_def jtag_write_control_def jtag_uart_instance_def)
  define b where "b = a\<lparr>alt_irq := (alt_irq a)[unat irq := (Some Altera_avalon_jtag_uart_irq, 0)],
      alt_irq_active := alt_irq_active a OR push_bit (unat irq) 1,
      ienable := alt_irq_active a OR push_bit (unat irq) 1\<rparr>"
  have reg: "alt_ic_isr_register ic irq (Some Altera_avalon_jtag_uart_irq) 0 a = Some (None, b)"
    unfolding b_def by (rule isr_register_value [OF assms(2) len])
  have b: "uart_ok b" "want_rx b" "tx_queue b = []" "tx_stream b = host_got s @ wfifo s" "rx_stream b = rfifo s"
    "host_sent b = host_sent s" "timeout b = 10" "tick_rate b = tick_rate s"
    "alt_irq b ! unat irq = (Some Altera_avalon_jtag_uart_irq, 0)"
    using assms by (simp_all add: b_def a_def jtag_write_control_def jtag_uart_instance_def uart_ok_def rings_ok_def
        fifos_ok_def ctl_ok_def tx_queue_def tx_stream_def rx_stream_def rx_queue_def bit_1_iff)
  let ?c = "service b"
  have c: "interferes b ?c" "\<not> av_irq ?c" "clk.truncate ?c = clk.truncate b"
    by (simp_all add: service_interferes service_quiet)
  then have k: "tick_rate ?c = tick_rate b" "alt_irq ?c = alt_irq b" by (simp_all add: clk.truncate_def)
  have hs: "\<exists>new. host_sent ?c = host_sent b @ new \<and> rx_stream ?c = rx_stream b @ new"
    using c(1) b(1) by (simp add: interferes_def)
  have r: "tx_ready ?c" "tx_stream ?c = tx_stream b" "tx_queue ?c = []" "want_rx ?c \<or> length (rx_queue ?c) = 2047"
    "timeout ?c = 10"
    using c b(1-3,7) by (auto simp: tx_ready_def interferes_def)
  have hc: "rx_stream ?c = rx_stream b"
    using hs by auto
  define d where "d = ?c\<lparr>host_inactive := 0\<rparr>"
  obtain st h al where al: "snd (alt_alarm_start (Some (uart_alarm d)) (alt_ticks_per_second d)
      (Some Altera_avalon_jtag_uart_timeout) 0 d) = d\<lparr>cpu_status := st, alarm_heap := h, alarms := al\<rparr>"
    using alarm_start_frame by blast
  define t where "t = (d\<lparr>cpu_status := st, alarm_heap := h, alarms := al\<rparr>)
      \<lparr>timeout := (if tick_rate s = 0 then INT_MAX else 10)\<rparr>"
  have "altera_avalon_jtag_uart_init ic irq (jtag_uart_instance s) = Some t"
  proof -
    have rc: "fst (alt_alarm_start (Some (uart_alarm d)) (alt_ticks_per_second d)
      (Some Altera_avalon_jtag_uart_timeout) 0 d) = (if tick_rate s = 0 then Some ENOTSUP else None)"
      using b(8) k(1) by (simp add: alarm_start_rc d_def)
    have e: "(d\<lparr>cpu_status := st, alarm_heap := h, alarms := al\<rparr>)
      = (d\<lparr>cpu_status := st, alarm_heap := h, alarms := al\<rparr>)\<lparr>timeout := 10\<rparr>"
      using r(5) by (intro uart.equality) (simp_all add: d_def)
    show ?thesis
      using reg rc al e by (auto simp: altera_avalon_jtag_uart_init_def a_def d_def t_def Let_def split_beta)
  qed
  moreover have "t = ?c\<lparr>cpu_status := st, alarm_heap := h, alarms := al, host_inactive := 0,
      timeout := (if tick_rate s = 0 then INT_MAX else 10)\<rparr>"
    by (rule uart.equality) (simp_all add: t_def d_def)
  moreover from this have "tx_ready t" using clk_update_ready [OF r(1)] by simp
  ultimately show ?thesis using r b hc k
    by (auto simp: tx_stream_def tx_queue_def rx_stream_def rx_queue_def)
qed

subsection \<open>Control\<close>

text \<open>The time-out set by a control call is always at least two seconds, the call that asks whether
  the host is connected answers 1 exactly while the count of silent seconds is below it, both fail
  with ENOTTY once the alarm could not be started, and no other request does anything.\<close>

theorem uart_ioctl_cases:
  "altera_avalon_jtag_uart_ioctl req arg s = (r, v, t) \<Longrightarrow>
    t = s\<lparr>timeout := timeout t\<rparr>
    \<and> (r = Inr 0 \<longleftrightarrow> timeout s \<noteq> INT_MAX \<and> (req = TIOCSTIMEOUT \<or> req = TIOCGCONNECTED))
    \<and> (r \<noteq> Inr 0 \<longrightarrow> r = Inl ENOTTY \<and> v = arg \<and> timeout t = timeout s)
    \<and> (r = Inr 0 \<and> req = TIOCSTIMEOUT \<longrightarrow> v = arg \<and> 2 \<le> timeout t \<and> timeout t \<noteq> INT_MAX)
    \<and> (r = Inr 0 \<and> req = TIOCGCONNECTED \<longrightarrow> timeout t = timeout s \<and> (v = 1 \<longleftrightarrow> host_inactive s < timeout s))"
proof -
  assume e: "altera_avalon_jtag_uart_ioctl req arg s = (r, v, t)"
  have q: "TIOCSTIMEOUT \<noteq> TIOCGCONNECTED" by (simp add: TIOCSTIMEOUT_def TIOCGCONNECTED_def)
  have big: "2 \<le> arg" if "2 \<le> sint arg"
  proof -
    have "\<not> 0x80000000 \<le> arg" using sint_negative [of arg] that by linarith
    then have "uint arg < 2 ^ 31" by (simp add: word_less_def not_le)
    then have "sint arg = uint arg" 
      by (simp only: sint_uint) (rule signed_take_bit_int_eq_self, auto intro: order_trans [of _ 0])
    then show ?thesis using that by (simp add: word_le_def)
  qed
  have "arg \<noteq> INT_MAX" if "sint arg < sint INT_MAX" using that by auto
  then show ?thesis using e q big
    by (auto simp: altera_avalon_jtag_uart_ioctl_def INT_MAX_def split: if_splits)
qed

subsection \<open>The properties at work\<close>

text \<open>A console as start-up leaves it, in front of a host that takes a byte at every opportunity and one
  that is gone.\<close>

definition idle_uart :: "(nat \<Rightarrow> jtag_ev list) \<Rightarrow> uart" where
  "idle_uart e = \<lparr>hw = \<lambda>_ _. 0, ipend = \<lambda>_. 0, trace = [], cpu_status = 1, ienable = 0,
     alt_irq_active = 0, alt_priority_mask = 0, alt_irq = replicate 32 (None, 0),
     alarm_heap = \<lparr>nxt = \<lambda>_. 0, previous = \<lambda>_. 0, dev_name = \<lambda>_. None\<rparr>,
     alarms = \<lambda>_. \<lparr>time = 0, callback_fn = None, rollover = False, alarm_context = 0\<rparr>,
     alt_alarm_list = 0, tick_rate = 1000, nticks = 0,
     alt_timezone = \<lparr>tz_minuteswest = 0, tz_dsttime = 0\<rparr>, alt_resettime = \<lparr>tv_sec = 0, tv_usec = 0\<rparr>,
     clk_errno = None, alarm_calls = [],
     wfifo = [], rfifo = [], ien_AF = True, ien_AE = False, pause_irq = False, ac_flag = False,
     rvalid = False, woverflow = False, host_got = [], host_sent = [], env = e, inst = 0,
     timeout = 10, uart_alarm = 1, irq_enable = 1, host_inactive = 0,
     rx_in = 0, rx_out = 0, tx_in = 0, tx_out = 0,
     rx_buf = replicate 2048 0, tx_buf = replicate 2048 0\<rparr>"

lemma idle_uart: "tx_ready (idle_uart e)" "uart_ok (idle_uart e)" "tx_queue (idle_uart e) = []"
  "tx_stream (idle_uart e) = []" "rx_stream (idle_uart e) = []" "rx_queue (idle_uart e) = []"
  "env (idle_uart e) = e" "timeout (idle_uart e) = 10"
  by (simp_all add: idle_uart_def tx_ready_def uart_ok_def rings_ok_def fifos_ok_def ctl_ok_def av_irq_def
      ipen_AE_def ipen_AF_def tx_queue_def tx_stream_def rx_stream_def rx_queue_def READ_DEPTH_def WRITE_DEPTH_def)

definition busy_host :: "nat \<Rightarrow> jtag_ev list" where
  "busy_host n = [HostTake]"

definition dead_host :: "nat \<Rightarrow> jtag_ev list" where
  "dead_host n = [Second]"

lemma busy_host: "host_drains (idle_uart busy_host)"
  by (auto simp: host_drains_def idle_uart(7) busy_host_def)

lemma dead_host: "host_silent (idle_uart dead_host)"
  by (auto simp: host_silent_def silent_ev_def idle_uart(7) dead_host_def)

lemma uart_write_stream_witness:
  "\<exists>t. altera_avalon_jtag_uart_write [72, 105] 2 0 (idle_uart busy_host) = Some (Inr 2, t)
    \<and> tx_stream t = [72, 105] \<and> tx_ready t"
proof -
  have "uart_ok (idle_uart busy_host)" "nat 2 \<le> length [72, 105 :: u8]"
    "0 AND 0x4000 \<noteq> (0 :: u32) \<or> length (tx_queue (idle_uart busy_host)) + nat 2 \<le> 2047
      \<or> host_settles (idle_uart busy_host) \<and> 0 < timeout (idle_uart busy_host)"
    by (simp_all add: idle_uart)
  from uart_write_stream [OF this] show ?thesis by (auto simp: idle_uart)
qed

lemma uart_output_arrives_witness:
  "\<exists>r t n. altera_avalon_jtag_uart_write [72, 105] 2 0 (idle_uart busy_host) = Some (r, t)
    \<and> (\<exists>k. host_got (evolve n t) = take k [72, 105])"
proof -
  have s: "uart_ok (idle_uart busy_host)" "nat 2 \<le> length [72, 105 :: u8]" by (simp_all add: idle_uart)
  obtain t where "jtag_write_loop 0 [72, 105] 2 0 (idle_uart busy_host) = Some (drop (nat 2) [72, 105], t)"
    using write_loop_fits [OF s, of 0 0] by (auto simp: idle_uart)
  then have w: "altera_avalon_jtag_uart_write [72, 105] 2 0 (idle_uart busy_host) = Some (Inr 2, t)"
    by (simp add: altera_avalon_jtag_uart_write_def)
  from uart_output_arrives [OF s busy_host w] show ?thesis using w by (auto simp: idle_uart)
qed

definition fed_uart :: uart where
  "fed_uart = (idle_uart dead_host)\<lparr>rx_in := 2, rx_buf := [104, 105] @ replicate 2046 0\<rparr>"

lemma fed_uart: "uart_ok fed_uart" "rx_queue fed_uart = [104, 105]" "rx_stream fed_uart = [104, 105]"
proof -
  show "uart_ok fed_uart" using idle_uart(2) [of dead_host]
    by (simp add: fed_uart_def uart_ok_def rings_ok_def fifos_ok_def ctl_ok_def)
  show q: "rx_queue fed_uart = [104, 105]"
    by (simp add: fed_uart_def idle_uart_def rx_queue_def ring_def bytes_at_def)
  show "rx_stream fed_uart = [104, 105]" using q by (simp add: rx_stream_def) (simp add: fed_uart_def idle_uart_def)
qed

lemma uart_read_stream_witness:
  "\<exists>xs t. altera_avalon_jtag_uart_read 2 0 fed_uart = Some (Inr xs, t) \<and> xs = [104, 105]"
proof -
  have s: "uart_ok fed_uart" "0 < (2 :: int)" "rx_queue (evolve 0 fed_uart) \<noteq> []"
    by (simp_all add: fed_uart)
  note R = uart_read_stream [OF s(1,2), of 0]
  obtain r t where "altera_avalon_jtag_uart_read 2 0 fed_uart = Some (r, t)"
    using R s(3) by (cases "altera_avalon_jtag_uart_read 2 0 fed_uart") (auto simp del: evolve_simps)
  moreover from this obtain xs new where r: "r = (if xs = [] then Inl (if (0 :: u32) AND 0x4000 \<noteq> 0 then EWOULDBLOCK else EIO) else Inr xs)"
      "rx_stream fed_uart @ new = xs @ rx_stream t" "length xs \<le> nat 2"
      "min (nat 2) (length (rx_queue fed_uart)) \<le> length xs"
    using R by auto
  moreover have "length xs = 2" using r(3,4) by (simp add: fed_uart)
  moreover from this have "take 2 (rx_stream fed_uart @ new) = xs" using r(2) by simp
  then have "xs = [104, 105]" by (simp add: fed_uart)
  ultimately show ?thesis by simp
qed

lemma uart_close_drains_witness:
  "\<exists>r t. altera_avalon_jtag_uart_close 0 (idle_uart busy_host) = Some (r, t) \<and> r = Inr 0 \<and> tx_stream t = []"
  using uart_close_drains [of "idle_uart busy_host" 0]
  by (auto simp: idle_uart host_settles_def busy_host split: if_splits)

definition console_fds :: console where
  "console_fds = \<lparr>dev_lists = \<lparr>nxt = \<lambda>_. 0, previous = \<lambda>_. 0, dev_name = \<lambda>_. None\<rparr>,
     alt_dev_list = 0, alt_fs_list = 0,
     alt_fd_list = replicate 3 \<lparr>fd_dev = Some 5, priv = 0, fd_flags = 1\<rparr>,
     alt_max_fd = 2, fd_errno = None, world = (idle_uart busy_host, \<lambda>_. 0)\<rparr>"

lemma console_write_witness:
  "\<exists>t e. alt_write (\<lambda>_. jtag_uart_dev) 1 [79, 75] console_fds
      = Some (2, console_fds\<lparr>fd_errno := e, world := (t, \<lambda>_. 0)\<rparr>) \<and> tx_stream t = [79, 75]"
  using console_write [of 1 console_fds 5 "\<lambda>_. jtag_uart_dev" "[79, 75]"]
  by (auto simp: console_fds_def idle_uart)

lemma small_equals_fast_witness:
  "\<exists>t u. altera_avalon_jtag_uart_write [79, 75] 2 0 (idle_uart busy_host) = Some (Inr 2, t)
    \<and> small_uart_write [79, 75] 2 0 (idle_uart busy_host) = Some (2, u) \<and> tx_stream t = tx_stream u"
proof -
  have "0 < timeout (idle_uart busy_host)" by (simp add: idle_uart_def)
  then show ?thesis
    using small_equals_fast [of "idle_uart busy_host" 2 "[79, 75]" 0] by (auto simp: idle_uart busy_host)
qed

lemma uart_init_ready_witness:
  "\<exists>t. altera_avalon_jtag_uart_init 0 3 (jtag_uart_instance (idle_uart busy_host)) = Some t
    \<and> tx_ready t \<and> timeout t = 10"
proof -
  have "fifos_ok (idle_uart busy_host)" using idle_uart(2) by (simp add: uart_ok_def)
  moreover have "length (alt_irq (idle_uart busy_host)) = 32" by (simp add: idle_uart_def)
  moreover have "tick_rate (idle_uart busy_host) = 1000" by (simp add: idle_uart_def)
  ultimately show ?thesis using uart_init_ready [of "idle_uart busy_host" 3 0] by auto
qed

lemma uart_ioctl_cases_witness:
  "timeout (snd (snd (altera_avalon_jtag_uart_ioctl TIOCSTIMEOUT 0 (idle_uart dead_host)))) \<noteq> 0"
proof -
  obtain r v t where e: "altera_avalon_jtag_uart_ioctl TIOCSTIMEOUT 0 (idle_uart dead_host) = (r, v, t)"
    using prod_cases3 by blast
  have "timeout (idle_uart dead_host) \<noteq> INT_MAX" by (simp add: idle_uart INT_MAX_def)
  then have "2 \<le> timeout t" using uart_ioctl_cases [OF e] by simp
  then show ?thesis using e by auto
qed

text \<open>A blocking write to a host that has been silent for one second of the ten it is given ends at once
  with what fitted, although the control call still calls the host connected.\<close>

lemma write_gives_up_early:
  assumes "jtag_write_loop 0 ptr count out s = Some (ptr', t)" "uart_ok s" "nat count \<le> length ptr"
    "length ptr - length ptr' < nat count"
  shows "host_inactive t \<noteq> 0"
proof -
  obtain k where k: "ptr' = drop k ptr" "k \<le> nat count"
    "int k < count \<longrightarrow> (0 :: u32) AND O_NONBLOCK \<noteq> 0 \<or> host_inactive t \<noteq> 0"
    using write_loop_correct [OF assms(1-3)] by blast
  then have "length ptr - length ptr' = k" using assms(3) by simp
  then show ?thesis using k(3) assms(4) by simp
qed

lemma uart_irq_sound_witness:
  "\<not> av_irq (jtag_irq (idle_uart busy_host)) \<and> tx_queue (jtag_irq (idle_uart busy_host)) = []"
  using uart_irq_sound [of "idle_uart busy_host"] by (auto simp: idle_uart) (auto simp: idle_uart_def)

end
