(* ===== verification/Mdio.thy ===== *)
theory Mdio
  imports Prelude
begin

text \<open>
  The Ethernet core's management side, \<open>altera_avalon_tse.c\<close>: the command register of the MAC, and
  the registers of the transceivers (PHYs) behind its MDIO window.  \<open>MDIO_ADDR1\<close> selects the PHY
  whose 32 registers of 16 bits appear at \<open>mdio1\<close>.  A function of the driver that takes a PHY finds
  the base address of its MAC and the PHY's address by following pointers; here are the bodies, for a
  base address and a PHY address, and theory \<open>Phy\<close> has the pointers.  The messages
  (\<open>tse_dprintf\<close>) are not represented: in a build without \<open>ALT_DEBUG\<close> they do
  nothing.  \<open>None\<close> is the overflow of a signed counter.
\<close>

unbundle bit_operations_syntax

subsection \<open>The command register of the MAC\<close>

abbreviation (input) "CMD_ETH_SPEED_MSK \<equiv> (0x8 :: u32)"
abbreviation (input) "CMD_HD_ENA_MSK \<equiv> (0x400 :: u32)"
abbreviation (input) "CMD_SW_RESET_MSK \<equiv> (0x2000 :: u32)"
abbreviation (input) "CMD_ENA_10_MSK \<equiv> (0x2000000 :: u32)"

definition rd_cmd_config :: "u32 \<Rightarrow> 'a bus_scheme \<Rightarrow> u32 \<times> 'a bus_scheme" where
  "rd_cmd_config base = rd32 (base + 0x8)"

definition wr_cmd_config :: "u32 \<Rightarrow> u32 \<Rightarrow> 'a bus_scheme \<Rightarrow> 'a bus_scheme" where
  "wr_cmd_config base v = wr32 (base + 0x8) v"

text \<open>The wait for the end of the reset; the first argument is what is left of the limit.\<close>

primrec reset_wait :: "nat \<Rightarrow> u32 \<Rightarrow> 'a bus_scheme \<Rightarrow> 'a bus_scheme" where
  "reset_wait 0 pmac s = snd (rd_cmd_config pmac s)"
| "reset_wait (Suc n) pmac s =
    (let (v, s) = rd_cmd_config pmac s
     in if v AND CMD_SW_RESET_MSK \<noteq> 0 then reset_wait n pmac s else s)"

definition ALTERA_TSE_SW_RESET_TIME_OUT_CNT :: nat where
  "ALTERA_TSE_SW_RESET_TIME_OUT_CNT = 10000"

definition SUCCESS :: int where "SUCCESS = 0"
definition ENP_PARAM :: int where "ENP_PARAM = - 10"

definition tse_mac_SwReset :: "u32 \<Rightarrow> 'a bus_scheme \<Rightarrow> int \<times> 'a bus_scheme" where
  "tse_mac_SwReset pmac s =
    (let (cc, s) = rd_cmd_config pmac s;
         s = wr_cmd_config pmac (CMD_SW_RESET_MSK OR CMD_ETH_SPEED_MSK) s;
         s = reset_wait ALTERA_TSE_SW_RESET_TIME_OUT_CNT pmac s;
         s = wr_cmd_config pmac cc s
     in (SUCCESS, s))"

definition tse_mac_setMIImode :: "u32 \<Rightarrow> 'a bus_scheme \<Rightarrow> int \<times> 'a bus_scheme" where
  "tse_mac_setMIImode pmac s =
    (let (v, s) = rd_cmd_config pmac s
     in (SUCCESS, wr_cmd_config pmac (v AND NOT CMD_ETH_SPEED_MSK) s))"

definition tse_mac_setGMIImode :: "u32 \<Rightarrow> 'a bus_scheme \<Rightarrow> int \<times> 'a bus_scheme" where
  "tse_mac_setGMIImode pmac s =
    (let (v, s) = rd_cmd_config pmac s
     in (SUCCESS, wr_cmd_config pmac (v OR CMD_ETH_SPEED_MSK) s))"

abbreviation (input) "TSE_PHY_SPEED_10 \<equiv> (0 :: u8)"
abbreviation (input) "TSE_PHY_SPEED_100 \<equiv> (1 :: u8)"
abbreviation (input) "TSE_PHY_SPEED_1000 \<equiv> (2 :: u8)"
abbreviation (input) "TSE_PHY_SPEED_INVALID \<equiv> (3 :: u8)"
abbreviation (input) "TSE_PHY_DUPLEX_HALF \<equiv> (0 :: u8)"
abbreviation (input) "TSE_PHY_DUPLEX_FULL \<equiv> (1 :: u8)"

definition alt_tse_mac_set_speed :: "u32 \<Rightarrow> u8 \<Rightarrow> 'a bus_scheme \<Rightarrow> int \<times> 'a bus_scheme" where
  "alt_tse_mac_set_speed pmac speed s =
    (let (v, s) = rd_cmd_config pmac s in
     if speed = TSE_PHY_SPEED_1000 then
       (SUCCESS, wr_cmd_config pmac ((v OR CMD_ETH_SPEED_MSK) AND NOT CMD_ENA_10_MSK) s)
     else if speed = TSE_PHY_SPEED_100 then
       (SUCCESS, wr_cmd_config pmac ((v AND NOT CMD_ETH_SPEED_MSK) AND NOT CMD_ENA_10_MSK) s)
     else if speed = TSE_PHY_SPEED_10 then
       (SUCCESS, wr_cmd_config pmac ((v AND NOT CMD_ETH_SPEED_MSK) OR CMD_ENA_10_MSK) s)
     else (ENP_PARAM, s))"

definition alt_tse_mac_set_duplex :: "u32 \<Rightarrow> u8 \<Rightarrow> 'a bus_scheme \<Rightarrow> int \<times> 'a bus_scheme" where
  "alt_tse_mac_set_duplex pmac duplex s =
    (let (v, s) = rd_cmd_config pmac s in
     if duplex = TSE_PHY_DUPLEX_HALF then (SUCCESS, wr_cmd_config pmac (v OR CMD_HD_ENA_MSK) s)
     else if duplex = TSE_PHY_DUPLEX_FULL then (SUCCESS, wr_cmd_config pmac (v AND NOT CMD_HD_ENA_MSK) s)
     else (ENP_PARAM, s))"

subsection \<open>Fields of a PHY register\<close>

definition MDIO_ADDR1 :: u32 where "MDIO_ADDR1 = 0x40"
definition mdio0 :: u32 where "mdio0 = 0x200"
definition mdio1 :: u32 where "mdio1 = 0x280"

definition rd_mdio_addr :: "u32 \<Rightarrow> 'a bus_scheme \<Rightarrow> u32 \<times> 'a bus_scheme" where
  "rd_mdio_addr pmac = iord (pmac + MDIO_ADDR1) 0"

definition wr_mdio_addr :: "u32 \<Rightarrow> u8 \<Rightarrow> 'a bus_scheme \<Rightarrow> 'a bus_scheme" where
  "wr_mdio_addr pmac addr = iowr (pmac + MDIO_ADDR1) 0 (ucast addr)"

text \<open>The loop that builds a mask of \<open>bit_length\<close> ones.\<close>

definition bit_mask :: "u8 \<Rightarrow> 'l::len word" where
  "bit_mask bit_length = ((\<lambda>m. push_bit 1 m OR 1) ^^ unat bit_length) 0"

definition wr_mdio_reg :: "u32 \<Rightarrow> u8 \<Rightarrow> u8 \<Rightarrow> u8 \<Rightarrow> u16 \<Rightarrow> 'a bus_scheme \<Rightarrow> 'a bus_scheme" where
  "wr_mdio_reg pmac reg_num lsb_num bit_length data s =
    (let m = push_bit (unat lsb_num) (bit_mask bit_length) :: u16;
         (v, s) = iord (pmac + mdio1) (ucast reg_num) s;
         temp_data = ucast v AND NOT m;
         temp_data = temp_data OR (push_bit (unat lsb_num) data AND m)
     in iowr (pmac + mdio1) (ucast reg_num) (ucast temp_data) s)"

definition rd_mdio_reg :: "u32 \<Rightarrow> u8 \<Rightarrow> u8 \<Rightarrow> u8 \<Rightarrow> 'a bus_scheme \<Rightarrow> u32 \<times> 'a bus_scheme" where
  "rd_mdio_reg pmac reg_num lsb_num bit_length s =
    (let m = bit_mask bit_length;
         (v, s) = iord (pmac + mdio1) (ucast reg_num) s;
         temp_data = drop_bit (unat lsb_num) (ucast v :: u16)
     in (ucast temp_data AND m, s))"

subsection \<open>Auto-negotiation\<close>

abbreviation (input) "TSE_PHY_MDIO_CONTROL \<equiv> (0 :: u8)"
abbreviation (input) "TSE_PHY_MDIO_STATUS \<equiv> (1 :: u8)"
abbreviation (input) "TSE_PHY_MDIO_ADV \<equiv> (4 :: u8)"
abbreviation (input) "TSE_PHY_MDIO_REMADV \<equiv> (5 :: u8)"
abbreviation (input) "TSE_PHY_MDIO_1000BASE_T_CTRL \<equiv> (9 :: u8)"
abbreviation (input) "TSE_PHY_MDIO_1000BASE_T_STATUS \<equiv> (10 :: u8)"
abbreviation (input) "TSE_PHY_MDIO_EXT_STATUS \<equiv> (15 :: u8)"

abbreviation (input) "CONTROL_LOOPBACK \<equiv> (14 :: u8)"
abbreviation (input) "CONTROL_SPEED_LSB \<equiv> (13 :: u8)"
abbreviation (input) "CONTROL_AN_ENA \<equiv> (12 :: u8)"
abbreviation (input) "CONTROL_RESTART_AN \<equiv> (9 :: u8)"
abbreviation (input) "CONTROL_SPEED_MSB \<equiv> (6 :: u8)"
abbreviation (input) "STATUS_AN_COMPLETE \<equiv> (5 :: u8)"
abbreviation (input) "STATUS_AN_ABILITY \<equiv> (3 :: u8)"

datatype an_result = TSE_PHY_AN_COMPLETE | TSE_PHY_AN_NOT_COMPLETE | TSE_PHY_AN_NOT_CAPABLE

text \<open>\<open>timeout\<close> is an \<open>alt_32\<close>, which the comparison converts to unsigned.\<close>

abbreviation (input) "ALT_32_MAX \<equiv> (0x7FFFFFFF :: int)"

function an_wait :: "u32 \<Rightarrow> u32 \<Rightarrow> int \<Rightarrow> 'a bus_scheme \<Rightarrow> (bool \<times> 'a bus_scheme) option" where
  "an_wait pmac threshold timeout s =
    (let (v, s) = rd_mdio_reg pmac TSE_PHY_MDIO_STATUS STATUS_AN_COMPLETE 1 s in
     if v = 0 then
       if timeout \<ge> ALT_32_MAX then None
       else if word_of_int timeout > threshold then Some (False, s)
       else an_wait pmac threshold (timeout + 1) (usleep 1000 s)
     else Some (True, s))"
  by pat_completeness auto
termination
  by (relation "measure (\<lambda>(pmac, threshold, timeout, s). nat (ALT_32_MAX - timeout))") auto

declare an_wait.simps [simp del]

definition an_restart ::
  "u32 \<Rightarrow> u8 \<Rightarrow> u32 \<Rightarrow> 'a bus_scheme \<Rightarrow> (an_result \<times> 'a bus_scheme) option" where
  "an_restart pmac mdio_address threshold s =
    (let (mdioadd_prev, s) = rd_mdio_addr pmac s;
         s = wr_mdio_addr pmac mdio_address s;
         (v, s) = rd_mdio_reg pmac TSE_PHY_MDIO_STATUS STATUS_AN_ABILITY 1 s in
     if v = 0 then Some (TSE_PHY_AN_NOT_CAPABLE, wr_mdio_addr pmac (ucast mdioadd_prev) s)
     else do {
       let s = wr_mdio_reg pmac TSE_PHY_MDIO_CONTROL CONTROL_AN_ENA 1 1 s;
       let s = wr_mdio_reg pmac TSE_PHY_MDIO_CONTROL CONTROL_RESTART_AN 1 1 s;
       (passed, s) \<leftarrow> an_wait pmac threshold 0 s;
       let s = wr_mdio_addr pmac (ucast mdioadd_prev) s;
       Some (if passed then TSE_PHY_AN_COMPLETE else TSE_PHY_AN_NOT_COMPLETE, s) })"

text \<open>The condition of the loop that checks the link, and the loop.\<close>

definition no_link :: "u32 \<Rightarrow> 'a bus_scheme \<Rightarrow> bool \<times> 'a bus_scheme" where
  "no_link pmac s =
    (let (v, s) = rd_mdio_reg pmac TSE_PHY_MDIO_CONTROL CONTROL_LOOPBACK 1 s in
     if v \<noteq> 0 then (True, s)
     else let (v, s) = rd_mdio_reg pmac TSE_PHY_MDIO_STATUS STATUS_AN_COMPLETE 1 s in (v = 0, s))"

function link_wait ::
  "u32 \<Rightarrow> u8 \<Rightarrow> u32 \<Rightarrow> int \<Rightarrow> 'a bus_scheme \<Rightarrow> (an_result \<times> 'a bus_scheme) option" where
  "link_wait pmac mdio_address threshold timeout s =
    (let (c, s) = no_link pmac s in
     if c then
       if timeout \<ge> ALT_32_MAX then None
       else if word_of_int timeout > threshold then do {
         (r, s) \<leftarrow> an_restart pmac mdio_address threshold s;
         if r = TSE_PHY_AN_NOT_COMPLETE then Some (TSE_PHY_AN_NOT_COMPLETE, s)
         else link_wait pmac mdio_address threshold (timeout + 1) (usleep 1000 s) }
       else link_wait pmac mdio_address threshold (timeout + 1) (usleep 1000 s)
     else Some (TSE_PHY_AN_COMPLETE, s))"
  by pat_completeness auto
termination
  by (relation "measure (\<lambda>(pmac, a, threshold, timeout, s). nat (ALT_32_MAX - timeout))") auto

declare link_wait.simps [simp del]

definition an_check_link ::
  "u32 \<Rightarrow> u8 \<Rightarrow> u32 \<Rightarrow> 'a bus_scheme \<Rightarrow> (an_result \<times> 'a bus_scheme) option" where
  "an_check_link pmac mdio_address threshold s =
    (let (mdioadd_prev, s) = rd_mdio_addr pmac s;
         s = wr_mdio_addr pmac mdio_address s in
     do {
       (r, s) \<leftarrow> link_wait pmac mdio_address threshold 0 s;
       let s = wr_mdio_addr pmac (ucast mdioadd_prev) s;
       Some (r, s) })"

subsection \<open>Capabilities and their advertisement\<close>

record alt_tse_phy_link_cap =
  cap_1000_base_x_full :: u8
  cap_1000_base_x_half :: u8
  cap_1000_base_t_full :: u8
  cap_1000_base_t_half :: u8
  cap_100_base_t4 :: u8
  cap_100_base_x_full :: u8
  cap_100_base_x_half :: u8
  cap_100_base_t2_full :: u8
  cap_100_base_t2_half :: u8
  cap_10_base_t_full :: u8
  cap_10_base_t_half :: u8
  lp_1000_base_t_full :: u8
  lp_1000_base_t_half :: u8
  lp_100_base_t4 :: u8
  lp_100_base_tx_full :: u8
  lp_100_base_tx_half :: u8
  lp_10_base_tx_full :: u8
  lp_10_base_tx_half :: u8

text \<open>One bit of a register, stored in an \<open>alt_u8\<close>.\<close>

definition rd_cap :: "u32 \<Rightarrow> u8 \<Rightarrow> u8 \<Rightarrow> 'a bus_scheme \<Rightarrow> u8 \<times> 'a bus_scheme" where
  "rd_cap pmac reg_num lsb_num s = (let (v, s) = rd_mdio_reg pmac reg_num lsb_num 1 s in (ucast v, s))"

definition read_caps :: "u32 \<Rightarrow> 'a bus_scheme \<Rightarrow> alt_tse_phy_link_cap \<times> 'a bus_scheme" where
  "read_caps pmac s =
    (let (x_full, s) = rd_cap pmac TSE_PHY_MDIO_EXT_STATUS 15 s;
         (x_half, s) = rd_cap pmac TSE_PHY_MDIO_EXT_STATUS 14 s;
         (t_full, s) = rd_cap pmac TSE_PHY_MDIO_EXT_STATUS 13 s;
         (t_half, s) = rd_cap pmac TSE_PHY_MDIO_EXT_STATUS 12 s;
         (b100_t4, s) = rd_cap pmac TSE_PHY_MDIO_STATUS 15 s;
         (b100_x_full, s) = rd_cap pmac TSE_PHY_MDIO_STATUS 14 s;
         (b100_x_half, s) = rd_cap pmac TSE_PHY_MDIO_STATUS 13 s;
         (b100_t2_full, s) = rd_cap pmac TSE_PHY_MDIO_STATUS 10 s;
         (b100_t2_half, s) = rd_cap pmac TSE_PHY_MDIO_STATUS 9 s;
         (b10_full, s) = rd_cap pmac TSE_PHY_MDIO_STATUS 12 s;
         (b10_half, s) = rd_cap pmac TSE_PHY_MDIO_STATUS 11 s;
         (l1000_full, s) = rd_cap pmac TSE_PHY_MDIO_1000BASE_T_STATUS 11 s;
         (l1000_half, s) = rd_cap pmac TSE_PHY_MDIO_1000BASE_T_STATUS 10 s;
         (l100_t4, s) = rd_cap pmac TSE_PHY_MDIO_REMADV 9 s;
         (l100_full, s) = rd_cap pmac TSE_PHY_MDIO_REMADV 8 s;
         (l100_half, s) = rd_cap pmac TSE_PHY_MDIO_REMADV 7 s;
         (l10_full, s) = rd_cap pmac TSE_PHY_MDIO_REMADV 6 s;
         (l10_half, s) = rd_cap pmac TSE_PHY_MDIO_REMADV 5 s
     in (\<lparr>cap_1000_base_x_full = x_full, cap_1000_base_x_half = x_half,
          cap_1000_base_t_full = t_full, cap_1000_base_t_half = t_half,
          cap_100_base_t4 = b100_t4, cap_100_base_x_full = b100_x_full,
          cap_100_base_x_half = b100_x_half, cap_100_base_t2_full = b100_t2_full,
          cap_100_base_t2_half = b100_t2_half, cap_10_base_t_full = b10_full,
          cap_10_base_t_half = b10_half, lp_1000_base_t_full = l1000_full,
          lp_1000_base_t_half = l1000_half, lp_100_base_t4 = l100_t4,
          lp_100_base_tx_full = l100_full, lp_100_base_tx_half = l100_half,
          lp_10_base_tx_full = l10_full, lp_10_base_tx_half = l10_half\<rparr>, s))"

text \<open>The capabilities are stored only if the PHY can negotiate (\<open>None\<close>: the
  structure keeps what it held).\<close>

abbreviation (input) "ALTERA_AUTONEG_TIMEOUT_THRESHOLD \<equiv> (2500 :: u32)"
abbreviation (input) "ALTERA_CHECKLINK_TIMEOUT_THRESHOLD \<equiv> (10000 :: u32)"

definition an_get_cap ::
  "u32 \<Rightarrow> u8 \<Rightarrow> 'a bus_scheme \<Rightarrow> (an_result \<times> alt_tse_phy_link_cap option \<times> 'a bus_scheme) option" where
  "an_get_cap pmac mdio_address s =
    (let (mdioadd_prev, s) = rd_mdio_addr pmac s;
         s = wr_mdio_addr pmac mdio_address s;
         (v, s) = rd_mdio_reg pmac TSE_PHY_MDIO_STATUS STATUS_AN_ABILITY 1 s in
     if v = 0 then Some (TSE_PHY_AN_NOT_CAPABLE, None, wr_mdio_addr pmac (ucast mdioadd_prev) s)
     else do {
       (_, s) \<leftarrow> an_restart pmac mdio_address ALTERA_AUTONEG_TIMEOUT_THRESHOLD s;
       let (v, s) = rd_mdio_reg pmac TSE_PHY_MDIO_STATUS STATUS_AN_COMPLETE 1 s;
       let (caps, s) = read_caps pmac s;
       let s = wr_mdio_addr pmac (ucast mdioadd_prev) s;
       Some (if v = 0 then TSE_PHY_AN_NOT_COMPLETE else TSE_PHY_AN_COMPLETE, Some caps, s) })"

text \<open>One bit of the advertisement: a copy of the capability bit, or 0.\<close>

definition adv_bit ::
  "u32 \<Rightarrow> bool \<Rightarrow> u8 \<Rightarrow> u8 \<Rightarrow> u8 \<Rightarrow> u8 \<Rightarrow> 'a bus_scheme \<Rightarrow> 'a bus_scheme" where
  "adv_bit pmac enable cap_reg cap_bit adv_reg adv_lsb s =
    (if enable then
       let (cap, s) = rd_cap pmac cap_reg cap_bit s
       in wr_mdio_reg pmac adv_reg adv_lsb 1 (ucast cap) s
     else wr_mdio_reg pmac adv_reg adv_lsb 1 0 s)"

definition adv_1000 :: "u32 \<Rightarrow> u8 \<Rightarrow> bool \<Rightarrow> 'a bus_scheme \<Rightarrow> 'a bus_scheme" where
  "adv_1000 pmac mdio_address enable s =
    (let (mdioadd_prev, s) = rd_mdio_addr pmac s;
         s = wr_mdio_addr pmac mdio_address s;
         s = adv_bit pmac enable TSE_PHY_MDIO_EXT_STATUS 13 TSE_PHY_MDIO_1000BASE_T_CTRL 9 s;
         s = adv_bit pmac enable TSE_PHY_MDIO_EXT_STATUS 12 TSE_PHY_MDIO_1000BASE_T_CTRL 8 s
     in wr_mdio_addr pmac (ucast mdioadd_prev) s)"

definition adv_100 :: "u32 \<Rightarrow> u8 \<Rightarrow> bool \<Rightarrow> 'a bus_scheme \<Rightarrow> 'a bus_scheme" where
  "adv_100 pmac mdio_address enable s =
    (let (mdioadd_prev, s) = rd_mdio_addr pmac s;
         s = wr_mdio_addr pmac mdio_address s;
         s = adv_bit pmac enable TSE_PHY_MDIO_STATUS 15 TSE_PHY_MDIO_ADV 9 s;
         s = adv_bit pmac enable TSE_PHY_MDIO_STATUS 14 TSE_PHY_MDIO_ADV 8 s;
         s = adv_bit pmac enable TSE_PHY_MDIO_STATUS 13 TSE_PHY_MDIO_ADV 7 s
     in wr_mdio_addr pmac (ucast mdioadd_prev) s)"

definition adv_10 :: "u32 \<Rightarrow> u8 \<Rightarrow> bool \<Rightarrow> 'a bus_scheme \<Rightarrow> 'a bus_scheme" where
  "adv_10 pmac mdio_address enable s =
    (let (mdioadd_prev, s) = rd_mdio_addr pmac s;
         s = wr_mdio_addr pmac mdio_address s;
         s = adv_bit pmac enable TSE_PHY_MDIO_STATUS 12 TSE_PHY_MDIO_ADV 6 s;
         s = adv_bit pmac enable TSE_PHY_MDIO_STATUS 11 TSE_PHY_MDIO_ADV 5 s
     in wr_mdio_addr pmac (ucast mdioadd_prev) s)"

subsection \<open>Settings of particular PHYs\<close>

definition PCS_CTL_sw_reset :: u32 where "PCS_CTL_sw_reset = 0x8000"
definition PCS_ST_an_done :: u32 where "PCS_ST_an_done = 0x20"

text \<open>\<open>dat\<close> is an \<open>alt_u16\<close>; register number \<open>n\<close> of the PHY is at \<open>mdio1 + 4 n\<close>.\<close>

definition rd_phy :: "u32 \<Rightarrow> u32 \<Rightarrow> 'a bus_scheme \<Rightarrow> u16 \<times> 'a bus_scheme" where
  "rd_phy pmac n s = (let (v, s) = iord (pmac + mdio1) n s in (ucast v, s))"

definition marvell_reset :: "u32 \<Rightarrow> 'a bus_scheme \<Rightarrow> 'a bus_scheme" where
  "marvell_reset pmac s =
    (let (dat, s) = rd_phy pmac 0 s in iowr (pmac + mdio1) 0 (ucast dat OR PCS_CTL_sw_reset) s)"

definition marvell_phy_cfg :: "u32 \<Rightarrow> 'a bus_scheme \<Rightarrow> int \<times> 'a bus_scheme" where
  "marvell_phy_cfg pmac s =
    (let (v, s) = iord (pmac + mdio1) 1 s in
     if v AND PCS_ST_an_done = 0 then
       let s = iowr (pmac + mdio1) 16 0x0078 s in (0, marvell_reset pmac s)
     else (0, s))"

text \<open>The three operating modes: the mode's code in register 0x1b and the timing bits 0x82
  of register 0x14.\<close>

definition marvell_cfg :: "u32 \<Rightarrow> bool \<Rightarrow> u32 \<Rightarrow> 'a bus_scheme \<Rightarrow> int \<times> 'a bus_scheme" where
  "marvell_cfg code timing pmac s =
    (let (dat, s) = rd_phy pmac 0x1b s;
         dat = dat AND 0xfff0;
         s = iowr (pmac + mdio1) 0x1b (ucast dat OR code) s;
         (dat, s) = rd_phy pmac 0x14 s;
         dat = dat AND NOT 0x82;
         dat = (if timing then dat OR 0x82 else dat);
         s = iowr (pmac + mdio1) 0x14 (ucast dat) s
     in (1, marvell_reset pmac s))"

definition marvell_cfg_gmii :: "u32 \<Rightarrow> 'a bus_scheme \<Rightarrow> int \<times> 'a bus_scheme" where
  "marvell_cfg_gmii = marvell_cfg 0xf False"

definition marvell_cfg_sgmii :: "u32 \<Rightarrow> 'a bus_scheme \<Rightarrow> int \<times> 'a bus_scheme" where
  "marvell_cfg_sgmii = marvell_cfg 0x4 False"

definition marvell_cfg_rgmii :: "u32 \<Rightarrow> 'a bus_scheme \<Rightarrow> int \<times> 'a bus_scheme" where
  "marvell_cfg_rgmii = marvell_cfg 0xb True"

definition DP83848C_link_status_read :: "u32 \<Rightarrow> 'a bus_scheme \<Rightarrow> u32 \<times> 'a bus_scheme" where
  "DP83848C_link_status_read pmac s =
    (let (reg_status, s) = iord (pmac + mdio1 + 4 * 0x10) 0 s;
         link_status = (if reg_status AND 0x2 \<noteq> 0 then 0x8 else 0x4);
         link_status = (if reg_status AND 0x4 \<noteq> 0 then link_status OR 0x1 else link_status)
     in (link_status, s))"

definition PEF7071_config :: "u32 \<Rightarrow> 'a bus_scheme \<Rightarrow> int \<times> 'a bus_scheme" where
  "PEF7071_config pmac s =
    (let (dat, s) = rd_phy pmac 0x14 s;
         dat = (dat AND 0x3FFF) OR 0x0100
     in (0, iowr (pmac + mdio1) 0x14 (ucast dat) s))"

definition PEF7071_link_status_read :: "u32 \<Rightarrow> 'a bus_scheme \<Rightarrow> u32 \<times> 'a bus_scheme" where
  "PEF7071_link_status_read pmac s =
    (let (reg18, s) = iord (pmac + mdio1 + 4 * 0x18) 0 s;
         st = 0;
         st = (if reg18 AND 0x3 = 0 then st OR 0x8 else st);
         st = (if reg18 AND 0x3 = 1 then st OR 0x4 else st);
         st = (if reg18 AND 0x3 = 2 then st OR 0x2 else st);
         st = (if reg18 AND 0x8 \<noteq> 0 then st OR 0x1 else st)
     in (st, s))"
subsection \<open>The reset of the MAC\<close>

lemma reset_wait_quiet: "quiet s (reset_wait n pmac s)"
proof (induction n arbitrary: s)
  case (Suc n)
  show ?case using Suc.IH [of "snd (rd_cmd_config pmac s)"] rd32_quiet [of "pmac + 8" s]
    by (auto simp: rd_cmd_config_def split: prod.split intro: quiet_trans)
qed (simp add: rd_cmd_config_def)

text \<open>The number of reads of the wait: it ends with the first answer whose reset bit is clear.\<close>

lemma reset_wait_reads: "length (trace (reset_wait n pmac s)) \<le> length (trace s) + n + 1"
proof (induction n arbitrary: s)
  case (Suc n)
  show ?case using Suc.IH [of "snd (rd_cmd_config pmac s)"]
    by (auto simp: rd_cmd_config_def rd32_def Let_def)
qed (simp add: rd_cmd_config_def rd32_def Let_def)

lemma reset_wait_clear:
  "(\<And>es. \<not> bit (hw s (es @ trace s) (pmac + 8)) 13) \<Longrightarrow> length (trace (reset_wait n pmac s)) = length (trace s) + 1"
proof -
  assume c: "\<And>es. \<not> bit (hw s (es @ trace s) (pmac + 8)) 13"
  have "hw s (trace s) (pmac + 8) AND CMD_SW_RESET_MSK = 0"
    using c [of "[]"] and_exp_eq_0_iff_not_bit [of "hw s (trace s) (pmac + 8)" 13] by simp
  then show ?thesis by (cases n) (auto simp: rd_cmd_config_def rd32_def Let_def)
qed

text \<open>\<open>tse_mac_SwReset\<close> always returns, after at most 10003 accesses to the command
  register, whatever the core answers.  It writes the register twice: first the reset and gigabit
  bits, last the value it found, so that the settings survive the reset.  It answers
  \<open>SUCCESS\<close> even if the reset never ended.\<close>

theorem sw_reset_bounded:
  assumes "tse_mac_SwReset pmac s = (r, t)"
  shows "r = SUCCESS"
    and "writes t = [Wr32 (pmac + 8) (hw s (trace s) (pmac + 8)), Wr32 (pmac + 8) 0x2008] @ writes s"
    and "length (trace t) \<le> length (trace s) + 10004"
proof -
  obtain u where u: "rd_cmd_config pmac s = (hw s (trace s) (pmac + 8), u)" "quiet s u"
    "length (trace u) = length (trace s) + 1"
    using rd32_quiet by (fastforce simp: rd_cmd_config_def rd32_def Let_def)
  define w where "w = wr_cmd_config pmac (CMD_SW_RESET_MSK OR CMD_ETH_SPEED_MSK) u"
  have w: "writes w = Wr32 (pmac + 8) 0x2008 # writes s" "length (trace w) = length (trace s) + 2"
    using quiet_writes [OF u(2)] u(3) by (simp_all add: w_def wr_cmd_config_def)
  define x where "x = reset_wait 10000 pmac w"
  have x: "writes x = writes w" "length (trace x) \<le> length (trace w) + 10001"
    using quiet_writes [OF reset_wait_quiet] reset_wait_reads [of 10000 pmac w] by (auto simp: x_def)
  have t: "t = wr_cmd_config pmac (hw s (trace s) (pmac + 8)) x" "r = SUCCESS"
    using assms u by (auto simp: tse_mac_SwReset_def ALTERA_TSE_SW_RESET_TIME_OUT_CNT_def x_def w_def)
  show "r = SUCCESS" using t by simp
  show "writes t = [Wr32 (pmac + 8) (hw s (trace s) (pmac + 8)), Wr32 (pmac + 8) 0x2008] @ writes s"
    using w x by (simp add: t wr_cmd_config_def)
  show "length (trace t) \<le> length (trace s) + 10004"
    using w x by (simp add: t wr_cmd_config_def)
qed
subsection \<open>Fields\<close>

lemma bit_mask_eq: "bit_mask n = mask (unat n)"
proof -
  have "((\<lambda>m. push_bit 1 m OR 1) ^^ k) 0 = (mask k :: 'a::len word)" for k
    by (induction k) (simp_all add: mask_Suc_double or.commute mult.commute)
  then show ?thesis by (simp add: bit_mask_def)
qed

text \<open>What a read and a write of a field do, bit by bit.\<close>

definition field_of :: "nat \<Rightarrow> nat \<Rightarrow> u16 \<Rightarrow> u32" where
  "field_of lsb n v = take_bit n (ucast (drop_bit lsb v))"

definition with_field :: "nat \<Rightarrow> nat \<Rightarrow> u16 \<Rightarrow> u16 \<Rightarrow> u16" where
  "with_field lsb n data v =
    (v AND NOT (push_bit lsb (mask n))) OR (push_bit lsb data AND push_bit lsb (mask n))"

definition reg_at :: "u32 \<Rightarrow> u8 \<Rightarrow> u32" where
  "reg_at pmac reg_num = pmac + mdio1 + 4 * ucast reg_num"

definition phy_reg :: "u32 \<Rightarrow> u8 \<Rightarrow> 'a bus_scheme \<Rightarrow> u16" where
  "phy_reg pmac reg_num s = ucast (hw s (trace s) (reg_at pmac reg_num))"

lemma bit_field_of: "bit (field_of lsb n v) i \<longleftrightarrow> i < n \<and> i < 32 \<and> bit v (lsb + i)"
  by (auto simp: field_of_def bit_simps)

lemma bit_with_field:
  "bit (with_field lsb n data v) i \<longleftrightarrow>
    i < 16 \<and> (if lsb \<le> i \<and> i < lsb + n then bit data (i - lsb) else bit v i)"
  by (auto simp: with_field_def bit_simps)

lemma field_with_field: "lsb + n \<le> 16 \<Longrightarrow> field_of lsb n (with_field lsb n data v) = take_bit n (ucast data)"
  by (rule bit_word_eqI) (auto simp: bit_field_of bit_with_field bit_simps)

lemma field_other:
  "lsb' + n' \<le> lsb \<or> lsb + n \<le> lsb' \<Longrightarrow>
    field_of lsb' n' (with_field lsb n data v) = field_of lsb' n' v"
  by (rule bit_word_eqI) (auto simp: bit_field_of bit_with_field bit_simps dest: bit_imp_le_length)

lemma rd_mdio_reg_eq:
  "rd_mdio_reg pmac reg lsb n s =
    (field_of (unat lsb) (unat n) (phy_reg pmac reg s), snd (iord (pmac + mdio1) (ucast reg) s))"
  by (simp add: rd_mdio_reg_def field_of_def phy_reg_def reg_at_def bit_mask_eq iord_def rd32_def Let_def
      flip: take_bit_eq_mask)

lemma wr_mdio_reg_eq:
  "wr_mdio_reg pmac reg lsb n data s =
    iowr (pmac + mdio1) (ucast reg) (ucast (with_field (unat lsb) (unat n) data (phy_reg pmac reg s)))
      (snd (iord (pmac + mdio1) (ucast reg) s))"
  by (simp add: wr_mdio_reg_def with_field_def phy_reg_def reg_at_def bit_mask_eq iord_def rd32_def Let_def)

lemma rd_mdio_reg_quiet [simp]: "quiet s (snd (rd_mdio_reg pmac reg lsb n s))"
  by (simp add: rd_mdio_reg_eq)

text \<open>A register that is plain storage of 16 bits.\<close>

definition plain_reg :: "(ioev list \<Rightarrow> u32 \<Rightarrow> u32) \<Rightarrow> u32 \<Rightarrow> bool" where
  "plain_reg h a \<longleftrightarrow>
    (\<forall>es tr w. (\<forall>e\<in>set es. \<not> is_wr e) \<longrightarrow> h (es @ Wr32 a (ucast (w :: u16)) # tr) a = ucast w)"

lemma u16_u32 [simp]: "ucast (ucast w :: u32) = w" for w :: u16
  by (rule bit_word_eqI) (auto simp: bit_simps)

lemma plain_reg_write:
  "plain_reg (hw s) (reg_at pmac reg) \<Longrightarrow>
    phy_reg pmac reg (wr_mdio_reg pmac reg lsb n data s)
      = with_field (unat lsb) (unat n) data (phy_reg pmac reg s)"
proof -
  assume p: "plain_reg (hw s) (reg_at pmac reg)"
  let ?w = "with_field (unat lsb) (unat n) data (phy_reg pmac reg s)"
  let ?r = "snd (iord (pmac + mdio1) (ucast reg) s)"
  have "hw s ([] @ Wr32 (reg_at pmac reg) (ucast ?w) # trace ?r) (reg_at pmac reg) = ucast ?w"
    using p unfolding plain_reg_def by (metis empty_iff empty_set)
  then have "hw s (Wr32 (reg_at pmac reg) (ucast ?w) # trace ?r) (reg_at pmac reg) = ucast ?w" by simp
  moreover have "hw ?r = hw s" by (simp add: iord_def rd32_def Let_def)
  ultimately show ?thesis
    by (simp add: wr_mdio_reg_eq phy_reg_def [of _ _ "iowr _ _ _ _"] reg_at_def)
qed

text \<open>C36: Writing a field of a PHY register takes one write, of a value in which no other bit
  differs from what was read.  If the register keeps what is written to it, the field then reads
  as the data and every field that does not overlap it reads as before.\<close>

theorem mdio_field_roundtrip:
  assumes "plain_reg (hw s) (reg_at pmac reg)" and "unat lsb + unat n \<le> 16"
    and "t = wr_mdio_reg pmac reg lsb n data s"
  shows "fst (rd_mdio_reg pmac reg lsb n t) = take_bit (unat n) (ucast data)
    \<and> (\<forall>lsb' n'. unat lsb' + unat n' \<le> unat lsb \<or> unat lsb + unat n \<le> unat lsb' \<longrightarrow>
        fst (rd_mdio_reg pmac reg lsb' n' t) = fst (rd_mdio_reg pmac reg lsb' n' s))
    \<and> writes t = Wr32 (reg_at pmac reg)
      (ucast (with_field (unat lsb) (unat n) data (phy_reg pmac reg s))) # writes s"
  using plain_reg_write [OF assms(1)] assms(2) quiet_writes [OF quiet_reads(3)]
  by (simp add: assms(3) rd_mdio_reg_eq field_with_field field_other wr_mdio_reg_eq [of _ _ _ _ _ s] reg_at_def)

subsection \<open>Only the bus\<close>

text \<open>Everything here only touches the bus, so that the pointers of the driver stay as they are.\<close>

named_theorems mdio_frame "operations of the management side change only the history of the bus"

lemma rd_frame [mdio_frame]:
  "rd_mdio_reg pmac reg lsb n s = (v, t) \<Longrightarrow> bus_only s t"
  "rd_mdio_addr pmac s = (v, t) \<Longrightarrow> bus_only s t"
  "rd_cap pmac reg lsb s = (c, t) \<Longrightarrow> bus_only s t"
  "rd_phy pmac k s = (w, t) \<Longrightarrow> bus_only s t"
  "iord a k s = (v, t) \<Longrightarrow> bus_only s t"
  "rd_cmd_config pmac s = (v, t) \<Longrightarrow> bus_only s t"
proof -
  have i: "bus_only s (snd (iord a k s))" "bus_only s (snd (rd32 a s))" for a k by auto
  show "rd_mdio_reg pmac reg lsb n s = (v, t) \<Longrightarrow> bus_only s t"
    using i by (auto simp: rd_mdio_reg_eq)
  show "rd_cap pmac reg lsb s = (c, t) \<Longrightarrow> bus_only s t"
    using i by (auto simp: rd_cap_def rd_mdio_reg_eq)
  show "rd_mdio_addr pmac s = (v, t) \<Longrightarrow> bus_only s t"
    using i(1) [of "pmac + MDIO_ADDR1" 0] by (simp add: rd_mdio_addr_def)
  show "rd_phy pmac k s = (w, t) \<Longrightarrow> bus_only s t"
    using i(1) [of "pmac + mdio1" k] by (auto simp: rd_phy_def split: prod.splits)
  show "iord a k s = (v, t) \<Longrightarrow> bus_only s t"
    using i(1) [of a k] by simp
  show "rd_cmd_config pmac s = (v, t) \<Longrightarrow> bus_only s t"
    using i(2) [of "pmac + 8"] by (simp add: rd_cmd_config_def)
qed

lemma wr_frame [mdio_frame]:
  "bus_only s (wr_mdio_reg pmac reg lsb n data s)"
  "bus_only s (wr_mdio_addr pmac a s)"
  "bus_only s (iowr b k v s)"
  "bus_only s (wr_cmd_config pmac v s)"
  "bus_only s (usleep k s)"
  by (auto simp: wr_mdio_reg_eq wr_mdio_addr_def wr_cmd_config_def bus_only_reads bus_only_ops)

lemma no_link_frame [mdio_frame]: "no_link pmac s = (c, t) \<Longrightarrow> bus_only s t"
  by (auto simp: no_link_def Let_def split: prod.splits if_splits dest: rd_frame intro: bus_only_trans)

lemma an_wait_frame [mdio_frame]: "an_wait pmac threshold timeout s = Some (b, t) \<Longrightarrow> bus_only s t"
proof (induction pmac threshold timeout s rule: an_wait.induct)
  case (1 pmac threshold timeout s)
  obtain v u where r: "rd_mdio_reg pmac 1 5 1 s = (v, u)" by fastforce
  have u: "bus_only s u" "bus_only s (usleep 1000 u)"
    using rd_frame(1) [OF r] by auto
  show ?case
    using 1(2) 1(1) [OF r [symmetric], simplified] u
    by (subst (asm) an_wait.simps) (auto simp: r split: if_splits intro: bus_only_trans)
qed
text \<open>The same facts as steps of a chain.\<close>

lemma rd_steps [mdio_frame]:
  "bus_only s t \<Longrightarrow> bus_only s (snd (rd_mdio_reg pmac reg lsb n t))"
  "bus_only s t \<Longrightarrow> bus_only s (snd (rd_mdio_addr pmac t))"
  "bus_only s t \<Longrightarrow> bus_only s (snd (rd_cap pmac reg lsb t))"
  "bus_only s t \<Longrightarrow> bus_only s (snd (rd_phy pmac k t))"
  "bus_only s t \<Longrightarrow> bus_only s (snd (iord b k t))"
  "bus_only s t \<Longrightarrow> bus_only s (snd (rd_cmd_config pmac t))"
  "bus_only s t \<Longrightarrow> bus_only s (snd (no_link pmac t))"
  by (rule bus_only_trans, assumption, metis rd_frame no_link_frame prod.collapse)+

lemma wr_steps [mdio_frame]:
  "bus_only s t \<Longrightarrow> bus_only s (wr_mdio_reg pmac reg lsb n data t)"
  "bus_only s t \<Longrightarrow> bus_only s (wr_mdio_addr pmac a t)"
  "bus_only s t \<Longrightarrow> bus_only s (iowr b k v t)"
  "bus_only s t \<Longrightarrow> bus_only s (wr_cmd_config pmac v t)"
  "bus_only s t \<Longrightarrow> bus_only s (usleep k t)"
  by (rule bus_only_trans, assumption, rule wr_frame)+

lemmas frame_steps = rd_steps wr_steps

lemma restart_frame [mdio_frame]:
  "an_restart pmac a threshold s = Some (r, t) \<Longrightarrow> bus_only s t"
  by (auto simp: an_restart_def Let_def split_beta split: if_splits bind_splits
      intro!: frame_steps dest!: an_wait_frame elim!: bus_only_trans [rotated])

lemma link_wait_frame [mdio_frame]:
  "link_wait pmac a threshold timeout s = Some (r, t) \<Longrightarrow> bus_only s t"
proof (induction "nat (ALT_32_MAX - timeout)" arbitrary: timeout s rule: less_induct)
  case less
  obtain c u where c: "no_link pmac s = (c, u)" by fastforce
  have u: "bus_only s u" using no_link_frame [OF c] .
  have IH: "bus_only v t" if "link_wait pmac a threshold (timeout + 1) v = Some (r, t)" "timeout < ALT_32_MAX" for v
    by (rule less(1) [OF _ that(1)]) (use that(2) in auto)
  show ?case
    using less(2)
    by (subst (asm) link_wait.simps)
      (auto simp: c u split: if_splits bind_splits dest!: IH restart_frame
        intro: bus_only_trans [OF u] bus_only_trans [OF wr_steps(5) [OF bus_only_trans [OF u]]]
          bus_only_trans [OF wr_steps(5) [OF u]])
qed
lemma check_link_frame [mdio_frame]:
  "an_check_link pmac a threshold s = Some (r, t) \<Longrightarrow> bus_only s t"
  by (auto simp: an_check_link_def Let_def split_beta split: bind_splits
      intro!: frame_steps dest!: link_wait_frame elim!: bus_only_trans [rotated])

lemma read_caps_frame: "bus_only s t \<Longrightarrow> bus_only s (snd (read_caps pmac t))"
  by (simp add: read_caps_def Let_def split_beta) (intro frame_steps)

lemma get_cap_frame [mdio_frame]:
  "an_get_cap pmac a s = Some (r, caps, t) \<Longrightarrow> bus_only s t"
  by (auto simp: an_get_cap_def Let_def split_beta split: bind_splits if_splits
      intro!: frame_steps read_caps_frame dest!: restart_frame elim!: bus_only_trans [rotated])

lemma adv_bit_frame: "bus_only s t \<Longrightarrow> bus_only s (adv_bit pmac e cr cb ar al t)"
  by (auto simp: adv_bit_def split_beta intro!: frame_steps)

lemma adv_frame [mdio_frame]:
  "bus_only s t \<Longrightarrow> bus_only s (adv_1000 pmac a e t)"
  "bus_only s t \<Longrightarrow> bus_only s (adv_100 pmac a e t)"
  "bus_only s t \<Longrightarrow> bus_only s (adv_10 pmac a e t)"
  by (auto simp: adv_1000_def adv_100_def adv_10_def Let_def split_beta intro!: frame_steps adv_bit_frame)

lemma cfg_frame [mdio_frame]:
  "bus_only s t \<Longrightarrow> bus_only s (snd (marvell_phy_cfg pmac t))"
  "bus_only s t \<Longrightarrow> bus_only s (snd (marvell_cfg code timing pmac t))"
  "bus_only s t \<Longrightarrow> bus_only s (snd (DP83848C_link_status_read pmac t))"
  "bus_only s t \<Longrightarrow> bus_only s (snd (PEF7071_config pmac t))"
  "bus_only s t \<Longrightarrow> bus_only s (snd (PEF7071_link_status_read pmac t))"
  "bus_only s t \<Longrightarrow> bus_only s (snd (alt_tse_mac_set_speed pmac sp t))"
  "bus_only s t \<Longrightarrow> bus_only s (snd (alt_tse_mac_set_duplex pmac dp t))"
  by (auto simp: marvell_phy_cfg_def marvell_cfg_def marvell_reset_def DP83848C_link_status_read_def
      PEF7071_config_def PEF7071_link_status_read_def alt_tse_mac_set_speed_def
      alt_tse_mac_set_duplex_def Let_def split_beta intro!: frame_steps)

subsection \<open>Waiting for auto-negotiation\<close>

lemma field_bit: "field_of lsb (Suc 0) v = 0 \<longleftrightarrow> \<not> bit v lsb"
proof (cases "bit v lsb")
  case True
  then have "bit (field_of lsb (Suc 0) v) 0" by (simp add: bit_field_of)
  then show ?thesis using True by auto
next
  case False
  then have "field_of lsb (Suc 0) v = 0" by (intro bit_word_eqI) (auto simp: bit_field_of intro: Nat.gr0I)
  then show ?thesis using False by simp
qed

lemma ex_le_Suc: "(\<exists>k\<le>Suc m. P k) \<longleftrightarrow> P 0 \<or> (\<exists>k\<le>m. P (Suc k))"
  by (metis le0 not0_implies_Suc Suc_le_mono)

definition negotiated :: "u32 \<Rightarrow> 'a bus_scheme \<Rightarrow> bool" where
  "negotiated pmac s \<longleftrightarrow> bit (phy_reg pmac TSE_PHY_MDIO_STATUS s) 5"

definition can_negotiate :: "u32 \<Rightarrow> 'a bus_scheme \<Rightarrow> bool" where
  "can_negotiate pmac s \<longleftrightarrow> bit (phy_reg pmac TSE_PHY_MDIO_STATUS s) 3"

text \<open>One pass of the wait.\<close>

definition an_pass :: "u32 \<Rightarrow> 'a bus_scheme \<Rightarrow> 'a bus_scheme" where
  "an_pass pmac s = usleep 1000 (snd (iord (pmac + mdio1) 1 s))"

lemma rd_complete:
  "rd_mdio_reg pmac 1 5 1 s = (v, t) \<Longrightarrow> (v = 0 \<longleftrightarrow> \<not> negotiated pmac s) \<and> t = snd (iord (pmac + mdio1) 1 s)"
  by (auto simp: rd_mdio_reg_eq negotiated_def field_bit)

lemma rd_ability:
  "rd_mdio_reg pmac 1 3 1 s = (v, t) \<Longrightarrow> (v = 0 \<longleftrightarrow> \<not> can_negotiate pmac s) \<and> t = snd (iord (pmac + mdio1) 1 s)"
  by (auto simp: rd_mdio_reg_eq can_negotiate_def field_bit)

lemma an_pass_quiet: "quiet s (an_pass pmac s)" "length (trace (an_pass pmac s)) = length (trace s) + 2"
proof -
  have "quiet s (snd (iord (pmac + mdio1) 1 s))" by (rule quiet_reads)
  then show "quiet s (an_pass pmac s)"
    unfolding an_pass_def usleep_def by (rule quiet_trans) (simp add: quiet_log)
  show "length (trace (an_pass pmac s)) = length (trace s) + 2"
    by (simp add: an_pass_def usleep_def iord_def rd32_def Let_def)
qed

lemma an_wait_result:
  assumes "0 \<le> timeout" "uint threshold + 1 = timeout + int m" "uint threshold + 1 < ALT_32_MAX"
  shows "\<exists>b t. an_wait pmac threshold timeout s = Some (b, t) \<and> quiet s t
    \<and> (b \<longleftrightarrow> (\<exists>k\<le>m. negotiated pmac ((an_pass pmac ^^ k) s)))
    \<and> length (trace t) \<le> length (trace s) + 2 * m + 1"
  using assms
proof (induction m arbitrary: timeout s)
  case 0
  obtain v u where r: "rd_mdio_reg pmac 1 5 1 s = (v, u)" by fastforce
  have o: "word_of_int timeout > threshold"
    using 0 by (simp add: word_less_def uint_word_of_int_eq take_bit_int_eq_self)
  show ?case using rd_complete [OF r] 0 o
    by (subst an_wait.simps) (auto simp: r iord_def rd32_def Let_def quiet_log)
next
  case (Suc m)
  obtain v u where r: "rd_mdio_reg pmac 1 5 1 s = (v, u)" by fastforce
  have u: "u = snd (iord (pmac + mdio1) 1 s)" "v = 0 \<longleftrightarrow> \<not> negotiated pmac s"
    using rd_complete [OF r] by auto
  have o: "\<not> word_of_int timeout > threshold"
    using Suc.prems by (simp add: word_less_def uint_word_of_int_eq take_bit_int_eq_self)
  show ?case
  proof (cases "negotiated pmac s")
    case True
    then have "an_wait pmac threshold timeout s = Some (True, u)"
      by (subst an_wait.simps) (simp add: r u(2))
    moreover have "length (trace u) = length (trace s) + 1" by (simp add: u(1) iord_def rd32_def Let_def)
    ultimately show ?thesis using True u(1) by (intro exI conjI) (auto intro: exI [of _ 0])
  next
    case False
    have w: "an_wait pmac threshold timeout s = an_wait pmac threshold (timeout + 1) (an_pass pmac s)"
      using Suc.prems False o by (subst an_wait.simps) (simp add: r u an_pass_def)
    obtain b t where t: "an_wait pmac threshold (timeout + 1) (an_pass pmac s) = Some (b, t)"
        "quiet (an_pass pmac s) t" "b \<longleftrightarrow> (\<exists>k\<le>m. negotiated pmac ((an_pass pmac ^^ k) (an_pass pmac s)))"
        "length (trace t) \<le> length (trace (an_pass pmac s)) + 2 * m + 1"
      using Suc.IH [of "timeout + 1" "an_pass pmac s"] Suc.prems by auto
    have "(\<exists>k\<le>Suc m. negotiated pmac ((an_pass pmac ^^ k) s)) \<longleftrightarrow> b"
      using False t(3) by (simp add: ex_le_Suc funpow_Suc_right del: funpow.simps(2))
    moreover have "length (trace t) \<le> length (trace s) + 2 * Suc m + 1" "quiet s t"
      using t(2,4) an_pass_quiet(2) [of pmac s] quiet_trans [OF an_pass_quiet(1) t(2)] by simp_all
    ultimately show ?thesis using t(1) w by (intro exI conjI) auto
  qed
qed
definition selected :: "u32 \<Rightarrow> u8 \<Rightarrow> 'a bus_scheme \<Rightarrow> 'a bus_scheme" where
  "selected pmac a s = wr_mdio_addr pmac a (snd (rd_mdio_addr pmac s))"

definition restarted :: "u32 \<Rightarrow> 'a bus_scheme \<Rightarrow> 'a bus_scheme" where
  "restarted pmac s = wr_mdio_reg pmac TSE_PHY_MDIO_CONTROL CONTROL_RESTART_AN 1 1
     (wr_mdio_reg pmac TSE_PHY_MDIO_CONTROL CONTROL_AN_ENA 1 1 (snd (iord (pmac + mdio1) 1 s)))"

definition addr_before :: "u32 \<Rightarrow> 'a bus_scheme \<Rightarrow> u8" where
  "addr_before pmac s = ucast (hw s (trace s) (pmac + MDIO_ADDR1))"

lemma rd_mdio_addr_eq: "ucast (fst (rd_mdio_addr pmac s)) = addr_before pmac s"
  by (simp add: rd_mdio_addr_def addr_before_def iord_def rd32_def Let_def)

lemma selected_length: "length (trace (selected pmac a s)) = length (trace s) + 2"
  by (simp add: selected_def wr_mdio_addr_def rd_mdio_addr_def iord_def rd32_def Let_def)

lemma restarted_length: "length (trace (restarted pmac s)) = length (trace s) + 5"
  by (simp add: restarted_def wr_mdio_reg_eq iord_def rd32_def Let_def)

lemma an_restart_eq:
  "an_restart pmac a threshold s =
    (let u = selected pmac a s in
     if \<not> can_negotiate pmac u then
       Some (TSE_PHY_AN_NOT_CAPABLE, wr_mdio_addr pmac (addr_before pmac s) (snd (iord (pmac + mdio1) 1 u)))
     else do {
       (passed, t) \<leftarrow> an_wait pmac threshold 0 (restarted pmac u);
       Some (if passed then TSE_PHY_AN_COMPLETE else TSE_PHY_AN_NOT_COMPLETE,
             wr_mdio_addr pmac (addr_before pmac s) t) })"
proof -
  obtain p v where p: "rd_mdio_addr pmac s = (p, v)" by fastforce
  have a: "ucast p = addr_before pmac s" "selected pmac a s = wr_mdio_addr pmac a v"
    using rd_mdio_addr_eq [of pmac s] by (simp_all add: p selected_def)
  obtain q w where q: "rd_mdio_reg pmac 1 3 1 (selected pmac a s) = (q, w)" by fastforce
  then show ?thesis using rd_ability [OF q] a(2)
    by (simp add: an_restart_def p Let_def restarted_def flip: a(1))
qed

text \<open>C31: Restarting auto-negotiation always returns: at most \<open>threshold + 2\<close> looks at
  the status register, a millisecond apart.  It says that the PHY cannot negotiate exactly if the
  ability bit is clear, and that the negotiation completed exactly if one of those looks saw the
  complete bit.  Its last write selects the PHY that was selected before.\<close>

theorem restart_an_bounded:
  assumes "uint threshold < 0x7FFFFFFE"
  shows "\<exists>r t. an_restart pmac a threshold s = Some (r, t)
    \<and> (r = TSE_PHY_AN_NOT_CAPABLE \<longleftrightarrow> \<not> can_negotiate pmac (selected pmac a s))
    \<and> (r = TSE_PHY_AN_COMPLETE \<longleftrightarrow> can_negotiate pmac (selected pmac a s)
         \<and> (\<exists>k \<le> unat threshold + 1.
              negotiated pmac ((an_pass pmac ^^ k) (restarted pmac (selected pmac a s)))))
    \<and> hd (writes t) = Wr32 (pmac + MDIO_ADDR1) (ucast (addr_before pmac s))
    \<and> length (trace t) \<le> length (trace s) + 2 * unat threshold + 11"
proof (cases "can_negotiate pmac (selected pmac a s)")
  case True
  let ?v = "restarted pmac (selected pmac a s)"
  have m: "uint threshold + 1 = 0 + int (unat threshold + 1)" by simp
  have lim: "uint threshold + 1 < ALT_32_MAX" using assms by linarith
  obtain b t where t: "an_wait pmac threshold 0 ?v = Some (b, t)"
      "b \<longleftrightarrow> (\<exists>k \<le> unat threshold + 1. negotiated pmac ((an_pass pmac ^^ k) ?v))"
      "length (trace t) \<le> length (trace ?v) + 2 * (unat threshold + 1) + 1"
    using an_wait_result [OF order_refl m lim, of pmac ?v] by blast
  show ?thesis using True t(2,3)
    by (simp add: an_restart_eq Let_def t(1) restarted_length selected_length wr_mdio_addr_def)
next
  case False
  then show ?thesis
    by (simp add: an_restart_eq Let_def wr_mdio_addr_def selected_length iord_def [of _ 1] rd32_def)
qed

subsection \<open>A PHY that cannot negotiate\<close>

lemma bus_only_phy_reg:
  "bus_only s t \<Longrightarrow> (\<And>es. P (ucast (hw s es (reg_at pmac reg)))) \<Longrightarrow> P (phy_reg pmac reg t)"
  by (simp add: phy_reg_def bus_only_hw)

lemma link_wait_never:
  assumes "\<And>es. \<not> bit (hw s es (reg_at pmac 1)) 3 \<and> \<not> bit (hw s es (reg_at pmac 1)) 5"
  shows "link_wait pmac a threshold timeout s = None"
  using assms
proof (induction "nat (ALT_32_MAX - timeout)" arbitrary: timeout s rule: less_induct)
  case less
  have bits: "\<not> can_negotiate pmac t \<and> \<not> negotiated pmac t" if "bus_only s t" for t
    using less(2) bus_only_hw [OF that] by (simp add: can_negotiate_def negotiated_def phy_reg_def bit_simps)
  obtain c u where c: "no_link pmac s = (c, u)" by fastforce
  have u: "bus_only s u" using no_link_frame [OF c] .
  obtain v w where v: "rd_mdio_reg pmac 0 14 1 s = (v, w)" by fastforce
  obtain x y where x: "rd_mdio_reg pmac 1 5 1 w = (x, y)" by fastforce
  have "x = 0" using rd_complete [OF x] bits rd_frame(1) [OF v] by blast
  then have "c" using c by (auto simp: no_link_def v x split: if_splits)
  have next_pass: "link_wait pmac a threshold (timeout + 1) t = None" if "timeout < ALT_32_MAX" "bus_only s t" for t
    by (rule less(1)) (use that less(2) bus_only_hw [OF that(2)] in auto)
  show ?case
  proof (cases "an_restart pmac a threshold u")
    case None
    then show ?thesis using \<open>c\<close> next_pass wr_steps(5) [OF u]
      by (subst link_wait.simps) (simp add: c)
  next
    case (Some p)
    obtain r t where p: "p = (r, t)" by fastforce
    have "bus_only s (selected pmac a u)" using u by (simp add: selected_def frame_steps)
    then have "r = TSE_PHY_AN_NOT_CAPABLE" using Some bits by (simp add: p an_restart_eq)
    moreover have "bus_only s t" using restart_frame Some u bus_only_trans by (metis p)
    ultimately show ?thesis using \<open>c\<close> Some next_pass [OF _ wr_steps(5)] u
      by (subst link_wait.simps) (simp add: c p)
  qed
qed

text \<open>C32: With a PHY that cannot negotiate (the ability bit reads 0, and so does the complete bit)
  \<open>alt_tse_phy_check_link\<close> never returns, whatever the threshold: the restart it asks for answers
  that the PHY is not capable, which the loop takes for ``try again''.\<close>

theorem check_link_never_returns:
  assumes "\<And>es. \<not> bit (hw s es (reg_at pmac 1)) 3 \<and> \<not> bit (hw s es (reg_at pmac 1)) 5"
  shows "an_check_link pmac a threshold s = None"
proof -
  have "bus_only s (wr_mdio_addr pmac a (snd (rd_mdio_addr pmac s)))" by (simp add: frame_steps)
  then have "link_wait pmac a threshold 0 (wr_mdio_addr pmac a (snd (rd_mdio_addr pmac s))) = None"
    by (intro link_wait_never) (simp add: bus_only_hw assms)
  then show ?thesis by (simp add: an_check_link_def Let_def split_beta)
qed
text \<open>If the check returns, it has put the previous PHY address back, and a complete link was
  seen: no loopback and a finished negotiation.\<close>

lemma link_wait_result:
  "link_wait pmac a threshold timeout s = Some (r, t) \<Longrightarrow>
    r \<noteq> TSE_PHY_AN_NOT_CAPABLE \<and> (r = TSE_PHY_AN_COMPLETE \<longrightarrow> (\<exists>u. bus_only s u \<and> no_link pmac u = (False, t)))"
proof (induction "nat (ALT_32_MAX - timeout)" arbitrary: timeout s rule: less_induct)
  case less
  obtain c u where c: "no_link pmac s = (c, u)" by fastforce
  have u: "bus_only s u" using no_link_frame [OF c] .
  show ?case
  proof (cases "c \<and> timeout < ALT_32_MAX")
    case True
    have IH: "r \<noteq> TSE_PHY_AN_NOT_CAPABLE
        \<and> (r = TSE_PHY_AN_COMPLETE \<longrightarrow> (\<exists>w. bus_only s w \<and> no_link pmac w = (False, t)))"
      if v: "link_wait pmac a threshold (timeout + 1) (usleep 1000 v) = Some (r, t)" "bus_only s v" for v
    proof -
      have "r \<noteq> TSE_PHY_AN_NOT_CAPABLE
          \<and> (r = TSE_PHY_AN_COMPLETE \<longrightarrow> (\<exists>w. bus_only (usleep 1000 v) w \<and> no_link pmac w = (False, t)))"
        by (rule less(1) [OF _ v(1)]) (use True in auto)
      then show ?thesis using bus_only_trans [OF wr_steps(5) [OF v(2)]] by blast
    qed
    consider "link_wait pmac a threshold (timeout + 1) (usleep 1000 u) = Some (r, t)"
      | v q where "an_restart pmac a threshold u = Some (q, v)"
          "link_wait pmac a threshold (timeout + 1) (usleep 1000 v) = Some (r, t)"
      | "r = TSE_PHY_AN_NOT_COMPLETE"
      using less(2) True by (subst (asm) link_wait.simps) (auto simp: c split: if_splits bind_splits)
    then show ?thesis
      by cases (use IH u bus_only_trans [OF u restart_frame] in auto)
  next
    case False
    then have "\<not> c \<and> r = TSE_PHY_AN_COMPLETE \<and> t = u"
      using less(2) by (subst (asm) link_wait.simps) (auto simp: c split: if_splits)
    then show ?thesis using c by auto
  qed
qed

lemma check_link_result:
  assumes "an_check_link pmac a threshold s = Some (r, t)"
  shows "r \<noteq> TSE_PHY_AN_NOT_CAPABLE"
    and "hd (writes t) = Wr32 (pmac + MDIO_ADDR1) (ucast (addr_before pmac s))"
  using assms rd_mdio_addr_eq [of pmac s]
  by (auto simp: an_check_link_def Let_def split_beta wr_mdio_addr_def dest: link_wait_result split: bind_splits)

subsection \<open>Instances\<close>

definition bus_with :: "(ioev list \<Rightarrow> u32 \<Rightarrow> u32) \<Rightarrow> bus" where
  "bus_with h = \<lparr>hw = h, ipend = (\<lambda>_. 0), trace = [], cpu_status = 0, ienable = 0\<rparr>"

lemma bus_with_simps [simp]: "hw (bus_with h) = h" "trace (bus_with h) = []" "writes (bus_with h) = []"
  by (simp_all add: bus_with_def writes_def)

text \<open>Registers that keep the 32-bit words written to them.\<close>

primrec last_word :: "ioev list \<Rightarrow> u32 \<Rightarrow> u32" where
  "last_word [] a = 0"
| "last_word (e # es) a = (case e of Wr32 b v \<Rightarrow> if a = b then v else last_word es a | _ \<Rightarrow> last_word es a)"

lemma last_word_skip: "\<forall>e\<in>set es. \<not> is_wr e \<Longrightarrow> last_word (es @ fs) a = last_word fs a"
  by (induction es) (auto split: ioev.splits)

lemma last_word_plain: "plain_reg last_word a"
  by (simp add: plain_reg_def last_word_skip)

theorem sw_reset_bounded_witness:
  "writes (snd (tse_mac_SwReset 0x1000 (bus_with last_word))) = [Wr32 0x1008 0, Wr32 0x1008 0x2008]"
  using sw_reset_bounded(2) [where pmac = "0x1000" and s = "bus_with last_word", OF prod.collapse [symmetric]] by simp

theorem mdio_field_roundtrip_witness:
  "fst (rd_mdio_reg 0x1000 9 8 2 (wr_mdio_reg 0x1000 9 8 2 3 (bus_with last_word))) = 3"
  using mdio_field_roundtrip [where s = "bus_with last_word" and pmac = "0x1000" and reg = 9 and lsb = 8
      and n = 2 and data = 3, OF _ _ refl]
  by (simp add: last_word_plain take_bit_eq_mask mask_numeral)

theorem restart_an_bounded_witness:
  "\<exists>t. an_restart 0 1 2500 (bus_with (\<lambda>es a. if a = reg_at 0 1 then 0x28 else 0)) = Some (TSE_PHY_AN_COMPLETE, t)"
proof -
  let ?h = "\<lambda>es a. if a = reg_at 0 1 then 0x28 else 0 :: u32"
  have h: "hw (selected 0 1 (bus_with ?h)) = ?h" "hw (restarted 0 (selected 0 1 (bus_with ?h))) = ?h"
    using bus_only_hw [of "bus_with ?h" "selected 0 1 (bus_with ?h)"]
      bus_only_hw [of "bus_with ?h" "restarted 0 (selected 0 1 (bus_with ?h))"]
    by (simp_all add: selected_def restarted_def frame_steps)
  have "can_negotiate 0 (selected 0 1 (bus_with ?h))"
    by (simp add: can_negotiate_def phy_reg_def h bit_numeral_rec)
  moreover have "\<exists>k\<le>unat (2500 :: u32) + 1. negotiated 0 ((an_pass 0 ^^ k) (restarted 0 (selected 0 1 (bus_with ?h))))"
    by (rule exI [of _ 0]) (simp add: negotiated_def phy_reg_def h bit_numeral_rec)
  ultimately show ?thesis
    using restart_an_bounded [of 2500 0 1 "bus_with ?h"] by auto
qed

theorem check_link_never_returns_witness: "an_check_link 0 1 10000 (bus_with (\<lambda>_ _. 0)) = None"
  by (rule check_link_never_returns) simp

end
