(* ===== verification/Phy.thy ===== *)
theory Phy
  imports Mdio
begin

text \<open>
  The transceivers (PHYs) of the Ethernet core, \<open>altera_avalon_tse.c\<close>: the description of the
  system (\<open>tse_mac_device\<close>), the profiles of known PHYs, the groups of MACs that share an MDIO
  block, the detection of the PHYs, and the speed they have in common.

  A structure the code allocates lives in a list (\<open>mac_groups\<close>, \<open>mac_infos\<close>,
  \<open>phy_infos\<close>) and a pointer to it is its index; a pointer into \<open>tse_mac_device\<close> is an
  index as well, and a null pointer is \<open>None\<close>.  The arrays of pointers with a counter are
  the lists of the entries counted (\<open>pphy_profiles\<close>, \<open>pmac_groups\<close>,
  \<open>pmac_info\<close>): storing beyond the array's size is an access out of bounds.
  \<open>malloc_ok n\<close> says whether the \<open>n\<close>-th allocation succeeds.  What a user's configuration
  function does is the parameter \<open>user\<close>.  The indices that only appear in messages are not
  computed.  A result \<open>None\<close> is an access out of bounds, a null or unset pointer, the use of
  a structure member never written, or a loop that does not end.
\<close>

unbundle bit_operations_syntax

subsection \<open>Data\<close>

datatype cfg_fn = Marvell_phy_cfg | PEF7071_cfg | User_cfg nat

datatype status_fn = DP83848C_status | PEF7071_status

record alt_tse_system_mac =
  mac_base :: u32
  mac_tx_depth :: u16
  mac_rx_depth :: u16
  mac_use_mdio :: u8
  mac_en_maclite :: u8
  mac_maclite_gige :: u8
  mac_multichannel :: u8
  mac_num_of_channel :: u8
  mac_mdio_shared :: u8
  mac_number_mdio_shared :: u8
  mac_pcs_ena :: u8
  mac_pcs_sgmii :: u8

record alt_tse_system_msgdma =
  msgdma_tx :: "string option"
  msgdma_rx :: "string option"
  msgdma_rx_irq :: u16

record alt_tse_system_desc_mem =
  mem_ext :: u8
  mem_base :: u32

record alt_tse_system_shared_fifo =
  fifo_use :: u8
  fifo_tx_ctrl_base :: u32
  fifo_tx_stat_base :: u32
  fifo_tx_depth :: u32
  fifo_rx_ctrl_base :: u32
  fifo_rx_stat_base :: u32
  fifo_rx_depth :: u32

record alt_tse_system_phy =
  phy_mdio_address :: u32
  phy_user_cfg :: "cfg_fn option"

record alt_tse_system_info =
  tse_mac_base :: u32
  tse_tx_depth :: u32
  tse_rx_depth :: u32
  tse_use_mdio :: u8
  tse_en_maclite :: u8
  tse_maclite_gige :: u8
  tse_multichannel_mac :: u8
  tse_num_of_channel :: u8
  tse_mdio_shared :: u8
  tse_number_of_mac_mdio_shared :: u8
  tse_pcs_ena :: u8
  tse_pcs_sgmii :: u8
  tse_msgdma_tx :: "string option"
  tse_msgdma_rx :: "string option"
  tse_msgdma_rx_irq :: u16
  ext_desc_mem :: u8
  desc_mem_base :: u32
  use_shared_fifo :: u8
  tse_shared_fifo_tx_ctrl_base :: u32
  tse_shared_fifo_tx_stat_base :: u32
  tse_shared_fifo_tx_depth :: u32
  tse_shared_fifo_rx_ctrl_base :: u32
  tse_shared_fifo_rx_stat_base :: u32
  tse_shared_fifo_rx_depth :: u32
  tse_phy_mdio_address :: u32
  tse_phy_cfg :: "cfg_fn option"

record alt_tse_phy_profile =
  profile_name :: string
  oui :: u32
  model_number :: u8
  revision_number :: u8
  status_reg_location :: u8
  speed_lsb_location :: u8
  duplex_bit_location :: u8
  link_bit_location :: u8
  phy_cfg :: "cfg_fn option"
  link_status_read :: "status_fn option"

text \<open>\<open>link_capability\<close> is \<open>None\<close> until the capabilities have been read: the
  structure comes from \<open>malloc\<close>.\<close>

record alt_tse_phy_info =
  mdio_address :: u8
  link_capability :: "alt_tse_phy_link_cap option"
  pphy_profile :: "nat option"
  phy_mac :: "nat option"

datatype mac_kind = ALTERA_TSE_FULL_MAC | ALTERA_TSE_MACLITE_10_100 | ALTERA_TSE_MACLITE_1000

record alt_tse_mac_info =
  mac_type :: mac_kind
  pphy_info :: "nat option"
  psys_info :: nat
  pmac_group :: nat

record alt_tse_mac_group =
  channel :: u8
  pmac_info :: "nat list"

record tse = bus +
  tse_mac_device :: "alt_tse_system_info list"
  tse_system_count :: u8
  max_mac_system :: u8
  pphy_profiles :: "alt_tse_phy_profile list"
  pmac_groups :: "nat list"
  mac_groups :: "alt_tse_mac_group list"
  mac_infos :: "alt_tse_mac_info list"
  phy_infos :: "alt_tse_phy_info list"
  malloc_ok :: "nat \<Rightarrow> bool"
  mallocs :: nat
  is_init :: bool

abbreviation (input) "MAXNETS \<equiv> (8 :: nat)"
abbreviation (input) "TSE_MAX_PHY_PROFILE \<equiv> (8 :: nat)"
abbreviation (input) "TSE_PHY_AUTO_ADDRESS \<equiv> (- 1 :: u32)"

datatype tse_error = ALTERA_TSE_MALLOC_FAILED | ALTERA_TSE_SYSTEM_DEF_ERROR

definition tse_malloc :: "'a tse_scheme \<Rightarrow> bool \<times> 'a tse_scheme" where
  "tse_malloc s = (malloc_ok s (mallocs s), s\<lparr>mallocs := Suc (mallocs s)\<rparr>)"

text \<open>An element of an array or of the heap; \<open>None\<close> outside.\<close>

definition at :: "'x list \<Rightarrow> nat \<Rightarrow> 'x option" where
  "at xs i = (if i < length xs then Some (xs ! i) else None)"

lemma at_Some [simp]: "at xs i = Some x \<longleftrightarrow> i < length xs \<and> x = xs ! i"
  by (auto simp: at_def)

lemma at_None [simp]: "at xs i = None \<longleftrightarrow> length xs \<le> i"
  by (auto simp: at_def)

definition upd_sys ::
  "nat \<Rightarrow> (alt_tse_system_info \<Rightarrow> alt_tse_system_info) \<Rightarrow> 'a tse_scheme \<Rightarrow> 'a tse_scheme option" where
  "upd_sys n f s =
    (if n < length (tse_mac_device s) then
       Some (s\<lparr>tse_mac_device := (tse_mac_device s)[n := f (tse_mac_device s ! n)]\<rparr>)
     else None)"

subsection \<open>Profiles\<close>

definition alt_tse_phy_add_profile ::
  "alt_tse_phy_profile \<Rightarrow> 'a tse_scheme \<Rightarrow> ((tse_error + nat) \<times> 'a tse_scheme) option" where
  "alt_tse_phy_add_profile phy s =
    (if length (pphy_profiles s) < TSE_MAX_PHY_PROFILE then
       let (ok, s) = tse_malloc s in
       if \<not> ok then Some (Inl ALTERA_TSE_MALLOC_FAILED, s)
       else Some (Inr (length (pphy_profiles s)), s\<lparr>pphy_profiles := pphy_profiles s @ [phy]\<rparr>)
     else None)"

definition MV88E1111 :: alt_tse_phy_profile where
  "MV88E1111 = \<lparr>profile_name = ''Marvell 88E1111'', oui = 0x005043, model_number = 0x0c,
     revision_number = 0x2, status_reg_location = 0x11, speed_lsb_location = 14,
     duplex_bit_location = 13, link_bit_location = 10, phy_cfg = Some Marvell_phy_cfg,
     link_status_read = None\<rparr>"

definition MV88E1145 :: alt_tse_phy_profile where
  "MV88E1145 = \<lparr>profile_name = ''Marvell Quad PHY 88E1145'', oui = 0x005043, model_number = 0x0d,
     revision_number = 0x2, status_reg_location = 0x11, speed_lsb_location = 14,
     duplex_bit_location = 13, link_bit_location = 10, phy_cfg = Some Marvell_phy_cfg,
     link_status_read = None\<rparr>"

definition DP83865 :: alt_tse_phy_profile where
  "DP83865 = \<lparr>profile_name = ''National DP83865'', oui = 0x080017, model_number = 0x07,
     revision_number = 0xa, status_reg_location = 0x11, speed_lsb_location = 3,
     duplex_bit_location = 1, link_bit_location = 2, phy_cfg = None, link_status_read = None\<rparr>"

definition DP83848C :: alt_tse_phy_profile where
  "DP83848C = \<lparr>profile_name = ''National DP83848C'', oui = 0x080017, model_number = 0x09,
     revision_number = 0x0, status_reg_location = 0, speed_lsb_location = 0,
     duplex_bit_location = 0, link_bit_location = 0, phy_cfg = None,
     link_status_read = Some DP83848C_status\<rparr>"

definition PEF7071 :: alt_tse_phy_profile where
  "PEF7071 = \<lparr>profile_name = ''Intel PEF7071'',
     oui = push_bit 6 0xd565 OR (drop_bit 10 0xa401 AND 0x3f), model_number = ucast (drop_bit 4 0xa401 AND 0x3f :: u16),
     revision_number = ucast (0xa401 AND 0x0f :: u16), status_reg_location = 0, speed_lsb_location = 0,
     duplex_bit_location = 0, link_bit_location = 0, phy_cfg = Some PEF7071_cfg,
     link_status_read = Some PEF7071_status\<rparr>"

text \<open>The answers of the five calls are ignored.\<close>

definition alt_tse_phy_add_profile_default :: "'a tse_scheme \<Rightarrow> (nat \<times> 'a tse_scheme) option" where
  "alt_tse_phy_add_profile_default s = do {
     (_, s) \<leftarrow> alt_tse_phy_add_profile MV88E1111 s;
     (_, s) \<leftarrow> alt_tse_phy_add_profile MV88E1145 s;
     (_, s) \<leftarrow> alt_tse_phy_add_profile DP83865 s;
     (_, s) \<leftarrow> alt_tse_phy_add_profile DP83848C s;
     (_, s) \<leftarrow> alt_tse_phy_add_profile PEF7071 s;
     Some (length (pphy_profiles s), s) }"
subsection \<open>The description of the system\<close>

definition set_mac :: "alt_tse_system_mac \<Rightarrow> nat \<Rightarrow> alt_tse_system_info \<Rightarrow> alt_tse_system_info" where
  "set_mac m i d = d\<lparr>tse_mac_base := mac_base m + of_nat i * 0x400,
     tse_tx_depth := ucast (mac_tx_depth m), tse_rx_depth := ucast (mac_rx_depth m),
     tse_use_mdio := mac_use_mdio m, tse_en_maclite := mac_en_maclite m,
     tse_maclite_gige := mac_maclite_gige m, tse_multichannel_mac := mac_multichannel m,
     tse_num_of_channel := mac_num_of_channel m, tse_mdio_shared := mac_mdio_shared m,
     tse_number_of_mac_mdio_shared := mac_number_mdio_shared m,
     tse_pcs_ena := mac_pcs_ena m, tse_pcs_sgmii := mac_pcs_sgmii m\<rparr>"

definition set_mem :: "alt_tse_system_desc_mem option \<Rightarrow> alt_tse_system_info \<Rightarrow> alt_tse_system_info" where
  "set_mem mem d = (case mem of
       None \<Rightarrow> d\<lparr>ext_desc_mem := 0, desc_mem_base := 0\<rparr>
     | Some m \<Rightarrow> d\<lparr>ext_desc_mem := mem_ext m, desc_mem_base := mem_base m\<rparr>)"

definition set_fifo :: "alt_tse_system_shared_fifo option \<Rightarrow> alt_tse_system_info \<Rightarrow> alt_tse_system_info" where
  "set_fifo fifo d = (case fifo of
       None \<Rightarrow> d\<lparr>use_shared_fifo := 0, tse_shared_fifo_tx_ctrl_base := 0,
          tse_shared_fifo_tx_stat_base := 0, tse_shared_fifo_tx_depth := 0,
          tse_shared_fifo_rx_ctrl_base := 0, tse_shared_fifo_rx_stat_base := 0,
          tse_shared_fifo_rx_depth := 0\<rparr>
     | Some f \<Rightarrow> d\<lparr>use_shared_fifo := fifo_use f, tse_shared_fifo_tx_ctrl_base := fifo_tx_ctrl_base f,
          tse_shared_fifo_tx_stat_base := fifo_tx_stat_base f, tse_shared_fifo_tx_depth := fifo_tx_depth f,
          tse_shared_fifo_rx_ctrl_base := fifo_rx_ctrl_base f,
          tse_shared_fifo_rx_stat_base := fifo_rx_stat_base f,
          tse_shared_fifo_rx_depth := fifo_rx_depth f\<rparr>)"

definition set_phy :: "alt_tse_system_phy option \<Rightarrow> alt_tse_system_info \<Rightarrow> alt_tse_system_info" where
  "set_phy phy d = (case phy of
       None \<Rightarrow> d\<lparr>tse_phy_mdio_address := TSE_PHY_AUTO_ADDRESS, tse_phy_cfg := None\<rparr>
     | Some p \<Rightarrow> d\<lparr>tse_phy_mdio_address := phy_mdio_address p, tse_phy_cfg := phy_user_cfg p\<rparr>)"

text \<open>A name is copied into memory allocated for it; \<open>strlen\<close> of a null pointer is
  \<open>None\<close>.  A failed allocation leaves a null name behind.\<close>

definition copy_name ::
  "(string option \<Rightarrow> alt_tse_system_info \<Rightarrow> alt_tse_system_info) \<Rightarrow> string option \<Rightarrow> nat
    \<Rightarrow> 'a tse_scheme \<Rightarrow> (bool \<times> 'a tse_scheme) option" where
  "copy_name store name n s = do {
     _ \<leftarrow> name;
     let (ok, s) = tse_malloc s;
     s \<leftarrow> upd_sys n (store (if ok then name else None)) s;
     Some (ok, s) }"

text \<open>The pointers to the optional structures: null, or what is left of the array.\<close>

definition head_of :: "'x list option \<Rightarrow> 'x option option" where
  "head_of p = (case p of None \<Rightarrow> Some None | Some [] \<Rightarrow> None | Some (x # xs) \<Rightarrow> Some (Some x))"

text \<open>The first \<open>n\<close> passes left of the loop over the channels.  When the array is full the
  code says so and goes on, which stores behind its end.\<close>

primrec add_channels ::
  "nat \<Rightarrow> nat \<Rightarrow> alt_tse_system_mac \<Rightarrow> alt_tse_system_msgdma list option
    \<Rightarrow> alt_tse_system_desc_mem list option \<Rightarrow> alt_tse_system_shared_fifo list option
    \<Rightarrow> alt_tse_system_phy list option \<Rightarrow> 'a tse_scheme \<Rightarrow> ((tse_error + int) \<times> 'a tse_scheme) option" where
  "add_channels 0 i mac msgdma mem fifo phy s = Some (Inr SUCCESS, s)"
| "add_channels (Suc n) i mac msgdma mem fifo phy s = do {
     let k = unat (tse_system_count s);
     s \<leftarrow> upd_sys k (set_mac mac i) s;
     dma \<leftarrow> head_of msgdma;
     case dma of
       None \<Rightarrow> Some (Inl ALTERA_TSE_SYSTEM_DEF_ERROR, s)
     | Some dma \<Rightarrow> do {
         (ok, s) \<leftarrow> copy_name (\<lambda>v d. d\<lparr>tse_msgdma_tx := v\<rparr>) (msgdma_tx dma) k s;
         if \<not> ok then Some (Inl ALTERA_TSE_MALLOC_FAILED, s) else do {
         (ok, s) \<leftarrow> copy_name (\<lambda>v d. d\<lparr>tse_msgdma_rx := v\<rparr>) (msgdma_rx dma) k s;
         if \<not> ok then Some (Inl ALTERA_TSE_MALLOC_FAILED, s) else do {
         s \<leftarrow> upd_sys k (\<lambda>d. d\<lparr>tse_msgdma_rx_irq := msgdma_rx_irq dma\<rparr>) s;
         m \<leftarrow> head_of mem;
         s \<leftarrow> upd_sys k (set_mem m) s;
         f \<leftarrow> head_of fifo;
         s \<leftarrow> upd_sys k (set_fifo f) s;
         p \<leftarrow> head_of phy;
         s \<leftarrow> upd_sys k (set_phy p) s;
         let s = s\<lparr>tse_system_count := tse_system_count s + 1\<rparr>;
         let s = s\<lparr>max_mac_system := tse_system_count s\<rparr>;
         add_channels n (Suc i) mac (map_option tl msgdma) (map_option tl mem)
           (map_option tl fifo) (map_option tl phy) s } } } }"

text \<open>The number of channels is read before the pointer is compared with 0; it is unsigned, so
  the branch for a negative number is never taken.\<close>

definition alt_tse_system_add_sys ::
  "alt_tse_system_mac option \<Rightarrow> alt_tse_system_msgdma list option
    \<Rightarrow> alt_tse_system_desc_mem list option \<Rightarrow> alt_tse_system_shared_fifo list option
    \<Rightarrow> alt_tse_system_phy list option \<Rightarrow> 'a tse_scheme \<Rightarrow> ((tse_error + int) \<times> 'a tse_scheme) option" where
  "alt_tse_system_add_sys psys_mac psys_msgdma psys_mem psys_fifo psys_phy s = do {
     mac \<leftarrow> psys_mac;
     add_channels (if mac_num_of_channel mac = 0 then 1 else unat (mac_num_of_channel mac)) 0
       mac psys_msgdma psys_mem psys_fifo psys_phy s }"

text \<open>MDIO sharing for a list of MACs (null pointers included).\<close>

definition share_dev :: "u32 \<Rightarrow> u8 \<Rightarrow> nat \<Rightarrow> 'a tse_scheme \<Rightarrow> (bool \<times> 'a tse_scheme) option" where
  "share_dev base n j s = do {
     d \<leftarrow> at (tse_mac_device s) j;
     if base = tse_mac_base d then
       if tse_multichannel_mac d \<noteq> 0 then Some (False, s)
       else do {
         s \<leftarrow> upd_sys j (\<lambda>d. d\<lparr>tse_mdio_shared := 1, tse_number_of_mac_mdio_shared := n\<rparr>) s;
         Some (True, s) }
     else Some (True, s) }"

primrec share_devs :: "nat list \<Rightarrow> u32 \<Rightarrow> u8 \<Rightarrow> 'a tse_scheme \<Rightarrow> (bool \<times> 'a tse_scheme) option" where
  "share_devs [] base n s = Some (True, s)"
| "share_devs (j # js) base n s = do {
     (ok, s) \<leftarrow> share_dev base n j s;
     if ok then share_devs js base n s else Some (False, s) }"

primrec share_macs ::
  "alt_tse_system_mac option list \<Rightarrow> u8 \<Rightarrow> 'a tse_scheme \<Rightarrow> ((tse_error + int) \<times> 'a tse_scheme) option" where
  "share_macs [] n s = Some (Inr SUCCESS, s)"
| "share_macs (m # ms) n s =
    (case m of
       None \<Rightarrow> Some (Inl ALTERA_TSE_SYSTEM_DEF_ERROR, s)
     | Some mac \<Rightarrow> do {
         (ok, s) \<leftarrow> share_devs [0..<unat (max_mac_system s)] (mac_base mac) n s;
         if ok then share_macs ms n s else Some (Inl ALTERA_TSE_SYSTEM_DEF_ERROR, s) })"

definition alt_tse_sys_enable_mdio_sharing ::
  "alt_tse_system_mac option list \<Rightarrow> u8 \<Rightarrow> 'a tse_scheme \<Rightarrow> ((tse_error + int) \<times> 'a tse_scheme) option" where
  "alt_tse_sys_enable_mdio_sharing psys_mac_list number_of_mac s = do {
     (r, s) \<leftarrow> share_macs (take (unat number_of_mac) psys_mac_list) number_of_mac s;
     if r = Inr SUCCESS \<and> length psys_mac_list < unat number_of_mac then None else Some (r, s) }"
subsection \<open>Groups of MACs\<close>

text \<open>The loop over the channels of a group.  The counter is an \<open>alt_8\<close>, but the array
  of a group ends at 8.  \<open>psys_info\<close> is the element number \<open>i + j\<close> of the array of
  systems.\<close>

definition mac_kind_of :: "alt_tse_system_info \<Rightarrow> mac_kind" where
  "mac_kind_of d =
    (if tse_en_maclite d \<noteq> 0 then
       if tse_maclite_gige d \<noteq> 0 then ALTERA_TSE_MACLITE_1000 else ALTERA_TSE_MACLITE_10_100
     else ALTERA_TSE_FULL_MAC)"

definition new_mac_info :: "alt_tse_mac_info \<Rightarrow> 'a tse_scheme \<Rightarrow> nat \<times> 'a tse_scheme" where
  "new_mac_info mi s = (length (mac_infos s), s\<lparr>mac_infos := mac_infos s @ [mi]\<rparr>)"

primrec group_channels ::
  "nat \<Rightarrow> nat \<Rightarrow> nat \<Rightarrow> nat \<Rightarrow> 'a tse_scheme \<Rightarrow> (tse_error option \<times> 'a tse_scheme) option" where
  "group_channels 0 j i g s = Some (None, s)"
| "group_channels (Suc n) j i g s = do {
     let (ok, s) = tse_malloc s;
     if \<not> ok then Some (Some ALTERA_TSE_MALLOC_FAILED, s)
     else do {
       d \<leftarrow> at (tse_mac_device s) (i + j);
       if tse_msgdma_tx d = None \<or> tse_msgdma_rx d = None then
         Some (Some ALTERA_TSE_SYSTEM_DEF_ERROR, s)
       else do {
         let (p, s) = new_mac_info \<lparr>mac_type = mac_kind_of d, pphy_info = None,
           psys_info = i + j, pmac_group = g\<rparr> s;
         grp \<leftarrow> at (mac_groups s) g;
         if length (pmac_info grp) < MAXNETS then
           group_channels n (Suc j) i g
             (s\<lparr>mac_groups := (mac_groups s)[g := grp\<lparr>pmac_info := pmac_info grp @ [p]\<rparr>]\<rparr>)
         else None } } }"

definition channels_of :: "alt_tse_system_info \<Rightarrow> u8" where
  "channels_of d =
    (if tse_multichannel_mac d \<noteq> 0 then tse_num_of_channel d
     else if tse_mdio_shared d \<noteq> 0 then tse_number_of_mac_mdio_shared d
     else 1)"

lemma group_channels_frame:
  "group_channels n j i g s = Some (r, t) \<Longrightarrow>
    tse_mac_device t = tse_mac_device s \<and> max_mac_system t = max_mac_system s
    \<and> pmac_groups t = pmac_groups s"
  by (induction n arbitrary: j s)
    (auto simp: tse_malloc_def new_mac_info_def Let_def at_def split: if_splits bind_splits)

text \<open>The loop over the systems, from number \<open>i\<close>.  The counter of the code skips the
  other channels of a group (\<open>i += channel - 1\<close>, then \<open>i++\<close>).\<close>

function group_systems :: "nat \<Rightarrow> 'a tse_scheme \<Rightarrow> (tse_error option \<times> 'a tse_scheme) option" where
  "group_systems i s =
    (if i < unat (max_mac_system s) then do {
       psys \<leftarrow> at (tse_mac_device s) i;
       if tse_msgdma_tx psys \<noteq> None \<and> tse_msgdma_rx psys \<noteq> None then do {
         let (ok, s) = tse_malloc s;
         if \<not> ok then Some (Some ALTERA_TSE_MALLOC_FAILED, s)
         else do {
           let g = length (mac_groups s);
           let s = s\<lparr>mac_groups := mac_groups s @ [\<lparr>channel = channels_of psys, pmac_info = []\<rparr>]\<rparr>;
           (r, s) \<leftarrow> group_channels (unat (channels_of psys)) 0 i g s;
           if r \<noteq> None then Some (r, s)
           else if length (pmac_groups s) < MAXNETS then
             group_systems (i + unat (channels_of psys)) (s\<lparr>pmac_groups := pmac_groups s @ [g]\<rparr>)
           else None } }
       else group_systems (Suc i) s }
     else Some (None, s))"
  by pat_completeness auto
termination
proof (relation "measure (\<lambda>(i, s). (length (tse_mac_device s) - i) + (8 - length (pmac_groups s)))", goal_cases)
  case 1
  show ?case by simp
next
  case (2 i s psys p ok s1 g s2 rs r s3)
  then have "tse_mac_device s3 = tse_mac_device s" "pmac_groups s3 = pmac_groups s"
    by (auto simp: tse_malloc_def dest!: group_channels_frame)
  then show ?case using 2 by (auto simp: at_def split: if_splits)
next
  case (3 i s psys)
  then show ?case by (auto simp: at_def split: if_splits)
qed

declare group_systems.simps [simp del]

definition alt_tse_mac_group_init :: "'a tse_scheme \<Rightarrow> (tse_error option \<times> 'a tse_scheme) option" where
  "alt_tse_mac_group_init s = group_systems 0 (s\<lparr>pmac_groups := []\<rparr>)"

subsection \<open>Following the pointers\<close>

definition group_info :: "nat \<Rightarrow> nat \<Rightarrow> 'a tse_scheme \<Rightarrow> alt_tse_mac_info option" where
  "group_info g j s = do { grp \<leftarrow> at (mac_groups s) g; p \<leftarrow> at (pmac_info grp) j; at (mac_infos s) p }"

text \<open>\<open>pmac_group->pmac_info[0]->psys_info\<close>, and the base address in it.\<close>

definition group_sys :: "nat \<Rightarrow> 'a tse_scheme \<Rightarrow> alt_tse_system_info option" where
  "group_sys g s = do { mi \<leftarrow> group_info g 0 s; at (tse_mac_device s) (psys_info mi) }"

definition group_base :: "nat \<Rightarrow> 'a tse_scheme \<Rightarrow> u32 option" where
  "group_base g s = map_option tse_mac_base (group_sys g s)"

text \<open>\<open>pphy->pmac_info->pmac_group->pmac_info[0]->psys_info->tse_mac_base\<close>.\<close>

definition phy_base :: "nat \<Rightarrow> 'a tse_scheme \<Rightarrow> u32 option" where
  "phy_base p s = do {
     phy \<leftarrow> at (phy_infos s) p;
     m \<leftarrow> phy_mac phy;
     mi \<leftarrow> at (mac_infos s) m;
     group_base (pmac_group mi) s }"

text \<open>Where a MAC information structure is found: the first in the groups whose system has the
  address.  \<open>Some None\<close> is the null pointer the code returns when there is none.\<close>

definition info_at :: "u32 \<Rightarrow> nat \<Rightarrow> 'a tse_scheme \<Rightarrow> bool option" where
  "info_at base p s = do {
     mi \<leftarrow> at (mac_infos s) p;
     d \<leftarrow> at (tse_mac_device s) (psys_info mi);
     Some (tse_mac_base d = base) }"

primrec find_info :: "u32 \<Rightarrow> nat list \<Rightarrow> 'a tse_scheme \<Rightarrow> nat option option" where
  "find_info base [] s = Some None"
| "find_info base (p # ps) s = do {
     hit \<leftarrow> info_at base p s;
     if hit then Some (Some p) else find_info base ps s }"

text \<open>The channels a group's loops visit: a group in \<open>pmac_groups\<close> has all its pointers.\<close>

definition group_ptrs :: "nat \<Rightarrow> 'a tse_scheme \<Rightarrow> nat list option" where
  "group_ptrs g s = do {
     grp \<leftarrow> at (mac_groups s) g;
     if unat (channel grp) \<le> length (pmac_info grp) then Some (take (unat (channel grp)) (pmac_info grp))
     else None }"

primrec find_in_groups :: "u32 \<Rightarrow> nat list \<Rightarrow> 'a tse_scheme \<Rightarrow> nat option option" where
  "find_in_groups base [] s = Some None"
| "find_in_groups base (g # gs) s = do {
     ps \<leftarrow> group_ptrs g s;
     r \<leftarrow> find_info base ps s;
     case r of Some p \<Rightarrow> Some (Some p) | None \<Rightarrow> find_in_groups base gs s }"

definition alt_tse_get_mac_info :: "u32 \<Rightarrow> 'a tse_scheme \<Rightarrow> nat option option" where
  "alt_tse_get_mac_info pmac s = find_in_groups pmac (pmac_groups s) s"

text \<open>The indices of the messages: the position of a pointer, -1 if it is not there.\<close>

primrec index_of :: "'x \<Rightarrow> 'x list \<Rightarrow> int" where
  "index_of x [] = - 1"
| "index_of x (y # ys) = (if x = y then 0 else let k = index_of x ys in if k < 0 then - 1 else k + 1)"

definition alt_tse_get_system_index :: "nat \<Rightarrow> 'a tse_scheme \<Rightarrow> int" where
  "alt_tse_get_system_index d s = index_of d [0..<unat (max_mac_system s)]"

definition alt_tse_get_mac_group_index :: "nat \<Rightarrow> 'a tse_scheme \<Rightarrow> int" where
  "alt_tse_get_mac_group_index g s = index_of g (pmac_groups s)"

definition alt_tse_get_mac_info_index :: "nat \<Rightarrow> 'a tse_scheme \<Rightarrow> int option" where
  "alt_tse_get_mac_info_index p s = do {
     mi \<leftarrow> at (mac_infos s) p;
     ps \<leftarrow> group_ptrs (pmac_group mi) s;
     Some (index_of p ps) }"
subsection \<open>Operations on a PHY\<close>

definition phy_op :: "(u32 \<Rightarrow> u8 \<Rightarrow> 'a tse_scheme \<Rightarrow> 'x option) \<Rightarrow> nat \<Rightarrow> 'a tse_scheme \<Rightarrow> 'x option" where
  "phy_op f p s = do { base \<leftarrow> phy_base p s; phy \<leftarrow> at (phy_infos s) p; f base (mdio_address phy) s }"

definition alt_tse_phy_rd_mdio_addr :: "nat \<Rightarrow> 'a tse_scheme \<Rightarrow> (u32 \<times> 'a tse_scheme) option" where
  "alt_tse_phy_rd_mdio_addr = phy_op (\<lambda>base _ s. Some (rd_mdio_addr base s))"

definition alt_tse_phy_wr_mdio_addr :: "nat \<Rightarrow> u8 \<Rightarrow> 'a tse_scheme \<Rightarrow> 'a tse_scheme option" where
  "alt_tse_phy_wr_mdio_addr p a = phy_op (\<lambda>base _ s. Some (wr_mdio_addr base a s)) p"

definition alt_tse_phy_wr_mdio_reg ::
  "nat \<Rightarrow> u8 \<Rightarrow> u8 \<Rightarrow> u8 \<Rightarrow> u16 \<Rightarrow> 'a tse_scheme \<Rightarrow> 'a tse_scheme option" where
  "alt_tse_phy_wr_mdio_reg p reg lsb n data = phy_op (\<lambda>base _ s. Some (wr_mdio_reg base reg lsb n data s)) p"

definition alt_tse_phy_rd_mdio_reg ::
  "nat \<Rightarrow> u8 \<Rightarrow> u8 \<Rightarrow> u8 \<Rightarrow> 'a tse_scheme \<Rightarrow> (u32 \<times> 'a tse_scheme) option" where
  "alt_tse_phy_rd_mdio_reg p reg lsb n = phy_op (\<lambda>base _ s. Some (rd_mdio_reg base reg lsb n s)) p"

definition alt_tse_phy_restart_an ::
  "nat \<Rightarrow> u32 \<Rightarrow> 'a tse_scheme \<Rightarrow> (an_result \<times> 'a tse_scheme) option" where
  "alt_tse_phy_restart_an p threshold = phy_op (\<lambda>base a s. an_restart base a threshold s) p"

definition alt_tse_phy_check_link ::
  "nat \<Rightarrow> u32 \<Rightarrow> 'a tse_scheme \<Rightarrow> (an_result \<times> 'a tse_scheme) option" where
  "alt_tse_phy_check_link p threshold = phy_op (\<lambda>base a s. an_check_link base a threshold s) p"

definition alt_tse_phy_set_adv_1000 :: "nat \<Rightarrow> bool \<Rightarrow> 'a tse_scheme \<Rightarrow> 'a tse_scheme option" where
  "alt_tse_phy_set_adv_1000 p enable = phy_op (\<lambda>base a s. Some (adv_1000 base a enable s)) p"

definition alt_tse_phy_set_adv_100 :: "nat \<Rightarrow> bool \<Rightarrow> 'a tse_scheme \<Rightarrow> 'a tse_scheme option" where
  "alt_tse_phy_set_adv_100 p enable = phy_op (\<lambda>base a s. Some (adv_100 base a enable s)) p"

definition alt_tse_phy_set_adv_10 :: "nat \<Rightarrow> bool \<Rightarrow> 'a tse_scheme \<Rightarrow> 'a tse_scheme option" where
  "alt_tse_phy_set_adv_10 p enable = phy_op (\<lambda>base a s. Some (adv_10 base a enable s)) p"

definition alt_tse_phy_get_cap :: "nat \<Rightarrow> 'a tse_scheme \<Rightarrow> (an_result \<times> 'a tse_scheme) option" where
  "alt_tse_phy_get_cap p s = do {
     (r, caps, s) \<leftarrow> phy_op an_get_cap p s;
     Some (r, case caps of None \<Rightarrow> s
       | Some c \<Rightarrow> s\<lparr>phy_infos := (phy_infos s)[p := (phy_infos s ! p)\<lparr>link_capability := Some c\<rparr>]\<rparr>) }"

definition alt_tse_phy_cfg_pcs :: "nat \<Rightarrow> 'a tse_scheme \<Rightarrow> 'a tse_scheme option" where
  "alt_tse_phy_cfg_pcs m s = do {
     mi \<leftarrow> at (mac_infos s) m;
     psys \<leftarrow> at (tse_mac_device s) (psys_info mi);
     if tse_pcs_ena psys \<noteq> 0 then
       let pmac = tse_mac_base psys; (data, s) = iord (pmac + mdio0) 0x14 s
       in Some (iowr (pmac + mdio0) 0x14 (if tse_pcs_sgmii psys \<noteq> 0 then data OR 0x03 else data AND NOT 0x03) s)
     else Some s }"

subsection \<open>Detection\<close>

definition run_cfg ::
  "(nat \<Rightarrow> u32 \<Rightarrow> 'a tse_scheme \<Rightarrow> (u32 \<times> 'a tse_scheme) option) \<Rightarrow> cfg_fn \<Rightarrow> u32
    \<Rightarrow> 'a tse_scheme \<Rightarrow> (u32 \<times> 'a tse_scheme) option" where
  "run_cfg user f pmac s = (case f of
       Marvell_phy_cfg \<Rightarrow> Some (apfst word_of_int (marvell_phy_cfg pmac s))
     | PEF7071_cfg \<Rightarrow> Some (apfst word_of_int (PEF7071_config pmac s))
     | User_cfg n \<Rightarrow> user n pmac s)"

definition run_opt ::
  "(nat \<Rightarrow> u32 \<Rightarrow> 'a tse_scheme \<Rightarrow> (u32 \<times> 'a tse_scheme) option) \<Rightarrow> cfg_fn option \<Rightarrow> u32
    \<Rightarrow> 'a tse_scheme \<Rightarrow> 'a tse_scheme option" where
  "run_opt user f pmac s = (case f of None \<Rightarrow> Some s | Some f \<Rightarrow> map_option snd (run_cfg user f pmac s))"

text \<open>Mapping a PHY to a MAC of the group: the first channel with the PHY's address, else the
  first with the automatic address.  The second argument is the list of channels still to look
  at.\<close>

primrec find_explicit :: "u8 \<Rightarrow> nat list \<Rightarrow> 'a tse_scheme \<Rightarrow> nat option option" where
  "find_explicit a [] s = Some None"
| "find_explicit a (m # ms) s = do {
     mi \<leftarrow> at (mac_infos s) m;
     psys \<leftarrow> at (tse_mac_device s) (psys_info mi);
     if tse_phy_mdio_address psys = ucast a then Some (Some m) else find_explicit a ms s }"

primrec find_auto :: "nat list \<Rightarrow> 'a tse_scheme \<Rightarrow> nat option option" where
  "find_auto [] s = Some None"
| "find_auto (m # ms) s = do {
     mi \<leftarrow> at (mac_infos s) m;
     psys \<leftarrow> at (tse_mac_device s) (psys_info mi);
     if tse_msgdma_tx psys = None \<or> tse_msgdma_rx psys = None then find_auto ms s
     else if tse_phy_mdio_address psys = TSE_PHY_AUTO_ADDRESS then Some (Some m)
     else find_auto ms s }"

definition link_phy :: "nat \<Rightarrow> nat \<Rightarrow> 'a tse_scheme \<Rightarrow> 'a tse_scheme" where
  "link_phy m p s = s\<lparr>mac_infos := (mac_infos s)[m := (mac_infos s ! m)\<lparr>pphy_info := Some p\<rparr>],
     phy_infos := (phy_infos s)[p := (phy_infos s ! p)\<lparr>phy_mac := Some m\<rparr>]\<rparr>"

text \<open>The answer is whether the mapping succeeded.\<close>

definition alt_tse_mac_associate_phy :: "nat \<Rightarrow> nat \<Rightarrow> 'a tse_scheme \<Rightarrow> (bool \<times> 'a tse_scheme) option" where
  "alt_tse_mac_associate_phy g p s = do {
     ms \<leftarrow> group_ptrs g s;
     phy \<leftarrow> at (phy_infos s) p;
     r \<leftarrow> find_explicit (mdio_address phy) ms s;
     case r of
       Some m \<Rightarrow> Some (True, link_phy m p s)
     | None \<Rightarrow> do {
         r \<leftarrow> find_auto ms s;
         case r of
           Some m \<Rightarrow> do {
             s \<leftarrow> upd_sys (psys_info (mac_infos s ! m))
               (\<lambda>d. d\<lparr>tse_phy_mdio_address := ucast (mdio_address phy)\<rparr>) (link_phy m p s);
             Some (True, s) }
         | None \<Rightarrow> Some (False, s\<lparr>phy_infos := (phy_infos s)[p := phy\<lparr>phy_mac := None\<rparr>]\<rparr>) } }"

text \<open>The identification registers: OUI and model number, and the profile they select.\<close>

definition oui_of :: "u32 \<Rightarrow> u32 \<Rightarrow> u32" where
  "oui_of phyid phyid2 = push_bit 6 phyid OR (drop_bit 10 phyid2 AND 0x3f)"

definition model_of :: "u32 \<Rightarrow> u8" where
  "model_of phyid2 = ucast (drop_bit 4 phyid2 AND 0x3f)"

primrec find_profile :: "u32 \<Rightarrow> u8 \<Rightarrow> nat \<Rightarrow> alt_tse_phy_profile list \<Rightarrow> nat option" where
  "find_profile o' m i [] = None"
| "find_profile o' m i (p # ps) =
    (if oui p = o' \<and> model_number p = m then Some i else find_profile o' m (Suc i) ps)"

text \<open>What is done with a PHY once it is mapped.\<close>

definition setup_phy ::
  "(nat \<Rightarrow> u32 \<Rightarrow> 'a tse_scheme \<Rightarrow> (u32 \<times> 'a tse_scheme) option) \<Rightarrow> u32 \<Rightarrow> nat
    \<Rightarrow> 'a tse_scheme \<Rightarrow> 'a tse_scheme option" where
  "setup_phy user base p s = do {
     phy \<leftarrow> at (phy_infos s) p;
     m \<leftarrow> phy_mac phy;
     mi \<leftarrow> at (mac_infos s) m;
     psys \<leftarrow> at (tse_mac_device s) (psys_info mi);
     s \<leftarrow> alt_tse_phy_wr_mdio_reg p TSE_PHY_MDIO_CONTROL CONTROL_LOOPBACK 1 0 s;
     s \<leftarrow> alt_tse_phy_set_adv_1000 p True s;
     s \<leftarrow> alt_tse_phy_set_adv_100 p True s;
     s \<leftarrow> alt_tse_phy_set_adv_10 p True s;
     (_, s) \<leftarrow> alt_tse_phy_restart_an p ALTERA_CHECKLINK_TIMEOUT_THRESHOLD s;
     s \<leftarrow> (case pphy_profile phy of None \<Rightarrow> Some s
       | Some k \<Rightarrow> do { prof \<leftarrow> at (pphy_profiles s) k; run_opt user (phy_cfg prof) base s });
     psys \<leftarrow> at (tse_mac_device s) (psys_info mi);
     run_opt user (tse_phy_cfg psys) base s }"

text \<open>One address of the scan; \<open>count\<close> is the number of PHYs found, \<open>unknown\<close> those
  without a profile.  The answer \<open>Inl\<close> is a failed allocation.\<close>

definition probe ::
  "(nat \<Rightarrow> u32 \<Rightarrow> 'a tse_scheme \<Rightarrow> (u32 \<times> 'a tse_scheme) option) \<Rightarrow> nat \<Rightarrow> u32 \<Rightarrow> u8 \<Rightarrow> nat
    \<Rightarrow> 'a tse_scheme \<Rightarrow> ((tse_error + nat) \<times> 'a tse_scheme) option" where
  "probe user g base phyadd unknown s = do {
     let s = iowr (base + MDIO_ADDR1) 0 (ucast phyadd) s;
     let (phyid, s) = iord (base + mdio1 + 8) 0 s;
     let (phyid2, s) = iord (base + mdio1 + 12) 0 s;
     if phyid \<noteq> phyid2 then do {
       let (ok, s) = tse_malloc s;
       if \<not> ok then Some (Inl ALTERA_TSE_MALLOC_FAILED, s)
       else do {
         let prof = find_profile (oui_of phyid phyid2) (model_of phyid2) 0 (pphy_profiles s);
         let p = length (phy_infos s);
         let s = s\<lparr>phy_infos := phy_infos s @
           [\<lparr>mdio_address = phyadd, link_capability = None, pphy_profile = prof, phy_mac = None\<rparr>]\<rparr>;
         (mapped, s) \<leftarrow> alt_tse_mac_associate_phy g p s;
         s \<leftarrow> (if mapped then setup_phy user base p s else Some s);
         Some (Inr (if prof = None then Suc unknown else unknown), s) } }
     else Some (Inr unknown, s) }"

primrec probe_all ::
  "(nat \<Rightarrow> u32 \<Rightarrow> 'a tse_scheme \<Rightarrow> (u32 \<times> 'a tse_scheme) option) \<Rightarrow> nat \<Rightarrow> u32 \<Rightarrow> u8 list \<Rightarrow> nat
    \<Rightarrow> 'a tse_scheme \<Rightarrow> ((tse_error + nat) \<times> 'a tse_scheme) option" where
  "probe_all user g base [] unknown s = Some (Inr unknown, s)"
| "probe_all user g base (a # as) unknown s = do {
     (r, s) \<leftarrow> probe user g base a unknown s;
     case r of Inl e \<Rightarrow> Some (Inl e, s) | Inr n \<Rightarrow> probe_all user g base as n s }"

definition alt_tse_mac_get_phy ::
  "(nat \<Rightarrow> u32 \<Rightarrow> 'a tse_scheme \<Rightarrow> (u32 \<times> 'a tse_scheme) option) \<Rightarrow> nat
    \<Rightarrow> 'a tse_scheme \<Rightarrow> ((tse_error + nat) \<times> 'a tse_scheme) option" where
  "alt_tse_mac_get_phy user g s = do {
     base \<leftarrow> group_base g s;
     let (mdioadd_prev, s) = iord (base + MDIO_ADDR1) 0 s;
     (r, s) \<leftarrow> probe_all user g base (map of_nat [0..<32]) 0 s;
     case r of
       Inl e \<Rightarrow> Some (Inl e, s)
     | Inr n \<Rightarrow> Some (Inr n, iowr (base + MDIO_ADDR1) 0 mdioadd_prev s) }"
primrec cfg_all_pcs :: "nat list \<Rightarrow> 'a tse_scheme \<Rightarrow> 'a tse_scheme option" where
  "cfg_all_pcs [] s = Some s"
| "cfg_all_pcs (m # ms) s = do { s \<leftarrow> alt_tse_phy_cfg_pcs m s; cfg_all_pcs ms s }"

primrec init_groups ::
  "(nat \<Rightarrow> u32 \<Rightarrow> 'a tse_scheme \<Rightarrow> (u32 \<times> 'a tse_scheme) option) \<Rightarrow> nat list
    \<Rightarrow> 'a tse_scheme \<Rightarrow> 'a tse_scheme option" where
  "init_groups user [] s = Some s"
| "init_groups user (g # gs) s = do {
     psys \<leftarrow> group_sys g s;
     s \<leftarrow> (if tse_use_mdio psys \<noteq> 0 then map_option snd (alt_tse_mac_get_phy user g s) else Some s);
     ms \<leftarrow> group_ptrs g s;
     s \<leftarrow> cfg_all_pcs ms s;
     init_groups user gs s }"

definition alt_tse_phy_init ::
  "(nat \<Rightarrow> u32 \<Rightarrow> 'a tse_scheme \<Rightarrow> (u32 \<times> 'a tse_scheme) option)
    \<Rightarrow> 'a tse_scheme \<Rightarrow> 'a tse_scheme option" where
  "alt_tse_phy_init user s = do {
     (_, s) \<leftarrow> alt_tse_phy_add_profile_default s;
     (_, s) \<leftarrow> alt_tse_mac_group_init s;
     init_groups user (pmac_groups s) s }"

subsection \<open>The common speed of a group\<close>

primrec reset_adv :: "nat list \<Rightarrow> 'a tse_scheme \<Rightarrow> 'a tse_scheme option" where
  "reset_adv [] s = Some s"
| "reset_adv (m # ms) s = do {
     mi \<leftarrow> at (mac_infos s) m;
     s \<leftarrow> (case pphy_info mi of
         None \<Rightarrow> Some s
       | Some p \<Rightarrow> do {
           s \<leftarrow> alt_tse_phy_set_adv_1000 p True s;
           s \<leftarrow> alt_tse_phy_set_adv_100 p True s;
           alt_tse_phy_set_adv_10 p True s });
     reset_adv ms s }"

record common =
  common_1000 :: u8
  common_100 :: u8
  common_10 :: u8
  none_an_complete :: u8

text \<open>One PHY that completed the negotiation: what its MAC cannot do is struck out, then what
  the PHY and its partner cannot do.\<close>

definition narrow :: "mac_kind \<Rightarrow> alt_tse_phy_link_cap \<Rightarrow> common \<Rightarrow> common" where
  "narrow k c a =
    (let a = a\<lparr>none_an_complete := 0\<rparr>;
         a = (case k of
             ALTERA_TSE_MACLITE_10_100 \<Rightarrow> a\<lparr>common_1000 := 0\<rparr>
           | ALTERA_TSE_MACLITE_1000 \<Rightarrow> a\<lparr>common_100 := 0, common_10 := 0\<rparr>
           | ALTERA_TSE_FULL_MAC \<Rightarrow> a)
     in a\<lparr>common_1000 := common_1000 a AND (cap_1000_base_t_full c AND lp_1000_base_t_full c),
          common_100 := common_100 a AND ((cap_100_base_x_full c AND lp_100_base_tx_full c)
            OR (cap_100_base_x_half c AND lp_100_base_tx_half c)
            OR (cap_100_base_t4 c AND lp_100_base_t4 c)),
          common_10 := common_10 a AND ((cap_10_base_t_full c AND lp_10_base_tx_full c)
            OR (cap_10_base_t_half c AND lp_10_base_tx_half c))\<rparr>)"

primrec common_caps :: "nat list \<Rightarrow> common \<Rightarrow> 'a tse_scheme \<Rightarrow> (common \<times> 'a tse_scheme) option" where
  "common_caps [] a s = Some (a, s)"
| "common_caps (m # ms) a s = do {
     mi \<leftarrow> at (mac_infos s) m;
     case pphy_info mi of
       None \<Rightarrow> common_caps ms a s
     | Some p \<Rightarrow> do {
         (r, s) \<leftarrow> alt_tse_phy_get_cap p s;
         if r \<noteq> TSE_PHY_AN_COMPLETE then common_caps ms a s
         else do {
           phy \<leftarrow> at (phy_infos s) p;
           caps \<leftarrow> link_capability phy;
           common_caps ms (narrow (mac_type mi) caps a) s } } }"

abbreviation (input) "TSE_PHY_SPEED_NO_COMMON \<equiv> (- 1 :: int)"

definition speed_from :: "common \<Rightarrow> int" where
  "speed_from a =
    (if none_an_complete a = 1 then TSE_PHY_SPEED_NO_COMMON
     else if common_1000 a \<noteq> 0 then 2
     else if common_100 a \<noteq> 0 then 1
     else if common_10 a \<noteq> 0 then 0
     else TSE_PHY_SPEED_NO_COMMON)"

definition alt_tse_phy_get_common_speed :: "nat \<Rightarrow> 'a tse_scheme \<Rightarrow> (int \<times> 'a tse_scheme) option" where
  "alt_tse_phy_get_common_speed g s = do {
     ms \<leftarrow> group_ptrs g s;
     s \<leftarrow> reset_adv ms s;
     (a, s) \<leftarrow> common_caps ms \<lparr>common_1000 = 1, common_100 = 1, common_10 = 1, none_an_complete = 1\<rparr> s;
     Some (speed_from a, s) }"

text \<open>Setting one PHY to the common speed; the answer is \<open>False\<close> if it cannot do it.  The
  status register is read once more for a message.\<close>

definition advertise :: "int \<Rightarrow> nat \<Rightarrow> 'a tse_scheme \<Rightarrow> 'a tse_scheme option" where
  "advertise speed p s = do {
     s \<leftarrow> alt_tse_phy_set_adv_1000 p (speed = 2) s;
     s \<leftarrow> alt_tse_phy_set_adv_100 p (speed = 2 \<or> speed = 1) s;
     alt_tse_phy_set_adv_10 p (speed = 2 \<or> speed = 1 \<or> speed = 0) s }"

definition gb_capable :: "alt_tse_phy_link_cap \<Rightarrow> bool" where
  "gb_capable c \<longleftrightarrow> cap_1000_base_t_full c \<noteq> 0 \<or> cap_1000_base_t_half c \<noteq> 0
     \<or> cap_1000_base_x_full c \<noteq> 0 \<or> cap_1000_base_x_half c \<noteq> 0"

definition force_speed :: "int \<Rightarrow> bool \<Rightarrow> nat \<Rightarrow> 'a tse_scheme \<Rightarrow> 'a tse_scheme option" where
  "force_speed speed gb p s = do {
     s \<leftarrow> (if gb then alt_tse_phy_wr_mdio_reg p TSE_PHY_MDIO_CONTROL CONTROL_SPEED_MSB 1
            (word_of_int (speed div 2)) s else Some s);
     alt_tse_phy_wr_mdio_reg p TSE_PHY_MDIO_CONTROL CONTROL_SPEED_LSB 1 (word_of_int speed) s }"

definition follow_speed :: "int \<Rightarrow> bool \<Rightarrow> u32 \<Rightarrow> nat \<Rightarrow> 'a tse_scheme \<Rightarrow> 'a tse_scheme option" where
  "follow_speed speed gb base p s = do {
     phy \<leftarrow> at (phy_infos s) p;
     k \<leftarrow> pphy_profile phy;
     prof \<leftarrow> at (pphy_profiles s) k;
     (v, s) \<leftarrow> alt_tse_phy_rd_mdio_reg p (status_reg_location prof) (speed_lsb_location prof)
       (if gb then 2 else 1) s;
     s \<leftarrow> (if uint (ucast v :: u8) \<noteq> speed
       then map_option snd (alt_tse_phy_restart_an p ALTERA_AUTONEG_TIMEOUT_THRESHOLD s) else Some s);
     (d, s) \<leftarrow> alt_tse_phy_rd_mdio_reg p (status_reg_location prof) (duplex_bit_location prof) 1 s;
     Some (snd (alt_tse_mac_set_duplex base (ucast d) s)) }"

definition set_phy_speed :: "int \<Rightarrow> nat \<Rightarrow> 'a tse_scheme \<Rightarrow> (bool \<times> 'a tse_scheme) option" where
  "set_phy_speed speed m s = do {
     mi \<leftarrow> at (mac_infos s) m;
     case pphy_info mi of
       None \<Rightarrow> Some (True, s)
     | Some p \<Rightarrow> do {
         psys \<leftarrow> at (tse_mac_device s) (psys_info mi);
         phy \<leftarrow> at (phy_infos s) p;
         s \<leftarrow> alt_tse_phy_wr_mdio_addr p (mdio_address phy) s;
         caps \<leftarrow> link_capability phy;
         let gb = gb_capable caps;
         if \<not> gb \<and> speed = 2 then Some (False, s)
         else do {
           (able, s) \<leftarrow> alt_tse_phy_rd_mdio_reg p TSE_PHY_MDIO_STATUS STATUS_AN_ABILITY 1 s;
           if able = 0 then do { s \<leftarrow> force_speed speed gb p s; Some (True, s) }
           else do {
             s \<leftarrow> advertise speed p s;
             (v, s) \<leftarrow> alt_tse_phy_rd_mdio_reg p TSE_PHY_MDIO_STATUS STATUS_AN_COMPLETE 1 s;
             s \<leftarrow> (if v = 1 then follow_speed speed gb (tse_mac_base psys) p s else Some s);
             (_, s) \<leftarrow> alt_tse_phy_rd_mdio_reg p TSE_PHY_MDIO_STATUS 0 16 s;
             Some (True, s) } } } }"

primrec set_all_speeds :: "int \<Rightarrow> nat list \<Rightarrow> 'a tse_scheme \<Rightarrow> (bool \<times> 'a tse_scheme) option" where
  "set_all_speeds speed [] s = Some (True, s)"
| "set_all_speeds speed (m # ms) s = do {
     (ok, s) \<leftarrow> set_phy_speed speed m s;
     if ok then set_all_speeds speed ms s else Some (False, s) }"

definition alt_tse_phy_set_common_speed :: "nat \<Rightarrow> int \<Rightarrow> 'a tse_scheme \<Rightarrow> (int \<times> 'a tse_scheme) option" where
  "alt_tse_phy_set_common_speed g speed s = do {
     base \<leftarrow> group_base g s;
     let (mdioadd_prev, s) = iord (base + MDIO_ADDR1) 0 s;
     if speed < 0 \<or> speed > 2 then
       Some (TSE_PHY_SPEED_NO_COMMON, iowr (base + MDIO_ADDR1) 0 mdioadd_prev s)
     else do {
       ms \<leftarrow> group_ptrs g s;
       (ok, s) \<leftarrow> set_all_speeds speed ms s;
       if \<not> ok then Some (TSE_PHY_SPEED_NO_COMMON, iowr (base + MDIO_ADDR1) 0 mdioadd_prev s)
       else
         let (_, s) = alt_tse_mac_set_speed base (word_of_int speed) s
         in Some (speed, iowr (base + MDIO_ADDR1) 0 mdioadd_prev s) } }"

text \<open>For the group of the MAC at an address; an unknown address is a null pointer
  dereferenced.\<close>

definition group_of :: "u32 \<Rightarrow> 'a tse_scheme \<Rightarrow> nat option" where
  "group_of pmac s = do {
     r \<leftarrow> alt_tse_get_mac_info pmac s;
     m \<leftarrow> r;
     mi \<leftarrow> at (mac_infos s) m;
     Some (pmac_group mi) }"

definition alt_tse_mac_get_common_speed :: "u32 \<Rightarrow> 'a tse_scheme \<Rightarrow> (int \<times> 'a tse_scheme) option" where
  "alt_tse_mac_get_common_speed pmac s = do { g \<leftarrow> group_of pmac s; alt_tse_phy_get_common_speed g s }"

definition alt_tse_mac_set_common_speed ::
  "u32 \<Rightarrow> int \<Rightarrow> 'a tse_scheme \<Rightarrow> (int \<times> 'a tse_scheme) option" where
  "alt_tse_mac_set_common_speed pmac speed s = do {
     g \<leftarrow> group_of pmac s; alt_tse_phy_set_common_speed g speed s }"
subsection \<open>The speed of a link\<close>

definition ALT_TSE_E_NO_PMAC_FOUND :: u32 where "ALT_TSE_E_NO_PMAC_FOUND = push_bit 23 1"
definition ALT_TSE_E_NO_MDIO :: u32 where "ALT_TSE_E_NO_MDIO = push_bit 22 1"
definition ALT_TSE_E_NO_PHY :: u32 where "ALT_TSE_E_NO_PHY = push_bit 21 1"
definition ALT_TSE_E_AN_NOT_COMPLETE :: u32 where "ALT_TSE_E_AN_NOT_COMPLETE = push_bit 19 1"
definition ALT_TSE_E_NO_PHY_PROFILE :: u32 where "ALT_TSE_E_NO_PHY_PROFILE = push_bit 18 1"
definition ALT_TSE_E_PROFILE_INCORRECT_DEFINED :: u32 where
  "ALT_TSE_E_PROFILE_INCORRECT_DEFINED = push_bit 17 1"
definition ALT_TSE_E_INVALID_SPEED :: u32 where "ALT_TSE_E_INVALID_SPEED = push_bit 16 1"

definition ALT_TSE_SPEED_DUPLEX :: "u8 \<Rightarrow> u8 \<Rightarrow> u32" where
  "ALT_TSE_SPEED_DUPLEX speed duplex =
    (ucast duplex AND 0x01)
    OR push_bit 1 (if speed = TSE_PHY_SPEED_1000 then 1 else 0)
    OR push_bit 2 (if speed = TSE_PHY_SPEED_100 then 1 else 0)
    OR push_bit 3 (if speed = TSE_PHY_SPEED_10 then 1 else 0)
    OR (if speed = TSE_PHY_SPEED_INVALID then ALT_TSE_E_INVALID_SPEED else 0)"

definition default_report :: u32 where
  "default_report = ALT_TSE_SPEED_DUPLEX TSE_PHY_SPEED_100 TSE_PHY_DUPLEX_FULL"

definition run_status :: "status_fn \<Rightarrow> u32 \<Rightarrow> 'a bus_scheme \<Rightarrow> u32 \<times> 'a bus_scheme" where
  "run_status f pmac = (case f of
       DP83848C_status \<Rightarrow> DP83848C_link_status_read pmac
     | PEF7071_status \<Rightarrow> PEF7071_link_status_read pmac)"

text \<open>A small MAC cannot follow every speed.\<close>

definition limit_adv :: "mac_kind \<Rightarrow> nat \<Rightarrow> 'a tse_scheme \<Rightarrow> 'a tse_scheme option" where
  "limit_adv k p s = (case k of
       ALTERA_TSE_MACLITE_10_100 \<Rightarrow> do {
         s \<leftarrow> alt_tse_phy_set_adv_1000 p False s;
         map_option snd (alt_tse_phy_restart_an p ALTERA_AUTONEG_TIMEOUT_THRESHOLD s) }
     | ALTERA_TSE_MACLITE_1000 \<Rightarrow> do {
         s \<leftarrow> alt_tse_phy_set_adv_100 p False s;
         s \<leftarrow> alt_tse_phy_set_adv_10 p False s;
         map_option snd (alt_tse_phy_restart_an p ALTERA_AUTONEG_TIMEOUT_THRESHOLD s) }
     | ALTERA_TSE_FULL_MAC \<Rightarrow> Some s)"

definition read_speed :: "u32 \<Rightarrow> nat \<Rightarrow> 'a tse_scheme \<Rightarrow> (u32 \<times> 'a tse_scheme) option" where
  "read_speed base p s = do {
     phy \<leftarrow> at (phy_infos s) p;
     case pphy_profile phy of
       None \<Rightarrow> Some (default_report OR ALT_TSE_E_NO_PHY_PROFILE, s)
     | Some k \<Rightarrow> do {
         prof \<leftarrow> at (pphy_profiles s) k;
         case link_status_read prof of
           Some f \<Rightarrow> Some (run_status f base s)
         | None \<Rightarrow>
             if status_reg_location prof = 0 then
               Some (default_report OR ALT_TSE_E_PROFILE_INCORRECT_DEFINED, s)
             else do {
               (v, s) \<leftarrow> alt_tse_phy_rd_mdio_reg p (status_reg_location prof) (speed_lsb_location prof) 2 s;
               (d, s) \<leftarrow> alt_tse_phy_rd_mdio_reg p (status_reg_location prof) (duplex_bit_location prof) 1 s;
               Some (ALT_TSE_SPEED_DUPLEX (ucast v) (ucast d), s) } } }"

definition link_speed :: "alt_tse_mac_info \<Rightarrow> u32 \<Rightarrow> 'a tse_scheme \<Rightarrow> (u32 \<times> 'a tse_scheme) option" where
  "link_speed mi base s =
    (case pphy_info mi of
       None \<Rightarrow> Some (default_report OR ALT_TSE_E_NO_PHY, s)
     | Some p \<Rightarrow> do {
         s \<leftarrow> limit_adv (mac_type mi) p s;
         (r, s) \<leftarrow> alt_tse_phy_check_link p ALTERA_AUTONEG_TIMEOUT_THRESHOLD s;
         if r = TSE_PHY_AN_NOT_COMPLETE then Some (default_report OR ALT_TSE_E_AN_NOT_COMPLETE, s)
         else do {
           phy \<leftarrow> at (phy_infos s) p;
           let s = iowr (base + MDIO_ADDR1) 0 (ucast (mdio_address phy)) s;
           s \<leftarrow> alt_tse_phy_wr_mdio_reg p TSE_PHY_MDIO_CONTROL CONTROL_LOOPBACK 1 0 s;
           read_speed base p s } })"

definition getPHYSpeed ::
  "(nat \<Rightarrow> u32 \<Rightarrow> 'a tse_scheme \<Rightarrow> (u32 \<times> 'a tse_scheme) option) \<Rightarrow> u32
    \<Rightarrow> 'a tse_scheme \<Rightarrow> (u32 \<times> 'a tse_scheme) option" where
  "getPHYSpeed user pmac s = do {
     s \<leftarrow> (if is_init s then Some s
          else do { s \<leftarrow> alt_tse_phy_init user s; Some (s\<lparr>is_init := True\<rparr>) });
     m \<leftarrow> alt_tse_get_mac_info pmac s;
     case m of
       None \<Rightarrow> Some (default_report OR ALT_TSE_E_NO_PMAC_FOUND, s)
     | Some m \<Rightarrow> do {
         mi \<leftarrow> at (mac_infos s) m;
         psys \<leftarrow> at (tse_mac_device s) (psys_info mi);
         gsys \<leftarrow> group_sys (pmac_group mi) s;
         if tse_use_mdio gsys = 0 then do {
           let s = usleep 1000000 s;
           case tse_phy_cfg psys of
             Some f \<Rightarrow> run_cfg user f pmac s
           | None \<Rightarrow> Some (default_report OR ALT_TSE_E_NO_MDIO, s) }
         else link_speed mi (tse_mac_base gsys) s } }"

subsection \<open>Instances\<close>

text \<open>The entry of a MAC, and a system with given entries and nothing detected yet.\<close>

definition one_mac :: "alt_tse_system_info" where
  "one_mac = \<lparr>tse_mac_base = 0x1000, tse_tx_depth = 512, tse_rx_depth = 2048, tse_use_mdio = 1,
     tse_en_maclite = 0, tse_maclite_gige = 0, tse_multichannel_mac = 0, tse_num_of_channel = 0,
     tse_mdio_shared = 0, tse_number_of_mac_mdio_shared = 0, tse_pcs_ena = 0, tse_pcs_sgmii = 0,
     tse_msgdma_tx = Some ''tx'', tse_msgdma_rx = Some ''rx'', tse_msgdma_rx_irq = 1,
     ext_desc_mem = 0, desc_mem_base = 0, use_shared_fifo = 0, tse_shared_fifo_tx_ctrl_base = 0,
     tse_shared_fifo_tx_stat_base = 0, tse_shared_fifo_tx_depth = 0, tse_shared_fifo_rx_ctrl_base = 0,
     tse_shared_fifo_rx_stat_base = 0, tse_shared_fifo_rx_depth = 0, tse_phy_mdio_address = - 1,
     tse_phy_cfg = None\<rparr>"

definition tse_with :: "alt_tse_system_info list \<Rightarrow> u8 \<Rightarrow> tse" where
  "tse_with devs n = \<lparr>hw = (\<lambda>_ _. 0), ipend = (\<lambda>_. 0), trace = [], cpu_status = 0, ienable = 0,
     tse_mac_device = devs, tse_system_count = n, max_mac_system = n, pphy_profiles = [],
     pmac_groups = [], mac_groups = [], mac_infos = [], phy_infos = [], malloc_ok = (\<lambda>_. True),
     mallocs = 0, is_init = False\<rparr>"

end
