(* ===== verification/PhyGroups.thy ===== *)
theory PhyGroups
  imports Phy
begin

text \<open>
  The description of the system and the groups made from it (\<open>alt_tse_system_add_sys\<close>,
  \<open>alt_tse_mac_group_init\<close>, \<open>alt_tse_mac_associate_phy\<close> of
  \<open>altera_avalon_tse.c\<close>): what is stored where, and when an array is left.
\<close>

subsection \<open>Adding a system\<close>

text \<open>What one pass stores for a channel.\<close>

definition filled :: "alt_tse_system_mac \<Rightarrow> nat \<Rightarrow> alt_tse_system_msgdma \<Rightarrow> alt_tse_system_desc_mem option
    \<Rightarrow> alt_tse_system_shared_fifo option \<Rightarrow> alt_tse_system_phy option \<Rightarrow> alt_tse_system_info \<Rightarrow> alt_tse_system_info" where
  "filled mac i dma m f p d = set_phy p (set_fifo f (set_mem m
     ((set_mac mac i d)\<lparr>tse_msgdma_tx := msgdma_tx dma, tse_msgdma_rx := msgdma_rx dma,
       tse_msgdma_rx_irq := msgdma_rx_irq dma\<rparr>)))"

text \<open>An optional array of at least \<open>n\<close> elements.\<close>

definition has :: "nat \<Rightarrow> 'x list option \<Rightarrow> bool" where
  "has n p \<longleftrightarrow> (case p of None \<Rightarrow> True | Some xs \<Rightarrow> n \<le> length xs)"

definition elem :: "nat \<Rightarrow> 'x list option \<Rightarrow> 'x option" where
  "elem j p = map_option (\<lambda>xs. xs ! j) p"

lemma has_Suc: "has (Suc n) p \<Longrightarrow> head_of p = Some (elem 0 p) \<and> has n (map_option tl p)
    \<and> (\<forall>j<n. elem j (map_option tl p) = elem (Suc j) p)"
  by (cases p; cases "the p") (auto simp: has_def elem_def head_of_def)

definition named :: "alt_tse_system_msgdma \<Rightarrow> bool" where
  "named d \<longleftrightarrow> msgdma_tx d \<noteq> None \<and> msgdma_rx d \<noteq> None"

lemma add_channels_step:
  assumes "\<And>k. malloc_ok s k" "named d" "has (Suc n) mem" "has (Suc n) fifo" "has (Suc n) phy"
    and "k = unat (tse_system_count s)" "k < length (tse_mac_device s)"
  shows "add_channels (Suc n) i mac (Some (d # ds)) mem fifo phy s =
    add_channels n (Suc i) mac (Some ds) (map_option tl mem) (map_option tl fifo) (map_option tl phy)
      (s\<lparr>mallocs := Suc (Suc (mallocs s)),
        tse_mac_device := (tse_mac_device s)
          [k := filled mac i d (elem 0 mem) (elem 0 fifo) (elem 0 phy) (tse_mac_device s ! k)],
        tse_system_count := tse_system_count s + 1, max_mac_system := tse_system_count s + 1\<rparr>)"
proof -
  obtain tx rx where n: "msgdma_tx d = Some tx" "msgdma_rx d = Some rx" using assms(2) by (auto simp: named_def)
  note h = has_Suc [OF assms(3)] has_Suc [OF assms(4)] has_Suc [OF assms(5)]
  show ?thesis using assms(1,7) h n
    by (simp add: upd_sys_def copy_name_def tse_malloc_def head_of_def filled_def assms(6) [symmetric] Let_def)
qed

lemma add_channels_result:
  assumes "\<And>k. malloc_ok s k" "\<forall>d \<in> set dmas. named d" "n \<le> length dmas"
    "has n mem" "has n fifo" "has n phy" "length (tse_mac_device s) = 8"
    "unat (tse_system_count s) \<le> 8"
  shows "if unat (tse_system_count s) + n \<le> 8
    then \<exists>t. add_channels n i mac (Some dmas) mem fifo phy s = Some (Inr SUCCESS, t)
      \<and> unat (tse_system_count t) = unat (tse_system_count s) + n
      \<and> (0 < n \<longrightarrow> max_mac_system t = tse_system_count t)
      \<and> length (tse_mac_device t) = 8
      \<and> (\<forall>k < unat (tse_system_count s). tse_mac_device t ! k = tse_mac_device s ! k)
      \<and> (\<forall>j < n. tse_mac_device t ! (unat (tse_system_count s) + j) =
          filled mac (i + j) (dmas ! j) (elem j mem) (elem j fifo) (elem j phy)
            (tse_mac_device s ! (unat (tse_system_count s) + j)))
    else add_channels n i mac (Some dmas) mem fifo phy s = None"
  using assms
proof (induction n arbitrary: i dmas mem fifo phy s)
  case (Suc n)
  obtain d ds where d: "dmas = d # ds" using Suc.prems(3) by (cases dmas) auto
  let ?k = "unat (tse_system_count s)"
  show ?case
  proof (cases "?k < 8")
    case True
    define u where "u = s\<lparr>mallocs := Suc (Suc (mallocs s)),
        tse_mac_device := (tse_mac_device s)
          [?k := filled mac i d (elem 0 mem) (elem 0 fifo) (elem 0 phy) (tse_mac_device s ! ?k)],
        tse_system_count := tse_system_count s + 1, max_mac_system := tse_system_count s + 1\<rparr>"
    have st: "add_channels (Suc n) i mac (Some dmas) mem fifo phy s =
        add_channels n (Suc i) mac (Some ds) (map_option tl mem) (map_option tl fifo) (map_option tl phy) u"
      unfolding u_def d
      by (rule add_channels_step) (use Suc.prems d True in auto)
    have cu: "unat (tse_system_count u) = Suc ?k"
      using True by (simp add: u_def unat_word_ariths)
    note h = has_Suc [OF Suc.prems(4)] has_Suc [OF Suc.prems(5)] has_Suc [OF Suc.prems(6)]
    have IH: "if unat (tse_system_count u) + n \<le> 8
      then \<exists>t. add_channels n (Suc i) mac (Some ds) (map_option tl mem) (map_option tl fifo) (map_option tl phy) u
          = Some (Inr SUCCESS, t)
        \<and> unat (tse_system_count t) = unat (tse_system_count u) + n
        \<and> (0 < n \<longrightarrow> max_mac_system t = tse_system_count t)
        \<and> length (tse_mac_device t) = 8
        \<and> (\<forall>k < unat (tse_system_count u). tse_mac_device t ! k = tse_mac_device u ! k)
        \<and> (\<forall>j < n. tse_mac_device t ! (unat (tse_system_count u) + j) =
            filled mac (Suc i + j) (ds ! j) (elem j (map_option tl mem)) (elem j (map_option tl fifo))
              (elem j (map_option tl phy)) (tse_mac_device u ! (unat (tse_system_count u) + j)))
      else add_channels n (Suc i) mac (Some ds) (map_option tl mem) (map_option tl fifo) (map_option tl phy) u = None"
      by (rule Suc.IH) (use Suc.prems d True h cu in \<open>auto simp: u_def\<close>)
    show ?thesis
    proof (cases "?k + Suc n \<le> 8")
      case True
      then obtain t where t: "add_channels n (Suc i) mac (Some ds) (map_option tl mem) (map_option tl fifo)
            (map_option tl phy) u = Some (Inr SUCCESS, t)"
          "unat (tse_system_count t) = Suc ?k + n" "0 < n \<longrightarrow> max_mac_system t = tse_system_count t"
          "length (tse_mac_device t) = 8"
          "\<forall>k < Suc ?k. tse_mac_device t ! k = tse_mac_device u ! k"
          "\<forall>j < n. tse_mac_device t ! (Suc ?k + j) =
            filled mac (Suc i + j) (ds ! j) (elem j (map_option tl mem)) (elem j (map_option tl fifo))
              (elem j (map_option tl phy)) (tse_mac_device u ! (Suc ?k + j))"
        using IH by (auto simp: cu)
      have m: "max_mac_system t = tse_system_count t"
      proof (cases n)
        case 0
        then show ?thesis using t(1) by (auto simp: u_def)
      qed (use t(3) in simp)
      have e: "tse_mac_device t ! (?k + j) =
          filled mac (i + j) (dmas ! j) (elem j mem) (elem j fifo) (elem j phy) (tse_mac_device s ! (?k + j))"
        if "j < Suc n" for j
      proof (cases j)
        case 0
        then show ?thesis using t(5) True Suc.prems(7) by (simp add: u_def d)
      next
        case (Suc l)
        then show ?thesis using t(6) h that by (simp add: d u_def)
      qed
      have "tse_mac_device t ! k = tse_mac_device s ! k" if "k < ?k" for k
        using t(5) that by (simp add: u_def)
      then show ?thesis unfolding st using True t(1,2,4) m e by auto
    next
      case False
      then show ?thesis unfolding st using IH cu by simp
    qed
  next
    case False
    then have "?k = 8" using Suc.prems(8) by simp
    then show ?thesis using Suc.prems(7) by (simp add: upd_sys_def d)
  qed
qed simp
text \<open>C35: Adding a MAC of \<open>n\<close> channels fills the next \<open>n\<close> elements of \<open>tse_mac_device\<close>, channel
  \<open>j\<close> at the MAC's address plus \<open>0x400 j\<close> with the \<open>j\<close>-th of each array
  given, leaves the elements before them, and counts them, when they fit into the eight elements.  When
  they do not, the code reports the error and then stores behind the array all the same.\<close>

theorem add_sys_bounds:
  assumes "\<And>k. malloc_ok s k" and "\<forall>d \<in> set dmas. named d"
    and "n = (if mac_num_of_channel mac = 0 then 1 else unat (mac_num_of_channel mac))"
    and "n \<le> length dmas" "has n mem" "has n fifo" "has n phy"
    and "length (tse_mac_device s) = 8" "unat (tse_system_count s) \<le> 8"
  shows "if unat (tse_system_count s) + n \<le> 8
    then \<exists>t. alt_tse_system_add_sys (Some mac) (Some dmas) mem fifo phy s = Some (Inr SUCCESS, t)
        \<and> unat (tse_system_count t) = unat (tse_system_count s) + n
        \<and> max_mac_system t = tse_system_count t
        \<and> (\<forall>k < unat (tse_system_count s). tse_mac_device t ! k = tse_mac_device s ! k)
        \<and> (\<forall>j < n. tse_mac_device t ! (unat (tse_system_count s) + j) =
            filled mac j (dmas ! j) (elem j mem) (elem j fifo) (elem j phy)
              (tse_mac_device s ! (unat (tse_system_count s) + j)))
    else alt_tse_system_add_sys (Some mac) (Some dmas) mem fifo phy s = None"
proof -
  have a: "alt_tse_system_add_sys (Some mac) (Some dmas) mem fifo phy s
      = add_channels n 0 mac (Some dmas) mem fifo phy s"
    by (simp add: alt_tse_system_add_sys_def assms(3))
  have "0 < n" using assms(3) by (auto simp: unat_gt_0)
  then show ?thesis
    using add_channels_result [OF assms(1,2,4-9), of 0 mac] by (auto simp: a split: if_splits)
qed

subsection \<open>Mapping a PHY to a MAC\<close>

text \<open>The system a channel stands for.\<close>

definition sys_of :: "nat \<Rightarrow> 'a tse_scheme \<Rightarrow> alt_tse_system_info" where
  "sys_of m s = tse_mac_device s ! psys_info (mac_infos s ! m)"

definition info_ok :: "'a tse_scheme \<Rightarrow> nat \<Rightarrow> bool" where
  "info_ok s m \<longleftrightarrow> m < length (mac_infos s) \<and> psys_info (mac_infos s ! m) < length (tse_mac_device s)"

text \<open>The two searches are \<open>find\<close>.\<close>

lemma find_explicit_find:
  "list_all (info_ok s) ms \<Longrightarrow>
    find_explicit a ms s = Some (find (\<lambda>m. tse_phy_mdio_address (sys_of m s) = ucast a) ms)"
  by (induction ms) (auto simp: info_ok_def sys_of_def at_def)

lemma find_auto_find:
  "list_all (info_ok s) ms \<Longrightarrow>
    find_auto ms s = Some (find (\<lambda>m. tse_msgdma_tx (sys_of m s) \<noteq> None \<and> tse_msgdma_rx (sys_of m s) \<noteq> None
      \<and> tse_phy_mdio_address (sys_of m s) = TSE_PHY_AUTO_ADDRESS) ms)"
  by (induction ms) (auto simp: info_ok_def sys_of_def at_def)

lemma info_ok_link [simp]: "info_ok (link_phy m p s) k \<longleftrightarrow> info_ok s k"
  by (cases "k = m") (auto simp: info_ok_def link_phy_def)
text \<open>The address a channel asks for, and whether it takes any.\<close>

definition wants :: "'a tse_scheme \<Rightarrow> u8 \<Rightarrow> nat \<Rightarrow> bool" where
  "wants s a m \<longleftrightarrow> tse_phy_mdio_address (sys_of m s) = ucast a"

definition takes_any :: "'a tse_scheme \<Rightarrow> nat \<Rightarrow> bool" where
  "takes_any s m \<longleftrightarrow> tse_msgdma_tx (sys_of m s) \<noteq> None \<and> tse_msgdma_rx (sys_of m s) \<noteq> None
     \<and> tse_phy_mdio_address (sys_of m s) = TSE_PHY_AUTO_ADDRESS"

lemma searches_find:
  "list_all (info_ok s) ms \<Longrightarrow> find_explicit a ms s = Some (find (wants s a) ms)"
  "list_all (info_ok s) ms \<Longrightarrow> find_auto ms s = Some (find (takes_any s) ms)"
  by (simp_all add: find_explicit_find find_auto_find wants_def [abs_def] takes_any_def [abs_def])

lemma find_some: "find P xs = Some x \<Longrightarrow> x \<in> set xs \<and> P x"
  by (auto simp: find_Some_iff)

lemma find_none: "find P xs = None \<longleftrightarrow> (\<forall>x \<in> set xs. \<not> P x)"
  by (auto simp: find_None_iff)

text \<open>Mapping succeeds exactly if a channel asks for the PHY's address or takes any; a channel
  that asks for it is preferred.  Afterwards the PHY and the channel point at each other and the
  channel's system holds the PHY's address.\<close>

lemma associate_phy_maps:
  assumes "group_ptrs g s = Some ms" and "list_all (info_ok s) ms" and "p < length (phy_infos s)"
    and "alt_tse_mac_associate_phy g p s = Some (ok, t)" and "a = mdio_address (phy_infos s ! p)"
  shows "ok \<longleftrightarrow> (\<exists>m \<in> set ms. wants s a m \<or> takes_any s m)"
    and "ok \<Longrightarrow> \<exists>m \<in> set ms. pphy_info (mac_infos t ! m) = Some p \<and> phy_mac (phy_infos t ! p) = Some m
      \<and> wants t a m \<and> (wants s a m \<or> takes_any s m \<and> (\<forall>k \<in> set ms. \<not> wants s a k))"
    and "\<not> ok \<Longrightarrow> phy_mac (phy_infos t ! p) = None"
proof -
  have i: "info_ok s m" if "m \<in> set ms" for m using assms(2) that by (simp add: list_all_iff)
  have l: "pphy_info (mac_infos (link_phy m p s) ! m) = Some p" "phy_mac (phy_infos (link_phy m p s) ! p) = Some m"
      "psys_info (mac_infos (link_phy m p s) ! m) = psys_info (mac_infos s ! m)"
      "tse_mac_device (link_phy m p s) = tse_mac_device s" if "m \<in> set ms" for m
    using i [OF that] assms(3) by (simp_all add: info_ok_def link_phy_def)
  note r = assms(4) [unfolded alt_tse_mac_associate_phy_def assms(1), simplified,
      unfolded searches_find [OF assms(2)], simplified]
  consider (explicit) m where "find (wants s a) ms = Some m" "ok" "t = link_phy m p s"
    | (auto) m where "find (wants s a) ms = None" "find (takes_any s) ms = Some m" "ok"
        "upd_sys (psys_info (mac_infos s ! m)) (\<lambda>d. d\<lparr>tse_phy_mdio_address := ucast a\<rparr>) (link_phy m p s) = Some t"
    | (failed) "find (wants s a) ms = None" "find (takes_any s) ms = None" "\<not> ok"
        "phy_mac (phy_infos t ! p) = None"
    using r assms(3,5) searches_find [OF assms(2)]
    by (auto split: option.splits bind_splits)
  note c = this
  from c show "ok \<longleftrightarrow> (\<exists>m \<in> set ms. wants s a m \<or> takes_any s m)"
    by cases (auto simp: find_none dest!: find_some)
  from c show "\<exists>m \<in> set ms. pphy_info (mac_infos t ! m) = Some p \<and> phy_mac (phy_infos t ! p) = Some m
      \<and> wants t a m \<and> (wants s a m \<or> takes_any s m \<and> (\<forall>k \<in> set ms. \<not> wants s a k))" if "ok"
  proof cases
    case (explicit m)
    then have m: "m \<in> set ms" "wants s a m" using find_some by fast+
    then show ?thesis using explicit(3) l [OF m(1)] by (intro bexI [of _ m]) (auto simp: wants_def sys_of_def)
  next
    case (auto m)
    then have m: "m \<in> set ms" "takes_any s m" "\<forall>k \<in> set ms. \<not> wants s a k"
      using find_some [of "takes_any s" ms m] by (auto simp: find_none)
    then show ?thesis using auto(4) l [OF m(1)] i [OF m(1)]
      by (intro bexI [of _ m]) (auto simp: wants_def sys_of_def upd_sys_def info_ok_def split: if_splits)
  qed (use that in simp)
  from c show "\<not> ok \<Longrightarrow> phy_mac (phy_infos t ! p) = None" by cases auto
qed

subsection \<open>Making the groups\<close>

definition has_dma :: "alt_tse_system_info \<Rightarrow> bool" where
  "has_dma d \<longleftrightarrow> tse_msgdma_tx d \<noteq> None \<and> tse_msgdma_rx d \<noteq> None"

definition channel_info :: "'a tse_scheme \<Rightarrow> nat \<Rightarrow> nat \<Rightarrow> alt_tse_mac_info" where
  "channel_info s g k = \<lparr>mac_type = mac_kind_of (tse_mac_device s ! k), pphy_info = None,
     psys_info = k, pmac_group = g\<rparr>"

lemma group_channels_ok:
  assumes "group_channels n j i g s = Some (None, t)" "g < length (mac_groups s)"
  shows "(\<forall>k \<in> {i + j..<i + j + n}. k < length (tse_mac_device s) \<and> has_dma (tse_mac_device s ! k))
    \<and> mac_infos t = mac_infos s @ map (channel_info s g) [i + j..<i + j + n]
    \<and> mac_groups t = (mac_groups s)[g := (mac_groups s ! g)
        \<lparr>pmac_info := pmac_info (mac_groups s ! g) @ [length (mac_infos s)..<length (mac_infos s) + n]\<rparr>]"
  using assms
proof (induction n arbitrary: j s)
  case (Suc n)
  let ?d = "tse_mac_device s ! (i + j)" and ?grp = "mac_groups s ! g"
  define u where "u = s\<lparr>mallocs := Suc (mallocs s), mac_infos := mac_infos s @ [channel_info s g (i + j)],
      mac_groups := (mac_groups s)[g := ?grp\<lparr>pmac_info := pmac_info ?grp @ [length (mac_infos s)]\<rparr>]\<rparr>"
  have d: "i + j < length (tse_mac_device s)" "has_dma ?d"
    and r: "group_channels n (Suc j) i g u = Some (None, t)"
    using Suc.prems
    by (auto simp: tse_malloc_def new_mac_info_def has_dma_def channel_info_def u_def split: if_splits bind_splits)
  have c: "channel_info u = channel_info s" "length (mac_infos u) = Suc (length (mac_infos s))"
    by (simp_all add: channel_info_def u_def fun_eq_iff)
  have l: "[i + j..<i + j + Suc n] = (i + j) # [i + Suc j..<i + Suc j + n]"
    "[length (mac_infos s)..<length (mac_infos s) + Suc n]
      = length (mac_infos s) # [Suc (length (mac_infos s))..<Suc (length (mac_infos s)) + n]"
    by (simp_all add: upt_rec)
  have "k < length (tse_mac_device s) \<and> has_dma (tse_mac_device s ! k)"
    if "k \<in> {i + j..<i + j + Suc n}" for k
    using Suc.IH [OF r] d that Suc.prems(2) by (cases "k = i + j") (auto simp: u_def)
  moreover have "mac_infos t = mac_infos s @ map (channel_info s g) [i + j..<i + j + Suc n]"
    using Suc.IH [OF r] Suc.prems(2) c unfolding l by (simp add: u_def)
  moreover have "mac_groups t = (mac_groups s)[g := ?grp
      \<lparr>pmac_info := pmac_info ?grp @ [length (mac_infos s)..<length (mac_infos s) + Suc n]\<rparr>]"
    using Suc.IH [OF r] Suc.prems(2) unfolding l by (simp add: u_def)
  ultimately show ?case by blast
qed simp

text \<open>The systems a group stands for, and the invariant of the loop that makes the groups.\<close>

definition group_devs :: "'a tse_scheme \<Rightarrow> nat \<Rightarrow> nat list" where
  "group_devs s g = map (\<lambda>p. psys_info (mac_infos s ! p)) (pmac_info (mac_groups s ! g))"

definition group_ok :: "'a tse_scheme \<Rightarrow> nat \<Rightarrow> bool" where
  "group_ok s g \<longleftrightarrow> g < length (mac_groups s)
     \<and> length (pmac_info (mac_groups s ! g)) = unat (channel (mac_groups s ! g))
     \<and> (\<forall>p \<in> set (pmac_info (mac_groups s ! g)). p < length (mac_infos s)
         \<and> (\<exists>k < length (tse_mac_device s). has_dma (tse_mac_device s ! k) \<and> mac_infos s ! p = channel_info s g k))"

definition grouped :: "nat \<Rightarrow> 'a tse_scheme \<Rightarrow> bool" where
  "grouped i s \<longleftrightarrow> (\<forall>g \<in> set (pmac_groups s). group_ok s g)
     \<and> sorted_wrt (<) (concat (map (group_devs s) (pmac_groups s)))
     \<and> (\<forall>k \<in> set (concat (map (group_devs s) (pmac_groups s))). k < i)
     \<and> (\<forall>k < i. k < length (tse_mac_device s) \<longrightarrow> has_dma (tse_mac_device s ! k) \<longrightarrow>
         k \<in> set (concat (map (group_devs s) (pmac_groups s))))"

text \<open>Groups made earlier do not change.\<close>

lemma group_kept:
  assumes "group_ok s g" "tse_mac_device t = tse_mac_device s"
    "mac_infos t = mac_infos s @ new" "length (mac_groups s) \<le> length (mac_groups t)"
    "mac_groups t ! g = mac_groups s ! g"
  shows "group_ok t g" "group_devs t g = group_devs s g"
  using assms by (auto simp: group_ok_def group_devs_def channel_info_def nth_append cong: map_cong)
lemma sorted_upt_append:
  "sorted_wrt (<) xs \<Longrightarrow> \<forall>k \<in> set xs. k < i \<Longrightarrow> sorted_wrt (<) (xs @ [i..<n])" for xs :: "nat list"
  by (auto simp: sorted_wrt_append)

lemma grouped_step:
  assumes gr: "grouped i s" and c: "c = channels_of (tse_mac_device s ! i)"
    and s2: "s2 = s\<lparr>mallocs := m, mac_groups := mac_groups s @ [\<lparr>channel = c, pmac_info = []\<rparr>]\<rparr>"
    and u: "group_channels (unat c) 0 i (length (mac_groups s)) s2 = Some (None, u)"
  shows "grouped (i + unat c) (u\<lparr>pmac_groups := pmac_groups u @ [length (mac_groups s)]\<rparr>)"
proof -
  let ?g = "length (mac_groups s)"
  let ?t = "u\<lparr>pmac_groups := pmac_groups u @ [?g]\<rparr>"
  have fr: "tse_mac_device u = tse_mac_device s" "pmac_groups u = pmac_groups s"
    using group_channels_frame [OF u] by (simp_all add: s2)
  have ok: "\<forall>k \<in> {i..<i + unat c}. k < length (tse_mac_device s) \<and> has_dma (tse_mac_device s ! k)"
    and infos: "mac_infos u = mac_infos s @ map (channel_info s ?g) [i..<i + unat c]"
    and grps: "mac_groups u = mac_groups s
      @ [\<lparr>channel = c, pmac_info = [length (mac_infos s)..<length (mac_infos s) + unat c]\<rparr>]"
    using group_channels_ok [OF u] by (simp_all add: s2 channel_info_def [abs_def] nth_append list_update_append)
  have old: "group_ok ?t g" "group_devs ?t g = group_devs s g" if "g \<in> set (pmac_groups s)" for g
  proof -
    have g: "group_ok s g" using gr that by (simp add: grouped_def)
    then have "mac_groups ?t ! g = mac_groups s ! g" by (simp add: grps nth_append group_ok_def)
    then show "group_ok ?t g" "group_devs ?t g = group_devs s g"
      using group_kept [OF g, of ?t "map (channel_info s ?g) [i..<i + unat c]"]
      by (simp_all add: fr infos grps)
  qed
  have new: "group_devs ?t ?g = [i..<i + unat c]"
    by (rule nth_equalityI) (simp_all add: group_devs_def grps infos nth_append channel_info_def)
  have "group_ok ?t ?g"
  proof -
    have "i + p - length (mac_infos s) \<in> {i..<i + unat c}"
      if "length (mac_infos s) \<le> p" "p < length (mac_infos s) + unat c" for p
      using that by auto
    then show ?thesis
      using ok by (auto simp: group_ok_def grps infos fr nth_append channel_info_def)
  qed
  moreover have devs: "concat (map (group_devs ?t) (pmac_groups ?t))
      = concat (map (group_devs s) (pmac_groups s)) @ [i..<i + unat c]"
    using old(2) new by (simp add: fr cong: map_cong)
  ultimately show ?thesis
    using gr old(1) sorted_upt_append [of _ i "i + unat c"] unfolding grouped_def devs
    by (auto simp: fr intro: trans_less_add1)
qed

lemma group_systems_grouped:
  "group_systems i s = Some (None, t) \<Longrightarrow> grouped i s \<Longrightarrow>
    (\<exists>n \<ge> unat (max_mac_system s). grouped n t) \<and> tse_mac_device t = tse_mac_device s"
proof (induction "(length (tse_mac_device s) - i) + (8 - length (pmac_groups s))" arbitrary: i s rule: less_induct)
  case less
  show ?case
  proof (cases "i < unat (max_mac_system s)")
    case False
    then have "t = s" using less(2) by (subst (asm) group_systems.simps) simp
    then show ?thesis using less(3) False by (metis leI)
  next
    case True
    let ?d = "tse_mac_device s ! i" and ?g = "length (mac_groups s)"
    let ?c = "channels_of ?d"
    let ?s2 = "s\<lparr>mallocs := Suc (mallocs s), mac_groups := mac_groups s @ [\<lparr>channel = ?c, pmac_info = []\<rparr>]\<rparr>"
    have i: "i < length (tse_mac_device s)"
      using less(2) True by (subst (asm) group_systems.simps) (auto split: bind_splits)
    show ?thesis
    proof (cases "has_dma ?d")
      case dma: True
      obtain u where u: "group_channels (unat ?c) 0 i ?g ?s2 = Some (None, u)"
          "length (pmac_groups u) < 8"
          "group_systems (i + unat ?c) (u\<lparr>pmac_groups := pmac_groups u @ [?g]\<rparr>) = Some (None, t)"
        using less(2) True dma i
        by (subst (asm) group_systems.simps)
          (auto simp: has_dma_def tse_malloc_def Let_def split: bind_splits if_splits)
      have fr: "tse_mac_device u = tse_mac_device s" "pmac_groups u = pmac_groups s"
          "max_mac_system u = max_mac_system s"
        using group_channels_frame [OF u(1)] by simp_all
      have "(\<exists>n \<ge> unat (max_mac_system u). grouped n t) \<and> tse_mac_device t = tse_mac_device u"
        using less(1) [OF _ u(3) grouped_step [OF less(3) refl refl u(1)]] u(2) fr by simp
      then show ?thesis by (simp add: fr)
    next
      case no: False
      have n: "group_systems (Suc i) s = Some (None, t)"
        using less(2) True no i
        by (subst (asm) group_systems.simps) (auto simp: has_dma_def split: if_splits bind_splits)
      have "grouped (Suc i) s" using less(3) no by (auto simp: grouped_def less_Suc_eq)
      then show ?thesis using less(1) [OF _ n] i by simp
    qed
  qed
qed

text \<open>C34: When \<open>alt_tse_mac_group_init\<close> succeeds, the groups partition the systems that have both
  their DMA names: each such system below \<open>max_mac_system\<close> is in exactly one group, as exactly one
  channel, and the channels of all groups in order are in the order of the array.  Every pointer of a group is
  set; its MAC has the kind of its system and no PHY yet.\<close>

theorem mac_groups_partition:
  assumes "alt_tse_mac_group_init s = Some (None, t)"
  shows "sorted_wrt (<) (concat (map (group_devs t) (pmac_groups t)))
    \<and> (\<forall>k < unat (max_mac_system s). k < length (tse_mac_device s) \<and> has_dma (tse_mac_device s ! k) \<longrightarrow>
      k \<in> set (concat (map (group_devs t) (pmac_groups t))))
    \<and> (\<forall>g \<in> set (pmac_groups t). group_ok t g)
    \<and> tse_mac_device t = tse_mac_device s"
proof -
  have "grouped 0 (s\<lparr>pmac_groups := []\<rparr>)" by (simp add: grouped_def)
  then obtain n where n: "unat (max_mac_system s) \<le> n" "grouped n t" and
      d: "tse_mac_device t = tse_mac_device s"
    using group_systems_grouped [of 0 "s\<lparr>pmac_groups := []\<rparr>" t] assms
    by (auto simp: alt_tse_mac_group_init_def)
  show ?thesis using n(2) less_le_trans [OF _ n(1)] unfolding grouped_def d by blast
qed

subsection \<open>Instances\<close>

text \<open>A MAC of two channels and a MAC of its own.\<close>

definition three_macs :: tse where
  "three_macs = tse_with [one_mac\<lparr>tse_multichannel_mac := 1, tse_num_of_channel := 2\<rparr>, one_mac, one_mac] 3"

lemma three_macs_init: "map_option fst (alt_tse_mac_group_init three_macs) = Some None"
  by code_simp

theorem mac_groups_partition_witness:
  "\<exists>t. alt_tse_mac_group_init three_macs = Some (None, t)
    \<and> 2 \<in> set (concat (map (group_devs t) (pmac_groups t)))"
proof -
  obtain t where t: "alt_tse_mac_group_init three_macs = Some (None, t)"
    using three_macs_init by auto
  have "unat (max_mac_system three_macs) = 3" "length (tse_mac_device three_macs) = 3"
    "has_dma (tse_mac_device three_macs ! 2)"
    by (simp_all add: three_macs_def tse_with_def one_mac_def has_dma_def)
  then show ?thesis using t mac_groups_partition [OF t] by auto
qed

definition two_channels :: alt_tse_system_mac where
  "two_channels = \<lparr>mac_base = 0x1000, mac_tx_depth = 512, mac_rx_depth = 512, mac_use_mdio = 1,
     mac_en_maclite = 0, mac_maclite_gige = 0, mac_multichannel = 1, mac_num_of_channel = 2,
     mac_mdio_shared = 0, mac_number_mdio_shared = 0, mac_pcs_ena = 0, mac_pcs_sgmii = 0\<rparr>"

definition dma_names :: alt_tse_system_msgdma where
  "dma_names = \<lparr>msgdma_tx = Some ''tx'', msgdma_rx = Some ''rx'', msgdma_rx_irq = 1\<rparr>"

theorem add_sys_bounds_witness:
  "(\<exists>t. alt_tse_system_add_sys (Some two_channels) (Some [dma_names, dma_names]) None None None
        (tse_with (replicate 8 one_mac) 3) = Some (Inr SUCCESS, t)
      \<and> tse_mac_base (tse_mac_device t ! 4) = 0x1400)
    \<and> alt_tse_system_add_sys (Some two_channels) (Some [dma_names, dma_names]) None None None
        (tse_with (replicate 8 one_mac) 7) = None"
proof
  have h: "\<forall>d \<in> set [dma_names, dma_names]. named d" "has n None" for n
    by (simp_all add: named_def dma_names_def has_def)
  have c: "2 = (if mac_num_of_channel two_channels = 0 then 1 else unat (mac_num_of_channel two_channels))"
    by (simp add: two_channels_def)
  obtain t where t: "alt_tse_system_add_sys (Some two_channels) (Some [dma_names, dma_names]) None None None
        (tse_with (replicate 8 one_mac) 3) = Some (Inr SUCCESS, t)"
      "\<forall>j < 2. tse_mac_device t ! (3 + j) = filled two_channels j ([dma_names, dma_names] ! j)
        (elem j None) (elem j None) (elem j None) (replicate 8 one_mac ! (3 + j))"
    using add_sys_bounds [OF _ h(1) c _ h(2) h(2) h(2), of "tse_with (replicate 8 one_mac) 3"]
    by (auto simp: tse_with_def)
  have "tse_mac_device t ! 4 = filled two_channels 1 dma_names None None None one_mac"
    using t(2) [rule_format, of 1] by (simp add: elem_def numeral_eq_Suc)
  then have "tse_mac_base (tse_mac_device t ! 4) = 0x1400"
    by (simp add: filled_def set_phy_def set_fifo_def set_mem_def set_mac_def two_channels_def)
  then show "\<exists>t. alt_tse_system_add_sys (Some two_channels) (Some [dma_names, dma_names]) None None None
        (tse_with (replicate 8 one_mac) 3) = Some (Inr SUCCESS, t)
      \<and> tse_mac_base (tse_mac_device t ! 4) = 0x1400"
    using t(1) by blast
  show "alt_tse_system_add_sys (Some two_channels) (Some [dma_names, dma_names]) None None None
        (tse_with (replicate 8 one_mac) 7) = None"
    using add_sys_bounds [OF _ h(1) c _ h(2) h(2) h(2), of "tse_with (replicate 8 one_mac) 7"]
    by (simp add: tse_with_def)
qed

end
