(* ===== verification/PhySpeed.thy ===== *)
theory PhySpeed
  imports Phy
begin

text \<open>
  What \<open>alt_tse_phy_get_common_speed\<close> and \<open>getPHYSpeed\<close> of
  \<open>altera_avalon_tse.c\<close> report.  The reference for the common speed is the greatest speed that
  every MAC, its PHY and the partner of the PHY support, among the PHYs that completed the
  negotiation.
\<close>

unbundle bit_operations_syntax

subsection \<open>The reference\<close>

definition supports :: "mac_kind \<Rightarrow> alt_tse_phy_link_cap \<Rightarrow> int \<Rightarrow> bool" where
  "supports k c v \<longleftrightarrow>
    v = 2 \<and> k \<noteq> ALTERA_TSE_MACLITE_10_100 \<and> cap_1000_base_t_full c \<noteq> 0 \<and> lp_1000_base_t_full c \<noteq> 0
  \<or> v = 1 \<and> k \<noteq> ALTERA_TSE_MACLITE_1000
      \<and> (cap_100_base_x_full c \<noteq> 0 \<and> lp_100_base_tx_full c \<noteq> 0
         \<or> cap_100_base_x_half c \<noteq> 0 \<and> lp_100_base_tx_half c \<noteq> 0
         \<or> cap_100_base_t4 c \<noteq> 0 \<and> lp_100_base_t4 c \<noteq> 0)
  \<or> v = 0 \<and> k \<noteq> ALTERA_TSE_MACLITE_1000
      \<and> (cap_10_base_t_full c \<noteq> 0 \<and> lp_10_base_tx_full c \<noteq> 0
         \<or> cap_10_base_t_half c \<noteq> 0 \<and> lp_10_base_tx_half c \<noteq> 0)"

definition best_speed :: "(mac_kind \<times> alt_tse_phy_link_cap) list \<Rightarrow> int" where
  "best_speed pcs =
    (if pcs = [] then - 1
     else Max (insert (- 1) {v \<in> {0, 1, 2}. \<forall>(k, c) \<in> set pcs. supports k c v}))"

text \<open>The members of the group that completed the negotiation, as they are asked in turn.\<close>

primrec completed ::
  "nat list \<Rightarrow> 'a tse_scheme \<Rightarrow> ((mac_kind \<times> alt_tse_phy_link_cap) list \<times> 'a tse_scheme) option" where
  "completed [] s = Some ([], s)"
| "completed (m # ms) s = do {
     mi \<leftarrow> at (mac_infos s) m;
     case pphy_info mi of
       None \<Rightarrow> completed ms s
     | Some p \<Rightarrow> do {
         (r, s) \<leftarrow> alt_tse_phy_get_cap p s;
         if r \<noteq> TSE_PHY_AN_COMPLETE then completed ms s
         else do {
           phy \<leftarrow> at (phy_infos s) p;
           c \<leftarrow> link_capability phy;
           (pcs, s) \<leftarrow> completed ms s;
           Some ((mac_type mi, c) # pcs, s) } } }"

subsection \<open>Capabilities are bits\<close>

definition bits_ok :: "alt_tse_phy_link_cap \<Rightarrow> bool" where
  "bits_ok c \<longleftrightarrow> set [cap_1000_base_t_full c, lp_1000_base_t_full c, cap_100_base_x_full c,
     lp_100_base_tx_full c, cap_100_base_x_half c, lp_100_base_tx_half c, cap_100_base_t4 c,
     lp_100_base_t4 c, cap_10_base_t_full c, lp_10_base_tx_full c, cap_10_base_t_half c,
     lp_10_base_tx_half c] \<subseteq> {0, 1}"

lemma rd_cap_bit: "fst (rd_cap pmac reg lsb s) = 0 \<or> fst (rd_cap pmac reg lsb s) = 1"
proof -
  have "field_of (unat lsb) (Suc 0) v = 0 \<or> field_of (unat lsb) (Suc 0) v = 1" for v
    by (auto simp: field_of_def take_bit_Suc)
  from this [of "phy_reg pmac reg s"] show ?thesis by (auto simp: rd_cap_def rd_mdio_reg_eq)
qed

lemma read_caps_bits: "bits_ok (fst (read_caps pmac s))"
  unfolding read_caps_def bits_ok_def Let_def split_beta fst_conv
  by (simp add: rd_cap_bit)

lemma get_cap_bits: "an_get_cap pmac a s = Some (r, Some c, t) \<Longrightarrow> bits_ok c"
  using read_caps_bits by (auto simp: an_get_cap_def Let_def split_beta split: if_splits bind_splits)

lemma get_cap_complete: "an_get_cap pmac a s = Some (TSE_PHY_AN_COMPLETE, cs, t) \<Longrightarrow> \<exists>c. cs = Some c"
  by (auto simp: an_get_cap_def Let_def split_beta split: if_splits bind_splits)

lemma phy_get_cap_bits:
  assumes "alt_tse_phy_get_cap p s = Some (TSE_PHY_AN_COMPLETE, t)"
    and "at (phy_infos t) p = Some phy" and "link_capability phy = Some c"
  shows "bits_ok c"
proof -
  obtain base u cs where u: "p < length (phy_infos s)"
      "an_get_cap base (mdio_address (phy_infos s ! p)) s = Some (TSE_PHY_AN_COMPLETE, cs, u)"
      "t = (case cs of None \<Rightarrow> u
        | Some c \<Rightarrow> u\<lparr>phy_infos := (phy_infos u)[p := (phy_infos u ! p)\<lparr>link_capability := Some c\<rparr>]\<rparr>)"
    using assms(1) by (auto simp: alt_tse_phy_get_cap_def phy_op_def split: bind_splits)
  obtain d where d: "cs = Some d" "bits_ok d" using u(2) get_cap_complete get_cap_bits by metis
  show ?thesis using assms(2,3) u(3) d by auto
qed
subsection \<open>The common speed\<close>

lemma completed_caps:
  "common_caps ms a s = map_option (\<lambda>(pcs, t). (fold (\<lambda>(k, c). narrow k c) pcs a, t)) (completed ms s)"
proof (induction ms arbitrary: a s)
  case (Cons m ms)
  show ?case
  proof (cases "at (mac_infos s) m")
    case (Some mi)
    show ?thesis
    proof (cases "pphy_info mi")
      case None
      then show ?thesis using Some by (simp add: Cons.IH del: at_Some)
    next
      case p: (Some p)
      show ?thesis
      proof (cases "alt_tse_phy_get_cap p s")
        case None
        then show ?thesis using Some p by (simp del: at_Some)
      next
        case q: (Some q)
        obtain r u where u: "q = (r, u)" by fastforce
        have "do { phy \<leftarrow> at (phy_infos u) p; caps \<leftarrow> link_capability phy;
              common_caps ms (narrow (mac_type mi) caps a) u }
          = map_option (\<lambda>(pcs, t). (fold (\<lambda>(k, c). narrow k c) pcs a, t))
              (do { phy \<leftarrow> at (phy_infos u) p; c \<leftarrow> link_capability phy;
                (pcs, t) \<leftarrow> completed ms u; Some ((mac_type mi, c) # pcs, t) })"
          by (cases "at (phy_infos u) p"; cases "link_capability (the (at (phy_infos u) p))";
              cases "completed ms u") (auto simp: Cons.IH simp del: at_Some at_None)
        then show ?thesis using Some p q u by (simp add: Cons.IH del: at_Some at_None)
      qed
    qed
  qed (simp del: at_None)
qed simp

lemma get_cap_at:
  "alt_tse_phy_get_cap p s = Some (TSE_PHY_AN_COMPLETE, t) \<Longrightarrow> p < length (phy_infos t) \<Longrightarrow>
    link_capability (phy_infos t ! p) = Some c \<Longrightarrow> bits_ok c"
  using phy_get_cap_bits [of p s t "phy_infos t ! p" c] by simp

lemma completed_bits: "completed ms s = Some (pcs, t) \<Longrightarrow> (k, c) \<in> set pcs \<Longrightarrow> bits_ok c"
proof (induction ms arbitrary: s pcs)
  case (Cons m ms)
  then show ?case
    by (auto split: bind_splits option.splits if_splits) (blast intro: get_cap_at)+
qed simp

text \<open>What the bytes of the accumulator say after any list of PHYs.\<close>

definition is_bit :: "u8 \<Rightarrow> bool" where "is_bit x \<longleftrightarrow> x = 0 \<or> x = 1"

lemma is_bit_ops [simp]:
  "is_bit 0" "is_bit 1"
  "is_bit x \<Longrightarrow> is_bit y \<Longrightarrow> is_bit (x AND y)" "is_bit x \<Longrightarrow> is_bit y \<Longrightarrow> is_bit (x OR y)"
  "is_bit x \<Longrightarrow> is_bit y \<Longrightarrow> x AND y = 0 \<longleftrightarrow> x = 0 \<or> y = 0"
  "x OR y = 0 \<longleftrightarrow> x = 0 \<and> y = 0"
  by (auto simp: is_bit_def or_eq_0_iff)

lemma bits_ok_bits: "bits_ok c \<Longrightarrow>
    is_bit (cap_1000_base_t_full c) \<and> is_bit (lp_1000_base_t_full c) \<and> is_bit (cap_100_base_x_full c)
    \<and> is_bit (lp_100_base_tx_full c) \<and> is_bit (cap_100_base_x_half c) \<and> is_bit (lp_100_base_tx_half c)
    \<and> is_bit (cap_100_base_t4 c) \<and> is_bit (lp_100_base_t4 c) \<and> is_bit (cap_10_base_t_full c)
    \<and> is_bit (lp_10_base_tx_full c) \<and> is_bit (cap_10_base_t_half c) \<and> is_bit (lp_10_base_tx_half c)"
  unfolding bits_ok_def is_bit_def by auto

definition common_bits :: "common \<Rightarrow> bool" where
  "common_bits a \<longleftrightarrow> is_bit (common_1000 a) \<and> is_bit (common_100 a) \<and> is_bit (common_10 a)"

lemma narrow_bits:
  assumes "bits_ok c" "common_bits a"
  shows "common_bits (narrow k c a)"
    and "common_1000 (narrow k c a) \<noteq> 0 \<longleftrightarrow> common_1000 a \<noteq> 0 \<and> supports k c 2"
    and "common_100 (narrow k c a) \<noteq> 0 \<longleftrightarrow> common_100 a \<noteq> 0 \<and> supports k c 1"
    and "common_10 (narrow k c a) \<noteq> 0 \<longleftrightarrow> common_10 a \<noteq> 0 \<and> supports k c 0"
    and "none_an_complete (narrow k c a) = 0"
  using bits_ok_bits [OF assms(1)] assms(2)
  by (cases k; simp add: narrow_def supports_def common_bits_def Let_def)+

lemma fold_narrow:
  "\<forall>(k, c) \<in> set pcs. bits_ok c \<Longrightarrow> common_bits a \<Longrightarrow>
    b = fold (\<lambda>(k, c). narrow k c) pcs a \<Longrightarrow>
    (common_1000 b \<noteq> 0 \<longleftrightarrow> common_1000 a \<noteq> 0 \<and> (\<forall>(k, c) \<in> set pcs. supports k c 2))
    \<and> (common_100 b \<noteq> 0 \<longleftrightarrow> common_100 a \<noteq> 0 \<and> (\<forall>(k, c) \<in> set pcs. supports k c 1))
    \<and> (common_10 b \<noteq> 0 \<longleftrightarrow> common_10 a \<noteq> 0 \<and> (\<forall>(k, c) \<in> set pcs. supports k c 0))
    \<and> none_an_complete b = (if pcs = [] then none_an_complete a else 0)"
proof (induction pcs arbitrary: a)
  case (Cons p pcs)
  obtain k c where p: "p = (k, c)" by fastforce
  have "bits_ok c" using Cons.prems(1) p by auto
  note n = narrow_bits [OF this Cons.prems(2), of k]
  have pcs: "\<forall>(k, c) \<in> set pcs. bits_ok c" using Cons.prems(1) by auto
  have b: "b = fold (\<lambda>(k, c). narrow k c) pcs (narrow k c a)" using Cons.prems(3) by (simp add: p)
  show ?case using Cons.IH [OF pcs n(1) b] n(2-5) by (simp add: p)
qed auto

text \<open>C30: The speed that \<open>alt_tse_phy_get_common_speed\<close> answers is the greatest one that every
  member of the group that completed its negotiation can do (the MAC, its PHY and the PHY's
  partner), and -1 if there is none or no member completed.\<close>

theorem common_speed_best:
  fixes s :: "'a tse_scheme"
  shows "alt_tse_phy_get_common_speed g s =
    do { ms \<leftarrow> group_ptrs g s;
         s \<leftarrow> reset_adv ms s;
         map_option (\<lambda>(pcs, t). (best_speed pcs, t)) (completed ms s) }"
proof -
  let ?a = "\<lparr>common_1000 = 1, common_100 = 1, common_10 = 1, none_an_complete = 1\<rparr>"
  have "speed_from (fold (\<lambda>(k, c). narrow k c) pcs ?a) = best_speed pcs"
    if bits: "\<forall>(k, c) \<in> set pcs. bits_ok c" for pcs
  proof -
    let ?S = "{v \<in> {0, 1, 2}. \<forall>(k, c) \<in> set pcs. supports k c v}"
    have "?S = (if \<forall>(k, c) \<in> set pcs. supports k c 0 then {0} else {})
        \<union> (if \<forall>(k, c) \<in> set pcs. supports k c 1 then {1} else {})
        \<union> (if \<forall>(k, c) \<in> set pcs. supports k c 2 then {2} else {})"
      by auto
    then show ?thesis
      using fold_narrow [OF bits _ refl, of ?a]
      by (simp add: speed_from_def best_speed_def common_bits_def split: if_splits)
  qed
  then have "map_option (\<lambda>(a, t). (speed_from a, t)) (common_caps ms ?a u)
      = map_option (\<lambda>(pcs, t). (best_speed pcs, t)) (completed ms u)" for ms and u :: "'a tse_scheme"
    by (cases "completed ms u") (auto simp: completed_caps dest: completed_bits)
  moreover have "do { (a, t) \<leftarrow> x; Some (speed_from a, t) } = map_option (\<lambda>(a, t). (speed_from a, t)) x"
    for x :: "(common \<times> 'a tse_scheme) option"
    by (cases x) auto
  ultimately show ?thesis by (simp add: alt_tse_phy_get_common_speed_def)
qed
subsection \<open>The report on a link\<close>

lemma default_report: "default_report = 5"
  by (simp add: default_report_def ALT_TSE_SPEED_DUPLEX_def)

lemmas error_bits = ALT_TSE_E_NO_PMAC_FOUND_def ALT_TSE_E_NO_MDIO_def ALT_TSE_E_NO_PHY_def
  ALT_TSE_E_AN_NOT_COMPLETE_def ALT_TSE_E_NO_PHY_PROFILE_def
  ALT_TSE_E_PROFILE_INCORRECT_DEFINED_def ALT_TSE_E_INVALID_SPEED_def

lemma error_reports [simp]:
  "default_report OR ALT_TSE_E_NO_PMAC_FOUND = 0x800005" "default_report OR ALT_TSE_E_NO_MDIO = 0x400005"
  "default_report OR ALT_TSE_E_NO_PHY = 0x200005" "default_report OR ALT_TSE_E_AN_NOT_COMPLETE = 0x80005"
  "default_report OR ALT_TSE_E_NO_PHY_PROFILE = 0x40005"
  "default_report OR ALT_TSE_E_PROFILE_INCORRECT_DEFINED = 0x20005"
  by (simp_all add: default_report error_bits push_bit_eq_mult)

text \<open>The answers for a speed and a duplex mode: one speed, or the error for an invalid one.\<close>

definition link_reports :: "u32 set" where
  "link_reports = {2, 3, 4, 5, 8, 9, 0x10000, 0x10001}"

lemma small_field: "field_of lsb 2 v \<in> {0, 1, 2, 3}" "field_of lsb (Suc 0) v \<in> {0, 1}"
proof -
  have b: "uint (field_of lsb n v) < 2 ^ n" for n
    by (simp add: field_of_def unsigned_take_bit_eq take_bit_int_less_exp)
  have "uint (field_of lsb 2 v) \<in> {0, 1, 2, 3}" "uint (field_of lsb (Suc 0) v) \<in> {0, 1}"
    using b [of 2] b [of "Suc 0"] uint_ge_0 [of "field_of lsb 2 v"] uint_ge_0 [of "field_of lsb (Suc 0) v"]
    by (simp; linarith)+
  then show "field_of lsb 2 v \<in> {0, 1, 2, 3}" "field_of lsb (Suc 0) v \<in> {0, 1}"
    by (auto simp: word_uint_eq_iff)
qed

lemma speed_duplex_reports:
  "v \<in> {0, 1, 2, 3 :: u32} \<Longrightarrow> d \<in> {0, 1 :: u32} \<Longrightarrow> ALT_TSE_SPEED_DUPLEX (ucast v) (ucast d) \<in> link_reports"
  by (auto simp: ALT_TSE_SPEED_DUPLEX_def link_reports_def error_bits push_bit_eq_mult)

lemma status_reports:
  "fst (DP83848C_link_status_read pmac s) \<in> link_reports"
  "fst (PEF7071_link_status_read pmac s) \<in> link_reports \<union> {0, 1}"
  by (auto simp: DP83848C_link_status_read_def PEF7071_link_status_read_def link_reports_def
      Let_def split_beta)

lemma read_speed_reports:
  assumes "read_speed base p s = Some (r, t)"
  shows "r \<in> {0x40005, 0x20005} \<union> link_reports \<union> {0, 1}"
    and "r \<in> {0, 1} \<Longrightarrow> \<exists>k. pphy_profile (phy_infos s ! p) = Some k
      \<and> link_status_read (pphy_profiles s ! k) = Some PEF7071_status"
proof -
  consider "pphy_profile (phy_infos s ! p) = None" "r = 0x40005"
    | k f where "pphy_profile (phy_infos s ! p) = Some k"
        "link_status_read (pphy_profiles s ! k) = Some f" "r = fst (run_status f base s)"
    | "r = 0x20005"
    | a b u v where "r = ALT_TSE_SPEED_DUPLEX (ucast (field_of a 2 u)) (ucast (field_of b (Suc 0) v))"
    using assms
    by (auto simp: read_speed_def alt_tse_phy_rd_mdio_reg_def phy_op_def rd_mdio_reg_eq
        split: option.splits bind_splits if_splits)
  note c = this
  have dp: "fst (run_status DP83848C_status base s) \<in> link_reports"
    by (simp add: run_status_def status_reports)
  have pe: "fst (run_status PEF7071_status base s) \<in> link_reports \<union> {0, 1}"
    using status_reports(2) by (simp add: run_status_def)
  from c show "r \<in> {0x40005, 0x20005} \<union> link_reports \<union> {0, 1}"
  proof cases
    case (2 k f)
    then show ?thesis using dp pe by (cases f) auto
  next
    case (4 a b u v)
    then show ?thesis using speed_duplex_reports [OF small_field] by auto
  qed auto
  assume r: "r \<in> {0, 1}"
  from c show "\<exists>k. pphy_profile (phy_infos s ! p) = Some k
      \<and> link_status_read (pphy_profiles s ! k) = Some PEF7071_status"
  proof cases
    case (2 k f)
    then show ?thesis using r dp by (cases f) (auto simp: link_reports_def)
  next
    case (4 a b u v)
    then have "r \<in> link_reports" using speed_duplex_reports [OF small_field] by simp
    then show ?thesis using r by (auto simp: link_reports_def)
  qed (use r in auto)
qed
text \<open>Asking the PHY leaves the descriptions of the PHYs and the profiles as they are.\<close>

lemma bus_only_tse: "bus_only s t \<Longrightarrow> phy_infos t = phy_infos s \<and> pphy_profiles t = pphy_profiles s"
  for s :: "'a tse_scheme"
  by (auto simp: bus_only_def)

lemma phy_frames:
  "alt_tse_phy_check_link p th s = Some (a, t) \<Longrightarrow> bus_only s t"
  "alt_tse_phy_restart_an p th s = Some (b, t) \<Longrightarrow> bus_only s t"
  "alt_tse_phy_set_adv_1000 p e s = Some t \<Longrightarrow> bus_only s t"
  "alt_tse_phy_set_adv_100 p e s = Some t \<Longrightarrow> bus_only s t"
  "alt_tse_phy_set_adv_10 p e s = Some t \<Longrightarrow> bus_only s t"
  "alt_tse_phy_wr_mdio_reg p reg lsb n d s = Some t \<Longrightarrow> bus_only s t"
  by (auto simp: alt_tse_phy_check_link_def alt_tse_phy_restart_an_def alt_tse_phy_set_adv_1000_def
      alt_tse_phy_set_adv_100_def alt_tse_phy_set_adv_10_def alt_tse_phy_wr_mdio_reg_def phy_op_def
      split: bind_splits intro: mdio_frame)

lemma limit_adv_frame: "limit_adv k p s = Some t \<Longrightarrow> bus_only s t"
  by (cases k) (auto simp: limit_adv_def split: bind_splits dest!: phy_frames intro: bus_only_trans)

text \<open>The negotiation of the link did not complete, as the check of the link says.\<close>

definition not_negotiated :: "mac_kind \<Rightarrow> nat \<Rightarrow> 'a tse_scheme \<Rightarrow> bool" where
  "not_negotiated k p s \<longleftrightarrow> (\<exists>u v. limit_adv k p s = Some u
     \<and> alt_tse_phy_check_link p ALTERA_AUTONEG_TIMEOUT_THRESHOLD u = Some (TSE_PHY_AN_NOT_COMPLETE, v))"

definition no_status_register :: "alt_tse_phy_profile \<Rightarrow> bool" where
  "no_status_register prof \<longleftrightarrow> link_status_read prof = None \<and> status_reg_location prof = 0"

lemma read_speed_causes:
  assumes "read_speed base p s = Some (r, t)"
  shows "r = 0x40005 \<longleftrightarrow> pphy_profile (phy_infos s ! p) = None"
    and "r = 0x20005 \<longleftrightarrow> (\<exists>k. pphy_profile (phy_infos s ! p) = Some k \<and> no_status_register (pphy_profiles s ! k))"
proof -
  have n: "0x40005 \<notin> link_reports \<union> {0, 1}" "0x20005 \<notin> link_reports \<union> {0, 1}"
    by (simp_all add: link_reports_def)
  have st: "fst (run_status f base s) \<in> link_reports \<union> {0, 1}" for f
    using status_reports by (cases f) (auto simp: run_status_def)
  have sd: "ALT_TSE_SPEED_DUPLEX (ucast (field_of a 2 u)) (ucast (field_of b (Suc 0) v)) \<in> link_reports" for a b u v
    by (rule speed_duplex_reports [OF small_field])
  have c: "(pphy_profile (phy_infos s ! p) = None \<and> r = 0x40005)
    \<or> (\<exists>k. pphy_profile (phy_infos s ! p) = Some k \<and> no_status_register (pphy_profiles s ! k) \<and> r = 0x20005)
    \<or> (\<exists>k. pphy_profile (phy_infos s ! p) = Some k \<and> \<not> no_status_register (pphy_profiles s ! k)
        \<and> r \<in> link_reports \<union> {0, 1})"
    using assms st sd
    by (auto simp: read_speed_def alt_tse_phy_rd_mdio_reg_def phy_op_def rd_mdio_reg_eq no_status_register_def
        split: option.splits bind_splits if_splits) (metis Un_iff fst_conv insert_iff)+
  show "r = 0x40005 \<longleftrightarrow> pphy_profile (phy_infos s ! p) = None"
    "r = 0x20005 \<longleftrightarrow> (\<exists>k. pphy_profile (phy_infos s ! p) = Some k \<and> no_status_register (pphy_profiles s ! k))"
    using c n by auto
qed

lemma link_speed_causes:
  assumes "link_speed mi base s = Some (r, t)"
  shows "r \<in> {0x200005, 0x80005, 0x40005, 0x20005} \<union> link_reports \<union> {0, 1}
    \<and> (r = 0x200005 \<longleftrightarrow> pphy_info mi = None)
    \<and> (\<forall>p. pphy_info mi = Some p \<longrightarrow>
        (r = 0x80005 \<longleftrightarrow> not_negotiated (mac_type mi) p s)
      \<and> (r = 0x40005 \<longleftrightarrow> \<not> not_negotiated (mac_type mi) p s \<and> pphy_profile (phy_infos s ! p) = None)
      \<and> (r = 0x20005 \<longleftrightarrow> \<not> not_negotiated (mac_type mi) p s
          \<and> (\<exists>k. pphy_profile (phy_infos s ! p) = Some k \<and> no_status_register (pphy_profiles s ! k)))
      \<and> (r \<in> {0, 1} \<longrightarrow> (\<exists>k. pphy_profile (phy_infos s ! p) = Some k
          \<and> link_status_read (pphy_profiles s ! k) = Some PEF7071_status)))"
proof (cases "pphy_info mi")
  case None
  then show ?thesis using assms by (simp add: link_speed_def link_reports_def)
next
  case (Some p)
  obtain u a v where u: "limit_adv (mac_type mi) p s = Some u"
    "alt_tse_phy_check_link p ALTERA_AUTONEG_TIMEOUT_THRESHOLD u = Some (a, v)"
    using assms Some by (auto simp: link_speed_def split: bind_splits)
  have nn: "not_negotiated (mac_type mi) p s \<longleftrightarrow> a = TSE_PHY_AN_NOT_COMPLETE"
    using u by (auto simp: not_negotiated_def)
  show ?thesis
  proof (cases "a = TSE_PHY_AN_NOT_COMPLETE")
    case True
    then have "r = 0x80005" using assms Some u by (simp add: link_speed_def)
    then show ?thesis using Some nn True by simp
  next
    case False
    obtain k w where w: "alt_tse_phy_wr_mdio_reg p TSE_PHY_MDIO_CONTROL CONTROL_LOOPBACK 1 0
        (iowr (base + MDIO_ADDR1) 0 k v) = Some w" "read_speed base p w = Some (r, t)"
      using assms Some u False by (auto simp: link_speed_def Let_def split: bind_splits)
    have "bus_only s u" "bus_only u v" "bus_only v (iowr (base + MDIO_ADDR1) 0 k v)"
      "bus_only (iowr (base + MDIO_ADDR1) 0 k v) w"
      using limit_adv_frame [OF u(1)] phy_frames(1) [OF u(2)] phy_frames(6) [OF w(1)]
      by (simp_all add: bus_only_ops)
    then have "bus_only s w" by (blast intro: bus_only_trans)
    then have same: "phy_infos w = phy_infos s" "pphy_profiles w = pphy_profiles s"
      using bus_only_tse by blast+
    note c = read_speed_causes [OF w(2), unfolded same] and q = read_speed_reports [OF w(2), unfolded same]
    have "r \<notin> {0x200005, 0x80005}" using q(1) by (auto simp: link_reports_def)
    then show ?thesis using Some nn False c q by auto
  qed
qed

text \<open>C33: once the driver is initialised, every answer of \<open>getPHYSpeed\<close> tells its cause.  The
  defaults, 100 Mbps full duplex, come with exactly one error bit: for a MAC that is not in the
  list; for a group without MDIO, if no function of the user stands in for it; and, with MDIO,
  exactly if no PHY is connected, exactly if the check of the link says that the negotiation did not
  complete, exactly if it did and the PHY has no profile, and exactly if the profile gives neither a
  function nor a register for the status.  Every other answer is one speed and duplex mode, or the
  invalid speed with its error bit; the one exception is the status function of the PEF7071, which
  for the reserved speed code answers neither a speed nor an error.\<close>

theorem phy_speed_report:
  assumes "is_init s" and "getPHYSpeed user pmac s = Some (r, t)"
  shows "\<exists>mo. alt_tse_get_mac_info pmac s = Some mo \<and> (case mo of
      None \<Rightarrow> r = 0x800005
    | Some m \<Rightarrow> let mi = mac_infos s ! m in \<exists>g. group_sys (pmac_group mi) s = Some g \<and>
      (if tse_use_mdio g = 0 then
         case tse_phy_cfg (tse_mac_device s ! psys_info mi) of
           None \<Rightarrow> r = 0x400005
         | Some f \<Rightarrow> run_cfg user f pmac (usleep 1000000 s) = Some (r, t)
       else r \<in> {0x200005, 0x80005, 0x40005, 0x20005} \<union> link_reports \<union> {0, 1}
         \<and> (r = 0x200005 \<longleftrightarrow> pphy_info mi = None)
         \<and> (\<forall>p. pphy_info mi = Some p \<longrightarrow>
             (r = 0x80005 \<longleftrightarrow> not_negotiated (mac_type mi) p s)
           \<and> (r = 0x40005 \<longleftrightarrow> \<not> not_negotiated (mac_type mi) p s \<and> pphy_profile (phy_infos s ! p) = None)
           \<and> (r = 0x20005 \<longleftrightarrow> \<not> not_negotiated (mac_type mi) p s
               \<and> (\<exists>k. pphy_profile (phy_infos s ! p) = Some k \<and> no_status_register (pphy_profiles s ! k)))
           \<and> (r \<in> {0, 1} \<longrightarrow> (\<exists>k. pphy_profile (phy_infos s ! p) = Some k
               \<and> link_status_read (pphy_profiles s ! k) = Some PEF7071_status)))))"
proof -
  obtain mo where mo: "alt_tse_get_mac_info pmac s = Some mo"
    using assms by (auto simp: getPHYSpeed_def split: bind_splits)
  show ?thesis
  proof (cases mo)
    case None
    then show ?thesis using assms mo by (simp add: getPHYSpeed_def)
  next
    case (Some m)
    define mi where "mi = mac_infos s ! m"
    obtain g where g: "group_sys (pmac_group mi) s = Some g"
      and r: "if tse_use_mdio g = 0 then
         case tse_phy_cfg (tse_mac_device s ! psys_info mi) of
           None \<Rightarrow> r = 0x400005
         | Some f \<Rightarrow> run_cfg user f pmac (usleep 1000000 s) = Some (r, t)
       else link_speed mi (tse_mac_base g) s = Some (r, t)"
      using assms mo Some by (auto simp: getPHYSpeed_def mi_def Let_def split: bind_splits option.splits if_splits)
    have "r \<in> {0x200005, 0x80005, 0x40005, 0x20005} \<union> link_reports \<union> {0, 1}
         \<and> (r = 0x200005 \<longleftrightarrow> pphy_info mi = None)
         \<and> (\<forall>p. pphy_info mi = Some p \<longrightarrow>
             (r = 0x80005 \<longleftrightarrow> not_negotiated (mac_type mi) p s)
           \<and> (r = 0x40005 \<longleftrightarrow> \<not> not_negotiated (mac_type mi) p s \<and> pphy_profile (phy_infos s ! p) = None)
           \<and> (r = 0x20005 \<longleftrightarrow> \<not> not_negotiated (mac_type mi) p s
               \<and> (\<exists>k. pphy_profile (phy_infos s ! p) = Some k \<and> no_status_register (pphy_profiles s ! k)))
           \<and> (r \<in> {0, 1} \<longrightarrow> (\<exists>k. pphy_profile (phy_infos s ! p) = Some k
               \<and> link_status_read (pphy_profiles s ! k) = Some PEF7071_status)))"
      if "tse_use_mdio g \<noteq> 0"
    proof (rule link_speed_causes)
      show "link_speed mi (tse_mac_base g) s = Some (r, t)" using r that by simp
    qed
    then show ?thesis using mo Some g r by (auto simp: mi_def Let_def)
  qed
qed

text \<open>One MAC without a PHY.\<close>

definition one_mac_tse :: tse where
  "one_mac_tse = \<lparr>hw = (\<lambda>_ _. 0), ipend = (\<lambda>_. 0), trace = [], cpu_status = 0, ienable = 0,
     tse_mac_device = [one_mac], tse_system_count = 1, max_mac_system = 1, pphy_profiles = [],
     pmac_groups = [0], mac_groups = [\<lparr>channel = 1, pmac_info = [0]\<rparr>],
     mac_infos = [\<lparr>mac_type = ALTERA_TSE_FULL_MAC, pphy_info = None, psys_info = 0, pmac_group = 0\<rparr>],
     phy_infos = [], malloc_ok = (\<lambda>_. True), mallocs = 0, is_init = True\<rparr>"

lemma phy_speed_report_witness:
  "\<exists>t. getPHYSpeed (\<lambda>_ _ _. None) 0x1000 one_mac_tse = Some (0x200005, t)"
proof -
  have i: "alt_tse_get_mac_info 0x1000 one_mac_tse = Some (Some 0)"
    by (simp add: alt_tse_get_mac_info_def one_mac_tse_def group_ptrs_def info_at_def one_mac_def at_def)
  have g: "group_sys (pmac_group (mac_infos one_mac_tse ! 0)) one_mac_tse = Some one_mac"
    by (simp add: group_sys_def group_info_def one_mac_tse_def at_def)
  have m: "is_init one_mac_tse" "tse_use_mdio one_mac \<noteq> 0" "pphy_info (mac_infos one_mac_tse ! 0) = None"
    by (simp_all add: one_mac_tse_def one_mac_def)
  have a: "at (mac_infos one_mac_tse) 0 = Some (mac_infos one_mac_tse ! 0)"
      "at (tse_mac_device one_mac_tse) (psys_info (mac_infos one_mac_tse ! 0)) = Some one_mac"
    by (simp_all add: one_mac_tse_def)
  obtain r t where r: "getPHYSpeed (\<lambda>_ _ _. None) 0x1000 one_mac_tse = Some (r, t)"
    using g m(2) by (simp add: getPHYSpeed_def i a m(1,3) link_speed_def)
  then show ?thesis using phy_speed_report [OF m(1) r] m(2,3) i g by (auto simp: Let_def)
qed

end
