(* ===== verification/Loader.thy ===== *)
theory Loader
  imports Clock
begin

text \<open>
  Memory at start-up and the heap: the sections copied to RAM by \<open>alt_load.c\<close> and
  \<open>alt_load.h\<close>, the constructors and destructors run by \<open>alt_do_ctors.c\<close> and
  \<open>alt_do_dtors.c\<close>, the heap of \<open>alt_sbrk.c\<close> and the cache flushes of
  \<open>alt_dcache_flush.c\<close> and \<open>alt_icache_flush.c\<close> (and their \<open>_all\<close> forms).  Memory is a map from the address of a
  word to the word.  \<open>None\<close> is a loop that does not end.
\<close>

unbundle bit_operations_syntax

subsection \<open>Cache flushes\<close>

text \<open>The addresses given to the flush instruction, for a cache of lines of \<open>line\<close> bytes
  (\<open>NIOS2_DCACHE_LINE_SIZE\<close>).  The pointers are compared as unsigned numbers.\<close>

partial_function (option) flush_loop :: "u32 \<Rightarrow> u32 \<Rightarrow> u32 \<Rightarrow> (u32 list \<times> u32) option" where
  "flush_loop line i en =
    (if i < en then do { (fs, j) \<leftarrow> flush_loop line (i + line) en; Some (i # fs, j) }
     else Some ([], i))"

definition flush_region :: "u32 \<Rightarrow> u32 \<Rightarrow> u32 \<Rightarrow> u32 list option" where
  "flush_region line start len = do {
     (fs, i) \<leftarrow> flush_loop line start (start + len);
     Some (if start AND (line - 1) \<noteq> 0 then fs @ [i] else fs)
   }"

definition alt_dcache_flush :: "u32 \<Rightarrow> u32 \<Rightarrow> u32 \<Rightarrow> u32 \<Rightarrow> u32 list option" where
  "alt_dcache_flush dcache_size line start len =
    (if dcache_size = 0 then Some [] else flush_region line start len)"

definition alt_icache_flush :: "u32 \<Rightarrow> u32 \<Rightarrow> u32 \<Rightarrow> u32 \<Rightarrow> u32 list option" where
  "alt_icache_flush icache_size line start len =
    (if icache_size = 0 then Some []
     else flush_region line start (if icache_size < len then icache_size else len))"

definition alt_dcache_flush_all :: "u32 \<Rightarrow> u32 \<Rightarrow> u32 list option" where
  "alt_dcache_flush_all dcache_size line =
    (if dcache_size = 0 then Some [] else map_option fst (flush_loop line 0 dcache_size))"

definition alt_icache_flush_all :: "u32 \<Rightarrow> u32 \<Rightarrow> u32 list option" where
  "alt_icache_flush_all icache_size line =
    (if icache_size = 0 then Some [] else alt_icache_flush icache_size line 0 icache_size)"

text \<open>The caches of this system (\<open>system.h\<close>): none.\<close>

definition NIOS2_DCACHE_SIZE :: u32 where "NIOS2_DCACHE_SIZE = 0"
definition NIOS2_DCACHE_LINE_SIZE :: u32 where "NIOS2_DCACHE_LINE_SIZE = 0"
definition NIOS2_ICACHE_SIZE :: u32 where "NIOS2_ICACHE_SIZE = 0"
definition NIOS2_ICACHE_LINE_SIZE :: u32 where "NIOS2_ICACHE_LINE_SIZE = 0"

subsection \<open>Copying a section\<close>

type_synonym words = "u32 \<Rightarrow> u32"

partial_function (option) copy_words :: "u32 \<Rightarrow> u32 \<Rightarrow> u32 \<Rightarrow> words \<Rightarrow> words option" where
  "copy_words src to en m =
    (if to = en then Some m else copy_words (src + 4) (to + 4) en (m(to := m src)))"

definition alt_load_section :: "u32 \<Rightarrow> u32 \<Rightarrow> u32 \<Rightarrow> words \<Rightarrow> words option" where
  "alt_load_section src to en m = (if to \<noteq> src then copy_words src to en m else Some m)"

text \<open>The symbols the linker defines for a section: \<open>__flash_*_start\<close>, \<open>__ram_*_start\<close> and
  \<open>__ram_*_end\<close>.\<close>

record loaded_section =
  flash_start :: u32
  ram_start :: u32
  ram_end :: u32

definition load_one :: "loaded_section \<Rightarrow> words \<Rightarrow> words option" where
  "load_one x = alt_load_section (flash_start x) (ram_start x) (ram_end x)"

definition alt_load :: "loaded_section \<Rightarrow> loaded_section \<Rightarrow> loaded_section \<Rightarrow> words \<Rightarrow> words option" where
  "alt_load rwdata exceptions rodata m = do {
     m \<leftarrow> load_one rwdata m;
     m \<leftarrow> load_one exceptions m;
     m \<leftarrow> load_one rodata m;
     _ \<leftarrow> alt_dcache_flush_all NIOS2_DCACHE_SIZE NIOS2_DCACHE_LINE_SIZE;
     _ \<leftarrow> alt_icache_flush_all NIOS2_ICACHE_SIZE NIOS2_ICACHE_LINE_SIZE;
     Some m
   }"

subsection \<open>Constructors and destructors\<close>

text \<open>\<open>for (ctor = &__CTOR_END__[-1]; ctor >= __CTOR_LIST__; ctor--)\<close>: the index runs from
  the last one down; \<open>run\<close> is what calling one does.\<close>

primrec call_down :: "('c \<Rightarrow> 's \<Rightarrow> 's option) \<Rightarrow> 'c list \<Rightarrow> nat \<Rightarrow> 's \<Rightarrow> 's option" where
  "call_down run fs 0 s = Some s"
| "call_down run fs (Suc i) s = do { s \<leftarrow> run (fs ! i) s; call_down run fs i s }"

definition do_ctors :: "('c \<Rightarrow> 's \<Rightarrow> 's option) \<Rightarrow> 'c list \<Rightarrow> 's \<Rightarrow> 's option" where
  "do_ctors run ctors s = call_down run ctors (length ctors) s"

definition do_dtors :: "('c \<Rightarrow> 's \<Rightarrow> 's option) \<Rightarrow> 'c list \<Rightarrow> 's \<Rightarrow> 's option" where
  "do_dtors run dtors s = call_down run dtors (length dtors) s"

subsection \<open>The heap\<close>

record heap_sys = clk +
  heap_end :: u32
  alt_heap_start :: u32    \<comment> \<open>set by the linker\<close>
  alt_heap_limit :: u32    \<comment> \<open>set by the linker\<close>

definition alt_sbrk :: "u32 \<Rightarrow> 'a heap_sys_scheme \<Rightarrow> u32 \<times> 'a heap_sys_scheme" where
  "alt_sbrk incr s =
    (let (context, s) = alt_irq_disable_all s;
         s = s\<lparr>heap_end := (heap_end s + 3) AND NOT 3\<rparr>
     in if alt_heap_limit s < heap_end s + incr then (-1, alt_irq_enable_all context s)
        else
          let prev_heap_end = heap_end s;
              s = s\<lparr>heap_end := heap_end s + incr\<rparr>
          in (prev_heap_end, alt_irq_enable_all context s))"

subsection \<open>What loading does\<close>

definition area :: "u32 \<Rightarrow> nat \<Rightarrow> u32 set" where
  "area a n = (\<lambda>i. a + 4 * of_nat i) ` {..<n}"

primrec copied :: "nat \<Rightarrow> u32 \<Rightarrow> u32 \<Rightarrow> words \<Rightarrow> words" where
  "copied 0 src to m = m"
| "copied (Suc n) src to m = copied n (src + 4) (to + 4) (m(to := m src))"

lemma four_times_nonzero: "0 < n \<Longrightarrow> n < 2 ^ 30 \<Longrightarrow> (4 :: u32) * of_nat n \<noteq> 0"
proof
  assume n: "0 < n" "n < 2 ^ 30" and z: "(4 :: u32) * of_nat n = 0"
  have "unat ((4 :: u32) * of_nat n) = 4 * n"
    using n by (simp add: unat_word_ariths unat_of_nat)
  with z n show False by simp
qed

lemma area_Suc [simp]: "area a (Suc n) = insert a (area (a + 4) n)"
  unfolding area_def lessThan_Suc_eq_insert_0 by (simp add: image_image algebra_simps)

lemma area_0 [simp]: "area a 0 = {}"
  by (simp add: area_def)

lemma copy_words_copied:
  "n < 2 ^ 30 \<Longrightarrow> copy_words src to (to + 4 * of_nat n) m = Some (copied n src to m)"
proof (induction n arbitrary: src to m)
  case 0
  then show ?case by (subst copy_words.simps) simp
next
  case (Suc n)
  have "to \<noteq> to + 4 * of_nat (Suc n)" using four_times_nonzero[of "Suc n"] Suc.prems by simp
  with Suc.IH[of "src + 4" "to + 4"] Suc.prems show ?case
    by (subst copy_words.simps) (simp add: algebra_simps)
qed

lemma copied_other: "a \<notin> area to n \<Longrightarrow> copied n src to m a = m a"
  by (induction n arbitrary: src to m) auto

lemma copied_word:
  assumes "i < n" "n < 2 ^ 30"
    and "\<And>j k. j < k \<Longrightarrow> k < n \<Longrightarrow> to + 4 * of_nat j \<noteq> src + 4 * of_nat k"
  shows "copied n src to m (to + 4 * of_nat i) = m (src + 4 * of_nat i)"
  using assms
proof (induction n arbitrary: i src to m)
  case (Suc n)
  show ?case
  proof (cases i)
    case 0
    have "to \<notin> area (to + 4) n"
    proof
      assume "to \<in> area (to + 4) n"
      then obtain j where j: "j < n" "to = to + 4 * of_nat (Suc j)"
        unfolding area_def by (auto simp: algebra_simps)
      with four_times_nonzero[of "Suc j"] Suc.prems show False by simp
    qed
    with 0 show ?thesis by (simp add: copied_other)
  next
    case (Suc i')
    have a: "(to + 4) + 4 * of_nat j \<noteq> (src + 4) + 4 * of_nat k" if "j < k" "k < n" for j k
      using Suc.prems(3)[of "Suc j" "Suc k"] that by (simp add: algebra_simps)
    have "src + 4 * of_nat i \<noteq> to" using Suc.prems(3)[of 0 i] Suc.prems(1) Suc by auto
    with Suc.IH[OF _ _ a, of i' "m(to := m src)"] Suc.prems Suc show ?thesis
      by (simp add: algebra_simps fun_upd_def)
  qed
qed simp

text \<open>The copy ends exactly when the end is a whole number of words past the start.\<close>

lemma copy_words_ends: "copy_words src to en m = Some m' \<Longrightarrow> \<exists>k. en = to + 4 * k"
proof (induction rule: copy_words.raw_induct[rotated, consumes 1, case_names step])
  case (step cw src to en m m')
  show ?case
  proof (cases "to = en")
    case True
    then show ?thesis by (intro exI[of _ 0]) simp
  next
    case False
    with step(2) have "cw (src + 4) (to + 4) en (m(to := m src)) = Some m'" by simp
    from step(1)[OF this] obtain k where "en = to + 4 + 4 * k" by blast
    then show ?thesis by (intro exI[of _ "k + 1"]) (simp add: algebra_simps)
  qed
qed

lemma multiple_of_four: "\<exists>n<2 ^ 30. (4 :: u32) * k = 4 * of_nat n"
proof (intro exI conjI)
  let ?n = "unat k mod 2 ^ 30"
  show "?n < 2 ^ 30" by simp
  have "k = of_nat (2 ^ 30 * (unat k div 2 ^ 30) + ?n)" by (simp del: of_nat_add of_nat_mult)
  then have "4 * k = (4 * of_nat (2 ^ 30)) * of_nat (unat k div 2 ^ 30) + 4 * of_nat ?n"
    by (metis (no_types) distrib_left mult.assoc of_nat_add of_nat_mult)
  also have "(4 * of_nat (2 ^ 30) :: u32) = 0" by simp
  finally show "(4 :: u32) * k = 4 * of_nat ?n" by simp
qed
text \<open>A section whose end is not a whole number of words past its start is copied for ever.\<close>

theorem load_section_returns:
  "(\<exists>m'. alt_load_section src to en m = Some m') \<longleftrightarrow> to = src \<or> (\<exists>k. en = to + 4 * k)"
proof (cases "to = src")
  case False
  have "\<exists>m'. copy_words src to (to + 4 * k) m = Some m'" for k
    using multiple_of_four[of k] copy_words_copied by metis
  with False copy_words_ends show ?thesis unfolding alt_load_section_def by metis
qed (simp add: alt_load_section_def)

definition flash_area :: "loaded_section \<times> nat \<Rightarrow> u32 set" where
  "flash_area p = area (flash_start (fst p)) (snd p)"

definition ram_area :: "loaded_section \<times> nat \<Rightarrow> u32 set" where
  "ram_area p = area (ram_start (fst p)) (snd p)"

definition sized :: "loaded_section \<times> nat \<Rightarrow> bool" where
  "sized p \<longleftrightarrow> snd p < 2 ^ 30 \<and> ram_end (fst p) = ram_start (fst p) + 4 * of_nat (snd p)
     \<and> (flash_start (fst p) = ram_start (fst p) \<or> flash_area p \<inter> ram_area p = {})"

text \<open>Two sections do not disturb each other: neither is copied to where the other is loaded
  from or copied to.\<close>

definition apart :: "loaded_section \<times> nat \<Rightarrow> loaded_section \<times> nat \<Rightarrow> bool" where
  "apart p q \<longleftrightarrow> ram_area p \<inter> ram_area q = {} \<and> flash_area p \<inter> ram_area q = {}
     \<and> ram_area p \<inter> flash_area q = {}"

definition is_loaded :: "loaded_section \<times> nat \<Rightarrow> words \<Rightarrow> words \<Rightarrow> bool" where
  "is_loaded p m m' \<longleftrightarrow> (\<forall>i. i < snd p \<longrightarrow> m' (ram_start (fst p) + 4 * of_nat i) = m (flash_start (fst p) + 4 * of_nat i))"

lemma in_area [intro]: "i < n \<Longrightarrow> a + 4 * of_nat i \<in> area a n"
  by (simp add: area_def)

lemma load_one_loads:
  assumes p: "sized p"
  shows "\<exists>m'. load_one (fst p) m = Some m' \<and> is_loaded p m m' \<and> (\<forall>a. a \<notin> ram_area p \<longrightarrow> m' a = m a)"
proof (cases "flash_start (fst p) = ram_start (fst p)")
  case True
  then show ?thesis by (simp add: load_one_def alt_load_section_def is_loaded_def)
next
  case False
  let ?f = "flash_start (fst p)" and ?r = "ram_start (fst p)" and ?n = "snd p"
  have d: "area ?f ?n \<inter> area ?r ?n = {}" and n: "?n < 2 ^ 30" and e: "ram_end (fst p) = ?r + 4 * of_nat ?n"
    using p False by (auto simp: sized_def flash_area_def ram_area_def)
  have "?r + 4 * of_nat j \<noteq> ?f + 4 * of_nat k" if "j < k" "k < ?n" for j k
    using d in_area[of j ?n ?r] in_area[of k ?n ?f] that by auto
  then have "is_loaded p m (copied ?n ?f ?r m)"
    unfolding is_loaded_def using copied_word n by blast
  moreover have "\<forall>a. a \<notin> ram_area p \<longrightarrow> copied ?n ?f ?r m a = m a"
    by (simp add: ram_area_def copied_other)
  moreover have "load_one (fst p) m = Some (copied ?n ?f ?r m)"
    using False n e by (simp add: load_one_def alt_load_section_def copy_words_copied)
  ultimately show ?thesis by blast
qed

text \<open>A step that leaves the source and the copy of a section alone keeps it loaded.\<close>

lemma still_loaded:
  "is_loaded p m m1 \<Longrightarrow> (\<And>a. a \<notin> ram_area q \<Longrightarrow> m2 a = m1 a) \<Longrightarrow> apart p q \<Longrightarrow> is_loaded p m m2"
  unfolding is_loaded_def apart_def ram_area_def
  by (metis disjoint_iff in_area)

lemma later_loaded:
  "is_loaded p m1 m2 \<Longrightarrow> (\<And>a. a \<notin> ram_area q \<Longrightarrow> m1 a = m a) \<Longrightarrow> apart q p \<Longrightarrow> is_loaded p m m2"
  unfolding is_loaded_def apart_def flash_area_def
  by (metis disjoint_iff in_area)

lemma area_small: "area a 1 = {a}" "area a 2 = {a, a + 4}"
  by (auto simp: numeral_2_eq_2)

lemma all_less_small: "(\<forall>i. i < 1 \<longrightarrow> P i) \<longleftrightarrow> P (0 :: nat)" "(\<forall>i. i < 2 \<longrightarrow> P i) \<longleftrightarrow> P (0 :: nat) \<and> P 1"
  by (auto simp: less_2_cases_iff)

text \<open>C38: \<open>alt_load\<close> returns and every word of the three sections is in RAM, copied from
  where it is stored, and no other word of memory has changed, if the sections are whole
  numbers of words, lie apart, and each is stored either where it runs or apart from there.\<close>

theorem alt_load_copies:
  assumes "sized (a, i)" "sized (b, j)" "sized (c, k)"
    and "apart (a, i) (b, j)" "apart (a, i) (c, k)" "apart (b, j) (c, k)"
  shows "\<exists>m'. alt_load a b c m = Some m' \<and> (\<forall>p\<in>{(a, i), (b, j), (c, k)}. is_loaded p m m')
    \<and> (\<forall>w. w \<notin> ram_area (a, i) \<union> ram_area (b, j) \<union> ram_area (c, k) \<longrightarrow> m' w = m w)"
proof -
  obtain m1 where 1: "load_one a m = Some m1" "is_loaded (a, i) m m1"
      "\<And>w. w \<notin> ram_area (a, i) \<Longrightarrow> m1 w = m w"
    using load_one_loads[OF assms(1), of m] by auto
  obtain m2 where 2: "load_one b m1 = Some m2" "is_loaded (b, j) m1 m2"
      "\<And>w. w \<notin> ram_area (b, j) \<Longrightarrow> m2 w = m1 w"
    using load_one_loads[OF assms(2), of m1] by auto
  obtain m3 where 3: "load_one c m2 = Some m3" "is_loaded (c, k) m2 m3"
      "\<And>w. w \<notin> ram_area (c, k) \<Longrightarrow> m3 w = m2 w"
    using load_one_loads[OF assms(3), of m2] by auto
  have "is_loaded (a, i) m m3"
    using still_loaded[OF still_loaded[OF 1(2) 2(3) assms(4)] 3(3) assms(5)] .
  moreover have "is_loaded (b, j) m m3"
    using still_loaded[OF later_loaded[OF 2(2) 1(3) assms(4)] 3(3) assms(6)] .
  moreover have "is_loaded (c, k) m m3"
    using later_loaded[OF later_loaded[OF 3(2) 2(3) assms(6)] 1(3) assms(5)] .
  ultimately show ?thesis using 1 2 3
    by (simp add: alt_load_def alt_dcache_flush_all_def alt_icache_flush_all_def NIOS2_DCACHE_SIZE_def
        NIOS2_ICACHE_SIZE_def)
qed

lemma alt_load_copies_witness:
  "\<exists>m'. alt_load \<lparr>flash_start = 0x100, ram_start = 0x200, ram_end = 0x208\<rparr>
      \<lparr>flash_start = 0x300, ram_start = 0x300, ram_end = 0x304\<rparr>
      \<lparr>flash_start = 0x108, ram_start = 0x208, ram_end = 0x20C\<rparr> (\<lambda>a. a + 1) = Some m'
    \<and> m' 0x204 = 0x105 \<and> m' 0x208 = 0x109 \<and> m' 0x20C = 0x20D"
  using alt_load_copies[of "\<lparr>flash_start = 0x100, ram_start = 0x200, ram_end = 0x208\<rparr>" 2
      "\<lparr>flash_start = 0x300, ram_start = 0x300, ram_end = 0x304\<rparr>" 1
      "\<lparr>flash_start = 0x108, ram_start = 0x208, ram_end = 0x20C\<rparr>" 1 "\<lambda>a. a + 1"]
  by (auto simp: sized_def apart_def ram_area_def flash_area_def is_loaded_def area_small all_less_small)
subsection \<open>What the heap hands out\<close>

definition heap_ok :: "'a heap_sys_scheme \<Rightarrow> bool" where
  "heap_ok s \<longleftrightarrow> alt_heap_start s \<le> heap_end s \<and> heap_end s \<le> alt_heap_limit s
     \<and> unat (alt_heap_limit s) < 2 ^ 31 \<and> 4 dvd unat (alt_heap_limit s)"

lemma word_align: "w AND NOT 3 = push_bit 2 (drop_bit 2 w)" for w :: u32
proof (rule bit_eqI)
  fix n
  have "(3 :: u32) = mask 2" by (simp add: mask_eq_exp_minus_1)
  then have "bit (3 :: u32) n \<longleftrightarrow> n < 2 \<and> n < 32" by (simp only: bit_mask_iff) auto
  then have "bit (w AND NOT 3) n \<longleftrightarrow> bit w n \<and> n < 32 \<and> 2 \<le> n"
    by (simp only: bit_and_iff bit_not_iff) auto
  moreover have "bit (push_bit 2 (drop_bit 2 w)) n \<longleftrightarrow> 2 \<le> n \<and> n < 32 \<and> bit w n"
    by (auto simp: bit_push_bit_iff bit_drop_bit_eq le_add_diff_inverse simp del: add_2_eq_Suc add_2_eq_Suc')
  ultimately show "bit (w AND NOT 3) n \<longleftrightarrow> bit (push_bit 2 (drop_bit 2 w)) n" by auto
qed

lemma unat_align: "unat (w AND NOT 3) = unat w div 4 * 4" for w :: u32
proof -
  have "unat w < 2 ^ 32"
    using unsigned_less[of w, where 'a = nat] by simp
  then have "unat w div 4 * 4 < 2 ^ 32" by simp
  then show ?thesis
    unfolding word_align by (simp add: push_bit_eq_mult drop_bit_eq_div unat_word_ariths unat_div)
qed

lemma round_up:
  assumes "4 dvd (l :: nat)" "h \<le> l"
  shows "h \<le> (h + 3) div 4 * 4 \<and> (h + 3) div 4 * 4 \<le> l"
  using assms by presburger

lemma aligned_end:
  assumes "heap_ok s"
  defines "h \<equiv> (heap_end s + 3) AND NOT 3"
  shows "unat (heap_end s) \<le> unat h" "unat h \<le> unat (alt_heap_limit s)" "4 dvd unat h"
proof -
  have b: "unat (heap_end s) \<le> unat (alt_heap_limit s)" "unat (alt_heap_limit s) < 2 ^ 31"
      "4 dvd unat (alt_heap_limit s)"
    using assms by (auto simp: heap_ok_def word_le_nat_alt)
  have "unat (heap_end s + 3) = unat (heap_end s) + 3"
    using b by (simp add: unat_word_ariths)
  then have h: "unat h = (unat (heap_end s) + 3) div 4 * 4" by (simp only: h_def unat_align)
  show "unat (heap_end s) \<le> unat h" "unat h \<le> unat (alt_heap_limit s)" "4 dvd unat h"
    unfolding h using round_up[OF b(3,1)] by simp_all
qed

lemma nonneg_small: "0 \<le> sint n \<Longrightarrow> unat n < 2 ^ 31" for n :: u32
proof (rule ccontr)
  assume n: "0 \<le> sint n" and c: "\<not> unat n < 2 ^ 31"
  then have "0x80000000 \<le> n" by (simp add: word_le_nat_alt)
  from sint_negative[OF this] n show False by simp
qed

text \<open>One request: refused with \<open>-1\<close>, or a block from the old end.\<close>

lemma sbrk_step:
  assumes ok: "heap_ok s" and n: "0 \<le> sint incr" and r: "alt_sbrk incr s = (r, s')"
  shows "heap_ok s' \<and> cpu_status s' = cpu_status s \<and> alt_heap_start s' = alt_heap_start s
    \<and> alt_heap_limit s' = alt_heap_limit s \<and> unat (heap_end s) \<le> unat (heap_end s')
    \<and> (r = -1 \<or> unat (heap_end s) \<le> unat r \<and> 4 dvd unat r \<and> unat r + unat incr = unat (heap_end s')
         \<and> unat (heap_end s') \<le> unat (alt_heap_limit s))"
proof -
  let ?h = "(heap_end s + 3) AND NOT 3"
  note h = aligned_end[OF ok]
  have b: "unat (alt_heap_start s) \<le> unat (heap_end s)" "unat (alt_heap_limit s) < 2 ^ 31"
    using ok by (auto simp: heap_ok_def word_le_nat_alt)
  have "unat incr < 2 ^ 31"
    using n by (rule nonneg_small)
  then have e: "unat (?h + incr) = unat ?h + unat incr"
    using h b by (simp add: unat_word_ariths)
  show ?thesis
  proof (cases "alt_heap_limit s < ?h + incr")
    case True
    with r have "r = -1" "s' = alt_irq_enable_all (cpu_status s) (s\<lparr>cpu_status := cpu_status s AND NOT NIOS2_STATUS_PIE_MSK, heap_end := ?h\<rparr>)"
      by (auto simp: alt_sbrk_def alt_irq_disable_all_def Let_def)
    with ok h b show ?thesis
      by (simp add: heap_ok_def alt_irq_enable_all_def word_le_nat_alt)
  next
    case False
    with r have "r = ?h" "s' = alt_irq_enable_all (cpu_status s) (s\<lparr>cpu_status := cpu_status s AND NOT NIOS2_STATUS_PIE_MSK, heap_end := ?h + incr\<rparr>)"
      by (auto simp: alt_sbrk_def alt_irq_disable_all_def Let_def)
    with ok h b e False show ?thesis
      by (simp add: heap_ok_def alt_irq_enable_all_def word_le_nat_alt word_less_nat_alt not_less)
  qed
qed
text \<open>A request is refused exactly when it does not fit above the aligned end.\<close>

lemma sbrk_refused:
  assumes ok: "heap_ok s" and n: "0 \<le> sint incr"
  shows "fst (alt_sbrk incr s) = -1
    \<longleftrightarrow> unat (alt_heap_limit s) < unat ((heap_end s + 3) AND NOT 3) + unat incr"
proof -
  let ?h = "(heap_end s + 3) AND NOT 3"
  note h = aligned_end[OF ok]
  have b: "unat (alt_heap_limit s) < 2 ^ 31" using ok by (simp add: heap_ok_def)
  have e: "unat (?h + incr) = unat ?h + unat incr"
    using h(2) b nonneg_small[OF n] by (simp add: unat_word_ariths)
  have u: "unat (-1 :: u32) = 4294967295" by (simp add: unsigned_minus_1_eq_mask mask_eq_exp_minus_1)
  have "unat (alt_heap_limit s) < 2147483648" using b by simp
  with u have "unat ?h \<noteq> unat (-1 :: u32)" using h(2) by linarith
  then have "?h \<noteq> -1" by metis
  then show ?thesis
    using e by (auto simp: alt_sbrk_def alt_irq_disable_all_def Let_def word_less_nat_alt)
qed

text \<open>A sequence of requests, and the blocks granted as pairs of address and length.\<close>

fun sbrks :: "u32 list \<Rightarrow> 'a heap_sys_scheme \<Rightarrow> u32 list \<times> 'a heap_sys_scheme" where
  "sbrks [] s = ([], s)"
| "sbrks (n # ns) s = (let (r, s) = alt_sbrk n s; (rs, s) = sbrks ns s in (r # rs, s))"

definition granted :: "u32 list \<Rightarrow> u32 list \<Rightarrow> (nat \<times> nat) list" where
  "granted ns rs = map (\<lambda>(n, r). (unat r, unat n)) (filter (\<lambda>(n, r). r \<noteq> -1) (zip ns rs))"

lemma granted_Cons: "granted (n # ns) (r # rs) = (if r = -1 then [] else [(unat r, unat n)]) @ granted ns rs"
  by (simp add: granted_def)

lemma sbrks_blocks:
  "sbrks ns s = (rs, s') \<Longrightarrow> heap_ok s \<Longrightarrow> \<forall>n\<in>set ns. 0 \<le> sint n
   \<Longrightarrow> heap_ok s' \<and> cpu_status s' = cpu_status s \<and> alt_heap_start s' = alt_heap_start s
     \<and> alt_heap_limit s' = alt_heap_limit s
     \<and> sorted_wrt (\<lambda>(a, i) (b, j). a + i \<le> b) (granted ns rs)
     \<and> (\<forall>(a, i)\<in>set (granted ns rs). 4 dvd a \<and> unat (heap_end s) \<le> a \<and> a + i \<le> unat (alt_heap_limit s))"
proof (induction ns arbitrary: s rs)
  case Nil
  then show ?case by (simp add: granted_def)
next
  case (Cons n ns)
  obtain r s1 where 1: "alt_sbrk n s = (r, s1)" by fastforce
  with Cons.prems obtain rs' where 2: "sbrks ns s1 = (rs', s')" and rs: "rs = r # rs'"
    by (auto split: prod.splits)
  have n: "0 \<le> sint n" using Cons.prems by simp
  note st = sbrk_step[OF Cons.prems(2) n 1]
  then have ih: "heap_ok s'" "cpu_status s' = cpu_status s" "alt_heap_start s' = alt_heap_start s"
      "alt_heap_limit s' = alt_heap_limit s"
      "sorted_wrt (\<lambda>(a, i) (b, j). a + i \<le> b) (granted ns rs')"
      "\<forall>(a, i)\<in>set (granted ns rs'). 4 dvd a \<and> unat (heap_end s1) \<le> a \<and> a + i \<le> unat (alt_heap_limit s)"
    using Cons.IH[OF 2] Cons.prems by simp_all
  have grow: "\<forall>(a, i)\<in>set (granted ns rs'). unat (heap_end s) \<le> a"
    using ih(6) st by (auto intro: order_trans)
  show ?case
  proof (cases "r = -1")
    case True
    with ih grow rs show ?thesis by (auto simp: granted_Cons)
  next
    case False
    with st have "unat (heap_end s) \<le> unat r" "4 dvd unat r" "unat r + unat n = unat (heap_end s1)"
        "unat (heap_end s1) \<le> unat (alt_heap_limit s)" by simp_all
    with False ih grow rs show ?thesis by (auto simp: granted_Cons)
  qed
qed

text \<open>C37: The blocks that any sequence of \<open>sbrk\<close> requests for a number of bytes is granted
  are word aligned, lie between the start and the limit of the heap, and no two overlap; the
  state of the heap stays well formed and the interrupt status is what it was.\<close>

theorem sbrk_blocks_disjoint:
  assumes "heap_ok s" "\<forall>n\<in>set ns. 0 \<le> sint n" "sbrks ns s = (rs, s')"
  shows "heap_ok s' \<and> cpu_status s' = cpu_status s
     \<and> sorted_wrt (\<lambda>(a, i) (b, j). a + i \<le> b) (granted ns rs)
     \<and> (\<forall>(a, i)\<in>set (granted ns rs).
          4 dvd a \<and> unat (alt_heap_start s) \<le> a \<and> a + i \<le> unat (alt_heap_limit s))"
proof -
  have "unat (alt_heap_start s) \<le> unat (heap_end s)"
    using assms(1) by (simp add: heap_ok_def word_le_nat_alt)
  with sbrks_blocks[OF assms(3,1,2)] show ?thesis by (auto intro: order_trans)
qed

definition demo_heap :: heap_sys where
  "demo_heap = \<lparr>hw = \<lambda>_ _. 0, ipend = \<lambda>_. 0, trace = [], cpu_status = 1, ienable = 0,
     alt_irq_active = 0, alt_priority_mask = 0, alt_irq = [],
     alarm_heap = \<lparr>nxt = \<lambda>p. p, previous = \<lambda>p. p, dev_name = \<lambda>_. None\<rparr>,
     alarms = \<lambda>_. \<lparr>time = 0, callback_fn = None, rollover = False, alarm_context = 0\<rparr>, alt_alarm_list = 0,
     tick_rate = 0, nticks = 0, alt_timezone = \<lparr>tz_minuteswest = 0, tz_dsttime = 0\<rparr>,
     alt_resettime = \<lparr>tv_sec = 0, tv_usec = 0\<rparr>, clk_errno = None, alarm_calls = [],
     heap_end = 0x1F0001, alt_heap_start = 0x1F0001, alt_heap_limit = 0x210000\<rparr>"

lemma sbrk_blocks_disjoint_witness:
  "granted [5, 0x30000, 16] (fst (sbrks [5, 0x30000, 16] demo_heap)) = [(0x1F0004, 5), (0x1F000C, 16)]
   \<and> heap_ok (snd (sbrks [5, 0x30000, 16] demo_heap))"
  using sbrk_blocks_disjoint[of demo_heap "[5, 0x30000, 16]" _ "snd (sbrks [5, 0x30000, 16] demo_heap)"]
  by (simp add: demo_heap_def heap_ok_def alt_sbrk_def alt_irq_disable_all_def alt_irq_enable_all_def
      granted_def Let_def)

text \<open>A negative request is not checked: the end moves below the start of the heap, into the
  data of the program.\<close>

lemma sbrk_below_start:
  "fst (alt_sbrk (-0x1000) demo_heap) = 0x1F0004 \<and> heap_end (snd (alt_sbrk (-0x1000) demo_heap)) = 0x1EF004"
  by (simp add: demo_heap_def alt_sbrk_def alt_irq_disable_all_def alt_irq_enable_all_def Let_def)
subsection \<open>What a flush reaches\<close>

lemma flush_loop_covers:
  assumes "unat line = l" "0 < l" "unat en + l < 2 ^ 32"
  shows "\<exists>fs j. flush_loop line i en = Some (fs, j)
    \<and> (\<forall>d. unat i \<le> d \<and> d < unat en \<longrightarrow>
          (\<exists>f\<in>set fs. unat f \<le> d \<and> d < unat f + l \<and> unat f mod l = unat i mod l
             \<and> (\<exists>g\<in>set fs \<union> {j}. unat g = unat f + l)))"
proof (induction "unat en - unat i" arbitrary: i rule: less_induct)
  case less
  show ?case
  proof (cases "i < en")
    case False
    then have "\<not> (unat i \<le> d \<and> d < unat en)" for d by (simp add: word_less_nat_alt)
    moreover have "flush_loop line i en = Some ([], i)" using False by (subst flush_loop.simps) simp
    ultimately show ?thesis by fastforce
  next
    case True
    then have lt: "unat i < unat en" by (simp add: word_less_nat_alt)
    then have nx: "unat (i + line) = unat i + l"
      using assms by (simp add: unat_word_ariths)
    have dec: "unat en - unat (i + line) < unat en - unat i" using nx lt assms(2) by linarith
    obtain fs j where
      fs: "flush_loop line (i + line) en = Some (fs, j)" and
      c: "\<And>d. unat i + l \<le> d \<Longrightarrow> d < unat en \<Longrightarrow>
        \<exists>f\<in>set fs. unat f \<le> d \<and> d < unat f + l \<and> unat f mod l = unat i mod l
          \<and> (\<exists>g\<in>set fs \<union> {j}. unat g = unat f + l)"
      using less[OF dec] unfolding nx by auto
    have first: "\<exists>g\<in>set (i # fs) \<union> {j}. unat g = unat i + l"
    proof (cases "i + line < en")
      case True
      then obtain fs' j' where "flush_loop line (i + line + line) en = Some (fs', j')" "fs = (i + line) # fs'"
        using fs by (subst (asm) flush_loop.simps) (auto split: bind_splits prod.splits)
      with nx show ?thesis by auto
    next
      case False
      then have "j = i + line" using fs by (subst (asm) flush_loop.simps) simp
      with nx show ?thesis by auto
    qed
    have r: "flush_loop line i en = Some (i # fs, j)"
      using True fs by (subst flush_loop.simps) simp
    show ?thesis
    proof (intro exI[of _ "i # fs"] exI[of _ j] conjI allI impI)
      fix d assume d: "unat i \<le> d \<and> d < unat en"
      show "\<exists>f\<in>set (i # fs). unat f \<le> d \<and> d < unat f + l \<and> unat f mod l = unat i mod l
          \<and> (\<exists>g\<in>set (i # fs) \<union> {j}. unat g = unat f + l)"
      proof (cases "d < unat i + l")
        case True
        with d first show ?thesis by (intro bexI[of _ i]) auto
      next
        case False
        with c[of d] d show ?thesis by auto
      qed
    qed (rule r)
  qed
qed

lemma same_line:
  fixes f d l :: nat
  assumes "f \<le> d" "d < f + l"
  shows "d div l = f div l \<or> f mod l \<noteq> 0 \<and> d div l = (f + l) div l"
proof -
  have l: "0 < l" using assms by simp
  define q r where "q = f div l" and "r = f mod l"
  have f: "f = q * l + r" "r < l" using l by (simp_all add: q_def r_def)
  show ?thesis
  proof (cases "d < q * l + l")
    case True
    then have "d div l = q" using assms f
      by (intro div_nat_eqI) (auto simp: algebra_simps)
    then show ?thesis by (simp add: q_def)
  next
    case False
    then have "d div l = Suc q" using assms f
      by (intro div_nat_eqI) (auto simp: algebra_simps)
    moreover have "r \<noteq> 0" using False assms f by auto
    moreover have "(f + l) div l = Suc q" using l by (simp add: q_def div_add_self2)
    ultimately show ?thesis by (simp add: r_def)
  qed
qed

text \<open>Every byte of the region is in a line that is flushed, the last line of a region that
  does not start at a line included.\<close>

lemma low_bits_mod: "w AND (2 ^ k - 1) \<noteq> 0 \<longleftrightarrow> unat w mod 2 ^ k \<noteq> 0" for w :: u32
proof -
  have "w AND (2 ^ k - 1) = take_bit k w" by (simp add: take_bit_eq_mask mask_eq_exp_minus_1)
  moreover have "take_bit k w = 0 \<longleftrightarrow> unat (take_bit k w) = 0" by (metis unat_eq_zero)
  moreover have "unat (take_bit k w) = unat w mod 2 ^ k"
    by (simp only: unsigned_take_bit_eq) (simp only: take_bit_eq_mod)
  ultimately show ?thesis by (simp only:)
qed

lemma flush_region_covers:
  assumes "k < 32" "unat start + unat n + 2 ^ k < 2 ^ 32"
  shows "\<exists>fs. flush_region (2 ^ k) start n = Some fs
    \<and> (\<forall>d. unat start \<le> d \<and> d < unat start + unat n \<longrightarrow> (\<exists>f\<in>set fs. unat f div 2 ^ k = d div 2 ^ k))"
proof -
  have line: "unat (2 ^ k :: u32) = 2 ^ k" 
  proof -
    have "(2 ^ k :: nat) < 2 ^ 32" using assms(1) by (intro power_strict_increasing) auto
    then have "unat (of_nat (2 ^ k) :: u32) = 2 ^ k" by (simp only: unat_of_nat len_of_numeral_defs) simp
    then show ?thesis by simp
  qed
  have en: "unat (start + n) = unat start + unat n" using assms(2) by (simp add: unat_word_ariths)
  obtain fs j where fs: "flush_loop (2 ^ k) start (start + n) = Some (fs, j)" and
    c: "\<And>d. unat start \<le> d \<Longrightarrow> d < unat start + unat n \<Longrightarrow> \<exists>f\<in>set fs. unat f \<le> d \<and> d < unat f + 2 ^ k
      \<and> unat f mod 2 ^ k = unat start mod 2 ^ k \<and> (\<exists>g\<in>set fs \<union> {j}. unat g = unat f + 2 ^ k)"
    using flush_loop_covers[OF line, of "start + n" start] assms en by auto
  let ?all = "if start AND (2 ^ k - 1) \<noteq> 0 then fs @ [j] else fs"
  have "\<exists>f\<in>set ?all. unat f div 2 ^ k = d div 2 ^ k" if d: "unat start \<le> d" "d < unat start + unat n" for d
  proof -
    obtain f g where f: "f \<in> set fs" "unat f \<le> d" "d < unat f + 2 ^ k"
        "unat f mod 2 ^ k = unat start mod 2 ^ k" "g \<in> set fs \<union> {j}" "unat g = unat f + 2 ^ k"
      using c[OF d] by blast
    from same_line[OF f(2,3)] show ?thesis
    proof
      assume "d div 2 ^ k = unat f div 2 ^ k"
      with f(1) show ?thesis by (intro bexI[of _ f]) auto
    next
      assume "unat f mod 2 ^ k \<noteq> 0 \<and> d div 2 ^ k = (unat f + 2 ^ k) div 2 ^ k"
      with f show ?thesis by (intro bexI[of _ g]) (auto simp: low_bits_mod)
    qed
  qed
  then show ?thesis by (auto simp: flush_region_def fs)
qed
text \<open>The instruction cache is direct mapped: the flush of a region longer than the cache stops
  after one cache full of lines, which reaches every line of the cache.\<close>

lemma index_mod: "k \<le> p \<Longrightarrow> (d :: nat) div 2 ^ k mod 2 ^ (p - k) = d mod 2 ^ p div 2 ^ k"
  by (metis div_exp_mod_exp_eq le_add_diff_inverse2 drop_bit_take_bit drop_bit_eq_div take_bit_eq_mod)

theorem icache_flush_covers:
  assumes "k \<le> p" "p < 32" "unat start + unat n + 2 ^ k < 2 ^ 32"
  shows "\<exists>fs. alt_icache_flush (2 ^ p) (2 ^ k) start n = Some fs
    \<and> (\<forall>d. unat start \<le> d \<and> d < unat start + unat n \<longrightarrow>
          (\<exists>f\<in>set fs. unat f div 2 ^ k mod 2 ^ (p - k) = d div 2 ^ k mod 2 ^ (p - k)))"
proof -
  have sz: "unat (2 ^ p :: u32) = 2 ^ p"
  proof -
    have "(2 ^ p :: nat) < 2 ^ 32" using assms(2) by (intro power_strict_increasing) auto
    then have "unat (of_nat (2 ^ p) :: u32) = 2 ^ p" by (simp only: unat_of_nat len_of_numeral_defs) simp
    then show ?thesis by simp
  qed
  then have nz: "(2 ^ p :: u32) \<noteq> 0" by (metis power_not_zero unat_0 zero_neq_numeral)
  define t where "t = (if 2 ^ p < n then 2 ^ p else n)"
  have t: "unat t = min (2 ^ p) (unat n)" using sz by (simp add: t_def word_less_nat_alt min_def)
  obtain fs where fs: "flush_region (2 ^ k) start t = Some fs" and
    c: "\<And>d. unat start \<le> d \<Longrightarrow> d < unat start + unat t \<Longrightarrow> \<exists>f\<in>set fs. unat f div 2 ^ k = d div 2 ^ k"
  proof -
    have "unat start + unat t + 2 ^ k < 2 ^ 32" using assms(3) t by auto
    moreover have "k < 32" using assms by simp
    ultimately show thesis using that flush_region_covers[of k start t] by blast
  qed
  have "\<exists>f\<in>set fs. unat f div 2 ^ k mod 2 ^ (p - k) = d div 2 ^ k mod 2 ^ (p - k)"
    if d: "unat start \<le> d" "d < unat start + unat n" for d
  proof -
    define e where "e = unat start + (d - unat start) mod 2 ^ p"
    have "e mod 2 ^ p = d mod 2 ^ p"
      unfolding e_def by (simp add: mod_add_right_eq d(1))
    then have same: "e div 2 ^ k mod 2 ^ (p - k) = d div 2 ^ k mod 2 ^ (p - k)"
      by (simp add: index_mod[OF assms(1)])
    have "(d - unat start) mod 2 ^ p < unat t"
      using d by (auto simp: t min_def intro: order_le_less_trans[OF mod_less_eq_dividend])
    with c[of e] obtain f where "f \<in> set fs" "unat f div 2 ^ k = e div 2 ^ k"
      by (auto simp: e_def)
    with same show ?thesis by metis
  qed
  with fs nz show ?thesis by (auto simp: alt_icache_flush_def t_def)
qed

end
