(* ===== verification/Printf.thy ===== *)
theory Printf
  imports Loader
begin

text \<open>
  Numbers as text: \<open>alt_printf.c\<close>, the small printf of the HAL, and the numerals that it and
  the logging printf (theory \<open>LogPrintf\<close>) are compared with.  A C string is the list of the
  characters before its terminator.  \<open>None\<close> is an argument that is missing or of another type
  (undefined in C).
\<close>

unbundle bit_operations_syntax

subsection \<open>Reference numerals\<close>

definition digit_char :: "bool \<Rightarrow> nat \<Rightarrow> char" where
  "digit_char upper d = char_of (if d < 10 then 48 + d else (if upper then 55 else 87) + d)"

fun numeral_text :: "bool \<Rightarrow> nat \<Rightarrow> nat \<Rightarrow> string" where
  "numeral_text upper b n =
    (if n < b \<or> b < 2 then [digit_char upper n]
     else numeral_text upper b (n div b) @ [digit_char upper (n mod b)])"

declare numeral_text.simps [simp del]

definition digit_value :: "char \<Rightarrow> nat" where
  "digit_value c = (let n = of_char c :: nat in
     if n < 58 then n - 48 else if n < 97 then n - 55 else n - 87)"

definition text_value :: "nat \<Rightarrow> string \<Rightarrow> nat" where
  "text_value b s = foldl (\<lambda>n c. b * n + digit_value c) 0 s"

subsection \<open>The small printf\<close>

datatype arg = Num u32 | Str string

text \<open>\<open>while (!(v & (0xF << digit_shift))) digit_shift -= 4;\<close> from 28 down, as the number of the
  digit: \<open>None\<close> is a shift below 0.\<close>

fun first_digit :: "u32 \<Rightarrow> nat \<Rightarrow> nat option" where
  "first_digit v k =
    (if v AND push_bit (4 * k) 0xF \<noteq> 0 then Some k
     else case k of 0 \<Rightarrow> None | Suc k \<Rightarrow> first_digit v k)"

declare first_digit.simps [simp del]

definition hex_char :: "u32 \<Rightarrow> char" where
  "hex_char digit = char_of (unat (if digit \<le> 9 then 0x30 + digit else 0x61 + digit - 10))"

text \<open>\<open>for (; digit_shift >= 0; digit_shift -= 4)\<close>.\<close>

fun hex_digits :: "u32 \<Rightarrow> nat \<Rightarrow> string" where
  "hex_digits v k =
    hex_char (drop_bit (4 * k) (v AND push_bit (4 * k) 0xF))
      # (case k of 0 \<Rightarrow> [] | Suc k \<Rightarrow> hex_digits v k)"

declare hex_digits.simps [simp del]

definition print_hex :: "u32 \<Rightarrow> string option" where
  "print_hex v = (if v = 0 then Some ''0'' else map_option (hex_digits v) (first_digit v 7))"

text \<open>What is given to \<open>alt_putchar\<close>, in order.\<close>

fun alt_printf :: "string \<Rightarrow> arg list \<Rightarrow> string option" where
  "alt_printf [] args = Some []"
| "alt_printf (c # w) args =
    (if c \<noteq> CHR ''%'' then do { r \<leftarrow> alt_printf w args; Some (c # r) }
     else case w of
       [] \<Rightarrow> Some []
     | c # w \<Rightarrow>
         if c = CHR ''%'' then do { r \<leftarrow> alt_printf w args; Some (c # r) }
         else if c = CHR ''c'' then
           (case args of Num v # args \<Rightarrow> do { r \<leftarrow> alt_printf w args; Some (char_of (unat v) # r) }
            | _ \<Rightarrow> None)
         else if c = CHR ''x'' then
           (case args of Num v # args \<Rightarrow> do { h \<leftarrow> print_hex v; r \<leftarrow> alt_printf w args; Some (h @ r) }
            | _ \<Rightarrow> None)
         else if c = CHR ''s'' then
           (case args of Str s # args \<Rightarrow> do { r \<leftarrow> alt_printf w args; Some (s @ r) }
            | _ \<Rightarrow> None)
         else alt_printf w args)"
subsection \<open>Reference numerals read back\<close>

lemma digit_value_char: "d < 16 \<Longrightarrow> digit_value (digit_char upper d) = d"
  by (simp add: digit_value_def digit_char_def Let_def)

lemma text_value_snoc: "text_value b (s @ [c]) = b * text_value b s + digit_value c"
  by (simp add: text_value_def)

lemma text_value_numeral: "2 \<le> b \<Longrightarrow> b \<le> 16 \<Longrightarrow> text_value b (numeral_text upper b n) = n"
proof (induction upper b n rule: numeral_text.induct)
  case (1 upper b n)
  show ?case
  proof (cases "n < b")
    case True
    with 1 show ?thesis
      by (subst numeral_text.simps) (simp add: text_value_def digit_value_char)
  next
    case False
    then have "numeral_text upper b n = numeral_text upper b (n div b) @ [digit_char upper (n mod b)]"
      using 1 by (subst numeral_text.simps) simp
    moreover have "n mod b < 16" using 1 by (simp add: order_less_le_trans[OF mod_less_divisor])
    ultimately show ?thesis using 1 False by (simp add: text_value_snoc digit_value_char)
  qed
qed

subsection \<open>The hexadecimal digits\<close>

lemma bit_0xF: "bit (0xF :: u32) i \<longleftrightarrow> i < 4"
proof -
  have "(0xF :: u32) = mask 4" by (simp add: mask_eq_exp_minus_1)
  then show ?thesis by (simp only: bit_mask_iff possible_bit_word) auto
qed

lemma nibble_bit:
  "bit (v AND push_bit n 0xF) i \<longleftrightarrow> n \<le> i \<and> i < n + 4 \<and> bit v i" for v :: u32
  by (simp only: bit_and_iff bit_push_bit_iff bit_0xF possible_bit_word)
    (auto dest: bit_imp_le_length)

lemma field_at: "drop_bit n (v AND push_bit n 0xF) = take_bit 4 (drop_bit n v)" for v :: u32
  by (rule bit_eqI, simp only: bit_drop_bit_eq comp_def nibble_bit bit_take_bit_iff) auto

lemma field_nonzero: "v AND push_bit n 0xF \<noteq> 0 \<longleftrightarrow> take_bit 4 (drop_bit n v) \<noteq> 0" for v :: u32
proof -
  have "v AND push_bit n 0xF = push_bit n (take_bit 4 (drop_bit n v))"
    by (rule bit_eqI, simp only: bit_drop_bit_eq comp_def nibble_bit bit_take_bit_iff bit_push_bit_iff possible_bit_word)
      (auto dest: bit_imp_le_length)
  then show ?thesis by (metis field_at push_bit_of_0 drop_bit_of_0)
qed

lemma unat_field: "unat (take_bit 4 (drop_bit (4 * k) v)) = unat v div 16 ^ k mod 16" for v :: u32
proof -
  have "unat (take_bit 4 (drop_bit (4 * k) v)) = take_bit 4 (drop_bit (4 * k) (unat v))"
    by (simp only: unsigned_take_bit_eq unat_drop_bit_eq)
  also have "\<dots> = unat v div 2 ^ (4 * k) mod 2 ^ 4"
    by (simp only: take_bit_eq_mod drop_bit_eq_div)
  finally show ?thesis by (simp add: power_mult)
qed

lemma first_digit_step:
  "first_digit v k = (if unat v div 16 ^ k mod 16 \<noteq> 0 then Some k
     else case k of 0 \<Rightarrow> None | Suc k \<Rightarrow> first_digit v k)"
proof -
  have "v AND push_bit (4 * k) 0xF \<noteq> 0 \<longleftrightarrow> unat v div 16 ^ k mod 16 \<noteq> 0"
    unfolding field_nonzero unat_field[symmetric] by (metis unat_eq_zero)
  then show ?thesis by (subst first_digit.simps) (simp only:)
qed

lemma hex_digits_step:
  "hex_digits v k = digit_char False (unat v div 16 ^ k mod 16)
     # (case k of 0 \<Rightarrow> [] | Suc k \<Rightarrow> hex_digits v k)"
proof -
  define x where "x = take_bit 4 (drop_bit (4 * k) v)"
  have ux: "unat x = unat v div 16 ^ k mod 16" by (simp only: x_def unat_field)
  then have "unat x < 16" by simp
  then have "hex_char x = digit_char False (unat x)"
    by (auto simp: hex_char_def digit_char_def word_le_nat_alt unat_word_ariths not_le)
  then have "hex_char (drop_bit (4 * k) (v AND push_bit (4 * k) 0xF)) = digit_char False (unat v div 16 ^ k mod 16)"
    by (simp only: field_at ux flip: x_def)
  then show ?thesis by (subst hex_digits.simps) (simp only:)
qed
text \<open>The \<open>k + 1\<close> lowest digits from the top, and that they are the numeral when the first of
  them is the first of the number.\<close>

primrec digits_from :: "bool \<Rightarrow> nat \<Rightarrow> nat \<Rightarrow> nat \<Rightarrow> string" where
  "digits_from upper b n 0 = [digit_char upper (n mod b)]"
| "digits_from upper b n (Suc k) = digit_char upper (n div b ^ Suc k mod b) # digits_from upper b n k"

lemma digits_from_snoc:
  "digits_from upper b n (Suc k) = digits_from upper b (n div b) k @ [digit_char upper (n mod b)]"
  by (induction k) (simp_all add: div_mult2_eq)

lemma digits_from_numeral:
  "2 \<le> b \<Longrightarrow> n < b ^ Suc k \<Longrightarrow> k = 0 \<or> b ^ k \<le> n \<Longrightarrow> digits_from upper b n k = numeral_text upper b n"
proof (induction k arbitrary: n)
  case 0
  then show ?case by (subst numeral_text.simps) simp
next
  case (Suc k)
  have "n div b < b ^ Suc k" using Suc.prems by (simp add: less_mult_imp_div_less mult.commute)
  moreover have "b ^ k \<le> n div b" using Suc.prems by (simp add: less_eq_div_iff_mult_less_eq mult.commute)
  moreover have "\<not> n < b"
    using Suc.prems order_trans[of b "b ^ Suc k" n] by (simp add: leD)
  ultimately show ?case using Suc.IH[of "n div b"] Suc.prems(1)
    by (subst numeral_text.simps) (simp del: digits_from.simps add: digits_from_snoc)
qed

lemma hex_digits_from: "hex_digits v k = digits_from False 16 (unat v) k"
  by (induction k) (simp_all add: hex_digits_step[of v 0] hex_digits_step[of v "Suc _"])

lemma first_digit_top:
  "v \<noteq> 0 \<Longrightarrow> unat v < 16 ^ Suc n \<Longrightarrow> \<exists>k. first_digit v n = Some k \<and> (k = 0 \<or> 16 ^ k \<le> unat v) \<and> unat v < 16 ^ Suc k"
proof (induction n)
  case 0
  then have "unat v \<noteq> 0" by (metis unat_eq_zero)
  with 0 show ?case by (subst first_digit_step) simp
next
  case (Suc n)
  have "unat v div 16 ^ Suc n < 16" using Suc.prems by (simp add: less_mult_imp_div_less)
  then have m: "unat v div 16 ^ Suc n mod 16 = unat v div 16 ^ Suc n" by simp
  show ?case
  proof (cases "unat v div 16 ^ Suc n = 0")
    case True
    with Suc m show ?thesis by (subst first_digit_step) (simp add: div_eq_0_iff)
  next
    case False
    with Suc.prems m show ?thesis
      by (subst first_digit_step) (auto simp: div_eq_0_iff not_less intro: order_trans)
  qed
qed

lemma zero_char: "digit_char upper 0 = CHR ''0''"
  by (cases upper; code_simp)

theorem print_hex_numeral: "print_hex v = Some (numeral_text False 16 (unat v))"
proof (cases "v = 0")
  case True
  then show ?thesis
    by (subst numeral_text.simps) (simp add: print_hex_def zero_char)
next
  case False
  have "unat v < 16 ^ Suc 7" using unsigned_less[of v, where 'a = nat] by simp
  from first_digit_top[OF False this] obtain k where k: "first_digit v 7 = Some k"
      "k = 0 \<or> 16 ^ k \<le> unat v" "unat v < 16 ^ Suc k" by blast
  then show ?thesis using False
    by (simp add: print_hex_def hex_digits_from digits_from_numeral del: digits_from.simps power_Suc)
qed

subsection \<open>What the small printf prints\<close>

text \<open>A format as its author means it: the parts, what each is written as, the argument it
  takes and what it stands for.\<close>

datatype part = Lit char | Chr u32 | Hex u32 | Txt string

primrec part_fmt :: "part \<Rightarrow> string" where
  "part_fmt (Lit c) = (if c = CHR ''%'' then ''%%'' else [c])"
| "part_fmt (Chr v) = ''%c''"
| "part_fmt (Hex v) = ''%x''"
| "part_fmt (Txt s) = ''%s''"

primrec part_args :: "part \<Rightarrow> arg list" where
  "part_args (Lit c) = []"
| "part_args (Chr v) = [Num v]"
| "part_args (Hex v) = [Num v]"
| "part_args (Txt s) = [Str s]"

primrec part_text :: "part \<Rightarrow> string" where
  "part_text (Lit c) = [c]"
| "part_text (Chr v) = [char_of (unat v)]"
| "part_text (Hex v) = numeral_text False 16 (unat v)"
| "part_text (Txt s) = s"

lemma printf_part:
  "alt_printf (part_fmt p @ w) (part_args p @ args) = map_option ((@) (part_text p)) (alt_printf w args)"
  by (cases p) (auto simp: print_hex_numeral split: bind_splits)

text \<open>The small printf prints every format made of characters, \<open>%c\<close>, \<open>%x\<close>, \<open>%s\<close> and
  \<open>%%\<close> with the arguments that belong to it as the texts of its parts, in order; a number
  as the hexadecimal numeral that reads back as the number.\<close>

theorem printf_prints:
  "alt_printf (concat (map part_fmt ps)) (concat (map part_args ps)) = Some (concat (map part_text ps))
   \<and> text_value 16 (part_text (Hex v)) = unat v"
proof
  show "alt_printf (concat (map part_fmt ps)) (concat (map part_args ps)) = Some (concat (map part_text ps))"
    by (induction ps) (simp_all add: printf_part)
qed (simp add: text_value_numeral)

lemma printf_demo: "alt_printf ''a=%x %s%%'' [Num 0xBEEF, Str ''ok''] = Some ''a=beef ok%''"
  by code_simp

end
