(* ===== verification/LogPrintf.thy ===== *)
theory LogPrintf
  imports Printf Clock
begin

text \<open>
  The logging of the HAL, \<open>alt_log_printf.c\<close>: a printf with widths and five number formats
  that sends its characters to a serial port, and the functions that log writes, clock ticks
  and the state of the console.  (This build leaves \<open>ALT_LOG_ENABLE\<close> undefined, so the calls
  are compiled to nothing.)  \<open>None\<close> is an argument that is missing or of another type, an
  overflow of a signed number or a loop that does not end.
\<close>

unbundle bit_operations_syntax

subsection \<open>The format machine\<close>

datatype pf_state = Chars | FirstFmtChar | OtherFmtChar

record pf_fmt =
  fmtLeadingZero :: bool
  fmtLong :: bool
  fmtBeforeDecimal :: int
  fmtAfterDecimal :: int
  fmtBase :: u32
  fmtSigned :: bool
  fmtCase :: bool

definition pf_start :: pf_fmt where
  "pf_start = \<lparr>fmtLeadingZero = False, fmtLong = False, fmtBeforeDecimal = -1, fmtAfterDecimal = -1,
     fmtBase = 10, fmtSigned = True, fmtCase = False\<rparr>"

text \<open>Arithmetic on \<open>int\<close> that must not overflow.\<close>

definition in_int :: "int \<Rightarrow> int option" where
  "in_int n = (if -0x80000000 \<le> n \<and> n < 0x80000000 then Some n else None)"

text \<open>\<open>alt_log_repchar\<close>: \<open>while (r-- > 0)\<close>.\<close>

definition alt_log_repchar :: "char \<Rightarrow> int \<Rightarrow> string" where
  "alt_log_repchar c r = replicate (nat r) c"

text \<open>\<open>while ((vShrink = vShrink / fmtBase) > 0) { digitCount++; p *= fmtBase; }\<close>\<close>

partial_function (option) count_digits :: "u32 \<Rightarrow> u32 \<Rightarrow> u32 \<Rightarrow> int \<Rightarrow> (u32 \<times> int) option" where
  "count_digits base vShrink p digitCount =
    (let vShrink = vShrink div base in
     if 0 < vShrink then count_digits base vShrink (p * base) (digitCount + 1)
     else Some (p, digitCount))"

text \<open>\<open>d\<close> is an \<open>unsigned char\<close>.\<close>

definition log_digit :: "bool \<Rightarrow> u8 \<Rightarrow> char" where
  "log_digit upper d =
    (let d = d + 0x30;
         d = (if 0x39 < d then d + ((if upper then 0x41 else 0x61) - 0x30 - 10) else d)
     in char_of (unat d))"

partial_function (option) log_digits :: "bool \<Rightarrow> u32 \<Rightarrow> u32 \<Rightarrow> u32 \<Rightarrow> string option" where
  "log_digits upper base v p =
    (if p = 0 then Some []
     else do {
       r \<leftarrow> log_digits upper base (v mod p) (p div base);
       Some (log_digit upper (ucast (v div p)) # r)
     })"

definition log_integer :: "pf_fmt \<Rightarrow> u32 \<Rightarrow> string option" where
  "log_integer f v = do {
     let sign = fmtSigned f \<and> v AND 0x80000000 \<noteq> 0;
     let v = (if sign then NOT v + 1 else v);
     (p, digitCount) \<leftarrow> count_digits (fmtBase f) v 1 1;
     before \<leftarrow> in_int (fmtBeforeDecimal f - digitCount);
     before \<leftarrow> (if sign then in_int (before - 1) else Some before);
     digits \<leftarrow> log_digits (fmtCase f) (fmtBase f) v p;
     Some ((if fmtLeadingZero f
            then (if sign then ''-'' else '''') @ alt_log_repchar CHR ''0'' before
            else alt_log_repchar CHR '' '' before @ (if sign then ''-'' else ''''))
           @ digits)
   }"

text \<open>The letter that ends a conversion.  \<open>unsigned_print\<close> is \<open>goto doIntegerPrint\<close> after
  \<open>fmtSigned = 0\<close>.\<close>

definition take_num :: "arg list \<Rightarrow> (u32 \<times> arg list) option" where
  "take_num args = (case args of Num v # args \<Rightarrow> Some (v, args) | _ \<Rightarrow> None)"

definition take_str :: "arg list \<Rightarrow> (string \<times> arg list) option" where
  "take_str args = (case args of Str s # args \<Rightarrow> Some (s, args) | _ \<Rightarrow> None)"

definition print_with :: "pf_fmt \<Rightarrow> arg list \<Rightarrow> (string \<times> arg list) option" where
  "print_with f args = do { (v, args) \<leftarrow> take_num args; s \<leftarrow> log_integer f v; Some (s, args) }"

definition convert :: "pf_fmt \<Rightarrow> char \<Rightarrow> arg list \<Rightarrow> (string \<times> arg list) option" where
  "convert f c args =
    (if c = CHR ''d'' \<or> c = CHR ''i'' then print_with f args
     else if c = CHR ''u'' then print_with (f\<lparr>fmtSigned := False\<rparr>) args
     else if c = CHR ''o'' then print_with (f\<lparr>fmtSigned := False, fmtBase := 8\<rparr>) args
     else if c = CHR ''x'' then print_with (f\<lparr>fmtSigned := False, fmtBase := 16\<rparr>) args
     else if c = CHR ''X'' then
       print_with (f\<lparr>fmtSigned := False, fmtBase := 16, fmtCase := True\<rparr>) args
     else if c = CHR ''c'' then do {
       before \<leftarrow> in_int (fmtBeforeDecimal f - 1);
       (v, args) \<leftarrow> take_num args;
       Some (alt_log_repchar CHR '' '' before @ [char_of (unat v)], args)
     }
     else if c = CHR ''s'' then do {
       (s, args) \<leftarrow> take_str args;
       Some (alt_log_repchar CHR '' '' (sint (word_of_int (fmtBeforeDecimal f) - of_nat (length s) :: u32)) @ s, args)
     }
     else Some ([], args))"

definition is_digit :: "char \<Rightarrow> bool" where
  "is_digit c \<longleftrightarrow> 48 \<le> (of_char c :: nat) \<and> (of_char c :: nat) \<le> 57"

definition digit_num :: "char \<Rightarrow> int" where
  "digit_num c = int (of_char c) - 48"

definition other_char :: "pf_fmt \<Rightarrow> char \<Rightarrow> arg list \<Rightarrow> (pf_state \<times> pf_fmt \<times> string \<times> arg list) option" where
  "other_char f c args =
    (if c = CHR ''.'' then Some (OtherFmtChar, f\<lparr>fmtAfterDecimal := 0\<rparr>, [], args)
     else if is_digit c then
       (if fmtAfterDecimal f < 0 then do {
          n \<leftarrow> (if fmtBeforeDecimal f < 0 then Some 0 else in_int (fmtBeforeDecimal f * 10));
          n \<leftarrow> in_int (n + digit_num c);
          Some (OtherFmtChar, f\<lparr>fmtBeforeDecimal := n\<rparr>, [], args)
        } else do {
          n \<leftarrow> in_int (fmtAfterDecimal f * 10);
          n \<leftarrow> in_int (n + digit_num c);
          Some (OtherFmtChar, f\<lparr>fmtAfterDecimal := n\<rparr>, [], args)
        })
     else if c = CHR ''l'' then Some (OtherFmtChar, f\<lparr>fmtLong := True\<rparr>, [], args)
     else do { (s, args) \<leftarrow> convert f c args; Some (Chars, f, s, args) })"

definition pf_char :: "pf_state \<Rightarrow> pf_fmt \<Rightarrow> char \<Rightarrow> arg list \<Rightarrow> (pf_state \<times> pf_fmt \<times> string \<times> arg list) option" where
  "pf_char st f c args =
    (case st of
       Chars \<Rightarrow> if c = CHR ''%'' then Some (FirstFmtChar, pf_start, [], args)
                else Some (Chars, f, [c], args)
     | FirstFmtChar \<Rightarrow>
         if c = CHR ''0'' then Some (OtherFmtChar, f\<lparr>fmtLeadingZero := True\<rparr>, [], args)
         else if c = CHR ''%'' then Some (Chars, f, [c], args)
         else other_char f c args
     | OtherFmtChar \<Rightarrow> other_char f c args)"

text \<open>\<open>while (0 != (c = *w++))\<close>: what is sent, in order.\<close>

fun log_format :: "pf_state \<Rightarrow> pf_fmt \<Rightarrow> string \<Rightarrow> arg list \<Rightarrow> string option" where
  "log_format st f [] args = Some []"
| "log_format st f (c # w) args = do {
     (st, f, s, args) \<leftarrow> pf_char st f c args;
     r \<leftarrow> log_format st f w args;
     Some (s @ r)
   }"
subsection \<open>Numbers\<close>

lemma unat_div_word: "unat (v div w) = unat v div unat w" for v w :: "'a::len word"
  by (rule unat_div)

lemma count_digits_power:
  assumes b: "unat base = b" "2 \<le> b"
  shows "unat p * unat v < 2 ^ 32 \<Longrightarrow> 0 < unat p \<Longrightarrow>
    \<exists>k q. count_digits base v p dc = Some (q, dc + int k) \<and> unat q = unat p * b ^ k
      \<and> (k = 0 \<or> b ^ k \<le> unat v) \<and> unat v < b ^ Suc k"
proof (induction "unat v" arbitrary: v p dc rule: less_induct)
  case less
  have d: "unat (v div base) = unat v div b" using b by (simp add: unat_div)
  show ?case
  proof (cases "unat v < b")
    case True
    then have "unat (v div base) = 0" using d by simp
    then have "\<not> 0 < v div base" by (simp add: word_less_nat_alt)
    then have "count_digits base v p dc = Some (p, dc)"
      by (subst count_digits.simps) (simp add: Let_def)
    with True show ?thesis by (intro exI[of _ 0] exI[of _ p]) simp
  next
    case False
    have pos: "0 < unat v div b" using False b by (simp add: div_greater_zero_iff)
    then have g: "0 < v div base" using d by (simp add: word_less_nat_alt)
    have "unat p * b \<le> unat p * unat v" using False by (intro mult_le_mono) auto
    then have "unat p * b < 2 ^ 32" using less.prems(1) by (rule order_le_less_trans)
    then have pb: "unat (p * base) = unat p * b" using b by (simp add: unat_word_ariths)
    have "b * (unat v div b) \<le> unat v" by simp
    then have le: "unat p * (b * (unat v div b)) \<le> unat p * unat v" by (rule mult_le_mono2)
    have "unat (p * base) * unat (v div base) < 2 ^ 32"
      unfolding pb d mult.assoc using le less.prems(1) by (rule order_le_less_trans)
    moreover have "unat (v div base) < unat v" using d False b by (simp add: div_less_dividend)
    moreover have "0 < unat (p * base)" using pb less.prems b by simp
    ultimately obtain k q where k: "count_digits base (v div base) (p * base) (dc + 1) = Some (q, dc + 1 + int k)"
        "unat q = unat (p * base) * b ^ k" "k = 0 \<or> b ^ k \<le> unat (v div base)" "unat (v div base) < b ^ Suc k"
      using less.hyps[of "v div base" "p * base" "dc + 1"] by blast
    have "count_digits base v p dc = Some (q, dc + int (Suc k))"
      using g k(1) by (subst count_digits.simps) (simp add: Let_def add.assoc)
    moreover have "unat q = unat p * b ^ Suc k" using k(2) pb by (simp add: mult.assoc)
    moreover have "b ^ Suc k \<le> unat v"
    proof -
      have "b ^ k \<le> unat v div b" using k(3) pos d by (cases "k = 0") auto
      then have "b * b ^ k \<le> b * (unat v div b)" by (rule mult_le_mono2)
      also have "\<dots> \<le> unat v" by simp
      finally show ?thesis by simp
    qed
    moreover have "unat v < b ^ Suc (Suc k)"
      using k(4) d b by (simp add: div_less_iff_less_mult mult.commute mult.left_commute)
    ultimately show ?thesis by (intro exI[of _ "Suc k"] exI[of _ q]) auto
  qed
qed

lemma mod_times_div: "0 < c \<Longrightarrow> n mod (c * b) div c = n div c mod b" for n c b :: nat
  by (simp add: mod_mult2_eq)

lemma digits_from_mod: "0 < b \<Longrightarrow> digits_from upper b (n mod b ^ Suc k) k = digits_from upper b n k"
proof (induction k arbitrary: n)
  case (Suc k)
  have "n mod b ^ Suc (Suc k) mod b ^ Suc k = n mod b ^ Suc k"
    by (simp add: mod_mod_cancel)
  then have "digits_from upper b (n mod b ^ Suc (Suc k)) k = digits_from upper b n k"
    using Suc.IH[OF Suc.prems, of n] Suc.IH[OF Suc.prems, of "n mod b ^ Suc (Suc k)"] by simp
  moreover have "n mod b ^ Suc (Suc k) div b ^ Suc k mod b = n div b ^ Suc k mod b"
    using mod_times_div[of "b ^ Suc k" n b] Suc.prems by (simp add: mult.commute mult.left_commute)
  ultimately show ?case by simp
qed simp

lemma log_digit_char: "unat d < 16 \<Longrightarrow> log_digit upper d = digit_char upper (unat d)"
  by (auto simp: log_digit_def digit_char_def Let_def word_less_nat_alt unat_word_ariths not_less)
lemma log_digits_from:
  assumes b: "unat base = b" "2 \<le> b" "b \<le> 16"
  shows "unat p = b ^ k \<Longrightarrow> unat v < b ^ Suc k
    \<Longrightarrow> log_digits upper base v p = Some (digits_from upper b (unat v) k)"
proof (induction k arbitrary: v p)
  case (0 v p)
  then have "p \<noteq> 0" "unat (p div base) = 0" using b by (auto simp: unat_div)
  then have z: "p div base = 0" "p \<noteq> 0" by (auto simp: unat_eq_zero)
  have "unat (v div p) = unat v" using 0 by (simp add: unat_div)
  then have "unat (ucast (v div p) :: u8) = unat v" using 0 b by (simp add: unsigned_ucast_eq take_bit_nat_eq_self)
  then have "log_digit upper (ucast (v div p)) = digit_char upper (unat v)"
    using 0 b by (simp add: log_digit_char)
  with z 0 show ?case
    by (subst log_digits.simps, subst log_digits.simps) simp
next
  case (Suc k)
  have pos: "0 < b" using b by simp
  then have "unat p \<noteq> 0" using Suc.prems by simp
  then have p: "p \<noteq> 0" by auto
  have d: "unat (v div p) = unat v div b ^ Suc k" using Suc.prems by (simp add: unat_div)
  have lt: "unat v div b ^ Suc k < b" using Suc.prems(2) by (simp add: less_mult_imp_div_less)
  then have "unat (ucast (v div p) :: u8) = unat v div b ^ Suc k" using d b by (simp add: unsigned_ucast_eq take_bit_nat_eq_self)
  then have c: "log_digit upper (ucast (v div p)) = digit_char upper (unat v div b ^ Suc k)"
    using lt b by (simp add: log_digit_char)
  have m: "unat (v mod p) = unat v mod b ^ Suc k" using Suc.prems by (simp add: unat_mod)
  have "log_digits upper base (v mod p) (p div base) = Some (digits_from upper b (unat (v mod p)) k)"
  proof (rule Suc.IH)
    show "unat (p div base) = b ^ k" using Suc.prems b pos by (simp add: unat_div)
    show "unat (v mod p) < b ^ Suc k" unfolding m using pos by simp
  qed
  with p c m lt show ?case
    by (subst log_digits.simps) (simp add: digits_from_mod[OF pos] del: power_Suc)
qed

lemma length_digits_from [simp]: "length (digits_from upper b n k) = Suc k"
  by (induction k) simp_all

text \<open>A number as text: the sign, and blanks before it or zeros after it up to the width.\<close>

definition number_text :: "pf_fmt \<Rightarrow> u32 \<Rightarrow> string" where
  "number_text f v =
    (let n = (if fmtSigned f then sint v else uint v);
         digits = numeral_text (fmtCase f) (unat (fmtBase f)) (nat \<bar>n\<bar>);
         sign = (if n < 0 then ''-'' else '''');
         pad = nat (fmtBeforeDecimal f) - length digits - length sign
     in if fmtLeadingZero f then sign @ replicate pad CHR ''0'' @ digits
        else replicate pad CHR '' '' @ sign @ digits)"

lemma sign_bit: "v AND 0x80000000 \<noteq> 0 \<longleftrightarrow> sint v < 0" for v :: u32
proof -
  have m: "(0x80000000 :: u32) = push_bit 31 1" by (simp add: push_bit_eq_mult)
  then have top: "bit (0x80000000 :: u32) i \<longleftrightarrow> i = 31" for i
    by (simp only: m bit_push_bit_iff bit_1_iff possible_bit_word) auto
  have "v AND 0x80000000 \<noteq> 0 \<longleftrightarrow> bit v 31"
  proof
    assume "bit v 31"
    then have "bit (v AND 0x80000000) 31" by (simp only: bit_and_iff top)
    then show "v AND 0x80000000 \<noteq> 0" by auto
  next
    assume "v AND 0x80000000 \<noteq> 0"
    then obtain i where "bit (v AND 0x80000000) i" using word_nonzero_bit by blast
    then show "bit v 31" by (auto simp only: bit_and_iff top)
  qed
  also have "bit v 31 \<longleftrightarrow> sint v < 0" using bit_last_iff[of v] by simp
  finally show ?thesis .
qed

lemma sint_sign: "sint v = uint v - (if sint v < 0 then 2 ^ 32 else 0)" for v :: u32
proof -
  have "bit (uint v) 31 \<longleftrightarrow> sint v < 0" using bit_last_iff[of v] by (simp add: bit_uint_iff)
  moreover have "sint v = take_bit 32 (uint v) - 2 ^ 32 * of_bool (bit (uint v) 31)"
    by (simp add: sint_uint signed_take_bit_eq_take_bit_minus)
  moreover have "take_bit 32 (uint v) = uint v"
    using uint_bounded[of v] by (intro take_bit_int_eq_self) auto
  ultimately show ?thesis by simp
qed

lemma unat_minus: "sint v < 0 \<Longrightarrow> unat (NOT v + 1) = nat (- sint v)" for v :: u32
proof -
  assume n: "sint v < 0"
  then have s: "sint v = uint v - 4294967296" using sint_sign[of v] by simp
  have u: "0 \<le> uint v" "uint v < 4294967296" using uint_bounded[of v] by simp_all
  have "sint v \<ge> - 2147483648" using sint_ge[of v] by simp
  then have "0 < uint v" using s by linarith
  have "uint (NOT v + 1) = (- uint v) mod 4294967296"
    by (simp add: minus_eq_not_plus_1[symmetric] uint_word_ariths)
  also have "\<dots> = (4294967296 - uint v) mod 4294967296" by (metis minus_mod_self1 uminus_add_conv_diff mod_add_self1 diff_conv_add_uminus)
  also have "\<dots> = 4294967296 - uint v" using \<open>0 < uint v\<close> u by (intro mod_pos_pos_trivial) auto
  finally have "uint (NOT v + 1) = - sint v" using s by simp
  then show ?thesis by (simp add: unat_eq_nat_uint)
qed
lemma in_int_Some: "-0x80000000 \<le> n \<Longrightarrow> n < 0x80000000 \<Longrightarrow> in_int n = Some n"
  by (simp add: in_int_def)

definition pf_ok :: "pf_fmt \<Rightarrow> bool" where
  "pf_ok f \<longleftrightarrow> -1 \<le> fmtBeforeDecimal f \<and> fmtBeforeDecimal f < 0x80000000 \<and> fmtBase f \<in> {8, 10, 16}"

lemma magnitude:
  fixes v :: u32 and signed :: bool
  defines "neg \<equiv> signed \<and> v AND 0x80000000 \<noteq> 0"
  defines "n \<equiv> if signed then sint v else uint v"
  shows "neg \<longleftrightarrow> n < 0" "unat (if neg then NOT v + 1 else v) = nat \<bar>n\<bar>"
proof -
  show neg: "neg \<longleftrightarrow> n < 0"
    using sign_bit[of v] uint_ge_0[of v] unfolding neg_def n_def by (cases signed) simp_all
  show "unat (if neg then NOT v + 1 else v) = nat \<bar>n\<bar>"
  proof (cases neg)
    case True
    then have "signed" "sint v < 0" using sign_bit[of v] unfolding neg_def by blast+
    with True unat_minus[of v] show ?thesis by (simp add: n_def)
  next
    case False
    have "n = uint v"
    proof (cases signed)
      case True
      with False have "\<not> sint v < 0" using sign_bit[of v] unfolding neg_def by blast
      then show ?thesis using sint_sign[of v] True by (simp add: n_def)
    qed (simp add: n_def)
    then have "nat \<bar>n\<bar> = unat v" by (simp only: abs_of_nonneg[OF uint_ge_0] unat_eq_nat_uint)
    with False show ?thesis by (simp only: if_False)
  qed
qed

lemma number_digits:
  assumes "fmtBase f \<in> {8, 10, 16}"
  shows "\<exists>p k. count_digits (fmtBase f) m 1 1 = Some (p, 1 + int k) \<and> k < 32
    \<and> log_digits (fmtCase f) (fmtBase f) m p = Some (numeral_text (fmtCase f) (unat (fmtBase f)) (unat m))
    \<and> length (numeral_text (fmtCase f) (unat (fmtBase f)) (unat m)) = Suc k"
proof -
  define b where "b = unat (fmtBase f)"
  have b: "2 \<le> b" "b \<le> 16" using assms by (auto simp: b_def)
  have m: "unat m < 2 ^ 32" using unsigned_less[of m, where 'a = nat] by simp
  then have "unat (1 :: u32) * unat m < 2 ^ 32" "0 < unat (1 :: u32)" by simp_all
  from count_digits_power[OF b_def[symmetric] b(1) this, where dc = 1] obtain k p where
    k: "count_digits (fmtBase f) m 1 1 = Some (p, 1 + int k)" "unat p = b ^ k"
      "k = 0 \<or> b ^ k \<le> unat m" "unat m < b ^ Suc k" by auto
  have ds: "digits_from (fmtCase f) b (unat m) k = numeral_text (fmtCase f) b (unat m)"
    using b(1) k(4,3) by (rule digits_from_numeral)
  have "k < 32"
  proof (cases "k = 0")
    case False
    have "2 ^ k \<le> b ^ k" using b by (intro power_mono) auto
    also have "b ^ k \<le> unat m" using k(3) False by simp
    also note m
    finally show ?thesis by (rule power_less_imp_less_exp[rotated]) simp
  qed simp
  then show ?thesis
    using k(1) log_digits_from[OF b_def[symmetric] b k(2,4), of "fmtCase f"] length_digits_from[of "fmtCase f" b "unat m" k]
    unfolding ds b_def[symmetric] by (intro exI[of _ p] exI[of _ k]) simp
qed

text \<open>The number formats print the number: sign, padding and digits.\<close>

theorem log_integer_text:
  assumes "pf_ok f"
  shows "log_integer f v = Some (number_text f v)"
proof -
  define sign where "sign \<longleftrightarrow> fmtSigned f \<and> v AND 0x80000000 \<noteq> 0"
  define m where "m = (if sign then NOT v + 1 else v)"
  define n where "n = (if fmtSigned f then sint v else uint v)"
  define ds where "ds = numeral_text (fmtCase f) (unat (fmtBase f)) (unat m)"
  have mag: "sign \<longleftrightarrow> n < 0" "unat m = nat \<bar>n\<bar>"
    using magnitude[of "fmtSigned f" v] unfolding sign_def m_def n_def by blast+
  obtain p k where k: "count_digits (fmtBase f) m 1 1 = Some (p, 1 + int k)" "k < 32"
      "log_digits (fmtCase f) (fmtBase f) m p = Some ds" "length ds = Suc k"
    unfolding ds_def using number_digits[of f m] assms by (auto simp: pf_ok_def)
  have w: "in_int (fmtBeforeDecimal f - (1 + int k)) = Some (fmtBeforeDecimal f - (1 + int k))"
      "in_int (fmtBeforeDecimal f - (1 + int k) - 1) = Some (fmtBeforeDecimal f - (1 + int k) - 1)"
    using assms k(2) by (auto simp: pf_ok_def intro!: in_int_Some)
  have pad: "nat (fmtBeforeDecimal f - (1 + int k)) = nat (fmtBeforeDecimal f) - Suc k"
      "nat (fmtBeforeDecimal f - (1 + int k) - 1) = nat (fmtBeforeDecimal f) - Suc k - 1"
    by linarith+
  have nt: "number_text f v = (let pad = nat (fmtBeforeDecimal f) - Suc k - (if sign then 1 else 0) in
      if fmtLeadingZero f then (if sign then ''-'' else '''') @ replicate pad CHR ''0'' @ ds
      else replicate pad CHR '' '' @ (if sign then ''-'' else '''') @ ds)"
    unfolding number_text_def Let_def n_def[symmetric] mag(2)[symmetric] ds_def[symmetric] k(4) mag(1) by simp
  show ?thesis
    unfolding log_integer_def sign_def[symmetric] Let_def m_def[symmetric] k(1) nt alt_log_repchar_def
    using w k(3) by (cases sign) (simp_all add: pad)
qed
subsection \<open>Formats\<close>

text \<open>A format as its author means it: characters and conversions with a width (0 for none).\<close>

datatype log_conv = Dec | Uns | Oct | HexLower | HexUpper

datatype log_part =
    LLit char
  | LNum bool nat bool log_conv u32    \<comment> \<open>leading zeros, width, \<open>l\<close>, format, argument\<close>
  | LChr nat u32
  | LStr nat string

primrec conv_letter :: "log_conv \<Rightarrow> char" where
  "conv_letter Dec = CHR ''d''"
| "conv_letter Uns = CHR ''u''"
| "conv_letter Oct = CHR ''o''"
| "conv_letter HexLower = CHR ''x''"
| "conv_letter HexUpper = CHR ''X''"

definition conv_fmt :: "log_conv \<Rightarrow> pf_fmt \<Rightarrow> pf_fmt" where
  "conv_fmt c f = (case c of Dec \<Rightarrow> f | Uns \<Rightarrow> f\<lparr>fmtSigned := False\<rparr>
     | Oct \<Rightarrow> f\<lparr>fmtSigned := False, fmtBase := 8\<rparr>
     | HexLower \<Rightarrow> f\<lparr>fmtSigned := False, fmtBase := 16\<rparr>
     | HexUpper \<Rightarrow> f\<lparr>fmtSigned := False, fmtBase := 16, fmtCase := True\<rparr>)"

definition width_text :: "nat \<Rightarrow> string" where
  "width_text n = (if n = 0 then [] else numeral_text False 10 n)"

definition spec_fmt :: "bool \<Rightarrow> nat \<Rightarrow> bool \<Rightarrow> pf_fmt" where
  "spec_fmt zeros width long = \<lparr>fmtLeadingZero = zeros, fmtLong = long,
     fmtBeforeDecimal = (if width = 0 then -1 else int width), fmtAfterDecimal = -1,
     fmtBase = 10, fmtSigned = True, fmtCase = False\<rparr>"

primrec log_part_fmt :: "log_part \<Rightarrow> string" where
  "log_part_fmt (LLit c) = (if c = CHR ''%'' then ''%%'' else [c])"
| "log_part_fmt (LNum z n l c v) = ''%'' @ (if z then ''0'' else []) @ width_text n
     @ (if l then ''l'' else []) @ [conv_letter c]"
| "log_part_fmt (LChr n v) = ''%'' @ width_text n @ ''c''"
| "log_part_fmt (LStr n s) = ''%'' @ width_text n @ ''s''"

primrec log_part_args :: "log_part \<Rightarrow> arg list" where
  "log_part_args (LLit c) = []"
| "log_part_args (LNum z n l c v) = [Num v]"
| "log_part_args (LChr n v) = [Num v]"
| "log_part_args (LStr n s) = [Str s]"

primrec log_part_text :: "log_part \<Rightarrow> string" where
  "log_part_text (LLit c) = [c]"
| "log_part_text (LNum z n l c v) = number_text (conv_fmt c (spec_fmt z n l)) v"
| "log_part_text (LChr n v) = replicate (n - 1) CHR '' '' @ [char_of (unat v)]"
| "log_part_text (LStr n s) = replicate (n - length s) CHR '' '' @ s"

primrec log_part_ok :: "log_part \<Rightarrow> bool" where
  "log_part_ok (LLit c) = True"
| "log_part_ok (LNum z n l c v) = (n < 2 ^ 31)"
| "log_part_ok (LChr n v) = (n < 2 ^ 31)"
| "log_part_ok (LStr n s) = (n < 2 ^ 31 \<and> length s < 2 ^ 31)"

lemma digit_chars:
  "d < 10 \<Longrightarrow> (of_char (digit_char upper d) :: nat) = 48 + d"
  "d < 10 \<Longrightarrow> is_digit (digit_char upper d)"
  "d < 10 \<Longrightarrow> digit_num (digit_char upper d) = int d"
proof -
  show "(of_char (digit_char upper d) :: nat) = 48 + d" if "d < 10"
    using that by (simp add: digit_char_def)
  then show "is_digit (digit_char upper d)" "digit_num (digit_char upper d) = int d" if "d < 10"
    using that by (simp_all add: is_digit_def digit_num_def)
qed

lemma char_code: "(of_char c :: nat) \<noteq> of_char d \<Longrightarrow> c \<noteq> d"
  by blast

lemma digit_not: "d < 10 \<Longrightarrow> digit_char upper d \<noteq> CHR ''.''" "d < 10 \<Longrightarrow> digit_char upper d \<noteq> CHR ''%''"
  "0 < d \<Longrightarrow> d < 10 \<Longrightarrow> digit_char upper d \<noteq> CHR ''0''"
  by (auto intro!: char_code simp: digit_chars)

text \<open>Reading the digits of a width.\<close>

lemma width_digit:
  assumes "d < 10" "fmtAfterDecimal f < 0" "fmtBeforeDecimal f < 0 \<and> m = 0 \<or> fmtBeforeDecimal f = int m"
    and "10 * m + d < 2 ^ 31"
  shows "other_char f (digit_char upper d) args = Some (OtherFmtChar, f\<lparr>fmtBeforeDecimal := int (10 * m + d)\<rparr>, [], args)"
  using assms by (auto simp: other_char_def digit_chars digit_not in_int_def split: bind_splits)

lemma width_digits:
  "fmtAfterDecimal f < 0 \<Longrightarrow> fmtBeforeDecimal f < 0 \<Longrightarrow> n < 2 ^ 31
   \<Longrightarrow> log_format OtherFmtChar f (numeral_text False 10 n @ w) args
      = log_format OtherFmtChar (f\<lparr>fmtBeforeDecimal := int n\<rparr>) w args"
proof (induction n arbitrary: w rule: less_induct)
  case (less n)
  show ?case
  proof (cases "n < 10")
    case True
    with less.prems width_digit[of n f 0 False args] show ?thesis
      by (subst numeral_text.simps) (auto simp: pf_char_def)
  next
    case False
    let ?g = "f\<lparr>fmtBeforeDecimal := int (n div 10)\<rparr>"
    have "log_format OtherFmtChar f (numeral_text False 10 (n div 10) @ digit_char False (n mod 10) # w) args
        = log_format OtherFmtChar ?g (digit_char False (n mod 10) # w) args"
      using less.IH[of "n div 10"] less.prems False by simp
    also have "\<dots> = log_format OtherFmtChar (f\<lparr>fmtBeforeDecimal := int n\<rparr>) w args"
    proof -
      have e: "10 * (n div 10) + n mod 10 = n" by simp
      have "other_char ?g (digit_char False (n mod 10)) args
          = Some (OtherFmtChar, ?g\<lparr>fmtBeforeDecimal := int (10 * (n div 10) + n mod 10)\<rparr>, [], args)"
        using less.prems by (intro width_digit) auto
      then show ?thesis unfolding e by (simp add: pf_char_def)
    qed
    finally show ?thesis using False by (subst numeral_text.simps) simp
  qed
qed

lemma numeral_head: "0 < n \<Longrightarrow> \<exists>d t. numeral_text False 10 n = digit_char False d # t \<and> 0 < d \<and> d < 10"
proof (induction n rule: less_induct)
  case (less n)
  show ?case
  proof (cases "n < 10")
    case True
    with less show ?thesis by (subst numeral_text.simps) auto
  next
    case False
    then obtain d t where "numeral_text False 10 (n div 10) = digit_char False d # t" "0 < d" "d < 10"
      using less.IH[of "n div 10"] by (auto simp: div_greater_zero_iff)
    with False show ?thesis by (subst numeral_text.simps) auto
  qed
qed
lemma chars_any_format: "log_format Chars f w args = log_format Chars g w args"
proof (induction w arbitrary: f g args)
  case (Cons c w)
  have e: "log_format Chars f w args = log_format Chars g w args" by (rule Cons.IH)
  show ?case by (cases "c = CHR ''%''") (simp_all add: pf_char_def e)
qed simp

lemma first_other:
  "c \<noteq> CHR ''0'' \<Longrightarrow> c \<noteq> CHR ''%'' \<Longrightarrow> log_format FirstFmtChar f (c # w) args = log_format OtherFmtChar f (c # w) args"
  by (simp add: pf_char_def)

lemma letter_codes: "\<not> is_digit CHR ''l''" "\<not> is_digit CHR ''c''" "\<not> is_digit CHR ''s''" "\<not> is_digit (conv_letter c)"
  by (cases c; simp add: is_digit_def)+

lemma long_letter:
  "log_format OtherFmtChar f ((if l then ''l'' else []) @ w) args
    = log_format OtherFmtChar (f\<lparr>fmtLong := l \<or> fmtLong f\<rparr>) w args"
  by (cases l) (simp_all add: pf_char_def other_char_def letter_codes)

lemma width_read:
  "n < 2 ^ 31 \<Longrightarrow> fmtAfterDecimal f < 0 \<Longrightarrow> fmtBeforeDecimal f = -1 \<Longrightarrow>
    log_format OtherFmtChar f (width_text n @ w) args
    = log_format OtherFmtChar (f\<lparr>fmtBeforeDecimal := (if n = 0 then -1 else int n)\<rparr>) w args"
proof (cases "n = 0")
  case True
  assume "fmtBeforeDecimal f = -1"
  then have "f\<lparr>fmtBeforeDecimal := -1\<rparr> = f" by simp
  with True show ?thesis by (simp add: width_text_def)
qed (simp add: width_text_def width_digits)

lemma spec_read:
  assumes "n < 2 ^ 31" "c \<noteq> CHR ''0''" "c \<noteq> CHR ''%''"
  shows "log_format FirstFmtChar pf_start ((if z then ''0'' else []) @ width_text n @ (if l then ''l'' else []) @ c # w) args
    = log_format OtherFmtChar (spec_fmt z n l) (c # w) args"
proof -
  define rest where "rest = (if l then ''l'' else []) @ c # w"
  have "log_format FirstFmtChar pf_start ((if z then ''0'' else []) @ width_text n @ rest) args
      = log_format OtherFmtChar (pf_start\<lparr>fmtLeadingZero := z\<rparr>) (width_text n @ rest) args"
  proof (cases z)
    case True
    then show ?thesis by (simp add: pf_char_def)
  next
    case False
    have "\<exists>d t. width_text n @ rest = d # t \<and> d \<noteq> CHR ''0'' \<and> d \<noteq> CHR ''%''"
    proof (cases "n = 0")
      case True
      with assms show ?thesis by (auto simp: width_text_def rest_def)
    next
      case False
      with numeral_head[of n] show ?thesis by (auto simp: width_text_def digit_not)
    qed
    with False show ?thesis by (auto simp: first_other pf_start_def simp del: log_format.simps)
  qed
  also have "\<dots> = log_format OtherFmtChar (pf_start\<lparr>fmtLeadingZero := z,
      fmtBeforeDecimal := (if n = 0 then -1 else int n)\<rparr>) rest args"
    using assms(1) by (subst width_read) (simp_all add: pf_start_def)
  finally show ?thesis
    unfolding rest_def by (simp add: long_letter spec_fmt_def pf_start_def)
qed

lemma spec_ok: "n < 2 ^ 31 \<Longrightarrow> pf_ok (conv_fmt c (spec_fmt z n l))"
  by (cases c) (auto simp: pf_ok_def conv_fmt_def spec_fmt_def pf_start_def)

lemma conv_read:
  "log_format OtherFmtChar f (conv_letter c # w) args
    = do { (s, args) \<leftarrow> print_with (conv_fmt c f) args; r \<leftarrow> log_format Chars f w args; Some (s @ r) }"
proof -
  have "other_char f (conv_letter c) args = do { (s, args) \<leftarrow> print_with (conv_fmt c f) args; Some (Chars, f, s, args) }"
    using letter_codes(4)[of c] by (cases c) (simp_all add: other_char_def convert_def conv_fmt_def)
  then show ?thesis by (auto simp: pf_char_def split: bind_splits)
qed

lemma letter_safe: "conv_letter c \<noteq> CHR ''0''" "conv_letter c \<noteq> CHR ''%''"
  by (cases c; simp)+

lemma str_pad:
  assumes "n < 2 ^ 31" "k < 2 ^ 31"
  shows "nat (sint (word_of_int (if n = 0 then -1 else int n) - of_nat k :: u32)) = n - k"
proof -
  define d where "d = (if n = 0 then -1 else int n) - int k"
  have "- (2 ^ 31) \<le> d" "d < 2 ^ 31" using assms by (auto simp: d_def)
  then have "signed_take_bit 31 d = d" by (rule signed_take_bit_int_eq_self)
  then have "sint (word_of_int d :: u32) = d" by (simp add: sint_sbintrunc')
  moreover have "word_of_int (if n = 0 then -1 else int n) - of_nat k = (word_of_int d :: u32)"
    unfolding d_def by (simp only: of_int_diff of_int_of_nat_eq)
  moreover have "nat d = n - k" unfolding d_def by (cases "n = 0") auto
  ultimately show ?thesis by (simp only:)
qed
lemma log_part_read:
  assumes "log_part_ok p"
  shows "log_format Chars f (log_part_fmt p @ w) (log_part_args p @ args)
    = map_option ((@) (log_part_text p)) (log_format Chars f w args)"
proof -
  note any = chars_any_format[of _ w args f]
  have pct: "log_format Chars f (CHR ''%'' # w') args' = log_format FirstFmtChar pf_start w' args'" for w' args'
    by (simp add: pf_char_def)
  show ?thesis
  proof (cases p)
    case (LLit c)
    then show ?thesis by (cases "c = CHR ''%''") (auto simp: pf_char_def any[of pf_start] split: bind_splits)
  next
    case (LNum z n l c v)
    with assms have n: "n < 2 ^ 31" by simp
    show ?thesis
      using spec_read[OF n letter_safe, of z l c w "Num v # args"] log_integer_text[OF spec_ok[OF n], of c z l v]
      by (simp add: LNum pct conv_read print_with_def take_num_def any[of "spec_fmt z n l"] del: log_format.simps)
        (auto split: bind_splits)
  next
    case (LChr n v)
    with assms have n: "n < 2 ^ 31" by simp
    have b: "in_int (fmtBeforeDecimal (spec_fmt False n False) - 1) = Some (fmtBeforeDecimal (spec_fmt False n False) - 1)"
      "nat (fmtBeforeDecimal (spec_fmt False n False) - 1) = n - 1"
      using n by (auto simp: spec_fmt_def in_int_def)
    have "log_format OtherFmtChar (spec_fmt False n False) (CHR ''c'' # w) (Num v # args)
        = map_option ((@) (log_part_text p)) (log_format Chars f w args)"
      using letter_codes(2) b
      by (simp add: LChr pf_char_def other_char_def convert_def take_num_def alt_log_repchar_def any[of "spec_fmt False n False"])
        (auto split: bind_splits)
    with spec_read[OF n, of "CHR ''c''" False False w "Num v # args"] show ?thesis
      by (simp add: LChr pct del: log_format.simps)
  next
    case (LStr n s)
    with assms have n: "n < 2 ^ 31" "length s < 2 ^ 31" by simp_all
    have b: "fmtBeforeDecimal (spec_fmt False n False) = (if n = 0 then -1 else int n)"
      by (simp add: spec_fmt_def)
    have "log_format OtherFmtChar (spec_fmt False n False) (CHR ''s'' # w) (Str s # args)
        = map_option ((@) (log_part_text p)) (log_format Chars f w args)"
      using letter_codes(3) str_pad[OF n] unfolding alt_log_repchar_def
      by (simp add: LStr pf_char_def other_char_def convert_def take_str_def alt_log_repchar_def b any[of "spec_fmt False n False"]
          del: of_int_diff)
        (auto split: bind_splits)
    with spec_read[OF n(1), of "CHR ''s''" False False w "Str s # args"] show ?thesis
      by (simp add: LStr pct del: log_format.simps)
  qed
qed
text \<open>C39: The logging printf sends, for every format of characters and conversions \<open>%d\<close>,
  \<open>%u\<close>, \<open>%o\<close>, \<open>%x\<close>, \<open>%X\<close>, \<open>%c\<close> and \<open>%s\<close> with or without zeros, width and \<open>l\<close>, the texts
  of its parts, in order: a number is its sign, the padding to the width and the numeral of its
  magnitude in the base of the format.\<close>

theorem log_printf_prints:
  assumes "\<forall>p\<in>set ps. log_part_ok p"
  shows "log_format Chars f (concat (map log_part_fmt ps)) (concat (map log_part_args ps))
    = Some (concat (map log_part_text ps))"
  using assms by (induction ps) (simp_all add: log_part_read del: log_format.simps(2))

lemma log_printf_prints_witness:
  "log_format Chars pf_start ''n=%05d|%3X|'' [Num (-42), Num 0xAB] = Some ''n=-0042| AB|''"
proof -
  have ok: "\<forall>p\<in>set [LLit CHR ''n'', LLit CHR ''='', LNum True 5 False Dec (-42), LLit CHR ''|'',
      LNum False 3 False HexUpper 0xAB, LLit CHR ''|'']. log_part_ok p" by simp
  have t: "concat (map log_part_fmt [LLit CHR ''n'', LLit CHR ''='', LNum True 5 False Dec (-42), LLit CHR ''|'',
      LNum False 3 False HexUpper 0xAB, LLit CHR ''|'']) = ''n=%05d|%3X|''" by code_simp
  have x: "concat (map log_part_text [LLit CHR ''n'', LLit CHR ''='', LNum True 5 False Dec (-42), LLit CHR ''|'',
      LNum False 3 False HexUpper 0xAB, LLit CHR ''|'']) = ''n=-0042| AB|''" by code_simp
  show ?thesis using log_printf_prints[OF ok, of pf_start] unfolding t x by simp
qed

subsection \<open>The port\<close>

text \<open>A serial port with the registers of a JTAG UART: data at offset 0, control with the free
  space in its upper half at offset 1.  A character is modelled by the eight bits the port
  takes.\<close>

definition log_wait :: "u32 \<Rightarrow> 'a bus_scheme \<Rightarrow> bool \<times> 'a bus_scheme" where
  "log_wait base s = (let (v, s) = iord base 1 s in (v AND 0xFFFF0000 = 0, s))"

definition alt_log_txchar :: "char \<Rightarrow> u32 \<Rightarrow> 'a bus_scheme \<Rightarrow> 'a bus_scheme option" where
  "alt_log_txchar c base s = do { s \<leftarrow> spin (log_wait base) s; Some (iowr base 0 (of_char c) s) }"

fun log_send :: "u32 \<Rightarrow> string \<Rightarrow> 'a bus_scheme \<Rightarrow> 'a bus_scheme option" where
  "log_send base [] s = Some s"
| "log_send base (c # cs) s = do { s \<leftarrow> alt_log_txchar c base s; log_send base cs s }"

definition alt_log_private_printf :: "string \<Rightarrow> u32 \<Rightarrow> arg list \<Rightarrow> 'a bus_scheme \<Rightarrow> 'a bus_scheme option" where
  "alt_log_private_printf fmt base args s = do {
     cs \<leftarrow> log_format Chars \<lparr>fmtLeadingZero = False, fmtLong = False, fmtBeforeDecimal = 0,
       fmtAfterDecimal = 0, fmtBase = 0, fmtSigned = False, fmtCase = False\<rparr> fmt args;
     log_send base cs s
   }"

definition log_room :: "u32 \<Rightarrow> (u32 \<Rightarrow> u32) \<Rightarrow> bool" where
  "log_room base a \<longleftrightarrow> a (base + 4) AND 0xFFFF0000 \<noteq> 0"

interpretation log_port: reading_poll "log_wait base" "log_room base" for base
proof
  show "quiet s s" for s :: "'a bus_scheme" by simp
  show "quiet s (snd (log_wait base t))" if "quiet s t" for s t :: "'a bus_scheme"
    using that by (auto simp: log_wait_def split: prod.splits dest: iord_quiet intro: quiet_trans)
  show "length (trace s) < length (trace (snd (log_wait base s)))" for s :: "'a bus_scheme"
    by (simp add: log_wait_def iord_def rd32_def Let_def)
  show "\<not> fst (log_wait base s)"
    if "\<And>fs. \<forall>e\<in>set fs. \<not> is_wr e \<Longrightarrow> log_room base (hw s (fs @ trace s))" for s :: "'a bus_scheme"
    using that[of "[]"] by (simp add: log_wait_def iord_def rd32_def Let_def log_room_def)
qed

text \<open>The characters go to the data register in order, and the call returns whenever the port
  makes room again after everything that has happened to it.\<close>

lemma log_send_sends:
  assumes "\<And>es. settles (hw s) es (log_room base)"
  shows "\<exists>t. log_send base cs s = Some t \<and> bus_only s t
    \<and> writes t = rev (map (\<lambda>c. Wr32 base (of_char c)) cs) @ writes s"
  using assms
proof (induction cs arbitrary: s)
  case Nil
  then show ?case by simp
next
  case (Cons c cs)
  obtain u where u: "spin (log_wait base) s = Some u" "quiet s u"
    using log_port.spin_settles[OF Cons.prems] by blast
  let ?v = "iowr base 0 (of_char c) u"
  have bo: "bus_only s ?v"
    using u(2) by (auto intro: bus_only_trans[OF quiet_bus_only] bus_only_ops)
  then have "\<And>es. settles (hw ?v) es (log_room base)" using Cons.prems bus_only_hw[OF bo] by simp
  from Cons.IH[OF this] obtain t where t: "log_send base cs ?v = Some t" "bus_only ?v t"
      "writes t = rev (map (\<lambda>c. Wr32 base (of_char c)) cs) @ writes ?v" by blast
  have "writes ?v = Wr32 base (of_char c) # writes s"
    using quiet_writes[OF u(2)] by simp
  then show ?case using u t bo
    by (auto simp: alt_log_txchar_def intro: bus_only_trans)
qed
subsection \<open>What is logged\<close>

record log_sys = clk +
  log_base :: u32                        \<comment> \<open>\<open>ALT_LOG_PORT_BASE\<close>\<close>
  alt_log_write_on_flag :: u8
  alt_log_sys_clk_on_flag :: u8
  alt_log_jtag_uart_alarm_on_flag :: u8
  alt_log_jtag_uart_isr_on_flag :: u8
  alt_log_sys_clk_count :: int
  alt_system_clock_in_sec :: int
  alt_log_write_buf :: "u8 list"         \<comment> \<open>\<open>ALT_LOG_WRITE_ECHO_LEN + 2\<close> bytes\<close>

definition ALT_LOG_WRITE_ECHO_LEN :: nat where "ALT_LOG_WRITE_ECHO_LEN = 15"

definition alt_log_printf_proc :: "string \<Rightarrow> arg list \<Rightarrow> 'a log_sys_scheme \<Rightarrow> 'a log_sys_scheme option" where
  "alt_log_printf_proc fmt args s = alt_log_private_printf fmt (log_base s) args s"

text \<open>\<open>strncpy\<close>: up to the terminator, then zeros.\<close>

definition strncpy_bytes :: "u8 list \<Rightarrow> nat \<Rightarrow> u8 list" where
  "strncpy_bytes ptr n = (let t = takeWhile (\<lambda>x. x \<noteq> 0) (take n ptr) in t @ replicate (n - length t) 0)"

definition c_string :: "u8 list \<Rightarrow> string" where
  "c_string xs = map (\<lambda>x. char_of (unat x)) (takeWhile (\<lambda>x. x \<noteq> 0) xs)"

definition write_echo :: "u8 list \<Rightarrow> nat \<Rightarrow> u8 list \<Rightarrow> u8 list option" where
  "write_echo ptr n buf = do {
     buf \<leftarrow> mem_put buf 0 (strncpy_bytes ptr n);
     buf \<leftarrow> mem_put buf (n - 1) [0x0A];
     buf \<leftarrow> mem_put buf n [0x0D];
     buf \<leftarrow> mem_put buf (n + 1) [0];
     Some (map (\<lambda>i. if i < n \<and> buf ! i = 4 then 0x44 else buf ! i) [0..<length buf])
   }"

definition alt_log_write :: "u8 list \<Rightarrow> u32 \<Rightarrow> 'a log_sys_scheme \<Rightarrow> 'a log_sys_scheme option" where
  "alt_log_write ptr len s =
    (if alt_log_write_on_flag s \<noteq> 0 then
       let n = (if of_nat ALT_LOG_WRITE_ECHO_LEN > len then unat len else ALT_LOG_WRITE_ECHO_LEN) in
       if n < 2 then Some s
       else do {
         buf \<leftarrow> write_echo ptr n (alt_log_write_buf s);
         let s = s\<lparr>alt_log_write_buf := buf\<rparr>;
         alt_log_printf_proc ''Write Echo: %s'' [Str (c_string buf)] s
       }
     else Some s)"

text \<open>\<open>alt_log_system_clock\<close>; the interval is one second of ticks
  (\<open>alt_ticks_per_second () * 1\<close>, unsigned).\<close>

definition clock_alive :: string where
  "clock_alive = ''System Clock On %u'' @ [char_of (13 :: nat), char_of (10 :: nat)]"

definition alt_log_system_clock :: "'a log_sys_scheme \<Rightarrow> 'a log_sys_scheme option" where
  "alt_log_system_clock s =
    (if alt_log_sys_clk_on_flag s \<noteq> 0 then do {
       n \<leftarrow> in_int (alt_log_sys_clk_count s + 1);
       let s = s\<lparr>alt_log_sys_clk_count := n\<rparr>;
       (if alt_ticks_per_second s < word_of_int n then do {
          let s = s\<lparr>alt_log_sys_clk_count := 0\<rparr>;
          let sec = alt_system_clock_in_sec s;
          next \<leftarrow> in_int (sec + 1);
          alt_log_printf_proc clock_alive [Num (word_of_int sec)] (s\<lparr>alt_system_clock_in_sec := next\<rparr>)
        } else Some s)
     } else Some s)"

text \<open>The state of the console; \<open>tx_in\<close> and \<open>tx_out\<close> are the indices of its ring.\<close>

definition control_text :: string where
  "control_text = ''%s SW CirBuf = %d, HW FIFO wspace=%d AC=%d WI=%d RI=%d WE=%d RE=%d''
     @ [char_of (13 :: nat), char_of (10 :: nat)]"

definition alt_log_jtag_uart_print_control_reg ::
  "u32 \<Rightarrow> u32 \<Rightarrow> u32 \<Rightarrow> string \<Rightarrow> 'a log_sys_scheme \<Rightarrow> 'a log_sys_scheme option" where
  "alt_log_jtag_uart_print_control_reg tx_in tx_out base header s =
    (let (control, s) = iord base 1 s;
         space = drop_bit 16 (control AND 0xFFFF0000);
         we = drop_bit 1 (control AND 0x2);
         re = control AND 0x1;
         ri = drop_bit 8 (control AND 0x100);
         wi = drop_bit 9 (control AND 0x200);
         ac = drop_bit 10 (control AND 0x400)
     in alt_log_printf_proc control_text
          [Str header, Num (tx_out - tx_in), Num space, Num ac, Num wi, Num ri, Num we, Num re] s)"

definition altera_avalon_jtag_uart_report_log ::
  "u32 \<Rightarrow> u32 \<Rightarrow> u32 \<Rightarrow> 'a log_sys_scheme \<Rightarrow> (u32 \<times> 'a log_sys_scheme) option" where
  "altera_avalon_jtag_uart_report_log tx_in tx_out base s =
    (if alt_log_jtag_uart_alarm_on_flag s \<noteq> 0 then do {
       s \<leftarrow> alt_log_jtag_uart_print_control_reg tx_in tx_out base ''JTAG Alarm:'' s;
       Some (alt_ticks_per_second s div 10, s)
     } else Some (0, s))"

definition alt_log_jtag_uart_startup_info ::
  "u32 \<Rightarrow> u32 \<Rightarrow> u32 \<Rightarrow> 'a log_sys_scheme \<Rightarrow> 'a log_sys_scheme option" where
  "alt_log_jtag_uart_startup_info tx_in tx_out base s =
    alt_log_jtag_uart_print_control_reg tx_in tx_out base ''JTAG Startup Info:'' s"

definition alt_log_jtag_uart_isr_proc ::
  "u32 \<Rightarrow> u32 \<Rightarrow> u32 \<Rightarrow> 'a log_sys_scheme \<Rightarrow> 'a log_sys_scheme option" where
  "alt_log_jtag_uart_isr_proc tx_in tx_out base s =
    (if alt_log_jtag_uart_isr_on_flag s \<noteq> 0
     then alt_log_jtag_uart_print_control_reg tx_in tx_out base ''JTAG IRQ:'' s else Some s)"
text \<open>The echo of a write: all but the last of the characters counted, Ctrl-D replaced, and a
  line end, inside the buffer.\<close>

definition esc_eot :: "u8 \<Rightarrow> u8" where
  "esc_eot x = (if x = 4 then 0x44 else x)"

lemma strncpy_text:
  assumes "1 \<le> n" "n \<le> length ptr" "0 \<notin> set (take (n - 1) ptr)"
  shows "strncpy_bytes ptr n = take n ptr"
proof -
  have t: "take n ptr = take (n - 1) ptr @ [ptr ! (n - 1)]"
    using assms take_Suc_conv_app_nth[of "n - 1" ptr] by simp
  have "takeWhile (\<lambda>x. x \<noteq> 0) (take n ptr)
      = take (n - 1) ptr @ (if ptr ! (n - 1) = 0 then [] else [ptr ! (n - 1)])"
    unfolding t using assms(3) by (subst takeWhile_append2) auto
  then show ?thesis using assms t by (auto simp: strncpy_bytes_def Let_def min_def)
qed

lemma write_echo_text:
  assumes "length buf = ALT_LOG_WRITE_ECHO_LEN + 2" "1 \<le> n" "n \<le> ALT_LOG_WRITE_ECHO_LEN"
    "n \<le> length ptr" "0 \<notin> set (take (n - 1) ptr)"
  shows "\<exists>b. write_echo ptr n buf = Some b \<and> length b = length buf
    \<and> take (n + 2) b = map esc_eot (take (n - 1) ptr) @ [0x0A, 0x0D, 0]"
proof -
  have n: "n + 2 \<le> length buf" using assms(1,3) by simp
  have st: "strncpy_bytes ptr n = take n ptr" using assms by (intro strncpy_text)
  obtain b1 where b1: "mem_put buf 0 (take n ptr) = Some b1"
    using mem_put_ex[of 0 "take n ptr" buf] n assms(4) by auto
  have l1: "length b1 = length buf" using mem_put_length[OF b1] .
  obtain b2 where b2: "mem_put b1 (n - 1) [0x0A] = Some b2" using mem_put_ex[of "n - 1" "[0x0A]" b1] n l1 assms(2) by auto
  have l2: "length b2 = length buf" using mem_put_length[OF b2] l1 by simp
  obtain b3 where b3: "mem_put b2 n [0x0D] = Some b3" using mem_put_ex[of n "[0x0D]" b2] n l2 by auto
  have l3: "length b3 = length buf" using mem_put_length[OF b3] l2 by simp
  obtain b4 where b4: "mem_put b3 (n + 1) [0] = Some b4" using mem_put_ex[of "n + 1" "[0]" b3] n l3 by auto
  have l4: "length b4 = length buf" using mem_put_length[OF b4] l3 by simp
  let ?b = "map (\<lambda>i. if i < n \<and> b4 ! i = 4 then 0x44 else b4 ! i) [0..<length b4]"
  have "take (n + 2) ?b = map esc_eot (take (n - 1) ptr) @ [0x0A, 0x0D, 0]"
  proof (rule nth_equalityI)
    fix i assume "i < length (take (n + 2) ?b)"
    then have i: "i < n + 2" using n l4 by simp
    have v: "b4 ! i = (if i = n + 1 then 0 else if i = n then 0x0D else if i = n - 1 then 0x0A else ptr ! i)"
      using i n assms(4) mem_put_nth[OF b4, of i] mem_put_nth[OF b3, of i] mem_put_nth[OF b2, of i]
        mem_put_nth[OF b1, of i] l1 l2 l3 by (auto split: if_splits)
    have m: "take (n + 2) ?b ! i = (if i < n \<and> b4 ! i = 4 then 0x44 else b4 ! i)"
      using i n l4 by simp
    obtain k where k: "n = Suc k" using assms(2) by (cases n) auto
    show "take (n + 2) ?b ! i = (map esc_eot (take (n - 1) ptr) @ [0x0A, 0x0D, 0]) ! i"
      unfolding m using v assms(4) i by (auto simp: k nth_append esc_eot_def nth_Cons' min_def less_Suc_eq)
  qed (use n l4 assms(2,4) in simp)
  moreover have "write_echo ptr n buf = Some ?b"
    by (simp add: write_echo_def st b1 b2 b3 b4 del: One_nat_def)
  ultimately show ?thesis using l4 by (intro exI[of _ ?b]) simp
qed

text \<open>The heartbeat: a line is due when more than one second of ticks has been counted, so
  every \<open>rate + 1\<close> ticks.\<close>

lemma clock_quiet:
  assumes "0 \<le> alt_log_sys_clk_count s" "alt_log_sys_clk_count s < int (unat (tick_rate s))"
    "unat (tick_rate s) < 2 ^ 31"
  shows "alt_log_system_clock s = Some (if alt_log_sys_clk_on_flag s \<noteq> 0
    then s\<lparr>alt_log_sys_clk_count := alt_log_sys_clk_count s + 1\<rparr> else s)"
proof -
  define n where "n = nat (alt_log_sys_clk_count s + 1)"
  have n: "alt_log_sys_clk_count s + 1 = int n" "n \<le> unat (tick_rate s)" "n < 2 ^ 31"
    using assms unfolding n_def by linarith+
  have "unat (of_nat n :: u32) = n" using n(3) by (simp add: unat_of_nat take_bit_nat_eq_self)
  then have "\<not> tick_rate s < of_nat n" using n(2) by (simp add: word_less_nat_alt)
  moreover have "in_int (int n) = Some (int n)" using n(3) by (intro in_int_Some) auto
  ultimately show ?thesis
    unfolding alt_log_system_clock_def n(1) by (simp add: alt_ticks_per_second_def Let_def)
qed

lemma clock_due:
  assumes "alt_log_sys_clk_count s = int (unat (tick_rate s))" "unat (tick_rate s) < 2 ^ 31 - 1"
    "alt_log_sys_clk_on_flag s \<noteq> 0" "in_int (alt_system_clock_in_sec s + 1) \<noteq> None"
  shows "alt_log_system_clock s = alt_log_printf_proc clock_alive [Num (word_of_int (alt_system_clock_in_sec s))]
    (s\<lparr>alt_log_sys_clk_count := 0, alt_system_clock_in_sec := alt_system_clock_in_sec s + 1\<rparr>)"
proof -
  define n where "n = unat (tick_rate s) + 1"
  have n: "alt_log_sys_clk_count s + 1 = int n" "unat (tick_rate s) < n" "n < 2 ^ 31"
    using assms by (auto simp: n_def)
  have "unat (of_nat n :: u32) = n" using n(3) by (simp add: unat_of_nat take_bit_nat_eq_self)
  then have "tick_rate s < of_nat n" using n(2) by (simp add: word_less_nat_alt)
  moreover have "in_int (int n) = Some (int n)" using n(3) by (intro in_int_Some) auto
  ultimately show ?thesis
    using assms(3,4) unfolding alt_log_system_clock_def n(1)
    by (simp add: alt_ticks_per_second_def Let_def in_int_def split: if_splits)
qed

end
