(* ===== verification/Posix.thy ===== *)
theory Posix
  imports FileDesc Clock
begin

text \<open>
  The rest of the system interface: signals and the end of the program (\<open>alt_kill.c\<close>,
  \<open>alt_exit.c\<close>), the calls that only answer an error (\<open>alt_link.c\<close>, \<open>alt_unlink.c\<close>,
  \<open>alt_rename.c\<close>, \<open>alt_fork.c\<close>, \<open>alt_execve.c\<close>, \<open>alt_wait.c\<close>), \<open>alt_stat.c\<close>, the channels
  and flash devices looked up by name (\<open>alt_dma_rxchan_open.c\<close>, \<open>alt_dma_txchan_open.c\<close>,
  \<open>alt_flash_dev.c\<close>), the timer as a time stamp (\<open>altera_avalon_timer.h\<close>,
  \<open>altera_avalon_timer_ts.c\<close>) and the exceptions that instructions raise
  (\<open>alt_instruction_exception_entry.c\<close>, \<open>alt_instruction_exception_register.c\<close>).
\<close>

unbundle bit_operations_syntax

subsection \<open>The process\<close>

text \<open>\<open>while (1);\<close>\<close>

definition alt_exit :: "int \<Rightarrow> 's \<Rightarrow> 's option" where
  "alt_exit exit_code s = spin (\<lambda>s. (True, s)) s"

text \<open>The signals the code names; any other number is \<open>Other_signal\<close>.\<close>

datatype signal = Null_signal
  | SIGABRT | SIGALRM | SIGFPE | SIGILL | SIGKILL | SIGPIPE | SIGQUIT | SIGSEGV | SIGTERM
  | SIGUSR1 | SIGUSR2 | SIGBUS | SIGPOLL | SIGPROF | SIGSYS | SIGTRAP | SIGVTALRM | SIGXCPU | SIGXFSZ
  | SIGCHLD | SIGURG | Other_signal int

definition alt_kill :: "int \<Rightarrow> signal \<Rightarrow> 'x fdsys \<Rightarrow> (int \<times> 'x fdsys) option" where
  "alt_kill pid sig s =
    (if pid \<le> 0 then
       (case sig of
          Null_signal \<Rightarrow> Some (0, s)
        | SIGCHLD \<Rightarrow> Some (0, s)
        | SIGURG \<Rightarrow> Some (0, s)
        | Other_signal n \<Rightarrow> Some (fails EINVAL s)
        | _ \<Rightarrow> do { s \<leftarrow> alt_exit 0 s; Some (0, s) })
     else Some (fails ESRCH s))"

definition alt_getpid :: int where "alt_getpid = 0"

definition alt_link :: "string \<Rightarrow> string \<Rightarrow> 'x fdsys \<Rightarrow> int \<times> 'x fdsys" where
  "alt_link existing new s = fails ENOSYS s"

definition alt_unlink :: "string \<Rightarrow> 'x fdsys \<Rightarrow> int \<times> 'x fdsys" where
  "alt_unlink name s = fails ENOSYS s"

definition alt_rename :: "string \<Rightarrow> string \<Rightarrow> 'x fdsys \<Rightarrow> int \<times> 'x fdsys" where
  "alt_rename existing new s = fails ENOSYS s"

definition alt_fork :: "'x fdsys \<Rightarrow> int \<times> 'x fdsys" where
  "alt_fork s = fails ENOSYS s"

definition alt_execve :: "string \<Rightarrow> string list \<Rightarrow> string list \<Rightarrow> 'x fdsys \<Rightarrow> int \<times> 'x fdsys" where
  "alt_execve name argv envp s = fails ENOSYS s"

text \<open>The result, what is stored in \<open>*status\<close>, and the state.\<close>

definition alt_wait :: "'x fdsys \<Rightarrow> int \<times> int \<times> 'x fdsys" where
  "alt_wait s = (case fails ECHILD s of (r, s) \<Rightarrow> (r, 0, s))"

text \<open>\<open>open (file, 0)\<close> passes no mode: \<open>mode\<close> is what the callee finds in its place.\<close>

definition alt_stat :: "(u32 \<Rightarrow> 'x dev_ops) \<Rightarrow> u32 \<Rightarrow> string \<Rightarrow> 'x fdsys
    \<Rightarrow> (int \<times> u32 option \<times> 'x fdsys) option" where
  "alt_stat ops mode file s = do {
     (fd, s) \<leftarrow> alt_open ops file 0 mode s;
     (rc, st, s) \<leftarrow> alt_fstat ops fd s;
     (_, s) \<leftarrow> alt_close ops fd s;
     Some (rc, st, s)
   }"

subsection \<open>Channels and flash devices\<close>

definition chan_open :: "u32 \<Rightarrow> string \<Rightarrow> 'x fdsys \<Rightarrow> (u32 option \<times> 'x fdsys) option" where
  "chan_open channels name s = do {
     dev \<leftarrow> alt_find_dev name channels (dev_lists s);
     Some (dev, if dev = None then s\<lparr>fd_errno := Some ENODEV\<rparr> else s)
   }"

definition alt_dma_rxchan_open :: "u32 \<Rightarrow> string \<Rightarrow> 'x fdsys \<Rightarrow> (u32 option \<times> 'x fdsys) option" where
  "alt_dma_rxchan_open alt_dma_rxchan_list name s = chan_open alt_dma_rxchan_list name s"

definition alt_dma_txchan_open :: "u32 \<Rightarrow> string \<Rightarrow> 'x fdsys \<Rightarrow> (u32 option \<times> 'x fdsys) option" where
  "alt_dma_txchan_open alt_dma_txchan_list name s = chan_open alt_dma_txchan_list name s"

text \<open>The functions a flash device may have.\<close>

record 'x flash_ops =
  flash_open :: "(u32 \<Rightarrow> string \<Rightarrow> 'x fdsys \<Rightarrow> (u32 option \<times> 'x fdsys) option) option"
  flash_close :: "(u32 \<Rightarrow> 'x fdsys \<Rightarrow> 'x fdsys option) option"

definition alt_flash_open_dev :: "(u32 \<Rightarrow> 'x flash_ops) \<Rightarrow> u32 \<Rightarrow> string \<Rightarrow> 'x fdsys
    \<Rightarrow> (u32 option \<times> 'x fdsys) option" where
  "alt_flash_open_dev fops alt_flash_dev_list name s = do {
     dev \<leftarrow> alt_find_dev name alt_flash_dev_list (dev_lists s);
     (case dev of
        None \<Rightarrow> Some (None, s)
      | Some d \<Rightarrow> (case flash_open (fops d) of None \<Rightarrow> Some (Some d, s) | Some f \<Rightarrow> f d name s))
   }"

definition alt_flash_close_dev :: "(u32 \<Rightarrow> 'x flash_ops) \<Rightarrow> u32 option \<Rightarrow> 'x fdsys \<Rightarrow> 'x fdsys option" where
  "alt_flash_close_dev fops fd s =
    (case fd of
       None \<Rightarrow> Some s
     | Some d \<Rightarrow> (case flash_close (fops d) of None \<Rightarrow> Some s | Some f \<Rightarrow> f d s))"

subsection \<open>The time stamp\<close>

record ts_sys = clk +
  altera_avalon_timer_ts_base :: u32
  altera_avalon_timer_ts_freq :: u32

text \<open>What the build says of a timer.\<close>

record timer_name =
  tm_base :: u32
  tm_irq :: u32
  tm_irq_controller :: u32
  tm_freq :: u32
  tm_period :: u32
  tm_units :: string
  tm_snapshot :: bool

definition ALTERA_AVALON_TIMER_FREQ :: "u32 \<Rightarrow> u32 \<Rightarrow> string \<Rightarrow> u32" where
  "ALTERA_AVALON_TIMER_FREQ freq period units =
    (if units = ''us'' then (1000000 + (period - 1)) div period
     else if units = ''ms'' then (1000 + (period - 1)) div period
     else if units = ''s'' then 1
     else (freq + (period - 1)) div period)"

text \<open>The branches that only produce an error of the linker leave no program, hence \<open>None\<close>.\<close>

definition ALTERA_AVALON_TIMER_INIT ::
  "u32 \<Rightarrow> u32 \<Rightarrow> timer_name \<Rightarrow> 'a ts_sys_scheme \<Rightarrow> 'a ts_sys_scheme option" where
  "ALTERA_AVALON_TIMER_INIT ALT_SYS_CLK_BASE ALT_TIMESTAMP_CLK_BASE t s =
    (if tm_base t = ALT_SYS_CLK_BASE then
       (if tm_irq t = -1 then None
        else alt_avalon_timer_sc_init (tm_base t) (tm_irq_controller t) (tm_irq t)
               (ALTERA_AVALON_TIMER_FREQ (tm_freq t) (tm_period t) (tm_units t)) s)
     else if tm_base t = ALT_TIMESTAMP_CLK_BASE then
       (if tm_snapshot t
        then Some (s\<lparr>altera_avalon_timer_ts_base := tm_base t, altera_avalon_timer_ts_freq := tm_freq t\<rparr>)
        else None)
     else Some s)"

text \<open>The timer has a counter of 32 bits (\<open>ALT_TIMESTAMP_COUNTER_SIZE\<close>).\<close>

definition alt_timestamp_start :: "'a ts_sys_scheme \<Rightarrow> int \<times> 'a ts_sys_scheme" where
  "alt_timestamp_start s =
    (let base = altera_avalon_timer_ts_base s in
     if altera_avalon_timer_ts_freq s = 0 then (-1, s)
     else
       (let s = iowr base 1 0x8 s;
            s = iowr base 2 0xFFFF s;
            s = iowr base 3 0xFFFF s;
            s = iowr base 1 0x4 s
        in (0, s)))"

definition alt_timestamp :: "'a ts_sys_scheme \<Rightarrow> u32 \<times> 'a ts_sys_scheme" where
  "alt_timestamp s =
    (let base = altera_avalon_timer_ts_base s in
     if altera_avalon_timer_ts_freq s = 0 then (0xFFFFFFFF, s)
     else
       (let s = iowr base 4 0 s;
            (snapl, s) = iord base 4 s;
            lower = snapl AND 0xFFFF;
            (snaph, s) = iord base 5 s;
            upper = snaph AND 0xFFFF
        in (0xFFFFFFFF - (push_bit 16 upper OR lower), s)))"

definition alt_timestamp_freq :: "'a ts_sys_scheme \<Rightarrow> u32" where
  "alt_timestamp_freq s = altera_avalon_timer_ts_freq s"

subsection \<open>Exceptions\<close>

text \<open>The processor has no registers for the cause and the bad address, and has a debugger:
  without a handler the code executes a break instruction, and goes on when the debugger does.\<close>

record 'h exc_sys = bus +
  alt_instruction_exception_handler :: "'h option"
  break_instructions :: nat

definition NIOS2_EXCEPTION_CAUSE_NOT_PRESENT :: u32 where "NIOS2_EXCEPTION_CAUSE_NOT_PRESENT = -1"

definition alt_instruction_exception_register ::
  "'h option \<Rightarrow> ('h, 'a) exc_sys_scheme \<Rightarrow> ('h, 'a) exc_sys_scheme" where
  "alt_instruction_exception_register exception_handler s =
    s\<lparr>alt_instruction_exception_handler := exception_handler\<rparr>"

definition alt_instruction_exception_entry ::
  "('h \<Rightarrow> u32 \<Rightarrow> u32 \<Rightarrow> u32 \<Rightarrow> ('h, 'a) exc_sys_scheme \<Rightarrow> (u32 \<times> ('h, 'a) exc_sys_scheme) option)
    \<Rightarrow> u32 \<Rightarrow> ('h, 'a) exc_sys_scheme \<Rightarrow> (u32 \<times> ('h, 'a) exc_sys_scheme) option" where
  "alt_instruction_exception_entry run exception_pc s =
    (let cause = NIOS2_EXCEPTION_CAUSE_NOT_PRESENT; badaddr = 0 in
     case alt_instruction_exception_handler s of
       Some h \<Rightarrow> run h cause exception_pc badaddr s
     | None \<Rightarrow> Some (0, s\<lparr>break_instructions := break_instructions s + 1\<rparr>))"

definition alt_exception_cause_generated_bad_addr :: "int \<Rightarrow> int" where
  "alt_exception_cause_generated_bad_addr cause =
    (if cause \<in> {11, 6, 7, 14, 15, 17, 21} then 1 else 0)"
subsection \<open>Lemmas\<close>

lemma exit_never_returns: "alt_exit exit_code s = None"
proof -
  have "fst ((\<lambda>s. (True, s)) (poll_state (\<lambda>s. (True, s)) n s))" for n by simp
  then have "\<not> (\<exists>t. spin (\<lambda>s. (True, s)) s = Some t)" unfolding spin_terminates_iff by blast
  then show ?thesis by (auto simp: alt_exit_def)
qed

definition ends_program :: "signal \<Rightarrow> bool" where
  "ends_program sig \<longleftrightarrow> sig \<notin> {Null_signal, SIGCHLD, SIGURG} \<and> (\<forall>n. sig \<noteq> Other_signal n)"

text \<open>Sending a signal: never back for the signals that end a process, 0 for the ones that are
  ignored, and an error for an unknown signal or another process.\<close>

theorem kill_result:
  "alt_kill pid sig s =
    (if 0 < pid then Some (-1, s\<lparr>fd_errno := Some ESRCH\<rparr>)
     else if ends_program sig then None
     else if \<exists>n. sig = Other_signal n then Some (-1, s\<lparr>fd_errno := Some EINVAL\<rparr>)
     else Some (0, s))"
  by (cases sig) (auto simp: alt_kill_def ends_program_def exit_never_returns fails_def)

text \<open>\<open>stat\<close> of a device answers what \<open>fstat\<close> does and leaves the pool as it was.\<close>

theorem stat_device:
  assumes "pool_ok s" "alt_find_dev file (alt_dev_list s) (dev_lists s) = Some (Some dev)"
    and "dev_open (ops dev) = None" "dev_close (ops dev) = None" "dev_fstat (ops dev) = None"
    and "alt_open ops file 0 mode s = Some (fd, s1)" "0 \<le> fd"
  shows "\<exists>s'. alt_stat ops mode file s = Some (0, Some IFCHR, s') \<and> alt_fd_list s' = alt_fd_list s \<and> pool_ok s'"
proof -
  note o = open_close_restores[OF assms(1-4,6,7)]
  obtain s2 where s2: "alt_close ops fd s1 = Some (0, s2)" "alt_fd_list s2 = alt_fd_list s" "pool_ok s2"
    using o by blast
  have "nat fd < length (alt_fd_list s1)"
  proof (rule ccontr)
    assume "\<not> nat fd < length (alt_fd_list s1)"
    with assms(7) s2(1) show False by (simp add: alt_close_def fd_ref_def)
  qed
  then have "alt_fstat ops fd s1 = Some (0, Some IFCHR, s1)"
    using o assms(5,7) by (simp add: alt_fstat_def fd_ref_def)
  with assms(6) s2 show ?thesis by (simp add: alt_stat_def)
qed

text \<open>For a name that no device or file system has, the error that \<open>open\<close> stored is replaced by
  the one of \<open>close\<close> on descriptor -1.\<close>

theorem stat_unknown:
  assumes "alt_find_dev file (alt_dev_list s) (dev_lists s) = Some None"
    and "alt_find_file (alt_fs_list s) file (dev_lists s) = Some None"
  shows "\<exists>s'. alt_stat ops mode file s = Some (-1, None, s') \<and> fd_errno s' = Some EBADFD"
  using assms by (simp add: alt_stat_def alt_open_def alt_release_fd_def fails_def alt_fstat_def fd_ref_def alt_close_def)

text \<open>A channel is found under its name; a missing one is reported.\<close>

lemma chan_open_found:
  assumes "dlist (dev_lists s) l ds" "\<forall>p\<in>set ds. dev_name (dev_lists s) p \<noteq> None"
  shows "chan_open l name s = (case find (\<lambda>p. dev_name (dev_lists s) p = Some name) ds of
      None \<Rightarrow> Some (None, s\<lparr>fd_errno := Some ENODEV\<rparr>) | Some p \<Rightarrow> Some (Some p, s))"
  using find_dev_list[OF assms, of name] by (simp add: chan_open_def split: option.split)

text \<open>The time stamp counts up from 0 while the counter, started at all ones, counts down.\<close>

theorem timestamp_elapsed:
  assumes "altera_avalon_timer_ts_freq s \<noteq> 0"
    and "\<And>es. hw s es (altera_avalon_timer_ts_base s + 16) AND 0xFFFF = ucast (lo :: u16)"
    and "\<And>es. hw s es (altera_avalon_timer_ts_base s + 20) AND 0xFFFF = ucast (hi :: u16)"
    and "unat elapsed + (65536 * unat hi + unat lo) = 2 ^ 32 - 1"
  shows "fst (alt_timestamp s) = elapsed"
proof -
  have "push_bit 16 (ucast hi) OR ucast lo = (push_bit 16 (ucast hi) + ucast lo :: u32)"
    by (rule disjunctive_add[symmetric])
      (auto simp: bit_push_bit_iff bit_ucast_iff dest: bit_imp_le_length)
  moreover have "(push_bit 16 (ucast hi) + ucast lo :: u32) = of_nat (65536 * unat hi + unat lo)"
    by (simp add: push_bit_eq_mult)
  moreover have "0xFFFFFFFF - of_nat (65536 * unat hi + unat lo) = elapsed"
  proof -
    have "(of_nat (unat elapsed + (65536 * unat hi + unat lo)) :: u32) = of_nat 4294967295"
      using assms(4) by (simp del: of_nat_add of_nat_mult of_nat_numeral)
    then have "elapsed + of_nat (65536 * unat hi + unat lo) = 0xFFFFFFFF"
      by (subst (asm) of_nat_add) simp
    then show ?thesis by (metis add_diff_cancel_right')
  qed
  moreover have "fst (alt_timestamp s) = 0xFFFFFFFF - (push_bit 16 (ucast hi) OR ucast lo)"
  proof -
    let ?b = "altera_avalon_timer_ts_base s" and ?s0 = "iowr (altera_avalon_timer_ts_base s) 4 0 s"
    obtain l s1 where 1: "iord ?b 4 ?s0 = (l, s1)" by fastforce
    obtain h s2 where 2: "iord ?b 5 s1 = (h, s2)" by fastforce
    have "l AND 0xFFFF = ucast lo"
      using iord_quiet[OF 1] assms(2) by simp
    moreover have "hw s1 = hw s" using iord_quiet[OF 1] by (auto simp: quiet_def)
    then have "h AND 0xFFFF = ucast hi"
      using iord_quiet[OF 2] assms(3) by simp
    then have "push_bit 16 (h AND 0xFFFF) = push_bit 16 (ucast hi)" by (simp only:)
    ultimately show ?thesis using 1 2 assms(1) by (simp add: alt_timestamp_def Let_def)
  qed
  ultimately show ?thesis by (simp only:)
qed

text \<open>This system names the same timer as system clock and as time stamp: the start-up makes it
  the clock only, and the time stamp functions answer that there is no time stamp.\<close>

definition TIMER_0 :: timer_name where
  "TIMER_0 = \<lparr>tm_base = 0x212480, tm_irq = 2, tm_irq_controller = 0, tm_freq = 100000000,
     tm_period = 30, tm_units = ''us'', tm_snapshot = True\<rparr>"

theorem timestamp_unavailable:
  assumes "ALTERA_AVALON_TIMER_INIT 0x212480 0x212480 TIMER_0 s = Some s'"
    and "altera_avalon_timer_ts_freq s = 0"
  shows "fst (alt_timestamp_start s') = -1 \<and> fst (alt_timestamp s') = 0xFFFFFFFF"
proof -
  have "altera_avalon_timer_ts_freq s' = altera_avalon_timer_ts_freq s"
    using assms(1)
    by (auto simp: ALTERA_AVALON_TIMER_INIT_def TIMER_0_def alt_avalon_timer_sc_init_def alt_sysclk_init_def
        alt_ic_isr_register_def alt_iic_isr_register_def set_handler_def alt_irq_disable_all_def alt_irq_enable_all_def
        alt_ic_irq_enable_def alt_irq_enable_def alt_ic_irq_disable_def alt_irq_disable_def
        iowr_def wr32_def log_ev_def Let_def split: if_splits bind_splits prod.splits)
  with assms(2) show ?thesis by (simp add: alt_timestamp_start_def alt_timestamp_def Let_def)
qed

lemma tick_frequency: "ALTERA_AVALON_TIMER_FREQ 100000000 30 ''us'' = 33334"
  by code_simp

end
