(* ===== verification/Gmon.thy ===== *)
theory Gmon
  imports Loader
begin

text \<open>
  The profiler, \<open>alt_gmon.c\<close>: the calls recorded by \<open>mcount\<close> as a list of functions, each with a
  list of callers, in blocks cut from the heap, and the histogram of the program counter filled
  by an alarm on every tick.  (It is linked into programs compiled with \<open>-pg\<close>; the search for
  an entry that exists already is assembly, \<open>alt_mcount.S\<close>, and not modelled: \<open>__mcount_record\<close>
  gets the entry it found.)  A structure is three words in memory: \<open>next\<close>, \<open>from_pc\<close> and \<open>count\<close>
  of an arc; \<open>next\<close>, \<open>self_pc\<close> and \<open>arc_head\<close> of a function.  \<open>None\<close> is a store to an address that
  is not a multiple of 4 or a bucket outside the histogram.
\<close>

unbundle bit_operations_syntax

definition PCSAMPLE_BYTES_PER_BUCKET :: u32 where "PCSAMPLE_BYTES_PER_BUCKET = 32"
definition MCOUNT_SLAB_INCREMENT :: u32 where "MCOUNT_SLAB_INCREMENT = 1020"

record gmon = heap_sys +
  pcsample_need_init :: bool
  gmem :: words
  mcount_slab_ptr :: u32
  mcount_slab_size :: u32
  s_pcsamples :: u32
  pc_buckets :: "u16 list"            \<comment> \<open>the memory \<open>s_pcsamples\<close> points to\<close>
  s_low_pc :: u32
  s_high_pc :: u32
  gmon_profile_data :: u32            \<comment> \<open>\<open>alt_gmon_data[GMON_DATA_PROFILE_DATA]\<close>\<close>
  gmon_profile_rate :: u32            \<comment> \<open>\<open>alt_gmon_data[GMON_DATA_PROFILE_RATE]\<close>\<close>

definition put_word :: "u32 \<Rightarrow> u32 \<Rightarrow> 'a gmon_scheme \<Rightarrow> 'a gmon_scheme option" where
  "put_word a v s = (if unat a mod 4 = 0 then Some (s\<lparr>gmem := (gmem s)(a := v)\<rparr>) else None)"

text \<open>\<open>mcount_slab_size\<close> is an \<open>int\<close> that is compared as unsigned.\<close>

definition mcount_allocate :: "u32 \<Rightarrow> 'a gmon_scheme \<Rightarrow> u32 \<times> 'a gmon_scheme" where
  "mcount_allocate n s =
    (let s = (if mcount_slab_size s < n then
                (let (p, s) = alt_sbrk MCOUNT_SLAB_INCREMENT s
                 in s\<lparr>mcount_slab_ptr := p, mcount_slab_size := MCOUNT_SLAB_INCREMENT\<rparr>)
              else s);
         data = mcount_slab_ptr s
     in (data, s\<lparr>mcount_slab_ptr := mcount_slab_ptr s + n, mcount_slab_size := mcount_slab_size s - n\<rparr>))"

text \<open>The alarm object is at \<open>alarm\<close>.  A failed \<open>sbrk\<close> answers -1, which is not the 0 that is
  tested, and clearing the histogram writes outside memory.\<close>

definition nios2_pcsample_init :: "u32 \<Rightarrow> 'a gmon_scheme \<Rightarrow> (bool \<times> 'a gmon_scheme) option" where
  "nios2_pcsample_init alarm s =
    (let prof_rate = alt_ticks_per_second s in
     if prof_rate = 0 then Some (True, s)
     else
       (let pcsamples_size = (s_high_pc s - s_low_pc s) div PCSAMPLE_BYTES_PER_BUCKET;
            (p, s) = alt_sbrk (pcsamples_size * 2) s;
            s = s\<lparr>s_pcsamples := p\<rparr>
        in if p = 0 then Some (False, s)
           else if p = -1 \<and> 0 < pcsamples_size then None
           else
             (let s = s\<lparr>pc_buckets := replicate (unat pcsamples_size) 0\<rparr>;
                  s = s\<lparr>gmon_profile_data := p\<rparr>;
                  s = s\<lparr>gmon_profile_rate := prof_rate\<rparr>;
                  (_, s) = alt_alarm_start (Some alarm) 1 (Some Nios2_pcsample) 0 s
              in Some (False, s))))"

text \<open>A new record at \<open>a\<close>, with \<open>v\<close> and \<open>w\<close> in its second and third word, at the front of the list
  whose head is at \<open>d\<close>.\<close>

definition link_record :: "u32 \<Rightarrow> u32 \<Rightarrow> u32 \<Rightarrow> u32 \<Rightarrow> 'a gmon_scheme \<Rightarrow> 'a gmon_scheme option" where
  "link_record a v w d s = do {
     s \<leftarrow> put_word (a + 4) v s;
     s \<leftarrow> put_word (a + 8) w s;
     s \<leftarrow> put_word a (gmem s d) s;
     put_word d a s
   }"

definition new_fun :: "u32 \<Rightarrow> u32 \<Rightarrow> 'a gmon_scheme \<Rightarrow> (u32 \<times> 'a gmon_scheme) option" where
  "new_fun self_pc fn_head s = do {
     let (fn_entry, s) = mcount_allocate 12 s;
     s \<leftarrow> link_record fn_entry self_pc 0 fn_head s;
     Some (fn_entry, s)
   }"

definition new_arc :: "u32 \<Rightarrow> u32 \<Rightarrow> 'a gmon_scheme \<Rightarrow> 'a gmon_scheme option" where
  "new_arc from_pc fn_entry s = do {
     let (arc_entry, s) = mcount_allocate 12 s;
     link_record arc_entry from_pc 1 (fn_entry + 8) s
   }"

definition mcount_record :: "u32 \<Rightarrow> u32 \<Rightarrow> u32 \<Rightarrow> u32 \<Rightarrow> u32 \<Rightarrow> 'a gmon_scheme \<Rightarrow> 'a gmon_scheme option" where
  "mcount_record alarm self_pc from_pc fn_entry fn_head s = do {
     s \<leftarrow> (if pcsample_need_init s then do {
             (r, s) \<leftarrow> nios2_pcsample_init alarm (s\<lparr>pcsample_need_init := False\<rparr>);
             Some (s\<lparr>pcsample_need_init := r\<rparr>)
           } else Some s);
     let (context, s) = alt_irq_disable_all s;
     (fn_entry, s) \<leftarrow> (if fn_entry = 0 then new_fun self_pc fn_head s else Some (fn_entry, s));
     s \<leftarrow> new_arc from_pc fn_entry s;
     Some (alt_irq_enable_all context s)
   }"

text \<open>\<open>pc\<close> is the exception return address.\<close>

definition nios2_pcsample :: "u32 \<Rightarrow> 'a gmon_scheme \<Rightarrow> (u32 \<times> 'a gmon_scheme) option" where
  "nios2_pcsample pc s =
    (if s_low_pc s \<le> pc \<and> pc < s_high_pc s \<and> s_pcsamples s \<noteq> 0 then
       (let bucket = unat ((pc - s_low_pc s) div PCSAMPLE_BYTES_PER_BUCKET) in
        if bucket < length (pc_buckets s)
        then Some (1, s\<lparr>pc_buckets := (pc_buckets s)[bucket := pc_buckets s ! bucket + 1]\<rparr>)
        else None)
     else Some (1, s))"
subsection \<open>Memory for the records\<close>

definition alloc_ok :: "'a gmon_scheme \<Rightarrow> bool" where
  "alloc_ok s \<longleftrightarrow> heap_ok s \<and> unat (mcount_slab_ptr s) mod 4 = 0 \<and> 0 < unat (alt_heap_start s)
     \<and> (mcount_slab_size s \<noteq> 0 \<longrightarrow> alt_heap_start s \<le> mcount_slab_ptr s)
     \<and> unat (mcount_slab_ptr s) + unat (mcount_slab_size s) \<le> unat (heap_end s)"

text \<open>There is room for \<open>n\<close> bytes of records: in the slab, or in the heap for a new one.\<close>

definition room :: "nat \<Rightarrow> 'a gmon_scheme \<Rightarrow> bool" where
  "room n s \<longleftrightarrow> n \<le> unat (mcount_slab_size s)
     \<or> unat ((heap_end s + 3) AND NOT 3) + 1020 \<le> unat (alt_heap_limit s)"

lemma sbrk_granted:
  assumes ok: "heap_ok s" and n: "0 \<le> sint n" and r: "alt_sbrk n s = (p, s')"
    and room: "unat ((heap_end s + 3) AND NOT 3) + unat n \<le> unat (alt_heap_limit s)"
  shows "heap_ok s' \<and> cpu_status s' = cpu_status s \<and> unat (heap_end s) \<le> unat p \<and> 4 dvd unat p
    \<and> unat p + unat n = unat (heap_end s')
    \<and> s' = s\<lparr>cpu_status := cpu_status s', heap_end := heap_end s'\<rparr>"
proof -
  have "p \<noteq> -1" using sbrk_refused[OF ok n] room by (simp add: r)
  moreover have "s' = s\<lparr>cpu_status := cpu_status s', heap_end := heap_end s'\<rparr>"
    using r by (auto simp: alt_sbrk_def Let_def alt_irq_disable_all_def alt_irq_enable_all_def split: if_splits)
  ultimately show ?thesis using sbrk_step[OF ok n r] by simp
qed

lemma allocate_record:
  assumes ok: "alloc_ok s" and room: "room 12 s" and a: "mcount_allocate 12 s = (p, s')"
  shows "alloc_ok s' \<and> unat (mcount_slab_ptr s) \<le> unat p \<and> alt_heap_start s \<le> p \<and> unat p mod 4 = 0
    \<and> unat p + 12 = unat (mcount_slab_ptr s') \<and> gmem s' = gmem s \<and> cpu_status s' = cpu_status s
    \<and> alt_heap_start s' = alt_heap_start s \<and> unat (mcount_slab_ptr s') < 2 ^ 31
    \<and> (room 24 s \<longrightarrow> room 12 s')"
proof -
  have lim: "unat (heap_end s) \<le> unat (alt_heap_limit s)" "unat (alt_heap_limit s) < 2 ^ 31"
      "unat (alt_heap_start s) \<le> unat (heap_end s)"
    using ok by (auto simp: alloc_ok_def heap_ok_def word_le_nat_alt)
  show ?thesis
  proof (cases "mcount_slab_size s < 12")
    case False
    then have sz: "12 \<le> unat (mcount_slab_size s)" by (simp add: word_less_nat_alt not_less)
    have p: "p = mcount_slab_ptr s"
        "s' = s\<lparr>mcount_slab_ptr := mcount_slab_ptr s + 12, mcount_slab_size := mcount_slab_size s - 12\<rparr>"
      using a False by (auto simp: mcount_allocate_def Let_def)
    have e: "unat (mcount_slab_ptr s) + unat (mcount_slab_size s) \<le> unat (heap_end s)"
      using ok by (simp add: alloc_ok_def)
    have "unat (mcount_slab_ptr s + 12) = unat (mcount_slab_ptr s) + 12"
      using e sz lim by (simp add: unat_word_ariths)
    moreover have "unat (mcount_slab_size s - 12) = unat (mcount_slab_size s) - 12"
      using sz by (simp add: unat_sub_if' word_le_nat_alt)
    moreover have "mcount_slab_size s \<noteq> 0" using sz by auto
    ultimately show ?thesis
      using ok p e sz lim by (auto simp: alloc_ok_def heap_ok_def room_def word_le_nat_alt)
  next
    case True
    then have sz: "unat (mcount_slab_size s) < 12" by (simp add: word_less_nat_alt)
    with room have r: "unat ((heap_end s + 3) AND NOT 3) + unat MCOUNT_SLAB_INCREMENT \<le> unat (alt_heap_limit s)"
      by (auto simp: room_def MCOUNT_SLAB_INCREMENT_def)
    obtain q t where q: "alt_sbrk MCOUNT_SLAB_INCREMENT s = (q, t)" by fastforce
    have "0 \<le> sint MCOUNT_SLAB_INCREMENT" by (simp add: MCOUNT_SLAB_INCREMENT_def)
    note g = sbrk_granted[OF _ this q r]
    have hs: "heap_ok s" using ok by (simp add: alloc_ok_def)
    note g = g[OF hs]
    have p: "p = q" "s' = t\<lparr>mcount_slab_ptr := q + 12, mcount_slab_size := 1008\<rparr>"
      using a True q by (auto simp: mcount_allocate_def Let_def MCOUNT_SLAB_INCREMENT_def)
    have lt: "unat (heap_end t) \<le> unat (alt_heap_limit t)" "unat (alt_heap_limit t) < 2 ^ 31"
      using g by (auto simp: heap_ok_def word_le_nat_alt)
    have t: "t = s\<lparr>cpu_status := cpu_status t, heap_end := heap_end t\<rparr>" using g by blast
    have same: "gmem t = gmem s" "alt_heap_start t = alt_heap_start s" "alt_heap_limit t = alt_heap_limit s"
      using arg_cong[OF t, of gmem] arg_cong[OF t, of alt_heap_start] arg_cong[OF t, of alt_heap_limit] by simp_all
    have q20: "unat q + 1020 = unat (heap_end t)" using g by (simp add: MCOUNT_SLAB_INCREMENT_def)
    then have "unat (q + 12) = unat q + 12" using lt by (simp add: unat_word_ariths)
    then show ?thesis
      using ok g p same q20 lt lim by (auto simp: alloc_ok_def heap_ok_def room_def word_le_nat_alt mod_0_imp_dvd)
  qed
qed
subsection \<open>The lists in memory\<close>

text \<open>The arcs from \<open>p\<close> on, as address, caller and count, and the functions from \<open>p\<close> on, as
  address, function and arcs.\<close>

type_synonym arcs = "(u32 \<times> u32 \<times> u32) list"

fun arcs_at :: "words \<Rightarrow> u32 \<Rightarrow> arcs \<Rightarrow> bool" where
  "arcs_at m p [] \<longleftrightarrow> p = 0"
| "arcs_at m p ((a, f, n) # as) \<longleftrightarrow> p = a \<and> a \<noteq> 0 \<and> m (a + 4) = f \<and> m (a + 8) = n \<and> arcs_at m (m a) as"

fun funs_at :: "words \<Rightarrow> u32 \<Rightarrow> (u32 \<times> u32 \<times> arcs) list \<Rightarrow> bool" where
  "funs_at m p [] \<longleftrightarrow> p = 0"
| "funs_at m p ((e, self, as) # fs) \<longleftrightarrow>
    p = e \<and> e \<noteq> 0 \<and> m (e + 4) = self \<and> arcs_at m (m (e + 8)) as \<and> funs_at m (m e) fs"

definition block :: "u32 \<Rightarrow> u32 set" where "block a = {a, a + 4, a + 8}"

definition arc_cells :: "arcs \<Rightarrow> u32 set" where
  "arc_cells as = (\<Union>x\<in>set as. block (fst x))"

definition fun_cells :: "u32 \<times> u32 \<times> arcs \<Rightarrow> u32 set" where
  "fun_cells x = block (fst x) \<union> arc_cells (snd (snd x))"

definition cells :: "(u32 \<times> u32 \<times> arcs) list \<Rightarrow> u32 set" where
  "cells fs = (\<Union>x\<in>set fs. fun_cells x)"

lemma arcs_at_frame: "\<forall>c\<in>arc_cells as. m' c = m c \<Longrightarrow> arcs_at m' p as = arcs_at m p as"
  by (induction as arbitrary: p) (auto simp: arc_cells_def block_def)

lemma funs_at_frame: "\<forall>c\<in>cells fs. m' c = m c \<Longrightarrow> funs_at m' p fs = funs_at m p fs"
proof (induction fs arbitrary: p)
  case (Cons x fs)
  obtain e self as where x: "x = (e, self, as)" by (cases x)
  have "\<forall>c\<in>arc_cells as. m' c = m c" "\<forall>c\<in>block e. m' c = m c" "\<forall>c\<in>cells fs. m' c = m c"
    using Cons.prems by (auto simp: cells_def fun_cells_def x)
  with Cons.IH arcs_at_frame[of as m' m] show ?case by (auto simp: x block_def)
qed simp

text \<open>A function's own cells, its arcs and the other functions do not overlap.\<close>

fun separate :: "(u32 \<times> u32 \<times> arcs) list \<Rightarrow> bool" where
  "separate [] \<longleftrightarrow> True"
| "separate ((e, self, as) # fs) \<longleftrightarrow>
    block e \<inter> arc_cells as = {} \<and> fun_cells (e, self, as) \<inter> cells fs = {} \<and> separate fs"

definition add_arc :: "u32 \<Rightarrow> u32 \<Rightarrow> u32 \<Rightarrow> u32 \<times> u32 \<times> arcs \<Rightarrow> u32 \<times> u32 \<times> arcs" where
  "add_arc e a f x = (if fst x = e then (e, fst (snd x), (a, f, 1) # snd (snd x)) else x)"

text \<open>The four stores that put the arc \<open>a\<close> before those of the function at \<open>e\<close>.\<close>

definition link_arc :: "u32 \<Rightarrow> u32 \<Rightarrow> u32 \<Rightarrow> words \<Rightarrow> words" where
  "link_arc e a f m = m(a + 4 := f, a + 8 := 1, a := m (e + 8), e + 8 := a)"

definition link_fun :: "u32 \<Rightarrow> u32 \<Rightarrow> u32 \<Rightarrow> words \<Rightarrow> words" where
  "link_fun h e self m = m(e + 4 := self, e + 8 := 0, e := m h, h := e)"

lemma block_distinct: "a \<noteq> a + 4" "a \<noteq> a + 8" "a + 4 \<noteq> a + 8" "a + 8 \<noteq> (a :: u32)"
  by (auto simp: add_left_cancel)

lemma link_arc_other: "c \<notin> block a \<Longrightarrow> c \<noteq> e + 8 \<Longrightarrow> link_arc e a f m c = m c"
  by (simp add: link_arc_def block_def)

lemma not_entry: "e \<notin> fst ` set fs \<Longrightarrow> map (add_arc e a f) fs = fs"
  by (induction fs) (auto simp: add_arc_def)

lemma entry_cell: "x \<in> set fs \<Longrightarrow> fst x + 8 \<in> cells fs"
  by (auto simp: cells_def fun_cells_def block_def)

lemma link_arc_adds:
  "funs_at m p fs \<Longrightarrow> separate fs \<Longrightarrow> block a \<inter> cells fs = {} \<Longrightarrow> a \<noteq> 0 \<Longrightarrow> e \<in> fst ` set fs
    \<Longrightarrow> funs_at (link_arc e a f m) p (map (add_arc e a f) fs)"
proof (induction fs arbitrary: p)
  case (Cons x fs)
  obtain b self as where x: "x = (b, self, as)" by (cases x)
  have m: "p = b" "b \<noteq> 0" "m (b + 4) = self" "arcs_at m (m (b + 8)) as" "funs_at m (m b) fs"
    using Cons.prems(1) by (simp_all add: x)
  have sep: "block b \<inter> arc_cells as = {}" "fun_cells x \<inter> cells fs = {}" "separate fs"
    using Cons.prems(2) by (simp_all add: x)
  have cs: "cells (x # fs) = block b \<union> arc_cells as \<union> cells fs"
    by (auto simp: cells_def fun_cells_def x)
  let ?m = "link_arc e a f m"
  have out: "?m c = m c" if "c \<in> cells (x # fs)" "c \<noteq> e + 8" for c
    using that Cons.prems(3) by (intro link_arc_other) auto
  show ?case
  proof (cases "b = e")
    case True
    have hd: "?m (b + 8) = a" using True by (simp add: link_arc_def)
    have a_cells: "?m (a + 4) = f" "?m (a + 8) = 1" "?m a = m (e + 8)"
      using Cons.prems(3) True block_distinct[of a] by (auto simp: link_arc_def cs block_def)
    have "arcs_at ?m (m (e + 8)) as"
      using m(4) out sep(1) True cs
      by (subst arcs_at_frame[of as ?m m]) (auto simp: block_def)
    moreover have "?m (b + 4) = self" "?m b = m b"
      using out[of "b + 4"] out[of b] m(3) True block_distinct[of b] by (auto simp: cs block_def)
    moreover have "\<forall>c\<in>cells fs. ?m c = m c"
      using out sep(2) True cs by (auto simp: fun_cells_def x block_def)
    then have "funs_at ?m (m b) fs" using m(5) funs_at_frame by blast
    moreover have "e \<notin> fst ` set fs"
      using sep(2) True entry_cell[of _ fs] by (auto simp: fun_cells_def x block_def)
    then have "map (add_arc e a f) fs = fs" by (rule not_entry)
    moreover have "add_arc e a f x = (e, self, (a, f, 1) # as)" using True by (simp add: x add_arc_def)
    ultimately show ?thesis using m hd a_cells Cons.prems(4) True by simp
  next
    case False
    then have e: "e \<in> fst ` set fs" using Cons.prems(5) x by auto
    then have ne: "e + 8 \<in> cells fs" using entry_cell[of _ fs] by auto
    then have "e + 8 \<notin> fun_cells x" using sep(2) by auto
    then have same: "?m c = m c" if "c \<in> fun_cells x" for c
      using that out[of c] by (auto simp: cells_def)
    then have "arcs_at ?m (m (b + 8)) as"
      using m(4) by (subst arcs_at_frame[of as ?m m]) (auto simp: fun_cells_def x)
    moreover have "?m (b + 4) = self" "?m (b + 8) = m (b + 8)" "?m b = m b"
      using same m(3) by (auto simp: fun_cells_def x block_def)
    moreover have "block a \<inter> cells fs = {}" using Cons.prems(3) cs by auto
    then have "funs_at ?m (m b) (map (add_arc e a f) fs)"
      using Cons.IH[OF m(5) sep(3)] Cons.prems(4) e by blast
    moreover have "add_arc e a f x = (b, self, as)" using False by (simp add: x add_arc_def)
    ultimately show ?thesis using m by simp
  qed
qed simp

lemma link_fun_adds:
  assumes "funs_at m (m h) fs" "block e \<inter> cells fs = {}" "e \<noteq> 0" "h \<notin> block e" "h \<notin> cells fs"
  shows "funs_at (link_fun h e self m) (link_fun h e self m h) ((e, self, []) # fs)"
proof -
  have "\<forall>c\<in>cells fs. link_fun h e self m c = m c"
    using assms(2,5) by (auto simp: link_fun_def block_def)
  then have "funs_at (link_fun h e self m) (m h) fs" using assms(1) funs_at_frame by blast
  then show ?thesis
    using assms(3,4) block_distinct[of e] by (auto simp: link_fun_def block_def)
qed
text \<open>The lists of a head \<open>h\<close> outside the heap, in records that end below the slab's next.\<close>

definition recorded :: "'a gmon_scheme \<Rightarrow> u32 \<Rightarrow> (u32 \<times> u32 \<times> arcs) list \<Rightarrow> bool" where
  "recorded s h fs \<longleftrightarrow> alloc_ok s \<and> funs_at (gmem s) (gmem s h) fs \<and> separate fs
     \<and> unat h mod 4 = 0 \<and> unat h < unat (alt_heap_start s)
     \<and> (\<forall>c\<in>cells fs. unat (alt_heap_start s) \<le> unat c \<and> unat c + 4 \<le> unat (mcount_slab_ptr s) \<and> unat c mod 4 = 0)"

lemma separate_add_arc:
  assumes "separate fs" "block a \<inter> cells fs = {}"
  shows "separate (map (add_arc e a f) fs) \<and> cells (map (add_arc e a f) fs) \<subseteq> cells fs \<union> block a"
proof -
  have one: "fun_cells (add_arc e a f x) \<subseteq> fun_cells x \<union> block a" for x
    by (cases x) (auto simp: add_arc_def fun_cells_def arc_cells_def)
  then have sub: "cells (map (add_arc e a f) fs) \<subseteq> cells fs \<union> block a" for fs
    by (auto simp: cells_def) blast
  have "separate (map (add_arc e a f) fs)" using assms
  proof (induction fs)
    case (Cons x fs)
    obtain b self as where x: "x = (b, self, as)" by (cases x)
    have sep: "block b \<inter> arc_cells as = {}" "fun_cells x \<inter> cells fs = {}" "separate fs"
      and dis: "block a \<inter> block b = {}" "block a \<inter> arc_cells as = {}" "block a \<inter> cells fs = {}"
      using Cons.prems by (auto simp: x cells_def fun_cells_def)
    show ?case
    proof (cases "b = e")
      case True
      then have "e \<notin> fst ` set fs"
        using sep(2) entry_cell[of _ fs] by (auto simp: fun_cells_def x block_def)
      then have "map (add_arc e a f) fs = fs" by (rule not_entry)
      moreover have "add_arc e a f x = (e, self, (a, f, 1) # as)" using True by (simp add: x add_arc_def)
      moreover have "fun_cells (e, self, (a, f, 1) # as) = fun_cells x \<union> block a"
        using True by (auto simp: x fun_cells_def arc_cells_def)
      moreover have "arc_cells ((a, f, 1) # as) = arc_cells as \<union> block a"
        by (auto simp: arc_cells_def)
      ultimately show ?thesis using sep dis True by (auto simp: x)
    next
      case False
      then have "add_arc e a f x = (b, self, as)" by (simp add: x add_arc_def)
      moreover have "fun_cells x \<inter> cells (map (add_arc e a f) fs) = {}"
        using sub[of fs] sep(2) dis by (auto simp: fun_cells_def x)
      ultimately show ?thesis using Cons.IH[OF sep(3) dis(3)] sep(1) by (simp add: x)
    qed
  qed simp
  with sub show ?thesis by blast
qed

lemma fresh_record:
  assumes r: "recorded s h fs" and room: "room 12 s" and a: "mcount_allocate 12 s = (p, s')"
  shows "block p \<inter> cells fs = {} \<and> h \<notin> block p \<and> h \<notin> cells fs \<and> p \<noteq> 0
    \<and> unat (p + 4) = unat p + 4 \<and> unat (p + 8) = unat p + 8 \<and> recorded s' h fs
    \<and> (\<forall>c\<in>block p. unat (alt_heap_start s') \<le> unat c \<and> unat c + 4 \<le> unat (mcount_slab_ptr s') \<and> unat c mod 4 = 0)"
proof -
  have ok: "alloc_ok s" using r by (simp add: recorded_def)
  note al = allocate_record[OF ok room a]
  have p: "unat p + 12 < 2 ^ 31" using al by simp
  then have n: "unat (p + 4) = unat p + 4" "unat (p + 8) = unat p + 8" by (simp_all add: unat_word_ariths)
  have st: "unat (alt_heap_start s) \<le> unat p" "0 < unat (alt_heap_start s)"
    using al ok by (auto simp: word_le_nat_alt alloc_ok_def)
  have b: "c \<in> block p \<Longrightarrow> unat (alt_heap_start s) \<le> unat c \<and> unat (mcount_slab_ptr s) \<le> unat c
      \<and> unat c + 4 \<le> unat (mcount_slab_ptr s') \<and> unat c mod 4 = 0" for c
    using n al st by (auto simp: block_def)
  have "c \<notin> cells fs" if "c \<in> block p" for c
    using b[OF that] r by (auto simp: recorded_def)
  moreover have "h \<notin> block p" "h \<notin> cells fs" using b[of h] r by (auto simp: recorded_def)
  moreover have "p \<noteq> 0" using st by auto
  moreover have "recorded s' h fs"
    using r al by (auto simp: recorded_def)
  ultimately show ?thesis using n b al by auto
qed

lemma link_record_stores:
  assumes "unat a mod 4 = 0" "unat (a + 4) = unat a + 4" "unat (a + 8) = unat a + 8" "unat d mod 4 = 0" "d \<notin> block a"
  shows "link_record a v w d s = Some (s\<lparr>gmem := (gmem s)(a + 4 := v, a + 8 := w, a := gmem s d, d := a)\<rparr>)"
proof -
  have "(unat a + 4) mod 4 = 0" "(unat a + 8) mod 4 = 0" using assms(1) by presburger+
  then show ?thesis using assms by (simp add: link_record_def put_word_def block_def)
qed

lemma recorded_put:
  assumes r: "recorded s h fs" and f: "funs_at m (m h) fs'" and sep: "separate fs'"
    and c: "cells fs' \<subseteq> cells fs \<union> block p"
    and b: "\<forall>c\<in>block p. unat (alt_heap_start s) \<le> unat c \<and> unat c + 4 \<le> unat (mcount_slab_ptr s) \<and> unat c mod 4 = 0"
  shows "recorded (s\<lparr>gmem := m\<rparr>) h fs'"
  using r f sep c b by (auto simp: recorded_def alloc_ok_def heap_ok_def)

lemma new_fun_adds:
  assumes r: "recorded s h fs" and room: "room 12 s"
  shows "\<exists>e s'. new_fun self_pc h s = Some (e, s') \<and> recorded s' h ((e, self_pc, []) # fs)
    \<and> cpu_status s' = cpu_status s \<and> (room 24 s \<longrightarrow> room 12 s')"
proof -
  obtain e t where a: "mcount_allocate 12 s = (e, t)" by fastforce
  note f = fresh_record[OF r room a]
  have al: "cpu_status t = cpu_status s" "room 24 s \<longrightarrow> room 12 t" "unat e mod 4 = 0"
    using allocate_record[OF _ room a] r by (auto simp: recorded_def)
  have h: "unat h mod 4 = 0" "funs_at (gmem t) (gmem t h) fs" "separate fs" using f by (auto simp: recorded_def)
  let ?m = "link_fun h e self_pc (gmem t)"
  have w: "new_fun self_pc h s = Some (e, t\<lparr>gmem := ?m\<rparr>)"
    using link_record_stores[of e h self_pc 0 t] f al h
    by (simp add: new_fun_def a link_fun_def)
  have "funs_at ?m (?m h) ((e, self_pc, []) # fs)"
    using link_fun_adds[OF h(2)] f by blast
  moreover have "separate ((e, self_pc, []) # fs)"
    using f h(3) by (auto simp: fun_cells_def arc_cells_def)
  moreover have "cells ((e, self_pc, []) # fs) \<subseteq> cells fs \<union> block e"
    by (auto simp: cells_def fun_cells_def arc_cells_def)
  ultimately have "recorded (t\<lparr>gmem := ?m\<rparr>) h ((e, self_pc, []) # fs)"
    using recorded_put[of t h fs ?m _ e] f by blast
  with w al show ?thesis by (simp add: room_def)
qed

lemma new_arc_adds:
  assumes r: "recorded s h fs" and room: "room 12 s" and e: "e \<in> fst ` set fs"
  shows "\<exists>a s'. new_arc from_pc e s = Some s' \<and> recorded s' h (map (add_arc e a from_pc) fs)
    \<and> cpu_status s' = cpu_status s"
proof -
  obtain a t where a: "mcount_allocate 12 s = (a, t)" by fastforce
  note f = fresh_record[OF r room a]
  have al: "cpu_status t = cpu_status s" "unat a mod 4 = 0"
    using allocate_record[OF _ room a] r by (auto simp: recorded_def)
  have t: "funs_at (gmem t) (gmem t h) fs" "separate fs" "recorded t h fs" using f by (auto simp: recorded_def)
  have ec: "e + 8 \<in> cells fs" using e entry_cell[of _ fs] by auto
  then have ed: "unat (e + 8) mod 4 = 0" "e + 8 \<notin> block a" using t(3) f by (auto simp: recorded_def)
  let ?m = "link_arc e a from_pc (gmem t)"
  have w: "new_arc from_pc e s = Some (t\<lparr>gmem := ?m\<rparr>)"
    using link_record_stores[of a "e + 8" from_pc 1 t] f al ed
    by (simp add: new_arc_def a link_arc_def)
  have "?m h = gmem t h" using f ec by (intro link_arc_other) auto
  then have "funs_at ?m (?m h) (map (add_arc e a from_pc) fs)"
    using link_arc_adds[OF t(1,2)] f e by auto
  moreover have "separate (map (add_arc e a from_pc) fs)" "cells (map (add_arc e a from_pc) fs) \<subseteq> cells fs \<union> block a"
    using separate_add_arc[OF t(2)] f by blast+
  ultimately have "recorded (t\<lparr>gmem := ?m\<rparr>) h (map (add_arc e a from_pc) fs)"
    using recorded_put[of t h fs ?m _ a] f by blast
  with w al show ?thesis by auto
qed
lemma recorded_cpu: "recorded (s\<lparr>cpu_status := c\<rparr>) h fs = recorded s h fs" "room n (s\<lparr>cpu_status := c\<rparr>) = room n s"
  by (simp_all add: recorded_def alloc_ok_def heap_ok_def room_def)

text \<open>C40: Recording a call for which there is room returns, puts one arc with count 1 before the
  arcs of its function, or before all functions a new one with just that arc, changes no
  other record of the lists, keeps every record in a block of its own between the start of the
  heap and the end of the slab, and restores the interrupt status.\<close>

theorem mcount_record_adds:
  assumes "recorded s h fs" "room 24 s" "\<not> pcsample_need_init s" "e = 0 \<or> e \<in> fst ` set fs"
  shows "\<exists>s' fs'. mcount_record alarm self_pc from_pc e h s = Some s' \<and> recorded s' h fs'
    \<and> cpu_status s' = cpu_status s
    \<and> (if e = 0 then \<exists>b a. fs' = (b, self_pc, [(a, from_pc, 1)]) # fs
       else \<exists>a. fs' = map (add_arc e a from_pc) fs)"
proof -
  obtain c t where t: "alt_irq_disable_all s = (c, t)" "c = cpu_status s" "recorded t h fs" "room 24 t" "room 12 t"
    using assms(1,2) by (auto simp: alt_irq_disable_all_def Let_def recorded_cpu room_def)
  show ?thesis
  proof (cases "e = 0")
    case True
    obtain b u where u: "new_fun self_pc h t = Some (b, u)" "recorded u h ((b, self_pc, []) # fs)" "room 12 u"
      using new_fun_adds[OF t(3,5)] t(4) by blast
    obtain a v where v: "new_arc from_pc b u = Some v" "recorded v h (map (add_arc b a from_pc) ((b, self_pc, []) # fs))"
      using new_arc_adds[OF u(2,3), of b from_pc] by auto
    have "b \<notin> fst ` set fs"
    proof
      assume "b \<in> fst ` set fs"
      then have "b + 8 \<in> cells fs" using entry_cell[of _ fs] by auto
      with u(2) show False by (auto simp: recorded_def fun_cells_def block_def)
    qed
    then have "map (add_arc b a from_pc) ((b, self_pc, []) # fs) = (b, self_pc, [(a, from_pc, 1)]) # fs"
      by (simp add: not_entry) (simp add: add_arc_def)
    with v(2) have "recorded (alt_irq_enable_all c v) h ((b, self_pc, [(a, from_pc, 1)]) # fs)"
      by (simp add: alt_irq_enable_all_def recorded_cpu)
    moreover have "mcount_record alarm self_pc from_pc e h s = Some (alt_irq_enable_all c v)"
      using assms(3) t(1) u(1) v(1) True by (simp add: mcount_record_def)
    ultimately show ?thesis using True t(2) by (auto simp: alt_irq_enable_all_def)
  next
    case False
    then obtain a v where v: "new_arc from_pc e t = Some v" "recorded v h (map (add_arc e a from_pc) fs)"
      using new_arc_adds[OF t(3,5), of e from_pc] assms(4) by auto
    then have "recorded (alt_irq_enable_all c v) h (map (add_arc e a from_pc) fs)"
      by (simp add: alt_irq_enable_all_def recorded_cpu)
    moreover have "mcount_record alarm self_pc from_pc e h s = Some (alt_irq_enable_all c v)"
      using assms(3) t(1) v(1) False by (simp add: mcount_record_def)
    ultimately show ?thesis using False t(2) by (auto simp: alt_irq_enable_all_def)
  qed
qed

text \<open>A program that has recorded nothing yet.\<close>

definition demo_prof :: gmon where
  "demo_prof = heap_sys.extend demo_heap \<lparr>pcsample_need_init = False, gmem = \<lambda>_. 0, mcount_slab_ptr = 0,
     mcount_slab_size = 0, s_pcsamples = 0x1F0000, pc_buckets = replicate 3 0, s_low_pc = 0x208020,
     s_high_pc = 0x208090, gmon_profile_data = 0, gmon_profile_rate = 0\<rparr>"

lemma demo_prof_fields: "gmem demo_prof = (\<lambda>_. 0)" "mcount_slab_ptr demo_prof = 0" "mcount_slab_size demo_prof = 0"
  "heap_end demo_prof = 0x1F0001" "alt_heap_start demo_prof = 0x1F0001" "alt_heap_limit demo_prof = 0x210000"
  "\<not> pcsample_need_init demo_prof" "cpu_status demo_prof = 1"
  by (simp_all add: demo_prof_def demo_heap_def heap_sys.defs)

lemma demo_recorded: "recorded demo_prof 0x1000 []" "room 24 demo_prof"
  by (simp_all add: recorded_def alloc_ok_def heap_ok_def room_def demo_prof_fields cells_def)

lemma mcount_record_adds_witness:
  "\<exists>s' b a. mcount_record 0x2000 0x208100 0x208200 0 0x1000 demo_prof = Some s'
    \<and> funs_at (gmem s') (gmem s' 0x1000) [(b, 0x208100, [(a, 0x208200, 1)])]"
proof -
  obtain s' fs' where s: "mcount_record 0x2000 0x208100 0x208200 0 0x1000 demo_prof = Some s'"
      "recorded s' 0x1000 fs'" "\<exists>b a. fs' = [(b, 0x208100, [(a, 0x208200, 1)])]"
    using mcount_record_adds[OF demo_recorded demo_prof_fields(7), of 0 "0x2000" "0x208100" "0x208200"] by auto
  then have "funs_at (gmem s') (gmem s' 0x1000) fs'" by (simp add: recorded_def)
  with s show ?thesis by blast
qed

text \<open>When the heap is exhausted \<open>sbrk\<close> answers -1, nothing looks at it, and the record is stored
  at an address that is no multiple of 4.\<close>

lemma mcount_without_heap:
  "mcount_record 0x2000 0x208100 0x208200 0 0x1000 (demo_prof\<lparr>heap_end := 0x20FF00\<rparr>) = None"
  by (simp add: mcount_record_def new_fun_def mcount_allocate_def alt_sbrk_def link_record_def put_word_def
      alt_irq_disable_all_def alt_irq_enable_all_def demo_prof_fields MCOUNT_SLAB_INCREMENT_def Let_def)

subsection \<open>The histogram\<close>

text \<open>The text section is counted in buckets of 32 bytes, rounded down: when its length is not a
  multiple of 32, a sample in the last bytes is counted behind the histogram.\<close>

definition buckets_ok :: "'a gmon_scheme \<Rightarrow> bool" where
  "buckets_ok s \<longleftrightarrow> s_low_pc s \<le> s_high_pc s
     \<and> length (pc_buckets s) = (unat (s_high_pc s) - unat (s_low_pc s)) div 32 \<and> s_pcsamples s \<noteq> 0"

theorem pcsample_counts:
  assumes "buckets_ok s"
  shows "nios2_pcsample pc s =
    (if pc < s_low_pc s \<or> s_high_pc s \<le> pc then Some (1, s)
     else let i = (unat pc - unat (s_low_pc s)) div 32 in
       if 32 * (i + 1) \<le> unat (s_high_pc s) - unat (s_low_pc s)
       then Some (1, s\<lparr>pc_buckets := (pc_buckets s)[i := pc_buckets s ! i + 1]\<rparr>)
       else None)"
proof (cases "pc < s_low_pc s \<or> s_high_pc s \<le> pc")
  case True
  then show ?thesis by (auto simp: nios2_pcsample_def)
next
  case False
  define i where "i = (unat pc - unat (s_low_pc s)) div 32"
  have "unat ((pc - s_low_pc s) div PCSAMPLE_BYTES_PER_BUCKET) = i"
    using False by (simp add: i_def PCSAMPLE_BYTES_PER_BUCKET_def unat_div unat_sub_if' not_less word_le_nat_alt)
  moreover have "i < length (pc_buckets s) \<longleftrightarrow> 32 * (i + 1) \<le> unat (s_high_pc s) - unat (s_low_pc s)"
    using assms by (auto simp: buckets_ok_def)
  ultimately show ?thesis
    using False assms by (auto simp: nios2_pcsample_def buckets_ok_def Let_def i_def not_less not_le)
qed

lemma pcsample_overrun: "nios2_pcsample 0x208088 demo_prof = None"
  by (simp add: nios2_pcsample_def demo_prof_def demo_heap_def heap_sys.defs PCSAMPLE_BYTES_PER_BUCKET_def)

end
