(* ===== verification/Spec2Isabelle.thy ===== *)
theory Spec2Isabelle
  imports Handover JtagRead PhyGroups PhySpeed LogPrintf Posix Gmon
begin

text \<open>
  The FPGA TCP server, verified.

  The program (under \<open>src/tcp_webserver/software\<close>) runs without an operating system on a Nios II
  processor of an FPGA.  An Ethernet core and two scatter-gather DMA controllers carry frames; a
  receive interrupt answers ARP and speaks just enough TCP to serve one web page to one peer at a
  time; a timer interrupt counts the seconds of a connection; the main loop reads the GET request
  that the interrupt kept and sets the lights and the character display as it asks.  Below the
  program are the drivers and the hardware abstraction layer (HAL) of its board support package.

  Paths below are relative to \<open>src/tcp_webserver/software\<close>; \<open>bsp\<close> stands for
  \<open>tcp_webserver_bsp\<close>, \<open>drv\<close> for \<open>bsp/drivers/src\<close>, \<open>hal\<close> for \<open>bsp/HAL/src\<close>.

  CONVENTIONS.  The processor is a 32-bit little-endian machine: \<open>alt_u8\<close> to \<open>alt_u64\<close> are the word
  types \<open>u8\<close> to \<open>u64\<close> and wrap; an \<open>int\<close> is an \<open>int\<close> where its range is shown or checked, and a
  signed overflow is an error.  State is passed explicitly in records that extend each other:
  \<open>bus\<close> (devices and processor registers), \<open>irqs\<close> (the interrupt table), \<open>clk\<close> (alarms and clock),
  \<open>dsys\<close> (DMA controllers), \<open>net\<close> (the server), \<open>web\<close> (the application).  A device is what \<open>hw\<close>
  answers to a read, any function of the whole history \<open>trace\<close> of accesses; nothing is assumed of
  it in a definition, and a theorem that needs a well-behaved device says so, mostly by \<open>settles\<close>:
  if it is left alone it sooner or later answers as awaited.  \<open>None\<close> is a call that does not
  return or that C leaves undefined: a wait that never ends, a null pointer, an access outside an
  array, a signed overflow.  So every theorem that says \<open>= Some\<close> states that the code returns.
  Error numbers are values of \<open>errno\<close>; a C result that is 0 or minus an error number is \<open>rc\<close>.
  Function pointers are values (\<open>fn\<close>, \<open>cfg_fn\<close>, \<open>status_fn\<close>) and what calling one does is a
  parameter (\<open>run\<close>, \<open>ops\<close>, \<open>user\<close>), so that drivers and applications can be plugged in.

  THEORIES.
  \<^item> \<open>Prelude\<close>: words, the bus, memory as bytes (\<open>mem_get\<close>, \<open>mem_put\<close>, \<open>patch\<close>), polling (\<open>spin\<close>), the
    locales \<open>polling\<close> and \<open>reading_poll\<close> that every wait of the drivers interprets.
  \<^item> \<open>Irq\<close>: masking, registration and dispatch of interrupts (\<open>hal/alt_irq_handler.c\<close>, \<open>alt_iic.c\<close>,
    \<open>alt_irq_register.c\<close>, headers).  The dispatcher runs the lowest pending interrupt first and
    returns when none is pending.
  \<^item> \<open>DevList\<close>: pointer-level doubly linked lists and the device registry (\<open>sys/alt_llist.h\<close>,
    \<open>hal/alt_find_dev.c\<close>, \<open>alt_find_file.c\<close>, \<open>alt_fs_reg.c\<close>); \<open>dlist\<close> relates the pointers to a HOL list,
    the locale \<open>device_registry\<close> states what drivers rely on.
  \<^item> \<open>Sgdma\<close>: the DMA driver \<open>drv/altera_avalon_sgdma.c\<close>: descriptors as bytes in memory, transfers,
    the interrupt.  A descriptor is handed to the hardware last.
  \<^item> \<open>Packet\<close>, \<open>Checksum\<close>, \<open>TcpServer\<close>: \<open>tcp_webserver/tcp_socket.c\<close>.  \<open>Packet\<close> has the data (the page, the
    frame buffers byte by byte, the connection, \<open>tcp_state\<close>); \<open>Checksum\<close> the two Internet checksums,
    proved equal to the one's complement sum of the 16-bit words (locale \<open>checksum_routine\<close>);
    \<open>TcpServer\<close> segment building, sending, the receive interrupt \<open>rx_ethernet_isr\<close> with ARP and the
    TCP states, the timer interrupt \<open>timeout_isr\<close>, start-up.  \<open>srv_reach\<close> is the step relation of
    frames and timer ticks in any order and \<open>srv_inv\<close> its invariant; the claims give the effect of
    each kind of frame, the transitions, the timer, and safety along every history.
    A frame is sent only when the transmit controller is idle, otherwise it stays in the buffer:
    the claims about answers name the frame that is sent whenever \<open>tx_idle\<close> holds.
  \<^item> \<open>WebApp\<close>: \<open>tcp_webserver/tcp_webserver.c\<close>: start-up and one pass of the main loop.
  \<^item> \<open>Handover\<close>: handlers and main loop together.  \<open>sys_reach\<close> is the step relation of frames, timer ticks
    and passes in any order, \<open>sys_inv\<close> its invariant; the two sides share the connection only, and
    a request kept by the handler reaches the lights whatever of the closing comes in between.
  \<^item> \<open>Clock\<close>: alarms, ticks, time of day, busy waits (\<open>hal/alt_tick.c\<close>, \<open>alt_alarm_start.c\<close>, \<open>alt_gettod.c\<close>,
    \<open>alt_settod.c\<close>, \<open>alt_busy_sleep.c\<close>, \<open>drv/altera_avalon_timer_sc.c\<close>).  A tick refines the count-down of
    every alarm across the wrap-around of the tick counter.
  \<^item> \<open>Lcd\<close>: the display driver \<open>drv/altera_avalon_lcd_16207.c\<close>: a terminal of two lines of 80
    characters with escape sequences and scrolling.  \<open>panel\<close> computes what the display shows from the
    commands and data sent to it; the driver refines its lines of characters.
  \<^item> \<open>FileDesc\<close>: the descriptors and system calls of \<open>hal/alt_open.c\<close>, \<open>alt_close.c\<close>, \<open>alt_read.c\<close>,
    \<open>alt_write.c\<close>, \<open>alt_fd_lock.c\<close> and the others, over any drivers (\<open>dev_ops\<close>).
  \<^item> \<open>Ring\<close>, \<open>JtagCore\<close>, \<open>JtagUart\<close>, \<open>JtagRead\<close>: the console driver \<open>drv/altera_avalon_jtag_uart_*.c\<close> with the
    core it drives.  Between any two looks of the driver at shared variables the environment \<open>env\<close>
    may let the host take, send or fall silent and the interrupt handler run; the claims hold
    for every such interleaving.  The abstract state is a stream of bytes in each direction; the
    locale \<open>fair\<close> gives what arrives in the end.
  \<^item> \<open>Mdio\<close>, \<open>Phy\<close>, \<open>PhyGroups\<close>, \<open>PhySpeed\<close>: the Ethernet management driver \<open>drv/altera_avalon_tse.c\<close>: MAC
    commands, registers of the transceivers (PHYs), auto-negotiation, the description of the
    system, groups, and the choice of a speed.
  \<^item> \<open>Loader\<close>: sections copied to RAM, constructors, the heap (\<open>hal/alt_sbrk.c\<close>), cache flushes
    of a range and of a whole cache.
  \<^item> \<open>Printf\<close>, \<open>LogPrintf\<close>: \<open>hal/alt_printf.c\<close> and \<open>hal/alt_log_printf.c\<close>: both are proved to print the texts
    of the parts of a format, numbers being compared with the numeral \<open>numeral_text\<close>, which reads
    back as the number.
  \<^item> \<open>Posix\<close>: signals, exit, calls that only fail, \<open>stat\<close>, channels by name, the time stamp, exceptions.
  \<^item> \<open>Gmon\<close>: the profiler \<open>hal/alt_gmon.c\<close>: the lists of functions and callers in memory refine HOL lists;
    the histogram of the program counter.

  LOOPS AND BOUNDS.  A loop whose end depends on a device or on pointers in memory is a
  \<open>partial_function (option)\<close>: \<open>None\<close> means that it goes on for ever, and the theorems give the
  conditions under which it returns or show that it does not (\<open>rx_error_hangs\<close>,
  \<open>check_link_never_returns\<close>, \<open>load_section_returns\<close>).  Other loops are structural or have a proved
  measure.  The counts in the code are kept: a display wait looks \<open>LCD_POLLS\<close> (a million) times and
  the software reset of the MAC 10000 times before giving up, auto-negotiation looks \<open>threshold\<close> + 1
  times; no fuel is added to these.

  WHAT IS NOT MODELLED.  Messages on the console (\<open>tse_dprintf\<close>, \<open>printf\<close>) have no effect in the
  model.  Code that the build leaves out is not modelled: the four functions for the modular DMA
  controller in the Ethernet driver (\<open>__ALTERA_MSGDMA\<close>), direct drivers (\<open>ALT_USE_DIRECT_DRIVERS\<close>),
  semihosting (\<open>hal/alt_putcharbuf.c\<close>), the stack checks of \<open>alt_sbrk\<close>.  The locks of newlib are empty functions; \<open>alt_putchar\<close>,
  \<open>alt_getchar\<close>, \<open>alt_putstr\<close>, \<open>alt_uncached_malloc\<close> only call newlib.  Assembly (\<open>crt0.S\<close>, exception entry),
  linker scripts, generated \<open>system.h\<close> (its constants appear where they are used) and the hardware
  description are outside; of the latter the console core alone is followed, because its driver
  is verified against it.  \<open>alt_main\<close> and \<open>alt_sys_init\<close> only call the initialisations modelled here one
  after the other.  Handlers and passes of the main loop alternate, but an interrupt inside a pass
  is not followed: a pass is one step.  Interrupt handlers run to their end, as the processor masks
  interrupts in them; the console core does not move while the handler of its interrupt runs.
\<close>

end
